(* ===== verification/Gaokun_Prelude.thy ===== *)
theory Gaokun_Prelude
  imports Main "HOL-Library.Word" "HOL-Library.Signed_Division" "HOL-Library.Multiset"
begin

text \<open>
  The vocabulary every component theory shares: the C integer conversions of the kernel
  (a value of a fixed-width integer type is an \<open>int\<close> in that type's range, and a store
  into it goes through the conversion), the clamping macros, the arithmetic shift and the
  truncating division of C, and the three array idioms the touch algorithm repeats: the
  first-best scan, the selection sort by swaps, and the fixed-capacity pool that replaces
  its weakest entry.  The idioms are proved once, in the locale \<open>strict_weak\<close>.
\<close>

named_theorems width_simps \<open>conversions of values that are already in range\<close>
named_theorems width_bounds \<open>the range of a conversion's result\<close>

section \<open>C integers\<close>

text \<open>
  The kernel is built with \<open>-fno-strict-overflow\<close>: signed arithmetic wraps.  Conversion is a
  ring homomorphism modulo the width, so one conversion around a sum of products is the same
  as one around every operation.  Comparisons, shifts and divisions take converted operands.
\<close>

definition u8 :: "int \<Rightarrow> int" where "u8 x = take_bit 8 x"
definition u16 :: "int \<Rightarrow> int" where "u16 x = take_bit 16 x"
definition u32 :: "int \<Rightarrow> int" where "u32 x = take_bit 32 x"
definition s8 :: "int \<Rightarrow> int" where "s8 x = signed_take_bit 7 x"
definition s16 :: "int \<Rightarrow> int" where "s16 x = signed_take_bit 15 x"
definition s32 :: "int \<Rightarrow> int" where "s32 x = signed_take_bit 31 x"
definition s64 :: "int \<Rightarrow> int" where "s64 x = signed_take_bit 63 x"

abbreviation U8_MAX :: int where "U8_MAX \<equiv> 255"
abbreviation SHRT_MIN :: int where "SHRT_MIN \<equiv> - 32768"
abbreviation SHRT_MAX :: int where "SHRT_MAX \<equiv> 32767"
abbreviation INT_MAX :: int where "INT_MAX \<equiv> 2147483647"
abbreviation INT_MIN :: int where "INT_MIN \<equiv> - 2147483648"

lemma u8_id [width_simps]: "0 \<le> x \<Longrightarrow> x < 256 \<Longrightarrow> u8 x = x"
  by (simp add: u8_def take_bit_int_eq_self)

lemma u16_id [width_simps]: "0 \<le> x \<Longrightarrow> x < 65536 \<Longrightarrow> u16 x = x"
  by (simp add: u16_def take_bit_int_eq_self)

lemma u32_id [width_simps]: "0 \<le> x \<Longrightarrow> x < 4294967296 \<Longrightarrow> u32 x = x"
  by (simp add: u32_def take_bit_int_eq_self)

lemma s8_id [width_simps]: "- 128 \<le> x \<Longrightarrow> x < 128 \<Longrightarrow> s8 x = x"
  by (simp add: s8_def signed_take_bit_int_eq_self)

lemma s16_id [width_simps]: "- 32768 \<le> x \<Longrightarrow> x < 32768 \<Longrightarrow> s16 x = x"
  by (simp add: s16_def signed_take_bit_int_eq_self)

lemma s32_id [width_simps]: "- 2147483648 \<le> x \<Longrightarrow> x < 2147483648 \<Longrightarrow> s32 x = x"
  by (simp add: s32_def signed_take_bit_int_eq_self)

lemma s64_id [width_simps]:
  "- 9223372036854775808 \<le> x \<Longrightarrow> x < 9223372036854775808 \<Longrightarrow> s64 x = x"
  by (simp add: s64_def signed_take_bit_int_eq_self)

lemma u8_range [width_bounds]: "0 \<le> u8 x" "u8 x < 256"
  using take_bit_int_less_exp [of 8 x] by (simp_all add: u8_def)

lemma u16_range [width_bounds]: "0 \<le> u16 x" "u16 x < 65536"
  using take_bit_int_less_exp [of 16 x] by (simp_all add: u16_def)

lemma s16_range [width_bounds]: "- 32768 \<le> s16 x" "s16 x < 32768"
  using signed_take_bit_int_greater_eq_minus_exp [of 15 x]
    signed_take_bit_int_less_exp [of 15 x]
  by (simp_all add: s16_def)

lemma s32_range [width_bounds]: "- 2147483648 \<le> s32 x" "s32 x < 2147483648"
  using signed_take_bit_int_greater_eq_minus_exp [of 31 x]
    signed_take_bit_int_less_exp [of 31 x]
  by (simp_all add: s32_def)

text \<open>\<open>x >> n\<close> on a signed value is arithmetic (it rounds down); \<open>/\<close> truncates (\<open>sdiv\<close>).\<close>

definition shr :: "int \<Rightarrow> nat \<Rightarrow> int" where "shr x n = x div 2 ^ n"

definition clamp :: "int \<Rightarrow> int \<Rightarrow> int \<Rightarrow> int" where
  "clamp x lo hi = min (max x lo) hi"

lemma clamp_bounds: "lo \<le> hi \<Longrightarrow> lo \<le> clamp x lo hi \<and> clamp x lo hi \<le> hi"
  by (auto simp: clamp_def)

lemma clamp_id: "lo \<le> x \<Longrightarrow> x \<le> hi \<Longrightarrow> clamp x lo hi = x"
  by (simp add: clamp_def)

lemma clamp_abs: "0 \<le> m \<Longrightarrow> \<bar>clamp x (- m) m\<bar> \<le> m"
  by (auto simp: clamp_def)

lemma if_SomeD: "(if c then Some x else None) = Some y \<Longrightarrow> c \<and> y = x"
  by (simp split: if_splits)

lemma sdiv_nonneg: "0 \<le> a \<Longrightarrow> 0 < b \<Longrightarrow> a sdiv b = a div (b::int)"
  by (cases "a = 0") (simp_all add: signed_divide_int_def)

lemma sdiv_mult_self: "0 < b \<Longrightarrow> (b * v) sdiv b = (v::int)"
  by (simp add: signed_divide_int_def sgn_mult abs_mult sgn_mult_abs)

lemma sdiv_bounds:
  assumes n: "0 < n" and lo: "lo * n \<le> s" and hi: "s \<le> hi * n"
  shows "lo \<le> s sdiv n \<and> s sdiv n \<le> (hi::int)"
proof (cases "0 \<le> s")
  case True
  have "s sdiv n = s div n" using True n by (rule sdiv_nonneg)
  moreover have "lo \<le> s div n" using zdiv_mono1 [OF lo n] n by simp
  moreover have "s div n \<le> hi" using zdiv_mono1 [OF hi n] n by simp
  ultimately show ?thesis by simp
next
  case False
  have "s sdiv n = - ((- s) div n)" using False n by (simp add: signed_divide_int_def)
  moreover have "- s div n \<le> - lo" using zdiv_mono1 [OF _ n, of "- s" "(- lo) * n"] lo nonzero_mult_div_cancel_right [of n "- lo"] n by simp
  moreover have "- hi \<le> - s div n" using zdiv_mono1 [OF _ n, of "(- hi) * n" "- s"] hi nonzero_mult_div_cancel_right [of n "- hi"] n by simp
  ultimately show ?thesis by simp
qed

lemma sum_list_between:
  "(\<And>x. x \<in> set xs \<Longrightarrow> lo \<le> f x \<and> f x \<le> (hi::int)) \<Longrightarrow>
    lo * int (length xs) \<le> sum_list (map f xs) \<and> sum_list (map f xs) \<le> hi * int (length xs)"
  by (induction xs) (auto simp: algebra_simps add_mono)

text \<open>The truncated mean of values in an interval lies in the interval.\<close>

lemma mean_bounds:
  assumes "xs \<noteq> []" "\<And>x. x \<in> set xs \<Longrightarrow> lo \<le> f x \<and> f x \<le> (hi::int)"
  shows "lo \<le> sum_list (map f xs) sdiv int (length xs) \<and> sum_list (map f xs) sdiv int (length xs) \<le> hi"
proof -
  have b: "lo * int (length xs) \<le> sum_list (map f xs) \<and> sum_list (map f xs) \<le> hi * int (length xs)"
    using assms(2) by (rule sum_list_between)
  show ?thesis using sdiv_bounds [OF _ conjunct1 [OF b] conjunct2 [OF b]] assms(1) by simp
qed
lemma shr_mono: "a \<le> b \<Longrightarrow> shr a n \<le> shr b n"
  by (simp add: shr_def zdiv_mono1)

lemma shr_nonneg [simp]: "0 \<le> shr a n \<longleftrightarrow> 0 \<le> a"
  by (simp add: shr_def pos_imp_zdiv_nonneg_iff)

lemma shr_mult [simp]: "shr (a * 2 ^ n) n = a"
  by (simp add: shr_def)

section \<open>The array idioms\<close>

text \<open>
  \<^verbatim>\<open>best = i; for (j = i + 1; j < n; j++) if (lt(a[j], a[best])) best = j;\<close>
\<close>

definition first_best :: "('a \<Rightarrow> 'a \<Rightarrow> bool) \<Rightarrow> 'a list \<Rightarrow> nat \<Rightarrow> nat" where
  "first_best lt xs i =
     foldl (\<lambda>b j. if lt (xs ! j) (xs ! b) then j else b) i [Suc i..<length xs]"

text \<open>One outer step of the selection sort, and the sort over the used prefix.\<close>

definition sel_step :: "('a \<Rightarrow> 'a \<Rightarrow> bool) \<Rightarrow> 'a list \<Rightarrow> nat \<Rightarrow> 'a list" where
  "sel_step lt xs i =
     (let b = first_best lt xs i in if b \<noteq> i then xs[i := xs ! b, b := xs ! i] else xs)"

definition sel_sort :: "('a \<Rightarrow> 'a \<Rightarrow> bool) \<Rightarrow> 'a list \<Rightarrow> 'a list" where
  "sel_sort lt xs = foldl (sel_step lt) xs [0..<length xs - 1]"

text \<open>
  A pool of at most \<open>cap\<close> entries: below capacity the entry is appended, at capacity it
  replaces the first weakest entry if that one is weaker.
\<close>

definition pool_insert :: "('a \<Rightarrow> 'a \<Rightarrow> bool) \<Rightarrow> nat \<Rightarrow> 'a list \<Rightarrow> 'a \<Rightarrow> 'a list" where
  "pool_insert weaker cap xs x =
     (if length xs < cap then xs @ [x]
      else let w = first_best weaker xs 0 in
        if weaker (xs ! w) x then xs[w := x] else xs)"

lemma length_sel_step [simp]: "length (sel_step lt xs i) = length xs"
  by (simp add: sel_step_def Let_def)

lemma length_foldl_sel_step [simp]: "length (foldl (sel_step lt) xs is) = length xs"
  by (induction "is" arbitrary: xs) simp_all

lemma length_sel_sort [simp]: "length (sel_sort lt xs) = length xs"
  by (simp add: sel_sort_def)

lemma length_pool_insert: "length xs \<le> cap \<Longrightarrow> length (pool_insert weaker cap xs x) \<le> cap"
  by (simp add: pool_insert_def Let_def)

lemma set_pool_insert: "set (pool_insert weaker cap xs x) \<subseteq> insert x (set xs)"
  using set_update_subset_insert [of xs "first_best weaker xs 0" x]
  by (auto simp: pool_insert_def Let_def)

lemma first_best_range:
  assumes "i < length xs"
  shows "i \<le> first_best lt xs i \<and> first_best lt xs i < length xs"
proof -
  have "i \<le> foldl (\<lambda>b j. if lt (xs ! j) (xs ! b) then j else b) b js \<and>
      foldl (\<lambda>b j. if lt (xs ! j) (xs ! b) then j else b) b js < length xs"
    if "i \<le> b" "b < length xs" "\<forall>j\<in>set js. i \<le> j \<and> j < length xs" for b js
    using that by (induction js arbitrary: b) auto
  with assms show ?thesis by (auto simp: first_best_def)
qed

lemma mset_swap_idx:
  "i < length xs \<Longrightarrow> b < length xs \<Longrightarrow> mset (xs[i := xs ! b, b := xs ! i]) = mset xs"
  by (simp add: mset_swap)

lemma mset_sel_step: "i < length xs \<Longrightarrow> mset (sel_step lt xs i) = mset xs"
  using first_best_range [of i xs lt] by (simp add: sel_step_def Let_def mset_swap_idx)

lemma mset_foldl_sel_step:
  "\<forall>i\<in>set is. i < length xs \<Longrightarrow> mset (foldl (sel_step lt) xs is) = mset xs"
  by (induction "is" arbitrary: xs) (simp_all add: mset_sel_step)

lemma mset_sel_sort [simp]: "mset (sel_sort lt xs) = mset xs"
  unfolding sel_sort_def by (rule mset_foldl_sel_step) auto

lemma set_sel_sort [simp]: "set (sel_sort lt xs) = set xs"
  by (metis mset_sel_sort set_mset_mset)

lemma mset_map_sel_sort: "mset (map f (sel_sort lt xs)) = mset (map f xs)"
  by simp

text \<open>
  The contract the idioms need of the comparison: a strict weak order.  The components
  interpret it on the comparisons of the code (signal of a zone, of a peak, of a contact).
\<close>

locale strict_weak =
  fixes lt :: "'a \<Rightarrow> 'a \<Rightarrow> bool"
  assumes lt_asym: "lt x y \<Longrightarrow> \<not> lt y x"
    and nlt_trans: "\<not> lt x y \<Longrightarrow> \<not> lt y z \<Longrightarrow> \<not> lt x z"
begin

lemma nlt_refl: "\<not> lt x x"
  using lt_asym by blast

lemma lt_nlt_trans: "lt x y \<Longrightarrow> \<not> lt z y \<Longrightarrow> lt x z"
  using nlt_trans by blast

lemma first_best_least:
  assumes "i < length xs" "i \<le> m" "m < length xs"
  shows "\<not> lt (xs ! m) (xs ! first_best lt xs i)"
proof -
  let ?f = "\<lambda>b j. if lt (xs ! j) (xs ! b) then j else b"
  have "\<not> lt (xs ! k) (xs ! foldl ?f b js)" if "k = b \<or> k \<in> set js" for k b js
    using that
  proof (induction js arbitrary: b k)
    case Nil
    then show ?case by (simp add: nlt_refl)
  next
    case (Cons j js)
    have *: "\<not> lt (xs ! (?f b j)) (xs ! foldl ?f (?f b j) js)" by (rule Cons.IH) simp
    show ?case
    proof (cases "k \<in> set js")
      case True
      then show ?thesis using Cons.IH [of k "?f b j"] by simp
    next
      case False
      with Cons.prems have "k = b \<or> k = j" by auto
      then have "\<not> lt (xs ! k) (xs ! (?f b j))" by (auto simp: nlt_refl dest: lt_asym)
      then show ?thesis using nlt_trans [OF _ *] by simp
    qed
  qed
  moreover have "m = i \<or> m \<in> set [Suc i..<length xs]"
    using assms by (auto simp: Suc_le_eq)
  ultimately show ?thesis
    unfolding first_best_def by blast
qed

text \<open>After the outer steps below \<open>n\<close>, the first \<open>n\<close> entries are final.\<close>

definition settled :: "nat \<Rightarrow> 'a list \<Rightarrow> bool" where
  "settled n xs \<longleftrightarrow> (\<forall>k m. k < n \<longrightarrow> k \<le> m \<longrightarrow> m < length xs \<longrightarrow> \<not> lt (xs ! m) (xs ! k))"

lemma settled_step:
  assumes s: "settled i xs" and i: "i < length xs"
  shows "settled (Suc i) (sel_step lt xs i)"
proof -
  let ?b = "first_best lt xs i"
  let ?ys = "sel_step lt xs i"
  have b: "i \<le> ?b" "?b < length xs" using first_best_range [OF i] by auto
  have ys: "?ys ! m = (if m = i then xs ! ?b else if m = ?b then xs ! i else xs ! m)"
    if "m < length xs" for m
    using that i b by (auto simp: sel_step_def Let_def nth_list_update)
  show ?thesis
    unfolding settled_def
  proof (intro allI impI)
    fix k m
    assume km: "k < Suc i" "k \<le> m" "m < length ?ys"
    show "\<not> lt (?ys ! m) (?ys ! k)"
    proof (cases "k = i")
      case True
      obtain m' where "?ys ! m = xs ! m'" "i \<le> m'" "m' < length xs"
        using ys [of m] km True b i by (auto split: if_splits)
      then show ?thesis using first_best_least [OF i] True ys [of i] i by simp
    next
      case False
      with km have k: "k < i" by simp
      then have "k \<noteq> ?b" using b by simp
      then have "?ys ! k = xs ! k" using ys [of k] k i by simp
      moreover obtain m' where "?ys ! m = xs ! m'" "k \<le> m'" "m' < length xs"
        using ys [of m] km k b i by (auto split: if_splits)
      ultimately show ?thesis using s k by (simp add: settled_def)
    qed
  qed
qed

lemma settled_upto: "n \<le> length xs \<Longrightarrow> settled n (foldl (sel_step lt) xs [0..<n])"
proof (induction n)
  case 0
  then show ?case by (simp add: settled_def)
next
  case (Suc n)
  then show ?case using settled_step [of n "foldl (sel_step lt) xs [0..<n]"] by simp
qed

text \<open>The selection sort sorts: no entry is better than one before it.\<close>

lemma sel_sort_sorted: "sorted_wrt (\<lambda>x y. \<not> lt y x) (sel_sort lt xs)"
proof -
  have s: "settled (length xs - 1) (sel_sort lt xs)"
    unfolding sel_sort_def by (rule settled_upto) simp
  show ?thesis
    unfolding sorted_wrt_iff_nth_less
  proof (intro allI impI)
    fix i j
    assume "i < j" "j < length (sel_sort lt xs)"
    then show "\<not> lt (sel_sort lt xs ! j) (sel_sort lt xs ! i)"
      using s by (simp add: settled_def)
  qed
qed

text \<open>
  What the pool forgets is never better than what it keeps: an entry that is not in the pool
  after an insertion found it full and is not better than any member, and stays so.
\<close>

lemma pool_weakest:
  "xs \<noteq> [] \<Longrightarrow> v \<in> set xs \<Longrightarrow> \<not> lt v (xs ! first_best lt xs 0)"
  using first_best_least [of 0 xs] by (auto simp: in_set_conv_nth)

lemma pool_below:
  assumes "length xs = cap" "0 < cap" "\<forall>z\<in>set xs. \<not> lt z y" "z \<in> set (pool_insert lt cap xs x)"
  shows "\<not> lt z y"
proof -
  let ?w = "first_best lt xs 0"
  have w: "?w < length xs" using first_best_range [of 0 xs lt] assms by simp
  show ?thesis
  proof (cases "lt (xs ! ?w) x \<and> z = x")
    case True
    then have "\<not> lt x (xs ! ?w)" using lt_asym by blast
    moreover have "\<not> lt (xs ! ?w) y" using assms w by simp
    ultimately show ?thesis using nlt_trans True by blast
  next
    case False
    have "z \<in> insert x (set xs)" by (rule subsetD [OF set_pool_insert assms(4)])
    moreover have "z = x \<Longrightarrow> z \<in> set xs"
      using False assms by (auto simp: pool_insert_def Let_def)
    ultimately show ?thesis using assms by auto
  qed
qed

lemma pool_dropped:
  assumes cap: "0 < cap" "length xs \<le> cap"
    and y: "y \<in> insert x (set xs)" "y \<notin> set (pool_insert lt cap xs x)"
    and z: "z \<in> set (pool_insert lt cap xs x)"
  shows "length xs = cap" "length (pool_insert lt cap xs x) = cap" "\<not> lt z y"
proof -
  let ?w = "first_best lt xs 0"
  have ge: "\<not> length xs < cap" using y by (auto simp: pool_insert_def)
  then show len: "length xs = cap" using cap by simp
  then show "length (pool_insert lt cap xs x) = cap" by (simp add: pool_insert_def Let_def)
  have ne: "xs \<noteq> []" using len cap by auto
  have w: "?w < length xs" using first_best_range [of 0 xs lt] len cap by simp
  show "\<not> lt z y"
  proof (cases "lt (xs ! ?w) x")
    case False
    then have pool: "pool_insert lt cap xs x = xs" using ge by (simp add: pool_insert_def Let_def)
    then have "y = x" "z \<in> set xs" using y z by auto
    then show ?thesis using nlt_trans [OF pool_weakest [OF ne] False] by simp
  next
    case True
    then have pool: "pool_insert lt cap xs x = xs[?w := x]"
      using ge by (simp add: pool_insert_def Let_def)
    have "y = xs ! ?w"
    proof (rule ccontr)
      assume ny: "y \<noteq> xs ! ?w"
      have "x \<in> set (xs[?w := x])" using w by (rule set_update_memI)
      then have "y \<in> set xs" using y pool by auto
      then obtain k where k: "k < length xs" "y = xs ! k" by (auto simp only: in_set_conv_nth)
      then have "xs[?w := x] ! k = y" using ny by (cases "k = ?w") auto
      moreover have "xs[?w := x] ! k \<in> set (xs[?w := x])" using k by (intro nth_mem) simp
      ultimately show False using y pool by simp
    qed
    moreover have "\<forall>v\<in>set xs. \<not> lt v (xs ! ?w)" using pool_weakest [OF ne] by blast
    ultimately show ?thesis using pool_below [OF len cap(1) _ z] by blast
  qed
qed

end

end
