(* ===== verification/Hx_Types.thy ===== *)
theory Hx_Types
  imports Gaokun_Prelude
begin

text \<open>
  The data of the touch algorithm (\<open>hx-algo.h\<close>, \<open>hx-algo-internal.h\<close>): the grid, the
  structs as records under the source's field names (a short prefix keeps the names of
  different structs apart), the tunables grouped by the header's own sections, and the
  state \<open>hx_algo\<close>.  A pixel is its row-major index; a grid buffer is a list of \<open>HX_PIXELS\<close>
  values; an array with a separate count is the list of its used prefix.
\<close>

section \<open>The grid\<close>

abbreviation HX_ROWS :: nat where "HX_ROWS \<equiv> 40"
abbreviation HX_COLS :: nat where "HX_COLS \<equiv> 60"
abbreviation HX_PIXELS :: nat where "HX_PIXELS \<equiv> 2400"
abbreviation HX_MAX_ZONES :: nat where "HX_MAX_ZONES \<equiv> 20"
abbreviation HX_MAX_PEAKS :: nat where "HX_MAX_PEAKS \<equiv> 20"
abbreviation HX_MAX_PALM_BOXES :: nat where "HX_MAX_PALM_BOXES \<equiv> 8"
abbreviation HIMAX_MAX_TOUCH :: nat where "HIMAX_MAX_TOUCH \<equiv> 10"

type_synonym grid = "int list"

text \<open>\<open>frame[r][c]\<close> for coordinates known to be on the grid.\<close>

definition at_rc :: "grid \<Rightarrow> int \<Rightarrow> int \<Rightarrow> int" where
  "at_rc g row col = g ! nat (row * 60 + col)"

definition on_grid :: "int \<Rightarrow> int \<Rightarrow> bool" where
  "on_grid row col \<longleftrightarrow> \<not> (row < 0 \<or> row \<ge> 40 \<or> col < 0 \<or> col \<ge> 60)"

definition hx_frame_at :: "grid \<Rightarrow> int \<Rightarrow> int \<Rightarrow> int" where
  "hx_frame_at fr row col =
     (if row < 0 \<or> row \<ge> 40 \<or> col < 0 \<or> col \<ge> 60 then 0
      else let value = at_rc fr row col in if value > 0 then value else 0)"

definition row_of :: "nat \<Rightarrow> int" where "row_of idx = int (idx div 60)"
definition col_of :: "nat \<Rightarrow> int" where "col_of idx = int (idx mod 60)"

text \<open>The neighbour tables \<open>dr[]\<close>, \<open>dc[]\<close> of both flood fills, as pairs in order.\<close>

definition nbr_offsets :: "(int \<times> int) list" where
  "nbr_offsets = [(-1, -1), (-1, 0), (-1, 1), (0, -1), (0, 1), (1, -1), (1, 0), (1, 1)]"

text \<open>The eight neighbours as a relation on pixels.\<close>

definition adj8 :: "nat \<Rightarrow> nat \<Rightarrow> bool" where
  "adj8 i j \<longleftrightarrow> i \<noteq> j \<and> \<bar>row_of i - row_of j\<bar> \<le> 1 \<and> \<bar>col_of i - col_of j\<bar> \<le> 1"

section \<open>Structs\<close>

record hx_peak =
  pk_r :: int
  pk_c :: int
  pk_z :: int
  pk_nbr_sum :: int
  pk_zone_area :: int
  pk_zone_index :: nat
  pk_id :: int
  pk_age :: int
  pk_vr :: int
  pk_vc :: int
  pk_on_edge :: bool
  pk_fast_start_candidate :: bool
  pk_continuation_only :: bool
  pk_continuation_track_slot :: int

record hx_contact =
  ct_x :: int
  ct_y :: int
  ct_area :: int
  ct_signal_sum :: int
  ct_is_edge :: bool
  ct_fast_start_candidate :: bool
  ct_peak_index :: nat
  ct_source_peak_id :: int
  ct_source_peak_age :: int
  ct_source_zone_index :: nat
  ct_continuation_only :: bool
  ct_continuation_track_slot :: int

record hx_track =
  trk_active :: bool
  trk_reported :: bool
  trk_x :: int
  trk_y :: int
  trk_vx :: int
  trk_vy :: int
  trk_signal_sum :: int
  trk_age :: int
  trk_missed :: int
  trk_debounce :: int
  trk_source_peak_id :: int
  trk_source_peak_age :: int
  trk_filtered_x_q8 :: int
  trk_filtered_y_q8 :: int
  trk_deriv_x_q8 :: int
  trk_deriv_y_q8 :: int

record hx_peak_competition =
  pc_peak_id :: int
  pc_age :: int
  pc_seen :: bool
  pc_handoff_residual :: bool

record hx_macro_zone =
  z_arena_start :: nat
  z_area :: int
  z_signal_sum :: int
  z_min_r :: int
  z_max_r :: int
  z_min_c :: int
  z_max_c :: int

record hx_palm_box =
  box_min_r :: int
  box_max_r :: int
  box_min_c :: int
  box_max_c :: int
  box_missed :: int

text \<open>\<open>struct input_mt_pos\<close> of the input core: a pair of coordinates.\<close>

record input_mt_pos =
  pos_x :: int
  pos_y :: int

datatype hx_finger_state = HX_FINGER_UNKNOWN | HX_FINGER_ABSENT | HX_FINGER_PRESENT

datatype hx_wake_quality_result =
    HX_WAKE_QUALITY_REJECTED
  | HX_WAKE_QUALITY_PENDING
  | HX_WAKE_QUALITY_READY
  | HX_WAKE_QUALITY_USING_SAFE
  | HX_WAKE_QUALITY_PROTECTED

section \<open>Tunables\<close>

record hx_pre_params =
  baseline_enabled :: bool
  baseline_initial :: int
  baseline_noise_deadband :: int
  baseline_positive_deadband :: int
  baseline_negative_deadband :: int
  baseline_peak_threshold :: int
  baseline_release_hold_frames :: int
  baseline_positive_alpha_shift :: int
  baseline_negative_alpha_shift :: int
  baseline_noise_alpha_shift :: int
  baseline_positive_max_step :: int
  baseline_negative_max_step :: int
  baseline_background_alpha_shift :: int
  baseline_no_finger_alpha_shift :: int
  baseline_recovery_alpha_shift :: int
  baseline_background_max_step :: int
  baseline_no_finger_max_step :: int
  baseline_recovery_max_step :: int
  baseline_recovery_max_frames :: int
  baseline_noise_tracking :: bool
  wake_stable_frames :: int
  wake_finger_safe_frames :: int
  wake_raw_jump_threshold :: int
  wake_max_unstable_nodes :: int
  wake_max_unstable_line_nodes :: int
  safe_commit_no_finger_frames :: int
  runtime_noise_threshold :: int
  runtime_noise_line_nodes :: int
  runtime_noise_total_nodes :: int
  cmf_enabled :: bool
  cmf_exclusion :: int
  cmf_max_correction :: int
  iir_enabled :: bool
  iir_decay_weight :: int
  iir_decay_step :: int
  iir_noise_floor :: int
  iir_gate_floor :: int
  iir_gate_ratio_q8 :: int

record hx_det_params =
  macro_threshold :: int
  peak_threshold :: int
  peak_local_radius :: int
  peak_z8_enabled :: bool
  peak_saddle_enabled :: bool
  peak_saddle_radius :: int
  peak_saddle_drop :: int
  peak_signal_threshold_limit :: int
  peak_edge_threshold :: int
  peak_macro_min_area :: int
  peak_continue_min_area :: int
  peak_continue_min_signal :: int
  peak_single_track_continue_min_signal :: int
  peak_continue_dist2 :: int
  peak_fast_start_min_signal :: int
  peak_fast_start_edge_cells :: int
  palm_enabled :: bool
  palm_area_threshold :: int
  palm_signal_threshold :: int
  palm_density_low :: int
  palm_box_enabled :: bool
  palm_box_expand_rows :: int
  palm_box_expand_cols :: int
  palm_box_match_distance :: int
  palm_box_max_hold :: int
  zone_cleanup_enabled :: bool
  zone_max_radius :: int
  zone_threshold_numer :: int
  zone_threshold_shift :: int
  pressure_enabled :: bool
  edge_comp_enabled :: bool
  edge_boost_pct :: int
  edge_push_q8 :: int
  edge_blend_q8 :: int
  edge_reject_enabled :: bool
  edge_reject_margin :: int
  edge_reject_min_signal :: int

record hx_trk_params =
  track_dist2_max :: int
  track_lost_frames :: int
  debounce_base :: int
  track_smoothing :: bool
  track_active_guard :: bool
  track_start_debounce :: int
  track_jump_dist2 :: int
  hungarian_enabled :: bool
  debounce_weak_extra :: int
  debounce_edge_extra :: int
  debounce_strong_signal :: int
  firmware_edge_fast_start :: bool
  split_peak_confirm_frames :: int
  split_peak_dist2 :: int
  split_cross_zone_confirm_frames :: int
  split_cross_zone_dist2 :: int
  track_peak_id_penalty :: int
  ghost_enabled :: bool
  ghost_row_distance :: int
  ghost_weak_ratio_q8 :: int
  ghost_min_col_distance :: int
  euro_enabled :: bool
  euro_alpha_min_q8 :: int
  euro_alpha_max_q8 :: int
  euro_speed_threshold :: int

section \<open>The algorithm state\<close>

record hx_algo =
  frame :: grid
  iir_history :: grid
  iir_initialized :: bool
  zone_arena :: "nat list"
  zones :: "hx_macro_zone list"
  peaks :: "hx_peak list"
  prev_peaks :: "hx_peak list"
  next_peak_id :: int
  peak_competition :: "hx_peak_competition list"
  contacts :: "hx_contact list"
  baseline_q8 :: grid
  safe_baseline_q8 :: grid
  wake_candidate_q8 :: grid
  baseline_release_hold :: grid
  baseline_initialized :: bool
  safe_baseline_valid :: bool
  wake_qualifying :: bool
  wake_candidate_valid :: bool
  wake_needs_double_confirm :: bool
  wake_candidate_frames :: int
  wake_finger_frames :: int
  safe_no_finger_frames :: int
  baseline_prev_had_signal :: bool
  baseline_had_freeze :: bool
  baseline_recovery_frames :: int
  palm_boxes :: "hx_palm_box list"
  tracks :: "hx_track list"
  touch_active :: bool
  touch_start_frames :: int
  firmware_finger_present :: bool
  fast_edge_start_pending :: bool
  pre :: hx_pre_params
  det :: hx_det_params
  trk :: hx_trk_params

text \<open>A zeroed struct (\<open>memset(..., 0, ...)\<close>) of each kind that the code clears.\<close>

definition zero_track :: hx_track where
  "zero_track = \<lparr>trk_active = False, trk_reported = False, trk_x = 0, trk_y = 0, trk_vx = 0,
     trk_vy = 0, trk_signal_sum = 0, trk_age = 0, trk_missed = 0, trk_debounce = 0,
     trk_source_peak_id = 0, trk_source_peak_age = 0, trk_filtered_x_q8 = 0,
     trk_filtered_y_q8 = 0, trk_deriv_x_q8 = 0, trk_deriv_y_q8 = 0\<rparr>"

definition zero_competition :: hx_peak_competition where
  "zero_competition = \<lparr>pc_peak_id = 0, pc_age = 0, pc_seen = False, pc_handoff_residual = False\<rparr>"

definition zero_grid :: grid where
  "zero_grid = replicate HX_PIXELS 0"

lemma length_zero_grid [simp]: "length zero_grid = HX_PIXELS"
  by (simp add: zero_grid_def)

lemma nth_zero_grid [simp]: "i < HX_PIXELS \<Longrightarrow> zero_grid ! i = 0"
  by (simp add: zero_grid_def)

lemma zero_track_simps [simp]:
  "trk_active zero_track = False" "trk_reported zero_track = False"
  "trk_debounce zero_track = 0" "trk_missed zero_track = 0" "trk_x zero_track = 0"
  "trk_y zero_track = 0" "trk_age zero_track = 0"
  by (simp_all add: zero_track_def)

text \<open>A frame buffer: a full grid of \<open>s16\<close> values.\<close>

definition frame_ok :: "grid \<Rightarrow> bool" where
  "frame_ok fr \<longleftrightarrow> length fr = HX_PIXELS \<and> (\<forall>i<HX_PIXELS. - 32768 \<le> fr ! i \<and> fr ! i \<le> 32767)"

section \<open>Facts about the grid\<close>

lemma frame_okD: "frame_ok fr \<Longrightarrow> length fr = HX_PIXELS" "frame_ok fr \<Longrightarrow> i < HX_PIXELS \<Longrightarrow> - 32768 \<le> fr ! i"
  "frame_ok fr \<Longrightarrow> i < HX_PIXELS \<Longrightarrow> fr ! i \<le> 32767"
  by (simp_all add: frame_ok_def)

lemma frame_ok_map:
  "(\<And>i. i < HX_PIXELS \<Longrightarrow> SHRT_MIN \<le> f i \<and> f i \<le> SHRT_MAX) \<Longrightarrow> frame_ok (map f [0..<HX_PIXELS])"
  by (simp add: frame_ok_def)

lemma row_of_range [simp]: "0 \<le> row_of i" "i < HX_PIXELS \<Longrightarrow> row_of i < 40"
  by (auto simp: row_of_def)

lemma col_of_range [simp]: "0 \<le> col_of i" "col_of i < 60"
  by (auto simp: col_of_def)

lemma row_col_idx: "nat (row_of i * 60 + col_of i) = i"
  unfolding row_of_def col_of_def
  by (metis div_mult_mod_eq nat_int of_nat_add of_nat_mult of_nat_numeral)

lemma at_rc_row_col [simp]: "at_rc g (row_of i) (col_of i) = g ! i"
  by (simp add: at_rc_def row_col_idx)

lemma idx_row_col:
  assumes "on_grid r c"
  shows "row_of (nat (r * 60 + c)) = r" "col_of (nat (r * 60 + c)) = c"
    "nat (r * 60 + c) < HX_PIXELS"
proof -
  from assms have b: "0 \<le> r" "r < 40" "0 \<le> c" "c < 60" by (auto simp: on_grid_def)
  have n: "nat (r * 60 + c) = nat r * 60 + nat c" using b by (simp add: nat_add_distrib nat_mult_distrib)
  have c60: "nat c < 60" using b by simp
  show "row_of (nat (r * 60 + c)) = r" unfolding row_of_def n using b c60 by simp
  show "col_of (nat (r * 60 + c)) = c" unfolding col_of_def n using b c60 by simp
  show "nat (r * 60 + c) < HX_PIXELS" using b by linarith
qed

lemma on_grid_row_col [simp]: "i < HX_PIXELS \<Longrightarrow> on_grid (row_of i) (col_of i)"
  unfolding on_grid_def using row_of_range [of i] col_of_range [of i] by linarith

lemma hx_frame_at_nonneg [simp]: "0 \<le> hx_frame_at fr r c"
  by (simp add: hx_frame_at_def Let_def)

lemma hx_frame_at_off [simp]: "\<not> on_grid r c \<Longrightarrow> hx_frame_at fr r c = 0"
  by (auto simp: hx_frame_at_def on_grid_def)

lemma hx_frame_at_on: "on_grid r c \<Longrightarrow> hx_frame_at fr r c = max (at_rc fr r c) 0"
  by (auto simp: hx_frame_at_def on_grid_def Let_def max_def)

lemma hx_frame_at_idx: "i < HX_PIXELS \<Longrightarrow> hx_frame_at fr (row_of i) (col_of i) = max (fr ! i) 0"
  by (simp add: hx_frame_at_on)

lemma adj8_sym: "adj8 i j \<longleftrightarrow> adj8 j i"
  by (auto simp: adj8_def)

lemma row_col_inj: "row_of i = row_of j \<Longrightarrow> col_of i = col_of j \<Longrightarrow> i = j"
  by (metis row_col_idx)

text \<open>The offset table enumerates exactly the neighbours that are on the grid.\<close>

lemma set_nbr_offsets:
  "(a, b) \<in> set nbr_offsets \<longleftrightarrow> \<bar>a\<bar> \<le> 1 \<and> \<bar>b\<bar> \<le> 1 \<and> \<not> (a = 0 \<and> b = 0)"
proof -
  have step: "\<bar>x\<bar> \<le> 1 \<longleftrightarrow> x = -1 \<or> x = 0 \<or> x = 1" for x :: int
    by arith
  show ?thesis
    unfolding step nbr_offsets_def
    by (cases "a = -1"; cases "a = 0"; cases "a = 1"; auto)
qed

lemma adj8_offset:
  assumes i: "i < HX_PIXELS" and j: "j < HX_PIXELS"
  shows "adj8 i j \<longleftrightarrow> (row_of j - row_of i, col_of j - col_of i) \<in> set nbr_offsets"
proof -
  have "i = j \<longleftrightarrow> row_of j - row_of i = 0 \<and> col_of j - col_of i = 0"
    using row_col_inj [of i j] by auto
  moreover have "\<bar>row_of i - row_of j\<bar> = \<bar>row_of j - row_of i\<bar>"
    "\<bar>col_of i - col_of j\<bar> = \<bar>col_of j - col_of i\<bar>"
    by (rule abs_minus_commute)+
  ultimately show ?thesis
    unfolding set_nbr_offsets adj8_def by (simp, blast)
qed

text \<open>The bounding box of a set of pixels is on the grid.\<close>

lemma box_range:
  assumes "P \<noteq> {}" "P \<subseteq> {..<HX_PIXELS}"
  shows "0 \<le> Min (row_of ` P)" "Min (row_of ` P) \<le> Max (row_of ` P)" "Max (row_of ` P) < 40"
    "0 \<le> Min (col_of ` P)" "Min (col_of ` P) \<le> Max (col_of ` P)" "Max (col_of ` P) < 60"
proof -
  have fin: "finite P" using assms(2) by (rule finite_subset) simp
  have r: "Min (row_of ` P) \<in> row_of ` P" "Max (row_of ` P) \<in> row_of ` P"
    and c: "Min (col_of ` P) \<in> col_of ` P" "Max (col_of ` P) \<in> col_of ` P"
    using fin assms(1) by (simp_all add: Min_in Max_in del: image_eqI)
  show "0 \<le> Min (row_of ` P)" "0 \<le> Min (col_of ` P)"
    using r(1) c(1) by (metis imageE row_of_range(1), metis imageE col_of_range(1))
  show "Max (row_of ` P) < 40" "Max (col_of ` P) < 60"
    using r(2) c(2) assms(2) row_of_range(2) col_of_range(2) by (metis imageE lessThan_iff subsetD)+
  show "Min (row_of ` P) \<le> Max (row_of ` P)" using Min_le [OF _ r(2)] fin by simp
  show "Min (col_of ` P) \<le> Max (col_of ` P)" using Min_le [OF _ c(2)] fin by simp
qed

end
