(* ===== verification/Hx_State.thy ===== *)
theory Hx_State
  imports Hx_Types
begin

text \<open>
  Defaults and resets of the algorithm state (\<open>hx-algo.c\<close>): \<open>hx_algo_init_defaults\<close> gives every
  tunable its value, the transient reset clears what a frame leaves behind and keeps the learned
  baseline, the full reset also forgets the baselines.  The state that probe allocates is zeroed
  (\<open>devm_kzalloc\<close>) before the defaults are written; it is the concrete state of the witnesses.
\<close>

section \<open>Defaults\<close>

definition default_pre :: hx_pre_params where
  "default_pre = \<lparr>
     baseline_enabled = True,
     baseline_initial = 0x7fee,
     baseline_noise_deadband = 90,
     baseline_positive_deadband = 14,
     baseline_negative_deadband = 13,
     baseline_peak_threshold = 305,
     baseline_release_hold_frames = 60,
     baseline_positive_alpha_shift = 7,
     baseline_negative_alpha_shift = 5,
     baseline_noise_alpha_shift = 6,
     baseline_positive_max_step = 20,
     baseline_negative_max_step = 20,
     baseline_background_alpha_shift = 3,
     baseline_no_finger_alpha_shift = 3,
     baseline_recovery_alpha_shift = 2,
     baseline_background_max_step = 512,
     baseline_no_finger_max_step = 512,
     baseline_recovery_max_step = 256,
     baseline_recovery_max_frames = 30,
     baseline_noise_tracking = True,
     wake_stable_frames = 6,
     wake_finger_safe_frames = 3,
     wake_raw_jump_threshold = 160,
     wake_max_unstable_nodes = 24,
     wake_max_unstable_line_nodes = 12,
     safe_commit_no_finger_frames = 30,
     runtime_noise_threshold = 1800,
     runtime_noise_line_nodes = 20,
     runtime_noise_total_nodes = 180,
     cmf_enabled = True,
     cmf_exclusion = 2000,
     cmf_max_correction = 2000,
     iir_enabled = False,
     iir_decay_weight = 200,
     iir_decay_step = 80,
     iir_noise_floor = 5,
     iir_gate_floor = 200,
     iir_gate_ratio_q8 = 26\<rparr>"

definition default_det :: hx_det_params where
  "default_det = \<lparr>
     macro_threshold = 280,
     peak_threshold = 280,
     peak_local_radius = 1,
     peak_z8_enabled = True,
     peak_saddle_enabled = True,
     peak_saddle_radius = 2,
     peak_saddle_drop = 80,
     peak_signal_threshold_limit = 1000,
     peak_edge_threshold = 300,
     peak_macro_min_area = 3,
     peak_continue_min_area = 1,
     peak_continue_min_signal = 900,
     peak_single_track_continue_min_signal = 650,
     peak_continue_dist2 = 220 * 220,
     peak_fast_start_min_signal = 1500,
     peak_fast_start_edge_cells = 4,
     palm_enabled = True,
     palm_area_threshold = 50,
     palm_signal_threshold = 80000,
     palm_density_low = 400,
     palm_box_enabled = True,
     palm_box_expand_rows = 9,
     palm_box_expand_cols = 10,
     palm_box_match_distance = 6,
     palm_box_max_hold = 0,
     zone_cleanup_enabled = True,
     zone_max_radius = 3,
     zone_threshold_numer = 0x40,
     zone_threshold_shift = 7,
     pressure_enabled = False,
     edge_comp_enabled = True,
     edge_boost_pct = 50,
     edge_push_q8 = 128,
     edge_blend_q8 = 512,
     edge_reject_enabled = True,
     edge_reject_margin = 24,
     edge_reject_min_signal = 500\<rparr>"

definition default_trk :: hx_trk_params where
  "default_trk = \<lparr>
     track_dist2_max = 420 * 420,
     track_lost_frames = 4,
     debounce_base = 1,
     track_smoothing = True,
     track_active_guard = True,
     track_start_debounce = 1,
     track_jump_dist2 = 0,
     hungarian_enabled = True,
     debounce_weak_extra = 1,
     debounce_edge_extra = 1,
     debounce_strong_signal = 3000,
     firmware_edge_fast_start = True,
     split_peak_confirm_frames = 8,
     split_peak_dist2 = 300 * 300,
     split_cross_zone_confirm_frames = 4,
     split_cross_zone_dist2 = 180 * 180,
     track_peak_id_penalty = 40 * 40,
     ghost_enabled = True,
     ghost_row_distance = 32,
     ghost_weak_ratio_q8 = 96,
     ghost_min_col_distance = 300,
     euro_enabled = True,
     euro_alpha_min_q8 = 64,
     euro_alpha_max_q8 = 224,
     euro_speed_threshold = 24\<rparr>"

definition hx_algo_init_defaults :: "hx_algo \<Rightarrow> hx_algo" where
  "hx_algo_init_defaults algo = algo\<lparr>pre := default_pre, det := default_det, trk := default_trk\<rparr>"

section \<open>Resets\<close>

definition hx_algo_clear_transient_state :: "hx_algo \<Rightarrow> hx_algo" where
  "hx_algo_clear_transient_state algo = algo\<lparr>
     frame := zero_grid,
     peak_competition := replicate HX_MAX_PEAKS zero_competition,
     baseline_release_hold := zero_grid,
     tracks := replicate HIMAX_MAX_TOUCH zero_track,
     iir_initialized := False,
     baseline_prev_had_signal := False,
     baseline_had_freeze := baseline_initialized algo,
     baseline_recovery_frames := 0,
     zone_arena := [],
     zones := [],
     peaks := [],
     prev_peaks := [],
     next_peak_id := 1,
     contacts := [],
     palm_boxes := [],
     touch_active := False,
     touch_start_frames := 0,
     firmware_finger_present := False,
     fast_edge_start_pending := False\<rparr>"

definition hx_algo_clear_live_state :: "hx_algo \<Rightarrow> hx_algo" where
  "hx_algo_clear_live_state algo = hx_algo_clear_transient_state algo"

definition hx_algo_full_reset :: "hx_algo \<Rightarrow> hx_algo" where
  "hx_algo_full_reset algo = (hx_algo_clear_transient_state algo)\<lparr>
     baseline_q8 := zero_grid,
     safe_baseline_q8 := zero_grid,
     wake_candidate_q8 := zero_grid,
     baseline_initialized := False,
     safe_baseline_valid := False,
     wake_qualifying := False,
     wake_candidate_valid := False,
     wake_needs_double_confirm := False,
     wake_candidate_frames := 0,
     wake_finger_frames := 0,
     safe_no_finger_frames := 0,
     baseline_prev_had_signal := False,
     baseline_had_freeze := False,
     baseline_recovery_frames := 0\<rparr>"

definition hx_algo_begin_wake :: "hx_algo \<Rightarrow> hx_algo" where
  "hx_algo_begin_wake algo = (hx_algo_clear_transient_state algo)\<lparr>
     wake_qualifying := True,
     wake_candidate_valid := False,
     wake_needs_double_confirm := False,
     wake_candidate_frames := 0,
     wake_finger_frames := 0,
     safe_no_finger_frames := 0\<rparr>"

text \<open>\<open>raw\<close> is the frame's matrix after \<open>le16_to_cpup\<close>: \<open>HX_PIXELS\<close> values of \<open>u16\<close>.\<close>

definition raw_ok :: "int list \<Rightarrow> bool" where
  "raw_ok raw \<longleftrightarrow> length raw = HX_PIXELS \<and> (\<forall>i<HX_PIXELS. 0 \<le> raw ! i \<and> raw ! i < 65536)"

definition hx_copy_raw_to_baseline :: "int list \<Rightarrow> grid" where
  "hx_copy_raw_to_baseline raw = map (\<lambda>i. s32 (raw ! i * 2 ^ 8)) [0..<HX_PIXELS]"

text \<open>
  The state of a new device: the zeroed allocation of probe.  The tunables are written by
  \<open>hx_algo_init_defaults\<close> before anything reads them.
\<close>

definition zeroed_algo :: hx_algo where
  "zeroed_algo = \<lparr>frame = zero_grid, iir_history = zero_grid, iir_initialized = False,
     zone_arena = [], zones = [], peaks = [], prev_peaks = [], next_peak_id = 0,
     peak_competition = replicate HX_MAX_PEAKS zero_competition, contacts = [],
     baseline_q8 = zero_grid, safe_baseline_q8 = zero_grid, wake_candidate_q8 = zero_grid,
     baseline_release_hold = zero_grid, baseline_initialized = False,
     safe_baseline_valid = False, wake_qualifying = False, wake_candidate_valid = False,
     wake_needs_double_confirm = False, wake_candidate_frames = 0, wake_finger_frames = 0,
     safe_no_finger_frames = 0, baseline_prev_had_signal = False, baseline_had_freeze = False,
     baseline_recovery_frames = 0, palm_boxes = [],
     tracks = replicate HIMAX_MAX_TOUCH zero_track, touch_active = False,
     touch_start_frames = 0, firmware_finger_present = False, fast_edge_start_pending = False,
     pre = default_pre, det = default_det, trk = default_trk\<rparr>"

definition new_algo :: hx_algo where
  "new_algo = hx_algo_full_reset (hx_algo_init_defaults zeroed_algo)"

section \<open>Facts\<close>

lemma length_copy_raw [simp]: "length (hx_copy_raw_to_baseline raw) = HX_PIXELS"
  by (simp add: hx_copy_raw_to_baseline_def)

lemma raw_okD: "raw_ok raw \<Longrightarrow> i < HX_PIXELS \<Longrightarrow> 0 \<le> raw ! i" "raw_ok raw \<Longrightarrow> i < HX_PIXELS \<Longrightarrow> raw ! i < 65536"
  by (simp_all add: raw_ok_def)

lemma nth_copy_raw:
  "raw_ok raw \<Longrightarrow> i < HX_PIXELS \<Longrightarrow> hx_copy_raw_to_baseline raw ! i = raw ! i * 256"
  using raw_okD [of raw i] by (simp add: hx_copy_raw_to_baseline_def s32_id)

lemma raw_ok_replicate: "0 \<le> v \<Longrightarrow> v < 65536 \<Longrightarrow> raw_ok (replicate HX_PIXELS v)"
  by (simp add: raw_ok_def)

text \<open>What the transient reset keeps and what it clears.\<close>

lemma transient_keeps [simp]:
  "baseline_q8 (hx_algo_clear_transient_state a) = baseline_q8 a"
  "safe_baseline_q8 (hx_algo_clear_transient_state a) = safe_baseline_q8 a"
  "baseline_initialized (hx_algo_clear_transient_state a) = baseline_initialized a"
  "safe_baseline_valid (hx_algo_clear_transient_state a) = safe_baseline_valid a"
  "pre (hx_algo_clear_transient_state a) = pre a"
  "det (hx_algo_clear_transient_state a) = det a"
  "trk (hx_algo_clear_transient_state a) = trk a"
  by (simp_all add: hx_algo_clear_transient_state_def)

end
