(* ===== verification/Hx_Motion.thy ===== *)
theory Hx_Motion
  imports Hx_State
begin

text \<open>
  Distances and the position filter of the tracker (\<open>hx-algo-track.c\<close>): the squared distance to
  a track's predicted position, the distance to its forward motion ray, and the velocity-adaptive
  low-pass filter of an assigned track.
\<close>

section \<open>Distances\<close>

definition sq_dist :: "int \<Rightarrow> int \<Rightarrow> int" where
  "sq_dist dx dy = s64 (dx * dx + dy * dy)"

definition hx_dist2_predicted :: "input_mt_pos \<Rightarrow> hx_track \<Rightarrow> int" where
  "hx_dist2_predicted a b =
     (let frames_ahead = max 1 (trk_missed b + 1);
          pred_x = s32 (trk_x b + trk_vx b * frames_ahead);
          pred_y = s32 (trk_y b + trk_vy b * frames_ahead);
          dx = s32 (pos_x a - pred_x); dy = s32 (pos_y a - pred_y) in
      sq_dist dx dy)"

definition hx_dist2_motion_ray :: "input_mt_pos \<Rightarrow> hx_track \<Rightarrow> int" where
  "hx_dist2_motion_ray a b =
     (let best = hx_dist2_predicted a b in
      if trk_vx b = 0 \<and> trk_vy b = 0 then best
      else foldl (\<lambda>best step.
          let dx = s32 (pos_x a - s32 (trk_x b + trk_vx b * step));
              dy = s32 (pos_y a - s32 (trk_y b + trk_vy b * step)); d2 = sq_dist dx dy in
          if d2 < best then d2 else best) best [2, 3, 4])"

definition hx_reset_track :: "hx_track \<Rightarrow> hx_track" where
  "hx_reset_track trk0 = zero_track"

section \<open>The position filter\<close>

definition filter_alpha :: "hx_trk_params \<Rightarrow> int \<Rightarrow> int" where
  "filter_alpha p speed =
     (let lo = min (euro_alpha_min_q8 p) (euro_alpha_max_q8 p);
          hi = max (euro_alpha_min_q8 p) (euro_alpha_max_q8 p) in
      clamp (if euro_speed_threshold p \<noteq> 0
        then lo + s32 ((hi - lo) * min speed (euro_speed_threshold p)) sdiv euro_speed_threshold p
        else lo) 1 255)"

text \<open>\<open>v += (alpha * (target - v)) >> 8\<close>.\<close>

definition low_pass :: "int \<Rightarrow> int \<Rightarrow> int \<Rightarrow> int" where
  "low_pass alpha target v = s32 (v + shr (s32 (alpha * (target - v))) 8)"

definition hx_filter_track :: "hx_trk_params \<Rightarrow> hx_track \<Rightarrow> input_mt_pos \<Rightarrow> hx_track" where
  "hx_filter_track p t0 d =
     (let dx = s32 (pos_x d - trk_x t0); dy = s32 (pos_y d - trk_y t0);
          speed = max \<bar>dx\<bar> \<bar>dy\<bar>; t = t0\<lparr>trk_vx := dx, trk_vy := dy\<rparr> in
      if \<not> track_smoothing p \<or> \<not> euro_enabled p then
        t\<lparr>trk_x := pos_x d, trk_y := pos_y d, trk_filtered_x_q8 := s32 (pos_x d * 2 ^ 8),
          trk_filtered_y_q8 := s32 (pos_y d * 2 ^ 8)\<rparr>
      else
        let alpha = filter_alpha p speed;
            fx = low_pass alpha (s32 (pos_x d * 2 ^ 8)) (trk_filtered_x_q8 t);
            fy = low_pass alpha (s32 (pos_y d * 2 ^ 8)) (trk_filtered_y_q8 t) in
        t\<lparr>trk_deriv_x_q8 := low_pass alpha (s32 (dx * 2 ^ 8)) (trk_deriv_x_q8 t),
          trk_deriv_y_q8 := low_pass alpha (s32 (dy * 2 ^ 8)) (trk_deriv_y_q8 t),
          trk_filtered_x_q8 := fx, trk_filtered_y_q8 := fy, trk_x := shr fx 8, trk_y := shr fy 8\<rparr>)"

section \<open>Facts\<close>

lemma filter_alpha_range: "1 \<le> filter_alpha p s \<and> filter_alpha p s \<le> 255"
  unfolding filter_alpha_def Let_def by (rule clamp_bounds) simp

text \<open>A low-pass step stays between the old value and the target, and a target reached is kept.\<close>

lemma low_pass_between:
  assumes "0 \<le> alpha" "alpha \<le> 256" "\<bar>target\<bar> \<le> 2000000" "\<bar>v\<bar> \<le> 2000000"
  shows "min v target \<le> low_pass alpha target v \<and> low_pass alpha target v \<le> max v target"
proof -
  have b: "\<bar>alpha * (target - v)\<bar> \<le> 256 * 4000000"
    unfolding abs_mult using assms by (intro mult_mono) auto
  have e: "s32 (alpha * (target - v)) = alpha * (target - v)" using b by (intro s32_id) auto
  have "min 0 (target - v) \<le> shr (alpha * (target - v)) 8 \<and> shr (alpha * (target - v)) 8 \<le> max 0 (target - v)"
  proof (cases "v \<le> target")
    case True
    have "alpha * (target - v) \<le> 256 * (target - v)" using assms True by (intro mult_right_mono) auto
    then have "shr (alpha * (target - v)) 8 \<le> shr ((target - v) * 2 ^ 8) 8" by (intro shr_mono) simp
    then have "shr (alpha * (target - v)) 8 \<le> target - v" by (simp only: shr_mult)
    moreover have "0 \<le> alpha * (target - v)" using assms True by simp
    ultimately show ?thesis using True by simp
  next
    case False
    have "256 * (target - v) \<le> alpha * (target - v)" using assms False by (intro mult_right_mono_neg) auto
    then have "shr ((target - v) * 2 ^ 8) 8 \<le> shr (alpha * (target - v)) 8" by (intro shr_mono) simp
    then have "target - v \<le> shr (alpha * (target - v)) 8" by (simp only: shr_mult)
    moreover have "alpha * (target - v) \<le> 0" using assms False by (simp add: mult_nonneg_nonpos)
    then have "shr (alpha * (target - v)) 8 \<le> 0" by (simp add: shr_def div_nonpos_pos_le0)
    ultimately show ?thesis using False by simp
  qed
  moreover from this have "s32 (v + shr (alpha * (target - v)) 8) = v + shr (alpha * (target - v)) 8"
    using assms(3,4) by (intro s32_id) linarith+
  ultimately show ?thesis unfolding low_pass_def e by linarith
qed

lemma shr8_between: "lo * 256 \<le> v \<Longrightarrow> v \<le> hi * 256 \<Longrightarrow> lo \<le> shr v 8 \<and> shr v 8 \<le> hi"
  using zdiv_mono1 [of "lo * 256" v 256] zdiv_mono1 [of v "hi * 256" 256] by (simp add: shr_def)

text \<open>The track's own consistency: output inside a rectangle, and filter state above it.\<close>

definition track_inside :: "int \<Rightarrow> int \<Rightarrow> hx_track \<Rightarrow> bool" where
  "track_inside X Y t \<longleftrightarrow> 0 \<le> trk_x t \<and> trk_x t \<le> X \<and> 0 \<le> trk_y t \<and> trk_y t \<le> Y
     \<and> 0 \<le> trk_filtered_x_q8 t \<and> trk_filtered_x_q8 t \<le> X * 256
     \<and> 0 \<le> trk_filtered_y_q8 t \<and> trk_filtered_y_q8 t \<le> Y * 256"

definition pos_inside :: "int \<Rightarrow> int \<Rightarrow> input_mt_pos \<Rightarrow> bool" where
  "pos_inside X Y d \<longleftrightarrow> 0 \<le> pos_x d \<and> pos_x d \<le> X \<and> 0 \<le> pos_y d \<and> pos_y d \<le> Y"

lemma filter_axis:
  assumes "0 \<le> f" "f \<le> X * 256" "0 \<le> q" "q \<le> X" "X \<le> 7000" "1 \<le> alpha" "alpha \<le> 255"
  shows "min f (q * 256) \<le> low_pass alpha (s32 (q * 256)) f"
    "low_pass alpha (s32 (q * 256)) f \<le> max f (q * 256)"
    "0 \<le> low_pass alpha (s32 (q * 256)) f" "low_pass alpha (s32 (q * 256)) f \<le> X * 256"
proof -
  have "s32 (q * 256) = q * 256" using assms by (intro s32_id) auto
  then have "min f (q * 256) \<le> low_pass alpha (s32 (q * 256)) f
      \<and> low_pass alpha (s32 (q * 256)) f \<le> max f (q * 256)"
    using low_pass_between [of alpha "q * 256" f] assms by simp
  then show "min f (q * 256) \<le> low_pass alpha (s32 (q * 256)) f"
    "low_pass alpha (s32 (q * 256)) f \<le> max f (q * 256)"
    "0 \<le> low_pass alpha (s32 (q * 256)) f" "low_pass alpha (s32 (q * 256)) f \<le> X * 256"
    using assms by auto
qed

lemma filter_track_bounds:
  assumes "track_inside X Y t" "pos_inside X Y d" "X \<le> 7000" "Y \<le> 7000"
  shows "track_inside X Y (hx_filter_track p t d)
    \<and> min (trk_filtered_x_q8 t) (pos_x d * 256) \<le> trk_filtered_x_q8 (hx_filter_track p t d)
    \<and> trk_filtered_x_q8 (hx_filter_track p t d) \<le> max (trk_filtered_x_q8 t) (pos_x d * 256)
    \<and> min (trk_filtered_y_q8 t) (pos_y d * 256) \<le> trk_filtered_y_q8 (hx_filter_track p t d)
    \<and> trk_filtered_y_q8 (hx_filter_track p t d) \<le> max (trk_filtered_y_q8 t) (pos_y d * 256)
    \<and> (\<not> track_smoothing p \<longrightarrow> trk_x (hx_filter_track p t d) = pos_x d
        \<and> trk_y (hx_filter_track p t d) = pos_y d)"
proof (cases "\<not> track_smoothing p \<or> \<not> euro_enabled p")
  case True
  have "s32 (pos_x d * 256) = pos_x d * 256" "s32 (pos_y d * 256) = pos_y d * 256"
    using assms by (auto simp: pos_inside_def intro!: s32_id)
  then show ?thesis
    using True assms by (auto simp: hx_filter_track_def Let_def track_inside_def pos_inside_def)
next
  case False
  define al where "al = filter_alpha p (max \<bar>s32 (pos_x d - trk_x t)\<bar> \<bar>s32 (pos_y d - trk_y t)\<bar>)"
  have al: "1 \<le> al" "al \<le> 255" using filter_alpha_range by (auto simp: al_def)
  note x = filter_axis [of "trk_filtered_x_q8 t" X "pos_x d" al]
  note y = filter_axis [of "trk_filtered_y_q8 t" Y "pos_y d" al]
  note tp = assms(1) [unfolded track_inside_def] assms(2) [unfolded pos_inside_def] assms(3,4) al
  have f: "trk_filtered_x_q8 (hx_filter_track p t d) = low_pass al (s32 (pos_x d * 256)) (trk_filtered_x_q8 t)"
    "trk_filtered_y_q8 (hx_filter_track p t d) = low_pass al (s32 (pos_y d * 256)) (trk_filtered_y_q8 t)"
    "trk_x (hx_filter_track p t d) = shr (low_pass al (s32 (pos_x d * 256)) (trk_filtered_x_q8 t)) 8"
    "trk_y (hx_filter_track p t d) = shr (low_pass al (s32 (pos_y d * 256)) (trk_filtered_y_q8 t)) 8"
    using False by (simp_all add: hx_filter_track_def Let_def al_def)
  show ?thesis
    unfolding track_inside_def f using x y tp False shr8_between [of 0 _ X] shr8_between [of 0 _ Y]
    by simp
qed

section \<open>Properties\<close>

text \<open>The position filter never overshoots: inside a panel of at most 7000 output units the filtered
  position of each axis moves towards the detection and stays between the previous value and the
  detection, the reported position stays on the panel, and with smoothing off it is the detection.\<close>

theorem filter_never_overshoots:
  assumes "track_inside X Y t" "pos_inside X Y d" "X \<le> 7000" "Y \<le> 7000"
  shows "track_inside X Y (hx_filter_track p t d)
    \<and> min (trk_filtered_x_q8 t) (pos_x d * 256) \<le> trk_filtered_x_q8 (hx_filter_track p t d)
    \<and> trk_filtered_x_q8 (hx_filter_track p t d) \<le> max (trk_filtered_x_q8 t) (pos_x d * 256)
    \<and> min (trk_filtered_y_q8 t) (pos_y d * 256) \<le> trk_filtered_y_q8 (hx_filter_track p t d)
    \<and> trk_filtered_y_q8 (hx_filter_track p t d) \<le> max (trk_filtered_y_q8 t) (pos_y d * 256)
    \<and> (\<not> track_smoothing p \<longrightarrow> trk_x (hx_filter_track p t d) = pos_x d
        \<and> trk_y (hx_filter_track p t d) = pos_y d)"
  by (rule filter_track_bounds [OF assms])

definition sample_track :: hx_track where
  "sample_track = zero_track\<lparr>trk_active := True, trk_x := 100, trk_y := 200,
     trk_filtered_x_q8 := 25600, trk_filtered_y_q8 := 51200\<rparr>"

theorem filter_never_overshoots_witness:
  "track_inside 2560 1600 (hx_filter_track default_trk sample_track \<lparr>pos_x = 110, pos_y = 190\<rparr>)"
proof -
  have "track_inside 2560 1600 sample_track" "pos_inside 2560 1600 \<lparr>pos_x = 110, pos_y = 190\<rparr>"
    by (simp_all add: track_inside_def pos_inside_def sample_track_def zero_track_def)
  from filter_never_overshoots [OF this] show ?thesis by simp
qed

end
