(* ===== verification/Hx_Assign.thy ===== *)
theory Hx_Assign
  imports Hx_State
begin

text \<open>
  Assignment of detections to tracks (\<open>hx_hungarian_assign\<close> in \<open>hx-algo-track.c\<close>): the Hungarian
  algorithm with row and column potentials over a rectangular cost table that has one "unmatched"
  column per track after the detections.  Rows and columns count from 1, as in the code; row or
  column 0 means "none", and column 0 carries the row being inserted.

  The scratch arrays are functions on indices.  The potentials are exact integers: they start at 0,
  each insertion of a row raises them by at most the finite unmatched cost, and that sum is far from
  the 64-bit limits.  Both do-while loops carry fuel; the theorems show that \<open>cols + 1\<close> rounds are
  always enough.
\<close>

section \<open>The algorithm\<close>

type_synonym cost_table = "nat \<Rightarrow> nat \<Rightarrow> int"

definition ASSIGN_INF :: int where
  "ASSIGN_INF = 2 ^ 55"

record hungarian =
  assign_u :: "nat \<Rightarrow> int"
  assign_v :: "nat \<Rightarrow> int"
  assign_p :: "nat \<Rightarrow> nat"
  assign_way :: "nat \<Rightarrow> nat"

text \<open>The reduced cost of a row and a column.\<close>

definition slack :: "cost_table \<Rightarrow> (nat \<Rightarrow> int) \<Rightarrow> (nat \<Rightarrow> int) \<Rightarrow> nat \<Rightarrow> nat \<Rightarrow> int" where
  "slack cost u v i j = cost (i - 1) (j - 1) - u i - v j"

text \<open>The first inner loop; the state is \<open>minv\<close>, \<open>way\<close>, \<open>delta\<close>, \<open>j1\<close>.\<close>

type_synonym relaxation = "(nat \<Rightarrow> int) \<times> (nat \<Rightarrow> nat) \<times> int \<times> nat"

definition relax_column ::
  "(nat \<Rightarrow> int) \<Rightarrow> (nat \<Rightarrow> bool) \<Rightarrow> nat \<Rightarrow> relaxation \<Rightarrow> nat \<Rightarrow> relaxation" where
  "relax_column cur used j0 st j =
     (let (minv, way, delta, j1) = st in
      if used j then st
      else
        let (minv, way) = (if cur j < minv j then (minv(j := cur j), way(j := j0)) else (minv, way)) in
        if minv j < delta then (minv, way, minv j, j) else (minv, way, delta, j1))"

text \<open>The second inner loop; the state is \<open>u\<close>, \<open>v\<close>, \<open>minv\<close>.\<close>

type_synonym potentials = "(nat \<Rightarrow> int) \<times> (nat \<Rightarrow> int) \<times> (nat \<Rightarrow> int)"

definition shift_column ::
  "(nat \<Rightarrow> nat) \<Rightarrow> (nat \<Rightarrow> bool) \<Rightarrow> int \<Rightarrow> potentials \<Rightarrow> nat \<Rightarrow> potentials" where
  "shift_column p used delta st j =
     (let (u, v, minv) = st in
      if used j then (u(p j := u (p j) + delta), v(j := v j - delta), minv)
      else (u, v, minv(j := minv j - delta)))"

definition search_step ::
  "cost_table \<Rightarrow> nat \<Rightarrow> hungarian \<Rightarrow> (nat \<Rightarrow> int) \<Rightarrow> (nat \<Rightarrow> bool) \<Rightarrow> nat \<Rightarrow> hungarian \<times> (nat \<Rightarrow> int) \<times> nat" where
  "search_step cost cols h minv used j0 =
     (let i0 = assign_p h j0;
          (minv, way, delta, j1) =
            foldl (relax_column (slack cost (assign_u h) (assign_v h) i0) used j0)
              (minv, assign_way h, ASSIGN_INF, 0) [1..<Suc cols];
          (u, v, minv) =
            foldl (shift_column (assign_p h) used delta) (assign_u h, assign_v h, minv) [0..<Suc cols] in
      (h\<lparr>assign_u := u, assign_v := v, assign_way := way\<rparr>, minv, j1))"

fun search_path ::
  "nat \<Rightarrow> cost_table \<Rightarrow> nat \<Rightarrow> hungarian \<Rightarrow> (nat \<Rightarrow> int) \<Rightarrow> (nat \<Rightarrow> bool) \<Rightarrow> nat \<Rightarrow> (hungarian \<times> nat) option" where
  "search_path 0 cost cols h minv used j0 = None"
| "search_path (Suc fuel) cost cols h minv used j0 =
     (let used = used(j0 := True); (h, minv, j1) = search_step cost cols h minv used j0 in
      if assign_p h j1 \<noteq> 0 then search_path fuel cost cols h minv used j1 else Some (h, j1))"

fun augment :: "nat \<Rightarrow> (nat \<Rightarrow> nat) \<Rightarrow> (nat \<Rightarrow> nat) \<Rightarrow> nat \<Rightarrow> (nat \<Rightarrow> nat) option" where
  "augment 0 way p j0 = None"
| "augment (Suc fuel) way p j0 =
     (let j1 = way j0; p = p(j0 := p j1) in if j1 \<noteq> 0 then augment fuel way p j1 else Some p)"

definition assign_row :: "cost_table \<Rightarrow> nat \<Rightarrow> hungarian \<Rightarrow> nat \<Rightarrow> hungarian option" where
  "assign_row cost cols h i =
     (case search_path (Suc cols) cost cols (h\<lparr>assign_p := (assign_p h)(0 := i)\<rparr>)
             (\<lambda>_. ASSIGN_INF) (\<lambda>_. False) 0 of
        None \<Rightarrow> None
      | Some (h, j0) \<Rightarrow>
          map_option (\<lambda>p. h\<lparr>assign_p := p\<rparr>) (augment (Suc cols) (assign_way h) (assign_p h) j0))"

fun assign_rows :: "cost_table \<Rightarrow> nat \<Rightarrow> hungarian \<Rightarrow> nat list \<Rightarrow> hungarian option" where
  "assign_rows cost cols h [] = Some h"
| "assign_rows cost cols h (i # is) =
     Option.bind (assign_row cost cols h i) (\<lambda>h. assign_rows cost cols h is)"

definition assign_start :: hungarian where
  "assign_start = \<lparr>assign_u = (\<lambda>_. 0), assign_v = (\<lambda>_. 0), assign_p = (\<lambda>_. 0), assign_way = (\<lambda>_. 0)\<rparr>"

text \<open>The matches, by slot: \<open>None\<close> is -1.\<close>

definition read_match :: "cost_table \<Rightarrow> nat list \<Rightarrow> (nat \<Rightarrow> nat) \<Rightarrow> nat \<Rightarrow> nat \<Rightarrow> nat option" where
  "read_match cost active p det_cnt =
     foldl (\<lambda>match j.
        if p j \<noteq> 0 \<and> cost (p j - 1) (j - 1) < ASSIGN_INF div 2
        then match(active ! (p j - 1) := Some (j - 1)) else match)
       (\<lambda>_. None) [1..<Suc det_cnt]"

definition hx_hungarian_assign :: "cost_table \<Rightarrow> nat list \<Rightarrow> nat \<Rightarrow> (nat \<Rightarrow> nat option) option" where
  "hx_hungarian_assign cost active det_cnt =
     map_option (\<lambda>h. read_match cost active (assign_p h) det_cnt)
       (assign_rows cost (det_cnt + length active) assign_start [1..<Suc (length active)])"

declare upt_Suc [simp del]

section \<open>The inner loops\<close>

definition relaxed :: "(nat \<Rightarrow> int) \<Rightarrow> (nat \<Rightarrow> bool) \<Rightarrow> (nat \<Rightarrow> int) \<Rightarrow> nat \<Rightarrow> int" where
  "relaxed cur used minv j = (if used j then minv j else min (minv j) (cur j))"

lemma relax_columns:
  assumes "foldl (relax_column cur used j0) (minv, way, delta0, 0) js = (minv', way', delta, j1)" "distinct js"
  shows "(\<forall>j\<in>set js. minv' j = relaxed cur used minv j \<and>
        way' j = (if \<not> used j \<and> cur j < minv j then j0 else way j))
    \<and> (\<forall>j. j \<notin> set js \<longrightarrow> minv' j = minv j \<and> way' j = way j)
    \<and> (\<forall>j\<in>set js. \<not> used j \<longrightarrow> delta \<le> minv' j) \<and> delta \<le> delta0
    \<and> (j1 = 0 \<and> delta = delta0 \<or> j1 \<in> set js \<and> \<not> used j1 \<and> minv' j1 = delta)"
  using assms
proof (induction js arbitrary: minv' way' delta j1 rule: rev_induct)
  case (snoc j js)
  obtain a b c d where f: "foldl (relax_column cur used j0) (minv, way, delta0, 0) js = (a, b, c, d)"
    by (metis prod_cases4)
  have dist: "distinct js" "j \<notin> set js" using snoc.prems(2) by auto
  note ih = snoc.IH [OF f dist(1)]
  have j: "a j = minv j" "b j = way j" using ih dist(2) by auto
  have step: "relax_column cur used j0 (a, b, c, d) j = (minv', way', delta, j1)"
    using snoc.prems(1) by (simp add: f)
  show ?case
  proof (cases "used j")
    case True
    then have "minv' = a" "way' = b" "delta = c" "j1 = d" using step by (auto simp: relax_column_def)
    then show ?thesis using ih j True dist(2) by (auto simp: relaxed_def)
  next
    case False
    have m: "minv' = a(j := min (minv j) (cur j))" "way' = (if cur j < minv j then b(j := j0) else b)"
      "delta = min c (min (minv j) (cur j))" "j1 = (if min (minv j) (cur j) < c then j else d)"
      using step False j by (auto simp: relax_column_def Let_def split: if_splits)
    have nj: "minv' j = relaxed cur used minv j" "way' j = (if \<not> used j \<and> cur j < minv j then j0 else way j)"
      using False j by (auto simp: relaxed_def m)
    have old: "minv' k = a k" "way' k = b k" if "k \<noteq> j" for k using that by (auto simp: m)
    have le: "delta \<le> c" "delta \<le> minv' j" by (auto simp: m)
    have "\<forall>k\<in>set (js @ [j]). minv' k = relaxed cur used minv k \<and>
        way' k = (if \<not> used k \<and> cur k < minv k then j0 else way k)"
      using ih nj old dist(2) by (metis set_append in_set_conv_decomp Un_iff set_ConsD empty_iff list.set(1))
    moreover have "\<forall>k. k \<notin> set (js @ [j]) \<longrightarrow> minv' k = minv k \<and> way' k = way k"
      using ih old by simp
    moreover have "\<forall>k\<in>set (js @ [j]). \<not> used k \<longrightarrow> delta \<le> minv' k"
    proof (intro ballI impI)
      fix k assume k: "k \<in> set (js @ [j])" "\<not> used k"
      show "delta \<le> minv' k"
      proof (cases "k = j")
        case False
        then have "c \<le> a k" using ih k by auto
        then show ?thesis using le(1) old(1) [OF False] by simp
      qed (use le in simp)
    qed
    moreover have "delta \<le> delta0" using ih le(1) by linarith
    moreover have "j1 = 0 \<and> delta = delta0 \<or> j1 \<in> set (js @ [j]) \<and> \<not> used j1 \<and> minv' j1 = delta"
    proof (cases "min (minv j) (cur j) < c")
      case True
      then show ?thesis using False by (simp add: m)
    next
      case ge: False
      then have "delta = c" "j1 = d" by (simp_all add: m)
      then show ?thesis using ih old(1) [of d] dist(2) by auto
    qed
    ultimately show ?thesis by blast
  qed
qed auto

lemma shift_columns:
  assumes "foldl (shift_column p used delta) (u, v, minv) js = (u', v', minv')" "distinct js"
    "inj_on p {j \<in> set js. used j}"
  shows "(\<forall>i. u' i = u i + (if i \<in> p ` {j \<in> set js. used j} then delta else 0))
    \<and> (\<forall>j. v' j = v j - (if j \<in> set js \<and> used j then delta else 0))
    \<and> (\<forall>j. minv' j = minv j - (if j \<in> set js \<and> \<not> used j then delta else 0))"
  using assms
proof (induction js arbitrary: u' v' minv' rule: rev_induct)
  case (snoc j js)
  obtain a b c where f: "foldl (shift_column p used delta) (u, v, minv) js = (a, b, c)"
    by (metis prod_cases3)
  have dist: "distinct js" "j \<notin> set js" using snoc.prems(2) by auto
  have inj: "inj_on p {k \<in> set js. used k}" using snoc.prems(3) by (rule inj_on_subset) auto
  note ih = snoc.IH [OF f dist(1) inj]
  have step: "shift_column p used delta (a, b, c) j = (u', v', minv')" using snoc.prems(1) by (simp add: f)
  show ?case
  proof (cases "used j")
    case True
    have new: "p j \<notin> p ` {k \<in> set js. used k}"
      using snoc.prems(3) True dist(2) by (auto simp: inj_on_def)
    have s: "{k \<in> set (js @ [j]). used k} = insert j {k \<in> set js. used k}" using True by auto
    have "u' = a(p j := a (p j) + delta)" "v' = b(j := b j - delta)" "minv' = c"
      using step True by (auto simp: shift_column_def)
    then show ?thesis using ih new dist(2) True by (auto simp: s)
  next
    case False
    have s: "{k \<in> set (js @ [j]). used k} = {k \<in> set js. used k}" using False by auto
    have "u' = a" "v' = b" "minv' = c(j := c j - delta)" using step False by (auto simp: shift_column_def)
    then show ?thesis using ih dist(2) False by (auto simp: s)
  qed
qed auto

section \<open>The search for a free column\<close>

abbreviation slack_of :: "cost_table \<Rightarrow> hungarian \<Rightarrow> nat \<Rightarrow> nat \<Rightarrow> int" where
  "slack_of cost h \<equiv> slack cost (assign_u h) (assign_v h)"

text \<open>The costs the code builds: not negative, and a finite cost \<open>B\<close> in every "unmatched" column.\<close>

definition costs_ok :: "cost_table \<Rightarrow> nat \<Rightarrow> nat \<Rightarrow> int \<Rightarrow> bool" where
  "costs_ok cost n d B \<longleftrightarrow> (\<forall>i<n. \<forall>j<d + n. 0 \<le> cost i j)
     \<and> (\<forall>i<n. \<forall>j. d \<le> j \<longrightarrow> j < d + n \<longrightarrow> cost i j = B) \<and> B < ASSIGN_INF"

text \<open>Dual feasibility and complementary slackness of the potentials.\<close>

definition duals_ok :: "cost_table \<Rightarrow> nat \<Rightarrow> nat \<Rightarrow> hungarian \<Rightarrow> bool" where
  "duals_ok cost n m h \<longleftrightarrow>
     (\<forall>i\<in>{1..n}. \<forall>j\<in>{1..m}. 0 \<le> slack_of cost h i j)
   \<and> (\<forall>j\<in>{1..m}. assign_p h j \<noteq> 0 \<longrightarrow> slack_of cost h (assign_p h j) j = 0)
   \<and> (\<forall>j\<in>{1..m}. assign_v h j \<le> 0 \<and> (assign_p h j = 0 \<longrightarrow> assign_v h j = 0))"

text \<open>The visited columns in order: each was reached from an earlier one over a tight edge.\<close>

definition path_ok :: "cost_table \<Rightarrow> hungarian \<Rightarrow> nat list \<Rightarrow> bool" where
  "path_ok cost h L \<longleftrightarrow> (\<forall>s. 0 < s \<longrightarrow> s < length L \<longrightarrow>
     assign_way h (L ! s) \<in> set (take s L) \<and> slack_of cost h (assign_p h (assign_way h (L ! s))) (L ! s) = 0)"

definition rows_ok :: "nat \<Rightarrow> nat \<Rightarrow> (nat \<Rightarrow> nat) \<Rightarrow> bool" where
  "rows_ok n m p \<longleftrightarrow> inj_on p {j \<in> {0..m}. p j \<noteq> 0} \<and> (\<forall>j\<in>{0..m}. p j \<le> n) \<and> p 0 \<noteq> 0"

definition minv_ok :: "cost_table \<Rightarrow> nat \<Rightarrow> hungarian \<Rightarrow> (nat \<Rightarrow> int) \<Rightarrow> nat list \<Rightarrow> nat \<Rightarrow> bool" where
  "minv_ok cost m h minv vis j \<longleftrightarrow>
     (\<forall>j'\<in>set vis. minv j \<le> slack_of cost h (assign_p h j') j)
   \<and> (minv j = ASSIGN_INF - assign_u h (assign_p h 0)
      \<or> assign_way h j \<in> set vis \<and> minv j = slack_of cost h (assign_p h (assign_way h j)) j)"

definition search_inv ::
  "cost_table \<Rightarrow> nat \<Rightarrow> nat \<Rightarrow> hungarian \<Rightarrow> (nat \<Rightarrow> int) \<Rightarrow> nat list \<Rightarrow> nat \<Rightarrow> bool" where
  "search_inv cost n m h minv vis j0 \<longleftrightarrow>
     distinct (vis @ [j0]) \<and> hd (vis @ [j0]) = 0 \<and> set (vis @ [j0]) \<subseteq> {0..m}
   \<and> (\<forall>j\<in>set vis. assign_p h j \<noteq> 0) \<and> path_ok cost h (vis @ [j0])
   \<and> duals_ok cost n m h \<and> rows_ok n m (assign_p h) \<and> 0 \<le> assign_u h (assign_p h 0)
   \<and> (\<forall>j\<in>{1..m} - set (vis @ [j0]). minv_ok cost m h minv vis j)"

text \<open>There is always a free "unmatched" column.\<close>

lemma free_column:
  assumes "rows_ok n (d + n) p"
  shows "\<exists>j. d < j \<and> j \<le> d + n \<and> p j = 0"
proof (rule ccontr)
  assume c: "\<not> ?thesis"
  have p: "inj_on p {j \<in> {0..d + n}. p j \<noteq> 0}" "p 0 \<noteq> 0" and le: "j \<le> d + n \<Longrightarrow> p j \<le> n" for j
    using assms unfolding rows_ok_def by simp_all
  have nz: "p j \<noteq> 0" if "j \<in> insert 0 {d + 1..d + n}" for j
    using that c p(2) by (metis insertE atLeastAtMost_iff Suc_eq_plus1 Suc_le_lessD)
  have "inj_on p (insert 0 {d + 1..d + n})"
    using p(1) by (rule inj_on_subset) (use nz in auto)
  moreover have "p ` insert 0 {d + 1..d + n} \<subseteq> {1..n}"
  proof
    fix r assume "r \<in> p ` insert 0 {d + 1..d + n}"
    then obtain j where j: "r = p j" "j \<in> insert 0 {d + 1..d + n}" by blast
    have "j \<le> d + n" using j(2) by auto
    then show "r \<in> {1..n}" using j(1) nz [OF j(2)] le [of j] by simp
  qed
  ultimately have "card (insert 0 {d + 1..d + n}) \<le> card {1..n}"
    by (intro card_inj_on_le [where f = p]) auto
  then show False by simp
qed

text \<open>The potentials after a shift by \<open>delta\<close> over the visited columns \<open>L\<close>.\<close>

lemma slack_shifted:
  assumes "\<forall>i. u' i = u i + (if i \<in> P then delta else 0)" "\<forall>j. v' j = v j - (if j \<in> Q then delta else 0)"
  shows "slack cost u' v' i j = slack cost u v i j
    + ((if j \<in> Q then delta else 0) - (if i \<in> P then delta else (0::int)))"
  using assms by (simp add: slack_def)

lemma duals_shifted:
  assumes d: "duals_ok cost n m h" and r: "rows_ok n m (assign_p h)"
    and L: "set L \<subseteq> {0..m}" "\<forall>j\<in>set L. assign_p h j \<noteq> 0"
    and u: "\<forall>i. u' i = assign_u h i + (if i \<in> assign_p h ` set L then delta else 0)"
    and v: "\<forall>j. v' j = assign_v h j - (if j \<in> set L then delta else 0)"
    and low: "\<forall>j\<in>{1..m} - set L. \<forall>j'\<in>set L. delta \<le> slack_of cost h (assign_p h j') j" and "0 \<le> delta"
  shows "duals_ok cost n m (h\<lparr>assign_u := u', assign_v := v', assign_way := w\<rparr>)"
proof -
  note sl = slack_shifted [OF u v]
  have "0 \<le> slack cost u' v' i j" if ij: "i \<in> {1..n}" "j \<in> {1..m}" for i j
  proof -
    have "0 \<le> slack_of cost h i j" using d ij unfolding duals_ok_def by blast
    moreover have "i \<in> assign_p h ` set L \<Longrightarrow> j \<notin> set L \<Longrightarrow> delta \<le> slack_of cost h i j"
      using low ij(2) by blast
    ultimately show ?thesis using \<open>0 \<le> delta\<close> unfolding sl
      by (cases "i \<in> assign_p h ` set L"; cases "j \<in> set L") simp_all
  qed
  moreover have "slack cost u' v' (assign_p h j) j = 0"
    if j: "j \<in> {1..m}" "assign_p h j \<noteq> 0" for j
  proof -
    have "slack_of cost h (assign_p h j) j = 0" using d j unfolding duals_ok_def by blast
    moreover have "j \<in> set L \<longleftrightarrow> assign_p h j \<in> assign_p h ` set L"
    proof
      assume "assign_p h j \<in> assign_p h ` set L"
      then obtain k where k: "k \<in> set L" "assign_p h j = assign_p h k" by blast
      have inj: "inj_on (assign_p h) {j \<in> {0..m}. assign_p h j \<noteq> 0}" using r by (simp add: rows_ok_def)
      have "j = k" by (rule inj_onD [OF inj k(2)]) (use j k L in auto)
      with k(1) show "j \<in> set L" by simp
    qed simp
    ultimately show ?thesis by (simp add: sl)
  qed
  moreover have "v' j \<le> 0 \<and> (assign_p h j = 0 \<longrightarrow> v' j = 0)" if j: "j \<in> {1..m}" for j
  proof -
    have "assign_v h j \<le> 0" "assign_p h j = 0 \<longrightarrow> assign_v h j = 0"
      using d j unfolding duals_ok_def by blast+
    then show ?thesis using v L(2) \<open>0 \<le> delta\<close> by auto
  qed
  ultimately show ?thesis unfolding duals_ok_def by simp
qed

lemma search_step_inv:
  assumes inv: "search_inv cost n (d + n) h minv vis j0" and costs: "costs_ok cost n d B"
    and nz: "assign_p h j0 \<noteq> 0" and used: "\<forall>j. used j \<longleftrightarrow> j \<in> set (vis @ [j0])"
    and step: "search_step cost (d + n) h minv used j0 = (h', minv', j1)"
  shows "search_inv cost n (d + n) h' minv' (vis @ [j0]) j1 \<and> assign_p h' = assign_p h
    \<and> (\<forall>i. i \<notin> assign_p h ` {0..d + n} \<longrightarrow> assign_u h' i = assign_u h i)"
proof -
  define m L p where "m = d + n" and "L = vis @ [j0]" and "p = assign_p h"
  define i where "i = p 0"
  have I: "distinct L" "hd L = 0" "set L \<subseteq> {0..m}" "\<forall>j\<in>set vis. p j \<noteq> 0" "path_ok cost h L"
    "duals_ok cost n m h" "rows_ok n m p" "0 \<le> assign_u h i"
    "\<forall>j\<in>{1..m} - set L. minv_ok cost m h minv vis j"
    using inv unfolding search_inv_def m_def L_def p_def i_def by blast+
  have L0: "L \<noteq> []" by (simp add: L_def)
  with I(2) have L0: "0 \<in> set L" "L \<noteq> []" using hd_in_set [of L] by simp_all
  have Lnz: "\<forall>j\<in>set L. p j \<noteq> 0" using I(4) nz by (simp add: L_def p_def)
  have rows: "inj_on p {j \<in> {0..m}. p j \<noteq> 0}" "p j \<le> n" if "j \<le> m" for j
    using I(7) that unfolding rows_ok_def by simp_all
  have Lrow: "p j \<in> {1..n}" if "j \<in> set L" for j using that Lnz rows(2) [of j] I(3) by auto
  obtain ma way delta j1' where f: "foldl (relax_column (slack_of cost h (p j0)) used j0)
      (minv, assign_way h, ASSIGN_INF, 0) [1..<Suc m] = (ma, way, delta, j1')"
    by (metis prod_cases4)
  obtain u v mb where g: "foldl (shift_column p used delta) (assign_u h, assign_v h, ma) [0..<Suc m] = (u, v, mb)"
    by (metis prod_cases3)
  have r: "h' = h\<lparr>assign_u := u, assign_v := v, assign_way := way\<rparr>" "minv' = mb" "j1 = j1'"
    using step f g by (simp_all add: search_step_def p_def m_def Let_def)
  have sets: "set [1..<Suc m] = {1..m}" "{j \<in> set [0..<Suc m]. used j} = set L"
    using used I(3) by (auto simp: L_def)
  have injL: "inj_on p (set L)" using rows(1) by (rule inj_on_subset) (use Lnz I(3) in auto)
  note R = relax_columns [OF f distinct_upt, unfolded sets]
  have Rm: "ma j = min (minv j) (slack_of cost h (p j0) j)"
      "way j = (if slack_of cost h (p j0) j < minv j then j0 else assign_way h j)" "delta \<le> ma j"
    if j: "j \<in> {1..m} - set L" for j
  proof -
    have "j \<in> {1..m}" "\<not> used j" using j used by (simp_all add: L_def)
    then show "ma j = min (minv j) (slack_of cost h (p j0) j)"
      "way j = (if slack_of cost h (p j0) j < minv j then j0 else assign_way h j)" "delta \<le> ma j"
      using R unfolding relaxed_def by meson+
  qed
  have Rkeep: "way j = assign_way h j" if "used j" for j
    using R that by (cases "j \<in> {1..m}") metis+
  have Rfound: "j1' = 0 \<and> delta = ASSIGN_INF \<or> j1' \<in> {1..m} - set L \<and> ma j1' = delta"
    using R used by (metis L_def Diff_iff)
  have S: "\<forall>i. u i = assign_u h i + (if i \<in> p ` set L then delta else 0)"
    "\<forall>j. v j = assign_v h j - (if j \<in> set L then delta else 0)"
    "\<forall>j. mb j = ma j - (if j \<in> set [0..<Suc m] \<and> \<not> used j then delta else 0)"
    using shift_columns [OF g distinct_upt, unfolded sets] injL sets(2) by auto
  have relax_new: "(\<forall>j'\<in>set L. ma j \<le> slack_of cost h (p j') j)
      \<and> (ma j = ASSIGN_INF - assign_u h i \<or> way j \<in> set L \<and> ma j = slack_of cost h (p (way j)) j)"
    if j: "j \<in> {1..m} - set L" for j
  proof -
    note ma = Rm(1) [OF j] and wj = Rm(2) [OF j]
    have mo: "\<forall>j'\<in>set vis. minv j \<le> slack_of cost h (p j') j"
      "minv j = ASSIGN_INF - assign_u h i
        \<or> assign_way h j \<in> set vis \<and> minv j = slack_of cost h (p (assign_way h j)) j"
      using I(9) j unfolding minv_ok_def p_def i_def by blast+
    have "\<forall>j'\<in>set L. ma j \<le> slack_of cost h (p j') j" using mo(1) by (auto simp: ma L_def min_def)
    moreover have "ma j = ASSIGN_INF - assign_u h i \<or> way j \<in> set L \<and> ma j = slack_of cost h (p (way j)) j"
      using mo(2) by (auto simp: ma wj L_def min_def)
    ultimately show ?thesis by blast
  qed
  have ir: "i \<in> {1..n}" using Lrow [OF L0(1)] by (simp add: i_def)
  obtain d0 where d0: "d < d0" "d0 \<le> m" "p d0 = 0"
    using free_column [of n d p] I(7) by (auto simp: m_def)
  have d0L: "d0 \<in> {1..m} - set L" using d0 Lnz by auto
  have "cost (i - 1) (d0 - 1) = B" using costs d0 ir by (auto simp: costs_ok_def m_def)
  moreover have "assign_v h d0 = 0" using I(6) d0 d0L by (auto simp: duals_ok_def p_def)
  ultimately have "slack_of cost h (p 0) d0 = B - assign_u h i" by (simp add: slack_def i_def)
  with relax_new [OF d0L] L0(1) have "ma d0 \<le> B - assign_u h i" by force
  moreover have "delta \<le> ma d0" using d0L by (rule Rm(3))
  moreover have "B < ASSIGN_INF" using costs by (simp add: costs_ok_def)
  ultimately have small: "delta < ASSIGN_INF - assign_u h i" by linarith
  have j1: "j1 \<in> {1..m} - set L" "ma j1 = delta"
    using Rfound small I(8) by (auto simp: r)
  have way1: "way j1 \<in> set L" "delta = slack_of cost h (p (way j1)) j1"
    using relax_new [OF j1(1)] j1(2) small by auto
  have dpos: "0 \<le> delta" using way1 Lrow [OF way1(1)] j1(1) I(6) by (auto simp: duals_ok_def)
  have low: "\<forall>j\<in>{1..m} - set L. \<forall>j'\<in>set L. delta \<le> slack_of cost h (p j') j"
  proof (intro ballI)
    fix j j' assume j: "j \<in> {1..m} - set L" "j' \<in> set L"
    have "delta \<le> ma j" using j(1) by (rule Rm(3))
    then show "delta \<le> slack_of cost h (p j') j" using relax_new [OF j(1)] j(2) by force
  qed
  have duals: "duals_ok cost n m h'"
    unfolding r
    by (rule duals_shifted [OF I(6) I(7) [unfolded p_def] I(3) Lnz [unfolded p_def]
          S(1) [unfolded p_def] S(2) low [unfolded p_def] dpos])
  have sl: "slack_of cost h' (p k) j = slack_of cost h (p k) j + ((if j \<in> set L then delta else 0) - delta)"
    if "k \<in> set L" for j k
    using slack_shifted [OF S(1,2), of cost "p k" j] that by (auto simp: r)
  have keep: "assign_way h' j = assign_way h j" if "j \<in> set L" for j
    using Rkeep that used by (simp add: r L_def)
  have path: "path_ok cost h' (L @ [j1])"
    unfolding path_ok_def
  proof (intro allI impI)
    fix s assume s: "0 < s" "s < length (L @ [j1])"
    show "assign_way h' ((L @ [j1]) ! s) \<in> set (take s (L @ [j1]))
      \<and> slack_of cost h' (assign_p h' (assign_way h' ((L @ [j1]) ! s))) ((L @ [j1]) ! s) = 0"
    proof (cases "s < length L")
      case True
      then have t: "assign_way h (L ! s) \<in> set (take s L)" "slack_of cost h (p (assign_way h (L ! s))) (L ! s) = 0"
        using I(5) s(1) unfolding path_ok_def p_def by blast+
      have "assign_way h (L ! s) \<in> set L" using t(1) by (rule in_set_takeD)
      then show ?thesis using True t sl [of "assign_way h (L ! s)" "L ! s"]
        by (simp add: nth_append keep) (simp add: r p_def)
    next
      case False
      then have "s = length L" using s by simp
      then show ?thesis using way1 sl [OF way1(1), of j1] j1(1)
        by (simp add: nth_append) (simp add: r p_def)
    qed
  qed
  have minv: "minv_ok cost m h' minv' L j" if j: "j \<in> {1..m} - set (L @ [j1])" for j
  proof -
    have jl: "j \<in> {1..m} - set L" "j \<notin> set L" using j by auto
    have mj: "minv' j = ma j - delta" using S(3) j used by (auto simp: r L_def)
    have ui: "assign_u h' i = assign_u h i + delta" using S(1) L0(1) by (auto simp: r i_def)
    have "\<forall>j'\<in>set L. minv' j \<le> slack_of cost h' (p j') j"
      using relax_new [OF jl(1)] sl jl(2) mj by simp
    moreover have "minv' j = ASSIGN_INF - assign_u h' i
        \<or> way j \<in> set L \<and> minv' j = slack_of cost h' (p (way j)) j"
      using relax_new [OF jl(1)] sl [of "way j" j] jl(2) mj ui by auto
    moreover have "assign_p h' = p" "assign_way h' = way" by (simp_all add: r p_def)
    ultimately show ?thesis unfolding minv_ok_def i_def by simp
  qed
  have "distinct (L @ [j1])" "hd (L @ [j1]) = 0" "set (L @ [j1]) \<subseteq> {0..m}"
    using I(1-3) j1(1) L0(2) by auto
  moreover have "0 \<le> assign_u h' i" using S(1) I(8) dpos by (simp add: r)
  moreover have "assign_u h' k = assign_u h k" if "k \<notin> p ` {0..m}" for k
  proof -
    have "k \<notin> p ` set L" using that I(3) by blast
    then show ?thesis using S(1) by (simp add: r)
  qed
  ultimately show ?thesis
    unfolding search_inv_def using Lnz path duals I(7) minv
    by (simp add: r L_def [symmetric] m_def [symmetric] p_def [symmetric] i_def [symmetric])
qed

lemma search_path_inv:
  assumes "search_inv cost n (d + n) h minv vis j0" "costs_ok cost n d B" "assign_p h j0 \<noteq> 0"
    "\<forall>j. used j \<longleftrightarrow> j \<in> set vis" "d + n + 1 \<le> fuel + length vis"
  shows "\<exists>h' minv' vis' j1. search_path fuel cost (d + n) h minv used j0 = Some (h', j1)
    \<and> search_inv cost n (d + n) h' minv' vis' j1 \<and> assign_p h' = assign_p h \<and> assign_p h j1 = 0
    \<and> (\<forall>i. i \<notin> assign_p h ` {0..d + n} \<longrightarrow> assign_u h' i = assign_u h i)"
  using assms
proof (induction fuel arbitrary: h minv vis used j0)
  case 0
  have "distinct (vis @ [j0])" "set (vis @ [j0]) \<subseteq> {0..d + n}"
    using 0(1) unfolding search_inv_def by blast+
  then have "length (vis @ [j0]) \<le> card {0..d + n}"
    using card_mono [of "{0..d + n}" "set (vis @ [j0])"] distinct_card [of "vis @ [j0]"] by simp
  then show ?case using 0(5) by simp
next
  case (Suc fuel)
  define us where "us = used(j0 := True)"
  have us: "\<forall>j. us j \<longleftrightarrow> j \<in> set (vis @ [j0])" using Suc.prems(4) by (auto simp: us_def)
  obtain h1 minv1 j1 where st: "search_step cost (d + n) h minv us j0 = (h1, minv1, j1)"
    by (metis prod_cases3)
  note inv = search_step_inv [OF Suc.prems(1-3) us st]
  show ?case
  proof (cases "assign_p h1 j1 = 0")
    case True
    then show ?thesis using inv st by (auto simp: us_def [symmetric] Let_def)
  next
    case False
    have len: "d + n + 1 \<le> fuel + length (vis @ [j0])" using Suc.prems(5) by simp
    from Suc.IH [OF conjunct1 [OF inv] Suc.prems(2) False us len] obtain h' minv' vis' j2
      where "search_path fuel cost (d + n) h1 minv1 us j1 = Some (h', j2)"
        "search_inv cost n (d + n) h' minv' vis' j2" "assign_p h' = assign_p h1" "assign_p h1 j2 = 0"
        "\<forall>i. i \<notin> assign_p h1 ` {0..d + n} \<longrightarrow> assign_u h' i = assign_u h1 i" by blast
    moreover have "search_path (Suc fuel) cost (d + n) h minv used j0 = search_path fuel cost (d + n) h1 minv1 us j1"
      using st False by (simp add: us_def [symmetric] Let_def)
    ultimately show ?thesis using inv by metis
  qed
qed

section \<open>Augmentation along the path\<close>

text \<open>The matching with a hole: outside one column it is injective onto the rows \<open>R\<close> and tight.\<close>

definition hole_ok :: "cost_table \<Rightarrow> nat \<Rightarrow> hungarian \<Rightarrow> nat set \<Rightarrow> (nat \<Rightarrow> nat) \<Rightarrow> nat \<Rightarrow> bool" where
  "hole_ok cost m h R q a \<longleftrightarrow>
     inj_on q {j \<in> {0..m} - {a}. q j \<noteq> 0} \<and> q ` {j \<in> {0..m} - {a}. q j \<noteq> 0} = R
   \<and> (\<forall>j\<in>{1..m} - {a}. (q j \<noteq> 0 \<longrightarrow> slack_of cost h (q j) j = 0) \<and> (q j = 0 \<longrightarrow> assign_v h j = 0))"

lemma hole_moves:
  assumes q: "hole_ok cost m h R q a" and ab: "a \<in> {1..m}" "b \<in> {0..m}" "b \<noteq> a" "q b \<noteq> 0"
    and t: "slack_of cost h (q b) a = 0"
  shows "hole_ok cost m h R (q(a := q b)) b"
proof -
  let ?Q = "{j \<in> {0..m} - {a}. q j \<noteq> 0}"
  have set: "{j \<in> {0..m} - {b}. (q(a := q b)) j \<noteq> 0} = insert a (?Q - {b})"
    using ab by auto
  have inj: "inj_on q ?Q" and img: "q ` ?Q = R" using q by (simp_all add: hole_ok_def)
  have b: "b \<in> ?Q" using ab by simp
  have eq: "(q(a := q b)) ` (?Q - {b}) = q ` ?Q - {q b}"
    using inj b by (auto simp: inj_on_def)
  have "inj_on (q(a := q b)) (insert a (?Q - {b}))"
  proof -
    have "inj_on (q(a := q b)) (?Q - {b})" using inj by (auto simp: inj_on_def)
    moreover have "q b \<notin> (q(a := q b)) ` (?Q - {b})" using eq by simp
    ultimately show ?thesis by (simp add: inj_on_insert)
  qed
  moreover have "(q(a := q b)) ` insert a (?Q - {b}) = R"
    using eq b img by auto
  moreover have "\<forall>j\<in>{1..m} - {b}. ((q(a := q b)) j \<noteq> 0 \<longrightarrow> slack_of cost h ((q(a := q b)) j) j = 0)
      \<and> ((q(a := q b)) j = 0 \<longrightarrow> assign_v h j = 0)"
    using q t ab by (auto simp: hole_ok_def)
  ultimately show ?thesis unfolding hole_ok_def set by blast
qed

lemma augment_ok:
  assumes L: "distinct L" "hd L = 0" "set L \<subseteq> {0..m}" "path_ok cost h L" "p = assign_p h"
    and q: "hole_ok cost m h R q (L ! s)" "\<forall>t < s. q (L ! t) = p (L ! t) \<and> p (L ! t) \<noteq> 0"
    and s: "0 < s" "s < length L" "s \<le> fuel"
  shows "\<exists>q'. augment fuel (assign_way h) q (L ! s) = Some q' \<and> hole_ok cost m h R q' 0"
  using q s
proof (induction fuel arbitrary: q s)
  case (Suc fuel)
  let ?b = "assign_way h (L ! s)"
  have w: "?b \<in> set (take s L)" "slack_of cost h (p ?b) (L ! s) = 0"
    using L(4,5) Suc.prems(3,4) unfolding path_ok_def by blast+
  obtain t where t: "t < s" "?b = L ! t" using w(1) by (auto simp: in_set_conv_nth)
  have L0: "L ! 0 = 0" using L(2) Suc.prems(4) by (cases L) auto
  have "0 < length L" using Suc.prems(4) by linarith
  then have ne: "L ! t \<noteq> L ! s" "L ! s \<noteq> L ! 0" "\<And>r. r < t \<Longrightarrow> L ! r \<noteq> L ! s"
    using Suc.prems(3,4) t(1) nth_eq_iff_index_eq [OF L(1)] by (metis less_imp_neq less_trans)+
  have qb: "q ?b = p ?b" "q ?b \<noteq> 0" using Suc.prems(2) t by auto
  have "L ! s \<in> set L" "L ! t \<in> set L" using Suc.prems(4) t(1) by auto
  then have rng: "L ! s \<in> {1..m}" "?b \<in> {0..m}" using L(3) L0 ne(2) t(2) by (auto simp: Suc_le_eq)
  have hole: "hole_ok cost m h R (q(L ! s := q ?b)) ?b"
    by (rule hole_moves [OF Suc.prems(1) rng _ qb(2)]) (use ne(1) t(2) w(2) qb(1) in simp_all)
  show ?case
  proof (cases "?b = 0")
    case True
    then show ?thesis using hole by (simp add: Let_def)
  next
    case False
    have tpos: "0 < t" using False t(2) L0 by (cases t) auto
    have "\<forall>r<t. (q(L ! s := q ?b)) (L ! r) = p (L ! r) \<and> p (L ! r) \<noteq> 0"
      using Suc.prems(2) ne(3) t(1) by simp
    from Suc.IH [of "q(L ! s := q ?b)" t, unfolded t(2) [symmetric], OF hole this tpos]
    show ?thesis using False t(1) Suc.prems(4,5) by (simp add: Let_def fun_upd_def)
  qed
qed simp

section \<open>All rows\<close>

text \<open>The state after the rows \<open>1..k\<close>.\<close>

definition assigned :: "cost_table \<Rightarrow> nat \<Rightarrow> nat \<Rightarrow> nat \<Rightarrow> hungarian \<Rightarrow> bool" where
  "assigned cost n m k h \<longleftrightarrow> duals_ok cost n m h
     \<and> inj_on (assign_p h) {j \<in> {1..m}. assign_p h j \<noteq> 0}
     \<and> assign_p h ` {j \<in> {1..m}. assign_p h j \<noteq> 0} = {1..k} \<and> (\<forall>i>k. assign_u h i = 0)"

lemma nonhole_zero: "{j \<in> {0..m::nat} - {0}. q j \<noteq> 0} = {j \<in> {1..m}. q j \<noteq> (0::nat)}"
  by auto

lemma assign_row_ok:
  assumes a: "assigned cost n (d + n) k h" and costs: "costs_ok cost n d B" and k: "k < n"
  shows "\<exists>h'. assign_row cost (d + n) h (Suc k) = Some h' \<and> assigned cost n (d + n) (Suc k) h'"
proof -
  define m where "m = d + n"
  define h0 where "h0 = h\<lparr>assign_p := (assign_p h)(0 := Suc k)\<rparr>"
  let ?p = "assign_p h0"
  have A: "duals_ok cost n m h" "inj_on (assign_p h) {j \<in> {1..m}. assign_p h j \<noteq> 0}"
    "assign_p h ` {j \<in> {1..m}. assign_p h j \<noteq> 0} = {1..k}" "\<forall>i>k. assign_u h i = 0"
    using a by (simp_all add: assigned_def m_def)
  have p: "?p 0 = Suc k" "\<And>j. j \<noteq> 0 \<Longrightarrow> ?p j = assign_p h j" by (simp_all add: h0_def)
  have S: "{j \<in> {0..m}. ?p j \<noteq> 0} = insert 0 {j \<in> {1..m}. assign_p h j \<noteq> 0}"
    by (auto simp: h0_def)
  have img: "?p ` {j \<in> {1..m}. assign_p h j \<noteq> 0} = {1..k}" using A(3) p(2) by (auto simp: image_def)
  have inj: "inj_on ?p {j \<in> {0..m}. ?p j \<noteq> 0}"
  proof -
    have "inj_on ?p {j \<in> {1..m}. assign_p h j \<noteq> 0}"
      using A(2) by (rule inj_on_cong [THEN iffD1, rotated]) (simp add: h0_def)
    then show ?thesis unfolding S using img p(1) by (simp add: inj_on_insert)
  qed
  have imgall: "?p ` {j \<in> {0..m}. ?p j \<noteq> 0} = {1..Suc k}"
    unfolding S using img p(1) by (simp add: atLeastAtMostSuc_conv)
  have le: "?p j \<le> n" if "j \<in> {0..m}" for j
  proof (cases "?p j = 0")
    case False
    then have "?p j \<in> {1..Suc k}" using that imgall by blast
    then show ?thesis using k by simp
  qed simp
  have duals: "duals_ok cost n m h0" using A(1) by (auto simp: duals_ok_def h0_def)
  have "search_inv cost n (d + n) h0 (\<lambda>_. ASSIGN_INF) [] 0"
    using duals inj le A(4) unfolding search_inv_def m_def [symmetric]
    by (auto simp: path_ok_def rows_ok_def minv_ok_def p(1)) (simp_all add: h0_def)
  from search_path_inv [OF this costs, of "\<lambda>_. False" "Suc (d + n)"]
  obtain h1 minv vis j1 where f: "search_path (Suc m) cost m h0 (\<lambda>_. ASSIGN_INF) (\<lambda>_. False) 0 = Some (h1, j1)"
    "search_inv cost n m h1 minv vis j1" "assign_p h1 = ?p" "?p j1 = 0"
    "\<forall>i. i \<notin> ?p ` {0..m} \<longrightarrow> assign_u h1 i = assign_u h0 i"
    by (auto simp: p(1) m_def)
  let ?L = "vis @ [j1]"
  have I: "distinct ?L" "hd ?L = 0" "set ?L \<subseteq> {0..m}" "path_ok cost h1 ?L" "\<forall>j\<in>set vis. ?p j \<noteq> 0"
    "duals_ok cost n m h1"
    using f(2,3) unfolding search_inv_def by simp_all
  have vis: "0 < length vis" using I(2) f(4) p(1) by (cases vis) auto
  have "length ?L \<le> Suc m" using card_mono [OF _ I(3)] distinct_card [OF I(1)] by simp
  then have fuel: "length vis \<le> Suc m" by simp
  have hole: "hole_ok cost m h1 {1..Suc k} ?p j1"
  proof -
    have "{j \<in> {0..m} - {j1}. ?p j \<noteq> 0} = {j \<in> {0..m}. ?p j \<noteq> 0}" using f(4) by auto
    then show ?thesis using inj imgall I(6) f(3) unfolding hole_ok_def duals_ok_def by simp
  qed
  have "\<exists>q'. augment (Suc m) (assign_way h1) ?p (?L ! length vis) = Some q' \<and> hole_ok cost m h1 {1..Suc k} q' 0"
    by (rule augment_ok [OF I(1-4)]) (use hole I(5) vis fuel f(3) in \<open>auto simp: nth_append\<close>)
  then obtain q where q: "augment (Suc m) (assign_way h1) ?p j1 = Some q" "hole_ok cost m h1 {1..Suc k} q 0"
    by auto
  have "assign_row cost (d + n) h (Suc k) = Some (h1\<lparr>assign_p := q\<rparr>)"
    using f(1,3) q(1) unfolding assign_row_def m_def [symmetric] h0_def [symmetric]
    by (simp del: search_path.simps augment.simps)
  moreover have "assigned cost n m (Suc k) (h1\<lparr>assign_p := q\<rparr>)"
  proof -
    have "assign_u h1 i = 0" if "i > Suc k" for i
    proof -
      have "i \<notin> ?p ` {0..m}"
      proof
        assume "i \<in> ?p ` {0..m}"
        then obtain j where "i = ?p j" "j \<in> {0..m}" by blast
        with that have "i \<in> ?p ` {j \<in> {0..m}. ?p j \<noteq> 0}" by auto
        then show False using that unfolding imgall by simp
      qed
      then show ?thesis using f(5) A(4) that by (simp add: h0_def)
    qed
    then show ?thesis using q(2) I(6) unfolding assigned_def hole_ok_def nonhole_zero duals_ok_def
      by auto
  qed
  ultimately show ?thesis by (auto simp: m_def)
qed

lemma assign_rows_ok:
  assumes "assigned cost n (d + n) k h" "costs_ok cost n d B" "k \<le> n"
  shows "\<exists>h'. assign_rows cost (d + n) h [Suc k..<Suc n] = Some h' \<and> assigned cost n (d + n) n h'"
  using assms
proof (induction "n - k" arbitrary: k h)
  case 0
  then show ?case by simp
next
  case (Suc r)
  then have k: "k < n" by simp
  from assign_row_ok [OF Suc.prems(1,2) k] obtain h1
    where h1: "assign_row cost (d + n) h (Suc k) = Some h1" "assigned cost n (d + n) (Suc k) h1" by blast
  have "[Suc k..<Suc n] = Suc k # [Suc (Suc k)..<Suc n]" using k by (simp add: upt_conv_Cons)
  then show ?case using Suc.hyps(1) [OF _ h1(2) Suc.prems(2)] Suc.hyps(2) k h1(1) by simp
qed

lemma assigned_start: "costs_ok cost n d B \<Longrightarrow> assigned cost n (d + n) 0 assign_start"
proof -
  assume c: "costs_ok cost n d B"
  have "0 \<le> cost (i - 1) (j - 1)" if "i \<in> {1..n}" "j \<in> {1..d + n}" for i j
    using c that unfolding costs_ok_def by (auto simp: Suc_le_eq)
  then show ?thesis by (simp add: assigned_def assign_start_def duals_ok_def slack_def)
qed

section \<open>Reading off the matches\<close>

definition real_match :: "cost_table \<Rightarrow> (nat \<Rightarrow> nat) \<Rightarrow> nat \<Rightarrow> bool" where
  "real_match cost p j \<longleftrightarrow> p j \<noteq> 0 \<and> cost (p j - 1) (j - 1) < ASSIGN_INF div 2"

lemma foldl_entries:
  assumes "inj_on key {j \<in> set js. P j}" "distinct js"
  shows "foldl (\<lambda>m j. if P j then m(key j := Some (val j)) else m) (\<lambda>_. None) js slot = Some x
    \<longleftrightarrow> (\<exists>j\<in>set js. P j \<and> key j = slot \<and> x = val j)"
  using assms
proof (induction js rule: rev_induct)
  case (snoc j js)
  have inj: "inj_on key {j \<in> set js. P j}"
    using snoc.prems(1) by (rule inj_on_subset) auto
  have "key k \<noteq> key j" if "k \<in> set js" "P k" "P j" for k
    using inj_onD [OF snoc.prems(1), of k j] that snoc.prems(2) by auto
  with snoc.IH [OF inj] snoc.prems(2) show ?case by auto
qed simp

lemma read_match_iff:
  assumes "inj_on (\<lambda>j. active ! (p j - 1)) {j \<in> {1..d}. real_match cost p j}"
  shows "read_match cost active p d slot = Some x
    \<longleftrightarrow> (\<exists>j\<in>{1..d}. real_match cost p j \<and> active ! (p j - 1) = slot \<and> x = j - 1)"
proof -
  have s: "set [1..<Suc d] = {1..d}" by auto
  show ?thesis
    unfolding read_match_def real_match_def [symmetric]
    by (subst foldl_entries, unfold s) (use assms in simp_all)
qed

definition valid_assignment :: "nat \<Rightarrow> nat \<Rightarrow> (nat \<Rightarrow> nat option) \<Rightarrow> bool" where
  "valid_assignment n d f \<longleftrightarrow> (\<forall>i<n. \<forall>j. f i = Some j \<longrightarrow> j < d)
     \<and> (\<forall>i<n. \<forall>k<n. \<forall>j. f i = Some j \<longrightarrow> f k = Some j \<longrightarrow> i = k)"

text \<open>What an assignment costs when every unmatched row costs \<open>B\<close>.\<close>

definition assignment_cost :: "cost_table \<Rightarrow> int \<Rightarrow> nat \<Rightarrow> (nat \<Rightarrow> nat option) \<Rightarrow> int" where
  "assignment_cost cost B n f = (\<Sum>i<n. case f i of None \<Rightarrow> B | Some j \<Rightarrow> cost i j)"

lemma row_column:
  assumes "assigned cost n m n h" "i < n"
  shows "\<exists>!j. j \<in> {1..m} \<and> assign_p h j = Suc i"
proof -
  have inj: "inj_on (assign_p h) {j \<in> {1..m}. assign_p h j \<noteq> 0}"
    and img: "assign_p h ` {j \<in> {1..m}. assign_p h j \<noteq> 0} = {1..n}"
    using assms by (simp_all add: assigned_def)
  have "Suc i \<in> {1..n}" using assms(2) by simp
  then obtain j where j: "j \<in> {1..m}" "assign_p h j = Suc i" unfolding img [symmetric] by auto
  have "k = j" if "k \<in> {1..m}" "assign_p h k = Suc i" for k
    by (rule inj_onD [OF inj]) (use that j in auto)
  with j show ?thesis by blast
qed

text \<open>The cost of the computed columns is a lower bound for every injective choice of columns.\<close>

lemma duality:
  assumes a: "assigned cost n m n h"
    and col: "\<forall>i<n. col i \<in> {1..m} \<and> assign_p h (col i) = Suc i"
    and s: "\<forall>i<n. sg i \<in> {1..m}" "inj_on sg {..<n}"
  shows "(\<Sum>i<n. cost i (col i - 1)) \<le> (\<Sum>i<n. cost i (sg i - 1))"
proof -
  let ?u = "assign_u h" and ?v = "assign_v h" and ?p = "assign_p h"
  have D: "duals_ok cost n m h" using a by (simp add: assigned_def)
  have inj: "inj_on col {..<n}"
  proof (rule inj_onI)
    fix i k assume "i \<in> {..<n}" "k \<in> {..<n}" "col i = col k"
    then have "Suc i = Suc k" using col by (metis lessThan_iff)
    then show "i = k" by simp
  qed
  have img: "?p ` {j \<in> {1..m}. ?p j \<noteq> 0} = {1..n}" using a by (simp add: assigned_def)
  have free: "?v j = 0" if "j \<in> {1..m}" "j \<notin> col ` {..<n}" for j
  proof -
    have "?p j = 0"
    proof (rule ccontr)
      assume nz: "?p j \<noteq> 0"
      then have "?p j \<in> {1..n}" using img that(1) by blast
      then obtain i where i: "i < n" "?p j = Suc i" by (cases "?p j") auto
      then have "j = col i" using row_column [OF a i(1)] col that(1) by blast
      then show False using that(2) i(1) by simp
    qed
    then show ?thesis using D that(1) unfolding duals_ok_def by blast
  qed
  have tight: "cost i (col i - 1) = ?u (Suc i) + ?v (col i)" if "i < n" for i
  proof -
    have c: "col i \<in> {1..m}" "?p (col i) = Suc i" using col that by auto
    then have "?p (col i) \<noteq> 0" by simp
    then have "slack_of cost h (?p (col i)) (col i) = 0" using D c(1) unfolding duals_ok_def by blast
    then show ?thesis using c(2) by (simp add: slack_def)
  qed
  have feas: "?u (Suc i) + ?v (sg i) \<le> cost i (sg i - 1)" if "i < n" for i
  proof -
    have "Suc i \<in> {1..n}" "sg i \<in> {1..m}" using s(1) that by auto
    then have "0 \<le> slack_of cost h (Suc i) (sg i)" using D unfolding duals_ok_def by blast
    then show ?thesis by (simp add: slack_def)
  qed
  have "(\<Sum>j\<in>col ` {..<n}. ?v j) = (\<Sum>j\<in>{1..m}. ?v j)"
    by (rule sum.mono_neutral_left) (use col free in auto)
  also have "\<dots> \<le> (\<Sum>j\<in>sg ` {..<n}. ?v j)"
  proof -
    have "(\<Sum>j\<in>sg ` {..<n}. - ?v j) \<le> (\<Sum>j\<in>{1..m}. - ?v j)"
      by (rule sum_mono2) (use s(1) D in \<open>auto simp: duals_ok_def\<close>)
    then show ?thesis by (simp add: sum_negf)
  qed
  finally have "(\<Sum>i<n. ?v (col i)) \<le> (\<Sum>i<n. ?v (sg i))"
    using sum.reindex [OF inj, of ?v] sum.reindex [OF s(2), of ?v] by simp
  then have "(\<Sum>i<n. ?u (Suc i) + ?v (col i)) \<le> (\<Sum>i<n. ?u (Suc i) + ?v (sg i))"
    by (simp add: sum.distrib)
  also have "\<dots> \<le> (\<Sum>i<n. cost i (sg i - 1))" by (rule sum_mono) (use feas in simp)
  finally show ?thesis using tight by simp
qed

section \<open>The assignment is optimal\<close>

text \<open>An assignment extended by the "unmatched" columns.\<close>

definition full_columns :: "nat \<Rightarrow> (nat \<Rightarrow> nat option) \<Rightarrow> nat \<Rightarrow> nat" where
  "full_columns d f i = (case f i of None \<Rightarrow> d + i + 1 | Some j \<Rightarrow> j + 1)"

lemma full_columns:
  assumes "valid_assignment n d f" "costs_ok cost n d B"
  shows "\<forall>i<n. full_columns d f i \<in> {1..d + n}" "inj_on (full_columns d f) {..<n}"
    "(\<Sum>i<n. cost i (full_columns d f i - 1)) = assignment_cost cost B n f"
proof -
  have lt: "j < d" if "i < n" "f i = Some j" for i j using assms(1) that by (simp add: valid_assignment_def)
  show "\<forall>i<n. full_columns d f i \<in> {1..d + n}"
  proof (intro allI impI)
    fix i assume "i < n"
    then show "full_columns d f i \<in> {1..d + n}" using lt [of i]
      by (cases "f i") (auto simp: full_columns_def less_imp_le Suc_le_eq trans_less_add1)
  qed
  have one: "i = k" if "i < n" "k < n" "f i = Some j" "f k = Some j" for i j k
    using assms(1) that by (simp add: valid_assignment_def)
  show "inj_on (full_columns d f) {..<n}"
  proof (rule inj_onI)
    fix i k assume ik: "i \<in> {..<n}" "k \<in> {..<n}" "full_columns d f i = full_columns d f k"
    show "i = k"
      using ik lt [of i] lt [of k] one [of i k]
      by (cases "f i"; cases "f k") (auto simp: full_columns_def)
  qed
  have "cost i (full_columns d f i - 1) = (case f i of None \<Rightarrow> B | Some j \<Rightarrow> cost i j)" if "i < n" for i
    using assms(2) that by (auto simp: full_columns_def costs_ok_def split: option.split)
  then show "(\<Sum>i<n. cost i (full_columns d f i - 1)) = assignment_cost cost B n f"
    by (simp add: assignment_cost_def)
qed

lemma hungarian_result:
  assumes costs: "costs_ok cost (length active) det_cnt B" and "B < ASSIGN_INF div 2" and dist: "distinct active"
  shows "\<exists>match. hx_hungarian_assign cost active det_cnt = Some match
    \<and> (\<forall>s j. match s = Some j \<longrightarrow> (\<exists>i<length active. active ! i = s \<and> j < det_cnt \<and> cost i j < ASSIGN_INF div 2))
    \<and> valid_assignment (length active) det_cnt (\<lambda>i. match (active ! i))
    \<and> (\<forall>f. valid_assignment (length active) det_cnt f \<longrightarrow>
        assignment_cost cost B (length active) (\<lambda>i. match (active ! i)) \<le> assignment_cost cost B (length active) f)"
proof -
  define n where "n = length active"
  define m where "m = det_cnt + n"
  from assign_rows_ok [OF assigned_start [OF costs] costs, folded n_def]
  obtain h where h: "assign_rows cost m assign_start [1..<Suc n] = Some h" "assigned cost n m n h"
    by (auto simp: m_def)
  let ?p = "assign_p h"
  define match where "match = read_match cost active ?p det_cnt"
  have run: "hx_hungarian_assign cost active det_cnt = Some match"
    using h(1) by (simp add: hx_hungarian_assign_def match_def n_def m_def)
  have pinj: "inj_on ?p {j \<in> {1..m}. ?p j \<noteq> 0}" and img: "?p ` {j \<in> {1..m}. ?p j \<noteq> 0} = {1..n}"
    using h(2) by (simp_all add: assigned_def)
  have prange: "?p j - 1 < n \<and> Suc (?p j - 1) = ?p j" if "j \<in> {1..m}" "?p j \<noteq> 0" for j
  proof -
    have "?p j \<in> {1..n}" using img that by blast
    then show ?thesis by auto
  qed
  have kinj: "inj_on (\<lambda>j. active ! (?p j - 1)) {j \<in> {1..det_cnt}. real_match cost ?p j}"
  proof (rule inj_onI)
    fix j k assume jk: "j \<in> {j \<in> {1..det_cnt}. real_match cost ?p j}"
      "k \<in> {j \<in> {1..det_cnt}. real_match cost ?p j}" "active ! (?p j - 1) = active ! (?p k - 1)"
    have r: "j \<in> {j \<in> {1..m}. ?p j \<noteq> 0}" "k \<in> {j \<in> {1..m}. ?p j \<noteq> 0}"
      using jk by (auto simp: real_match_def m_def)
    then have km: "j \<in> {1..m}" "?p j \<noteq> 0" "k \<in> {1..m}" "?p k \<noteq> 0" by simp_all
    note b = prange [OF km(1,2)] prange [OF km(3,4)]
    have "?p j - 1 < length active" "?p k - 1 < length active" using b unfolding n_def by blast+
    then have "?p j - 1 = ?p k - 1" using jk(3) nth_eq_iff_index_eq [OF dist] by blast
    then have "?p j = ?p k" using b by metis
    from inj_onD [OF pinj this r] show "j = k" .
  qed
  note read = read_match_iff [OF kinj, folded match_def]
  define col where "col i = (THE j. j \<in> {1..m} \<and> ?p j = Suc i)" for i
  have col: "\<forall>i<n. col i \<in> {1..m} \<and> ?p (col i) = Suc i"
    using theI' [OF row_column [OF h(2)]] by (simp add: col_def)
  have rows: "match (active ! i) = Some j \<longleftrightarrow> col i = Suc j \<and> j < det_cnt \<and> cost i j < ASSIGN_INF div 2"
    if "i < n" for i j
  proof
    assume "match (active ! i) = Some j"
    then obtain k where k: "k \<in> {1..det_cnt}" "real_match cost ?p k" "active ! (?p k - 1) = active ! i" "j = k - 1"
      unfolding read by blast
    have km: "k \<in> {1..m}" "?p k \<noteq> 0" using k by (auto simp: m_def real_match_def)
    have "?p k - 1 < length active" "i < length active" "Suc (?p k - 1) = ?p k"
      using prange [OF km] that unfolding n_def by blast+
    then have "?p k = Suc i" using k(3) nth_eq_iff_index_eq [OF dist] by metis
    moreover from this have "col i = k" using row_column [OF h(2) that] col that km(1) by blast
    ultimately show "col i = Suc j \<and> j < det_cnt \<and> cost i j < ASSIGN_INF div 2"
      using k by (auto simp: real_match_def)
  next
    assume j: "col i = Suc j \<and> j < det_cnt \<and> cost i j < ASSIGN_INF div 2"
    then show "match (active ! i) = Some j"
      unfolding read using col that by (intro bexI [of _ "Suc j"]) (auto simp: real_match_def)
  qed
  have sound: "\<exists>i<n. active ! i = s \<and> j < det_cnt \<and> cost i j < ASSIGN_INF div 2"
    if ms: "match s = Some j" for s j
  proof -
    obtain k where k: "k \<in> {1..det_cnt}" "real_match cost ?p k" "active ! (?p k - 1) = s" "j = k - 1"
      using ms unfolding read by blast
    then show ?thesis using prange [of k] by (intro exI [of _ "?p k - 1"]) (auto simp: real_match_def m_def)
  qed
  have valid: "valid_assignment n det_cnt (\<lambda>i. match (active ! i))"
    unfolding valid_assignment_def
  proof (intro conjI allI impI)
    fix i k j assume ik: "i < n" "k < n" "match (active ! i) = Some j" "match (active ! k) = Some j"
    then have "col i = col k" by (simp add: rows)
    then show "i = k" using col ik(1,2) by (metis Suc_inject)
  qed (simp add: rows)
  have "assignment_cost cost B n (\<lambda>i. match (active ! i)) \<le> assignment_cost cost B n f"
    if f: "valid_assignment n det_cnt f" for f
  proof -
    have "(case match (active ! i) of None \<Rightarrow> B | Some j \<Rightarrow> cost i j) \<le> cost i (col i - 1)" if i: "i < n" for i
    proof (cases "match (active ! i)")
      case None
      show ?thesis
      proof (cases "col i \<le> det_cnt")
        case True
        then have "\<not> cost i (col i - 1) < ASSIGN_INF div 2"
          using rows [OF i, of "col i - 1"] None col i by (auto simp: Suc_le_eq)
        then show ?thesis using None assms(2) by simp
      next
        case False
        then have "cost i (col i - 1) = B" using costs col i by (auto simp: costs_ok_def m_def n_def)
        then show ?thesis using None by simp
      qed
    next
      case (Some j)
      then have "col i = Suc j" using rows [OF i] by blast
      then show ?thesis using Some by simp
    qed
    then have "assignment_cost cost B n (\<lambda>i. match (active ! i)) \<le> (\<Sum>i<n. cost i (col i - 1))"
      unfolding assignment_cost_def by (intro sum_mono) simp
    also have "\<dots> \<le> (\<Sum>i<n. cost i (full_columns det_cnt f i - 1))"
      by (rule duality [OF h(2) col])
        (use full_columns [OF f costs [folded n_def]] in \<open>simp_all add: m_def\<close>)
    finally show ?thesis using full_columns(3) [OF f costs [folded n_def]] by simp
  qed
  with run sound valid show ?thesis unfolding n_def by blast
qed

text \<open>C1: the Hungarian assignment always returns, and what it returns is a minimum-cost assignment:
  every matched slot is an active slot with a detection of finite cost, no detection is given to two
  slots, and no other assignment of detections to tracks has a smaller total cost when every
  unmatched track is charged the "unmatched" cost.\<close>

theorem hungarian_optimal:
  assumes costs: "costs_ok cost (length active) det_cnt B" and "B < ASSIGN_INF div 2" and dist: "distinct active"
  shows "\<exists>match. hx_hungarian_assign cost active det_cnt = Some match
    \<and> (\<forall>s j. match s = Some j \<longrightarrow> (\<exists>i<length active. active ! i = s \<and> j < det_cnt \<and> cost i j < ASSIGN_INF div 2))
    \<and> valid_assignment (length active) det_cnt (\<lambda>i. match (active ! i))
    \<and> (\<forall>f. valid_assignment (length active) det_cnt f \<longrightarrow>
        assignment_cost cost B (length active) (\<lambda>i. match (active ! i)) \<le> assignment_cost cost B (length active) f)"
  by (rule hungarian_result [OF assms])

text \<open>Two tracks and two detections where the first track's best choice is not optimal.\<close>

definition cross_cost :: cost_table where
  "cross_cost i j = (if j \<ge> 2 then 1000 else if i = 0 then (if j = 0 then 1 else 2) else if j = 0 then 5 else 100)"

theorem hungarian_optimal_witness:
  "\<exists>match. hx_hungarian_assign cross_cost [3, 7] 2 = Some match
    \<and> assignment_cost cross_cost 1000 2 (\<lambda>i. match ([3, 7] ! i)) \<le> 7"
proof -
  have c: "costs_ok cross_cost (length [3, 7]) 2 1000" "(1000::int) < ASSIGN_INF div 2" "distinct [3::nat, 7]"
    by (auto simp: costs_ok_def cross_cost_def ASSIGN_INF_def)
  obtain match where m: "hx_hungarian_assign cross_cost [3, 7] 2 = Some match"
    "\<forall>f. valid_assignment 2 2 f \<longrightarrow>
      assignment_cost cross_cost 1000 2 (\<lambda>i. match ([3, 7] ! i)) \<le> assignment_cost cross_cost 1000 2 f"
    using hungarian_optimal [OF c] by (auto simp: numeral_2_eq_2)
  let ?f = "\<lambda>i. if i = 0 then Some 1 else Some (0::nat)"
  have "valid_assignment 2 2 ?f" by (auto simp: valid_assignment_def less_2_cases_iff)
  moreover have "assignment_cost cross_cost 1000 2 ?f = 7"
    by (simp add: assignment_cost_def numeral_2_eq_2 cross_cost_def)
  ultimately show ?thesis using m by fastforce
qed

end
