(* ===== verification/Hx_Track.thy ===== *)
theory Hx_Track
  imports Hx_Motion Hx_Assign
begin

text \<open>
  The slot tracker (\<open>hx-algo-track.c\<close>): matching detections to active slots, following the matched
  ones, ageing or releasing the others, deferring suspected split peaks and opening new slots.
\<close>

section \<open>Matching costs\<close>

definition active_slots :: "hx_algo \<Rightarrow> nat list" where
  "active_slots algo = filter (\<lambda>i. trk_active (tracks algo ! i)) [0..<HIMAX_MAX_TOUCH]"

definition contact_at :: "hx_algo \<Rightarrow> nat \<Rightarrow> hx_contact option" where
  "contact_at algo j = (if j < length (contacts algo) then Some (contacts algo ! j) else None)"

definition continuation_at :: "hx_algo \<Rightarrow> nat \<Rightarrow> bool" where
  "continuation_at algo j = (case contact_at algo j of None \<Rightarrow> False | Some ct \<Rightarrow> ct_continuation_only ct)"

definition match_gate :: "hx_trk_params \<Rightarrow> hx_track \<Rightarrow> int" where
  "match_gate p t =
     (let g = max (track_dist2_max p) 1 in if trk_missed t \<noteq> 0 then g * min (trk_missed t + 1) 4 else g)"

definition unmatched_cost :: "hx_trk_params \<Rightarrow> int" where
  "unmatched_cost p = max (track_dist2_max p) 1 * 16"

text \<open>\<open>target_has_regular\<close> and \<open>target_has_same_peak\<close> of a slot.\<close>

definition regular_in_gate :: "hx_algo \<Rightarrow> input_mt_pos list \<Rightarrow> nat \<Rightarrow> nat \<Rightarrow> bool" where
  "regular_in_gate algo dets ti j \<longleftrightarrow> \<not> continuation_at algo j
     \<and> hx_dist2_predicted (dets ! j) (tracks algo ! ti) \<le> match_gate (trk algo) (tracks algo ! ti)"

definition target_has_regular :: "hx_algo \<Rightarrow> input_mt_pos list \<Rightarrow> nat \<Rightarrow> bool" where
  "target_has_regular algo dets ti \<longleftrightarrow> list_ex (regular_in_gate algo dets ti) [0..<length dets]"

definition target_has_same_peak :: "hx_algo \<Rightarrow> input_mt_pos list \<Rightarrow> nat \<Rightarrow> bool" where
  "target_has_same_peak algo dets ti \<longleftrightarrow>
     list_ex (\<lambda>j. regular_in_gate algo dets ti j \<and>
       (case contact_at algo j of None \<Rightarrow> False
        | Some ct \<Rightarrow> trk_source_peak_id (tracks algo ! ti) \<noteq> 0
            \<and> ct_source_peak_id ct = trk_source_peak_id (tracks algo ! ti))) [0..<length dets]"

definition peak_changed :: "hx_algo \<Rightarrow> hx_track \<Rightarrow> nat \<Rightarrow> bool" where
  "peak_changed algo t j =
     (case contact_at algo j of None \<Rightarrow> False
      | Some ct \<Rightarrow> trk_source_peak_id t \<noteq> 0 \<and> ct_source_peak_id ct \<noteq> 0
          \<and> trk_source_peak_id t \<noteq> ct_source_peak_id ct)"

text \<open>A continuation-only contact serves the slot it is bound to, and only when no regular one does.\<close>

definition continuation_blocked :: "hx_algo \<Rightarrow> input_mt_pos list \<Rightarrow> nat \<Rightarrow> nat \<Rightarrow> bool" where
  "continuation_blocked algo dets ti j =
     (case contact_at algo j of None \<Rightarrow> False
      | Some ct \<Rightarrow> ct_continuation_only ct
          \<and> (ct_continuation_track_slot ct \<noteq> int ti \<or> target_has_regular algo dets ti))"

definition detection_cost :: "hx_algo \<Rightarrow> input_mt_pos list \<Rightarrow> nat \<Rightarrow> nat \<Rightarrow> int" where
  "detection_cost algo dets ti j =
     (let p = trk algo; t = tracks algo ! ti; d2 = hx_dist2_predicted (dets ! j) t in
      if continuation_blocked algo dets ti j then ASSIGN_INF
      else if d2 \<le> match_gate p t then
        if peak_changed algo t j then
          let age_weight = 1 + min (trk_source_peak_age t) 20 sdiv 10;
              cost = (if target_has_same_peak algo dets ti then hx_dist2_motion_ray (dets ! j) t else d2) in
          s64 (cost + track_peak_id_penalty p * age_weight)
        else d2
      else ASSIGN_INF)"

text \<open>\<open>assign_cost[i][j]\<close>.\<close>

definition assign_cost :: "hx_algo \<Rightarrow> input_mt_pos list \<Rightarrow> cost_table" where
  "assign_cost algo dets i j =
     (if j < length dets then detection_cost algo dets (active_slots algo ! i) j
      else unmatched_cost (trk algo))"

section \<open>The greedy alternative\<close>

definition greedy_pick :: "(nat \<Rightarrow> int) \<Rightarrow> (nat \<Rightarrow> bool) \<Rightarrow> nat \<Rightarrow> nat option" where
  "greedy_pick cost det_used det_cnt =
     snd (foldl (\<lambda>(best, pick) j.
        if \<not> det_used j \<and> cost j < best then (cost j, Some j) else (best, pick))
       (ASSIGN_INF, None) [0..<det_cnt])"

definition greedy_row ::
  "cost_table \<Rightarrow> nat list \<Rightarrow> nat \<Rightarrow> (nat \<Rightarrow> nat option) \<times> (nat \<Rightarrow> bool) \<Rightarrow> nat \<Rightarrow> (nat \<Rightarrow> nat option) \<times> (nat \<Rightarrow> bool)" where
  "greedy_row cost active det_cnt st i =
     (let (match, det_used) = st in
      case greedy_pick (cost i) det_used det_cnt of
        None \<Rightarrow> st
      | Some j \<Rightarrow> (match(active ! i := Some j), det_used(j := True)))"

definition greedy_assign :: "cost_table \<Rightarrow> nat list \<Rightarrow> nat \<Rightarrow> nat \<Rightarrow> nat option" where
  "greedy_assign cost active det_cnt =
     fst (foldl (greedy_row cost active det_cnt) (\<lambda>_. None, \<lambda>_. False) [0..<length active])"

text \<open>The assignment step; \<open>hungarian_optimal\<close> shows that the Hungarian variant always returns.\<close>

definition match_detections :: "hx_algo \<Rightarrow> input_mt_pos list \<Rightarrow> (nat \<Rightarrow> nat option) option" where
  "match_detections algo dets =
     (let active = active_slots algo; cost = assign_cost algo dets in
      if hungarian_enabled (trk algo) then hx_hungarian_assign cost active (length dets)
      else Some (greedy_assign cost active (length dets)))"

section \<open>Following the matched slots\<close>

definition jumped :: "hx_trk_params \<Rightarrow> hx_track \<Rightarrow> input_mt_pos \<Rightarrow> bool" where
  "jumped p t d \<longleftrightarrow> track_jump_dist2 p > 0 \<and> trk_age t \<ge> 2
     \<and> sq_dist (s32 (pos_x d - trk_x t)) (s32 (pos_y d - trk_y t)) > track_jump_dist2 p"

definition follow_track :: "hx_algo \<Rightarrow> hx_track \<Rightarrow> input_mt_pos \<Rightarrow> nat \<Rightarrow> hx_track" where
  "follow_track algo t d j =
     (let t = (hx_filter_track (trk algo) t d)\<lparr>trk_missed := 0\<rparr>;
          t = (case contact_at algo j of None \<Rightarrow> t
               | Some ct \<Rightarrow>
                   let t = t\<lparr>trk_signal_sum := ct_signal_sum ct\<rparr> in
                   if ct_source_peak_id ct \<noteq> 0
                   then t\<lparr>trk_source_peak_id := ct_source_peak_id ct,
                     trk_source_peak_age := ct_source_peak_age ct\<rparr> else t);
          t = (if trk_age t < U8_MAX then t\<lparr>trk_age := trk_age t + 1\<rparr> else t) in
      if trk_debounce t > 0 then t\<lparr>trk_debounce := trk_debounce t - 1\<rparr> else t)"

text \<open>State: the slots, the detections used up, and the slots freed by a jump.\<close>

type_synonym follow_state = "hx_track list \<times> (nat \<Rightarrow> bool) \<times> (nat \<Rightarrow> bool)"

definition follow_slot ::
  "hx_algo \<Rightarrow> input_mt_pos list \<Rightarrow> (nat \<Rightarrow> nat option) \<Rightarrow> follow_state \<Rightarrow> nat \<Rightarrow> follow_state" where
  "follow_slot algo dets match st ti =
     (case match ti of
        None \<Rightarrow> st
      | Some di \<Rightarrow>
          let (ts, det_used, jump_released) = st; t = ts ! ti in
          if jumped (trk algo) t (dets ! di)
          then (ts[ti := hx_reset_track t], det_used, jump_released(ti := True))
          else (ts[ti := follow_track algo t (dets ! di) di], det_used(di := True), jump_released))"

text \<open>Unmatched slots are aged or released.\<close>

definition age_track :: "hx_algo \<Rightarrow> hx_track \<Rightarrow> hx_track" where
  "age_track algo t =
     (if \<not> trk_reported t \<or> (track_active_guard (trk algo) \<and> \<not> touch_active algo) then hx_reset_track t
      else let missed = u8 (trk_missed t + 1) in
        if missed > track_lost_frames (trk algo) then hx_reset_track t else t\<lparr>trk_missed := missed\<rparr>)"

definition age_slot :: "hx_algo \<Rightarrow> (nat \<Rightarrow> nat option) \<Rightarrow> hx_track list \<Rightarrow> nat \<Rightarrow> hx_track" where
  "age_slot algo match ts i =
     (if \<not> trk_active (ts ! i) \<or> match i \<noteq> None then ts ! i else age_track algo (ts ! i))"

section \<open>Split peaks\<close>

fun find_index :: "('a \<Rightarrow> bool) \<Rightarrow> 'a list \<Rightarrow> nat option" where
  "find_index P [] = None"
| "find_index P (x # xs) = (if P x then Some 0 else map_option Suc (find_index P xs))"

definition continuing_residual :: "hx_peak_competition list \<Rightarrow> int \<Rightarrow> bool" where
  "continuing_residual table peak =
     (case find_index (\<lambda>pc. peak \<noteq> 0 \<and> pc_peak_id pc = peak) table of
        None \<Rightarrow> False | Some k \<Rightarrow> pc_handoff_residual (table ! k))"

text \<open>Counting a competitor: the updated table and its age.\<close>

definition compete ::
  "hx_peak_competition list \<Rightarrow> int \<Rightarrow> bool \<Rightarrow> hx_peak_competition list \<times> int" where
  "compete table peak residual =
     (case find_index (\<lambda>pc. pc_peak_id pc = peak \<and> peak \<noteq> 0) table of
        Some k \<Rightarrow>
          let pc = table ! k;
              age = (if \<not> pc_seen pc \<and> pc_age pc < U8_MAX then pc_age pc + 1 else pc_age pc) in
          (table[k := pc\<lparr>pc_age := age, pc_seen := True,
             pc_handoff_residual := pc_handoff_residual pc \<or> residual\<rparr>], age)
      | None \<Rightarrow>
          case find_index (\<lambda>pc. pc_peak_id pc = 0 \<or> \<not> pc_seen pc) table of
            Some k \<Rightarrow>
              (if peak \<noteq> 0
               then table[k := \<lparr>pc_peak_id = peak, pc_age = 1, pc_seen = True, pc_handoff_residual = residual\<rparr>]
               else table, 1)
          | None \<Rightarrow> (table, 1))"

text \<open>One iteration of the loop over the active slots: the new table and whether it returns true.\<close>

definition split_with ::
  "hx_algo \<Rightarrow> input_mt_pos list \<Rightarrow> nat \<Rightarrow> nat \<Rightarrow> (nat \<Rightarrow> nat option) \<Rightarrow> (nat \<Rightarrow> int)
    \<Rightarrow> hx_peak_competition list \<Rightarrow> nat \<Rightarrow> hx_peak_competition list \<times> bool" where
  "split_with algo dets candidate reported match prior table ti =
     (case match ti of
        None \<Rightarrow> (table, False)
      | Some di \<Rightarrow>
          if di \<ge> length (contacts algo) \<or> \<not> trk_reported (tracks algo ! ti) \<or> di = candidate
          then (table, False)
          else
            let p = trk algo; ct = contacts algo ! candidate; other = contacts algo ! di;
                same_zone = (ct_source_zone_index ct = ct_source_zone_index other);
                handoff = (prior ti \<noteq> 0 \<and> ct_source_peak_id ct = prior ti
                  \<and> ct_source_peak_id other \<noteq> 0 \<and> ct_source_peak_id other \<noteq> prior ti);
                continuing = continuing_residual table (ct_source_peak_id ct) in
            if \<not> handoff \<and> \<not> continuing \<and> \<not> same_zone \<and> reported \<noteq> 1 then (table, False)
            else
              let confirm_frames = (if same_zone \<or> handoff \<or> continuing
                    then split_peak_confirm_frames p else split_cross_zone_confirm_frames p);
                  confirm_dist2 = (if same_zone then split_peak_dist2 p else split_cross_zone_dist2 p);
                  dx = s32 (pos_x (dets ! candidate) - pos_x (dets ! di));
                  dy = s32 (pos_y (dets ! candidate) - pos_y (dets ! di)) in
              if confirm_frames \<le> 1 then (table, False)
              else if handoff \<or> continuing \<or> sq_dist dx dy \<le> max confirm_dist2 1 then
                let (table, age) = compete table (ct_source_peak_id ct) handoff in
                (table, \<not> age \<ge> confirm_frames)
              else (table, False))"

fun split_scan ::
  "(hx_peak_competition list \<Rightarrow> nat \<Rightarrow> hx_peak_competition list \<times> bool)
    \<Rightarrow> hx_peak_competition list \<Rightarrow> nat list \<Rightarrow> hx_peak_competition list \<times> bool" where
  "split_scan f table [] = (table, False)"
| "split_scan f table (ti # tis) =
     (let (table, defer) = f table ti in if defer then (table, True) else split_scan f table tis)"

definition hx_is_unconfirmed_split ::
  "hx_algo \<Rightarrow> input_mt_pos list \<Rightarrow> nat \<Rightarrow> nat list \<Rightarrow> (nat \<Rightarrow> nat option) \<Rightarrow> (nat \<Rightarrow> int) \<Rightarrow> hx_algo \<times> bool" where
  "hx_is_unconfirmed_split algo dets candidate active match prior =
     (if candidate \<ge> length (contacts algo) then (algo, False)
      else
        let reported = length (filter (\<lambda>i. trk_reported (tracks algo ! i)) active);
            (table, defer) =
              split_scan (split_with algo dets candidate reported match prior) (peak_competition algo) active in
        (algo\<lparr>peak_competition := table\<rparr>, defer))"

section \<open>New slots\<close>

definition start_debounce :: "hx_algo \<Rightarrow> nat \<Rightarrow> nat \<Rightarrow> nat \<Rightarrow> int" where
  "start_debounce algo active_cnt det_cnt j =
     (let p = trk algo;
          base = (case contact_at algo j of None \<Rightarrow> debounce_base p
            | Some ct \<Rightarrow>
                let d = debounce_base p;
                    d = (if ct_signal_sum ct < debounce_strong_signal p then u8 (d + debounce_weak_extra p) else d) in
                if ct_is_edge ct then u8 (d + debounce_edge_extra p) else d) in
      case contact_at algo j of None \<Rightarrow> base
      | Some ct \<Rightarrow>
          if fast_edge_start_pending algo \<and> active_cnt = 0 \<and> det_cnt = 1 \<and> j = 0
            \<and> (ct_is_edge ct \<or> ct_fast_start_candidate ct) then 0 else base)"

definition start_track :: "hx_algo \<Rightarrow> nat \<Rightarrow> nat \<Rightarrow> nat \<Rightarrow> input_mt_pos \<Rightarrow> hx_track \<Rightarrow> hx_track" where
  "start_track algo active_cnt det_cnt j d t =
     (let debounce = start_debounce algo active_cnt det_cnt j;
          t = t\<lparr>trk_active := True, trk_age := 1, trk_missed := 0, trk_debounce := debounce,
                trk_x := pos_x d, trk_y := pos_y d, trk_vx := 0, trk_vy := 0,
                trk_filtered_x_q8 := s32 (pos_x d * 2 ^ 8), trk_filtered_y_q8 := s32 (pos_y d * 2 ^ 8),
                trk_reported := (debounce = 0 \<and> touch_active algo)\<rparr> in
      case contact_at algo j of None \<Rightarrow> t
      | Some ct \<Rightarrow> t\<lparr>trk_source_peak_id := ct_source_peak_id ct,
          trk_source_peak_age := ct_source_peak_age ct, trk_signal_sum := ct_signal_sum ct\<rparr>)"

definition free_slot :: "hx_algo \<Rightarrow> (nat \<Rightarrow> bool) \<Rightarrow> nat option" where
  "free_slot algo jump_released =
     find_index (\<lambda>i. \<not> trk_active (tracks algo ! i) \<and> \<not> jump_released i) [0..<HIMAX_MAX_TOUCH]"

definition open_slot ::
  "input_mt_pos list \<Rightarrow> nat list \<Rightarrow> (nat \<Rightarrow> nat option) \<Rightarrow> (nat \<Rightarrow> int) \<Rightarrow> (nat \<Rightarrow> bool) \<Rightarrow> (nat \<Rightarrow> bool)
    \<Rightarrow> hx_algo \<Rightarrow> nat \<Rightarrow> hx_algo" where
  "open_slot dets active match prior det_used jump_released algo j =
     (if det_used j then algo
      else if continuation_at algo j then algo
      else
        let (algo, defer) = hx_is_unconfirmed_split algo dets j active match prior in
        if defer then algo
        else case free_slot algo jump_released of
            None \<Rightarrow> algo
          | Some i \<Rightarrow> algo\<lparr>tracks := (tracks algo)[i :=
              start_track algo (length active) (length dets) j (dets ! j) (tracks algo ! i)]\<rparr>)"

section \<open>One tracking step\<close>

definition unsee :: "hx_peak_competition \<Rightarrow> hx_peak_competition" where
  "unsee pc = pc\<lparr>pc_seen := False\<rparr>"

definition drop_unseen :: "hx_peak_competition \<Rightarrow> hx_peak_competition" where
  "drop_unseen pc = (if pc_seen pc then pc else zero_competition)"

definition prior_peak_id :: "hx_algo \<Rightarrow> nat \<Rightarrow> int" where
  "prior_peak_id algo i = (if trk_active (tracks algo ! i) then trk_source_peak_id (tracks algo ! i) else 0)"

definition track_with_match ::
  "hx_algo \<Rightarrow> input_mt_pos list \<Rightarrow> (nat \<Rightarrow> nat option) \<Rightarrow> hx_algo" where
  "track_with_match algo0 dets match =
     (let active = active_slots algo0;
          algo = algo0\<lparr>peak_competition := map unsee (peak_competition algo0)\<rparr>;
          (ts, det_used, jump_released) =
            foldl (follow_slot algo dets match) (tracks algo, \<lambda>_. False, \<lambda>_. False) active;
          ts = map (age_slot algo match ts) [0..<HIMAX_MAX_TOUCH];
          algo = foldl (open_slot dets active match (prior_peak_id algo0) det_used jump_released)
            (algo\<lparr>tracks := ts\<rparr>) [0..<length dets] in
      algo\<lparr>peak_competition := map drop_unseen (peak_competition algo)\<rparr>)"

definition hx_track_contacts :: "hx_algo \<Rightarrow> input_mt_pos list \<Rightarrow> hx_algo option" where
  "hx_track_contacts algo dets = map_option (track_with_match algo dets) (match_detections algo dets)"

definition hx_count_stable_tracks :: "hx_algo \<Rightarrow> int" where
  "hx_count_stable_tracks algo = int (length (filter (\<lambda>t. trk_active t \<and> trk_reported t) (tracks algo)))"

section \<open>Ghosts on a shared receive line\<close>

definition ghost_linked :: "hx_algo \<Rightarrow> input_mt_pos \<Rightarrow> bool" where
  "ghost_linked algo d \<longleftrightarrow>
     list_ex (\<lambda>t. trk_active t \<and> hx_dist2_predicted d t \<le> track_dist2_max (trk algo)) (tracks algo)"

definition ghost_of :: "hx_algo \<Rightarrow> input_mt_pos list \<Rightarrow> nat \<Rightarrow> nat \<Rightarrow> nat option" where
  "ghost_of algo dets i j =
     (let p = trk algo; a = dets ! i; b = dets ! j;
          strong = (if ct_signal_sum (contacts algo ! i) \<ge> ct_signal_sum (contacts algo ! j) then i else j);
          weak = (if strong = i then j else i) in
      if \<bar>pos_y a - pos_y b\<bar> > ghost_row_distance p \<or> \<bar>pos_x a - pos_x b\<bar> < ghost_min_col_distance p then None
      else if s64 (ct_signal_sum (contacts algo ! weak) * 256)
          > s64 (ct_signal_sum (contacts algo ! strong) * ghost_weak_ratio_q8 p) then None
      else if ghost_linked algo (dets ! weak) then None else Some weak)"

definition ghost_drops :: "hx_algo \<Rightarrow> input_mt_pos list \<Rightarrow> nat list" where
  "ghost_drops algo dets =
     concat (map (\<lambda>i. List.map_filter (ghost_of algo dets i) [Suc i..<length dets]) [0..<length dets])"

definition hx_suppress_rx_ghosts :: "hx_algo \<Rightarrow> input_mt_pos list \<Rightarrow> hx_algo \<times> input_mt_pos list" where
  "hx_suppress_rx_ghosts algo dets =
     (if \<not> ghost_enabled (trk algo) then (algo, dets)
      else
        let drops = ghost_drops algo dets;
            kept = filter (\<lambda>i. i \<notin> set drops) [0..<length dets] in
        (algo\<lparr>contacts := map ((!) (contacts algo)) kept\<rparr>, map ((!) dets) kept))"

section \<open>The assignment is sound\<close>

text \<open>The sysfs ranges of the tracking tunables.\<close>

definition trk_params_ok :: "hx_trk_params \<Rightarrow> bool" where
  "trk_params_ok p \<longleftrightarrow> 1 \<le> track_dist2_max p \<and> track_dist2_max p \<le> 16777216
     \<and> 0 \<le> track_lost_frames p \<and> track_lost_frames p \<le> 16
     \<and> 0 \<le> debounce_base p \<and> debounce_base p \<le> 16
     \<and> 0 \<le> track_peak_id_penalty p \<and> track_peak_id_penalty p \<le> 16777216"

text \<open>A slot: free slots are zero, used ones carry a consistent state on the panel.\<close>

definition slot_ok :: "hx_trk_params \<Rightarrow> hx_track \<Rightarrow> bool" where
  "slot_ok p t \<longleftrightarrow> (if trk_active t
     then track_inside 2560 1600 t \<and> \<bar>trk_vx t\<bar> \<le> 2560 \<and> \<bar>trk_vy t\<bar> \<le> 1600
       \<and> 1 \<le> trk_age t \<and> trk_age t \<le> 255 \<and> 0 \<le> trk_debounce t \<and> trk_debounce t \<le> 255
       \<and> 0 \<le> trk_missed t \<and> trk_missed t \<le> 16
       \<and> 0 \<le> trk_source_peak_age t \<and> trk_source_peak_age t \<le> 255
       \<and> (trk_reported t \<longrightarrow> trk_debounce t = 0) \<and> (trk_missed t > 0 \<longrightarrow> trk_reported t)
     else t = zero_track)"

definition tracks_ok :: "hx_algo \<Rightarrow> bool" where
  "tracks_ok algo \<longleftrightarrow> length (tracks algo) = HIMAX_MAX_TOUCH \<and> (\<forall>t\<in>set (tracks algo). slot_ok (trk algo) t)"

definition contacts_ok :: "hx_algo \<Rightarrow> bool" where
  "contacts_ok algo \<longleftrightarrow>
     (\<forall>ct\<in>set (contacts algo). 0 \<le> ct_source_peak_age ct \<and> ct_source_peak_age ct \<le> 255)"

abbreviation on_panel :: "input_mt_pos \<Rightarrow> bool" where
  "on_panel \<equiv> pos_inside 2560 1600"

lemma sq_dist_small:
  assumes "\<bar>dx\<bar> \<le> 1000000" "\<bar>dy\<bar> \<le> 1000000"
  shows "sq_dist dx dy = dx * dx + dy * dy" "0 \<le> sq_dist dx dy" "sq_dist dx dy \<le> 2000000000000"
proof -
  have "\<bar>dx * dx\<bar> \<le> 1000000 * 1000000" "\<bar>dy * dy\<bar> \<le> 1000000 * 1000000"
    unfolding abs_mult using assms by (intro mult_mono; simp)+
  then have b: "dx * dx \<le> 1000000000000" "dy * dy \<le> 1000000000000" by simp_all
  moreover have "0 \<le> dx * dx" "0 \<le> dy * dy" by simp_all
  ultimately show e: "sq_dist dx dy = dx * dx + dy * dy"
    unfolding sq_dist_def by (intro s64_id) linarith+
  show "0 \<le> sq_dist dx dy" "sq_dist dx dy \<le> 2000000000000" using b unfolding e by simp_all
qed

lemma ahead_small:
  assumes "0 \<le> q" "q \<le> 2560" "0 \<le> x" "x \<le> 2560" "\<bar>v\<bar> \<le> 2560" "0 \<le> k" "k \<le> 256"
  shows "\<bar>s32 (q - s32 (x + v * k))\<bar> \<le> 1000000"
proof -
  have "\<bar>v * k\<bar> \<le> 2560 * 256" unfolding abs_mult using assms by (intro mult_mono) auto
  then have b: "\<bar>v * k\<bar> \<le> 655360" by simp
  then have "s32 (x + v * k) = x + v * k" using assms by (intro s32_id) linarith+
  moreover have "s32 (q - (x + v * k)) = q - (x + v * k)" using b assms by (intro s32_id) linarith+
  ultimately have "s32 (q - s32 (x + v * k)) = q - (x + v * k)" by simp
  then show ?thesis using b assms by linarith
qed

lemma slot_motion:
  assumes "slot_ok p t" "trk_active t" "trk_params_ok p" "on_panel d"
  shows "0 \<le> hx_dist2_predicted d t" "0 \<le> hx_dist2_motion_ray d t" "hx_dist2_motion_ray d t \<le> hx_dist2_predicted d t"
    "hx_dist2_predicted d t \<le> 2000000000000"
proof -
  have t: "0 \<le> trk_x t" "trk_x t \<le> 2560" "0 \<le> trk_y t" "trk_y t \<le> 2560" "\<bar>trk_vx t\<bar> \<le> 2560" "\<bar>trk_vy t\<bar> \<le> 2560"
    "0 \<le> trk_missed t" "trk_missed t \<le> 16" "0 \<le> pos_x d" "pos_x d \<le> 2560" "0 \<le> pos_y d" "pos_y d \<le> 2560"
    using assms unfolding slot_ok_def track_inside_def pos_inside_def trk_params_ok_def by auto
  have x: "\<bar>s32 (pos_x d - s32 (trk_x t + trk_vx t * k))\<bar> \<le> 1000000" if "0 \<le> k" "k \<le> 256" for k
    using t that by (intro ahead_small) auto
  have y: "\<bar>s32 (pos_y d - s32 (trk_y t + trk_vy t * k))\<bar> \<le> 1000000" if "0 \<le> k" "k \<le> 256" for k
    using t that by (intro ahead_small) auto
  show p: "0 \<le> hx_dist2_predicted d t" "hx_dist2_predicted d t \<le> 2000000000000"
    using t(7,8) unfolding hx_dist2_predicted_def Let_def by (intro sq_dist_small x y; simp)+
  have s: "0 \<le> sq_dist (s32 (pos_x d - s32 (trk_x t + trk_vx t * k))) (s32 (pos_y d - s32 (trk_y t + trk_vy t * k)))"
    if "k \<in> {2, 3, 4}" for k using that by (intro sq_dist_small(2) x y) auto
  show "0 \<le> hx_dist2_motion_ray d t" "hx_dist2_motion_ray d t \<le> hx_dist2_predicted d t"
    using p s [of 2] s [of 3] s [of 4] unfolding hx_dist2_motion_ray_def Let_def by auto
qed

lemma active_slots: "set (active_slots algo) = {i. i < HIMAX_MAX_TOUCH \<and> trk_active (tracks algo ! i)}"
  "distinct (active_slots algo)"
  by (auto simp: active_slots_def)

lemma tracks_okD:
  assumes "tracks_ok algo" "i < HIMAX_MAX_TOUCH"
  shows "slot_ok (trk algo) (tracks algo ! i)"
  using assms unfolding tracks_ok_def by (metis nth_mem)

lemma match_gate_range:
  assumes "trk_params_ok p" "0 \<le> trk_missed t"
  shows "0 \<le> match_gate p t" "match_gate p t < unmatched_cost p"
proof -
  define g where "g = max (track_dist2_max p) 1"
  have "1 \<le> g" by (simp add: g_def)
  moreover have "g * min (trk_missed t + 1) 4 \<le> g * 4" using \<open>1 \<le> g\<close> by (intro mult_left_mono) auto
  moreover have "0 \<le> g * min (trk_missed t + 1) 4" using \<open>1 \<le> g\<close> assms(2) by simp
  ultimately show "0 \<le> match_gate p t" "match_gate p t < unmatched_cost p"
    unfolding match_gate_def unmatched_cost_def Let_def g_def [symmetric] by auto
qed

lemma detection_cost_range:
  assumes "slot_ok (trk algo) (tracks algo ! ti)" "trk_active (tracks algo ! ti)" "trk_params_ok (trk algo)"
    "on_panel (dets ! j)"
  shows "0 \<le> detection_cost algo dets ti j"
proof -
  let ?t = "tracks algo ! ti" and ?p = "trk algo"
  let ?w = "1 + min (trk_source_peak_age ?t) 20 sdiv 10"
  note m = slot_motion [OF assms(1,2,3,4)]
  have a: "0 \<le> trk_source_peak_age ?t" using assms(1,2) by (simp add: slot_ok_def)
  have "min (trk_source_peak_age ?t) 20 sdiv 10 \<le> 20" "0 \<le> min (trk_source_peak_age ?t) 20 sdiv 10"
    using a by (auto simp: sdiv_nonneg)
  then have w: "0 \<le> ?w" "?w \<le> 21" by simp_all
  have q: "0 \<le> track_peak_id_penalty ?p" "track_peak_id_penalty ?p \<le> 16777216"
    using assms(3) by (simp_all add: trk_params_ok_def)
  have "track_peak_id_penalty ?p * ?w \<le> 16777216 * 21" "0 \<le> track_peak_id_penalty ?p * ?w"
    using mult_mono [OF q(2) w(2)] q w by simp_all
  then have s: "s64 (c + track_peak_id_penalty ?p * ?w) = c + track_peak_id_penalty ?p * ?w"
      "0 \<le> c + track_peak_id_penalty ?p * ?w"
    if "0 \<le> c" "c \<le> 2000000000000" for c
    using that by (auto intro!: s64_id)
  show ?thesis
    using m s [of "hx_dist2_predicted (dets ! j) ?t"] s [of "hx_dist2_motion_ray (dets ! j) ?t"]
    unfolding detection_cost_def Let_def by (simp add: ASSIGN_INF_def)
qed

lemma assign_costs_ok:
  assumes "tracks_ok algo" "trk_params_ok (trk algo)" "\<forall>d\<in>set dets. on_panel d"
  shows "costs_ok (assign_cost algo dets) (length (active_slots algo)) (length dets) (unmatched_cost (trk algo))"
    "unmatched_cost (trk algo) < ASSIGN_INF div 2"
proof -
  have B: "0 \<le> unmatched_cost (trk algo)" "unmatched_cost (trk algo) < ASSIGN_INF div 2"
    using assms(2) by (auto simp: unmatched_cost_def trk_params_ok_def ASSIGN_INF_def)
  then show "unmatched_cost (trk algo) < ASSIGN_INF div 2" by simp
  have "0 \<le> detection_cost algo dets (active_slots algo ! i) j"
    if "i < length (active_slots algo)" "j < length dets" for i j
  proof -
    have "active_slots algo ! i \<in> set (active_slots algo)" using that(1) by simp
    then have a: "active_slots algo ! i < HIMAX_MAX_TOUCH" "trk_active (tracks algo ! (active_slots algo ! i))"
      by (simp_all add: active_slots)
    show ?thesis
      by (rule detection_cost_range [OF tracks_okD [OF assms(1) a(1)] a(2) assms(2)]) (use assms(3) that(2) in simp)
  qed
  then show "costs_ok (assign_cost algo dets) (length (active_slots algo)) (length dets) (unmatched_cost (trk algo))"
    using B unfolding costs_ok_def assign_cost_def by (simp add: ASSIGN_INF_def)
qed

text \<open>The greedy loop.\<close>

lemma greedy_pick_some:
  assumes "greedy_pick cost det_used d = Some j"
  shows "j < d" "\<not> det_used j" "cost j < ASSIGN_INF"
proof -
  have "(case snd (foldl (\<lambda>(best, pick) j. if \<not> det_used j \<and> cost j < best then (cost j, Some j) else (best, pick))
        (ASSIGN_INF, None) js) of None \<Rightarrow> True | Some j \<Rightarrow> j \<in> set js \<and> \<not> det_used j \<and> cost j < ASSIGN_INF)
      \<and> fst (foldl (\<lambda>(best, pick) j. if \<not> det_used j \<and> cost j < best then (cost j, Some j) else (best, pick))
        (ASSIGN_INF, None) js) \<le> ASSIGN_INF" for js
    by (induction js rule: rev_induct) (auto split: option.splits prod.splits)
  from this [of "[0..<d]"] show "j < d" "\<not> det_used j" "cost j < ASSIGN_INF"
    using assms by (simp_all add: greedy_pick_def)
qed

definition match_ok :: "nat list \<Rightarrow> nat \<Rightarrow> (nat \<Rightarrow> nat option) \<Rightarrow> bool" where
  "match_ok active d match \<longleftrightarrow> (\<forall>s j. match s = Some j \<longrightarrow> s \<in> set active \<and> j < d)
     \<and> (\<forall>s s' j. match s = Some j \<longrightarrow> match s' = Some j \<longrightarrow> s = s')"

lemma match_okD: "match_ok active d match \<Longrightarrow> match s = Some j \<Longrightarrow> s \<in> set active \<and> j < d"
  unfolding match_ok_def by blast

lemma greedy_ok:
  assumes "distinct active"
  shows "match_ok active d (greedy_assign cost active d)"
proof -
  let ?f = "\<lambda>is. foldl (greedy_row cost active d) (\<lambda>_. None, \<lambda>_. False) is"
  have "\<forall>is. set is \<subseteq> {..<length active} \<longrightarrow> distinct is \<longrightarrow> match_ok active d (fst (?f is))
      \<and> (\<forall>s j. fst (?f is) s = Some j \<longrightarrow> snd (?f is) j \<and> s \<in> (!) active ` set is)"
  proof
    fix "is"
    show "set is \<subseteq> {..<length active} \<longrightarrow> distinct is \<longrightarrow> match_ok active d (fst (?f is))
      \<and> (\<forall>s j. fst (?f is) s = Some j \<longrightarrow> snd (?f is) j \<and> s \<in> (!) active ` set is)"
    proof (induction "is" rule: rev_induct)
      case Nil
      show ?case by (simp add: match_ok_def)
    next
      case (snoc i "is")
      show ?case
      proof (intro impI)
        assume b: "set (is @ [i]) \<subseteq> {..<length active}" "distinct (is @ [i])"
        obtain m u where mu: "?f is = (m, u)" by (cases "?f is")
        have ih: "match_ok active d m" "\<forall>s j. m s = Some j \<longrightarrow> u j \<and> s \<in> (!) active ` set is"
          using snoc b mu by auto
        show "match_ok active d (fst (?f (is @ [i])))
          \<and> (\<forall>s j. fst (?f (is @ [i])) s = Some j \<longrightarrow> snd (?f (is @ [i])) j \<and> s \<in> (!) active ` set (is @ [i]))"
        proof (cases "greedy_pick (cost i) u d")
          case None
          then show ?thesis using ih mu by (auto simp: greedy_row_def)
        next
          case (Some j)
          note g = greedy_pick_some [OF Some]
          have "active ! i \<in> set active" using b(1) by simp
          moreover have "m s \<noteq> Some j" for s using ih(2) g(2) by blast
          ultimately show ?thesis using ih g(1) mu Some
            unfolding match_ok_def by (auto simp: greedy_row_def)
        qed
      qed
    qed
  qed
  moreover have "set [0..<length active] \<subseteq> {..<length active}" by auto
  ultimately show ?thesis unfolding greedy_assign_def by (metis distinct_upt)
qed

lemma hungarian_ok:
  assumes "costs_ok cost (length active) d B" "B < ASSIGN_INF div 2" "distinct active"
  shows "\<exists>match. hx_hungarian_assign cost active d = Some match \<and> match_ok active d match"
proof -
  obtain match where m: "hx_hungarian_assign cost active d = Some match"
    "\<forall>s j. match s = Some j \<longrightarrow> (\<exists>i<length active. active ! i = s \<and> j < d \<and> cost i j < ASSIGN_INF div 2)"
    "valid_assignment (length active) d (\<lambda>i. match (active ! i))"
    using hungarian_result [OF assms] by blast
  have "s = s'" if e: "match s = Some j" "match s' = Some j" for s s' j
  proof -
    obtain i k where "i < length active" "active ! i = s" "k < length active" "active ! k = s'"
      using m(2) e by blast
    then show ?thesis using m(3) e unfolding valid_assignment_def by metis
  qed
  moreover have "s \<in> set active \<and> j < d" if "match s = Some j" for s j
    using m(2) that by (metis nth_mem)
  ultimately show ?thesis using m(1) unfolding match_ok_def by blast
qed

lemma match_detections_ok:
  assumes "tracks_ok algo" "trk_params_ok (trk algo)" "\<forall>d\<in>set dets. on_panel d"
  shows "\<exists>match. match_detections algo dets = Some match \<and> match_ok (active_slots algo) (length dets) match"
  using hungarian_ok [OF assign_costs_ok [OF assms] active_slots(2)]
    greedy_ok [OF active_slots(2), of algo "length dets" "assign_cost algo dets"]
  by (auto simp: match_detections_def Let_def)

section \<open>The slots after one step\<close>

text \<open>What a matched slot becomes.\<close>

definition followed :: "hx_algo \<Rightarrow> input_mt_pos list \<Rightarrow> (nat \<Rightarrow> nat option) \<Rightarrow> nat \<Rightarrow> hx_track \<Rightarrow> hx_track" where
  "followed algo dets match i t =
     (case match i of None \<Rightarrow> t
      | Some j \<Rightarrow> if jumped (trk algo) t (dets ! j) then zero_track else follow_track algo t (dets ! j) j)"

lemma follow_fold:
  assumes "foldl (follow_slot algo dets match) (ts, \<lambda>_. False, \<lambda>_. False) L = (ts', det_used, jr)" "distinct L"
    "set L \<subseteq> {..<length ts}"
  shows "length ts' = length ts
    \<and> (\<forall>i<length ts. ts' ! i = (if i \<in> set L then followed algo dets match i (ts ! i) else ts ! i))
    \<and> (\<forall>j. det_used j \<longleftrightarrow> (\<exists>i\<in>set L. match i = Some j \<and> \<not> jumped (trk algo) (ts ! i) (dets ! j)))
    \<and> (\<forall>i. jr i \<longleftrightarrow> i \<in> set L \<and> (\<exists>j. match i = Some j \<and> jumped (trk algo) (ts ! i) (dets ! j)))"
  using assms
proof (induction L arbitrary: ts' det_used jr rule: rev_induct)
  case (snoc k L)
  obtain a b c where f: "foldl (follow_slot algo dets match) (ts, \<lambda>_. False, \<lambda>_. False) L = (a, b, c)"
    by (metis prod_cases3)
  have k: "k \<notin> set L" "k < length ts" "distinct L" "set L \<subseteq> {..<length ts}" using snoc.prems by auto
  note ih = snoc.IH [OF f k(3,4)]
  have ak: "a ! k = ts ! k" using ih k by auto
  have st: "follow_slot algo dets match (a, b, c) k = (ts', det_used, jr)" using snoc.prems(1) by (simp add: f)
  show ?case
  proof (cases "match k")
    case None
    then show ?thesis using st ih k by (auto simp: follow_slot_def followed_def)
  next
    case (Some j)
    show ?thesis
    proof (cases "jumped (trk algo) (ts ! k) (dets ! j)")
      case True
      then have "ts' = a[k := zero_track]" "det_used = b" "jr = c(k := True)"
        using st Some ak by (auto simp: follow_slot_def hx_reset_track_def)
      then show ?thesis using ih k Some True by (auto simp: followed_def nth_list_update)
    next
      case False
      then have "ts' = a[k := follow_track algo (ts ! k) (dets ! j) j]" "det_used = b(j := True)" "jr = c"
        using st Some ak by (auto simp: follow_slot_def)
      then show ?thesis using ih k Some False by (auto simp: followed_def nth_list_update)
    qed
  qed
qed simp

text \<open>What every slot is before new ones are opened.\<close>

definition settled_slot :: "hx_algo \<Rightarrow> input_mt_pos list \<Rightarrow> (nat \<Rightarrow> nat option) \<Rightarrow> nat \<Rightarrow> hx_track" where
  "settled_slot algo dets match i =
     (let t = tracks algo ! i in
      if \<not> trk_active t then t
      else case match i of None \<Rightarrow> age_track algo t | Some j \<Rightarrow> followed algo dets match i t)"

lemma follow_track_slot:
  assumes t: "slot_ok (trk algo) t" "trk_active t" and "on_panel d" "contacts_ok algo" "trk_params_ok (trk algo)"
  shows "slot_ok (trk algo) (follow_track algo t d j)" "trk_active (follow_track algo t d j)"
proof -
  define f where "f = hx_filter_track (trk algo) t d"
  have i: "track_inside 2560 1600 t" using t by (simp add: slot_ok_def)
  have fi: "track_inside 2560 1600 f" unfolding f_def using filter_track_bounds [OF i assms(3)] by simp
  have keep: "trk_active f" "trk_age f = trk_age t" "trk_debounce f = trk_debounce t" "trk_reported f = trk_reported t"
    "trk_source_peak_age f = trk_source_peak_age t" "trk_vx f = s32 (pos_x d - trk_x t)" "trk_vy f = s32 (pos_y d - trk_y t)"
    using t(2) by (simp_all add: f_def hx_filter_track_def Let_def)
  have xy: "0 \<le> trk_x t" "trk_x t \<le> 2560" "0 \<le> trk_y t" "trk_y t \<le> 1600"
    "0 \<le> pos_x d" "pos_x d \<le> 2560" "0 \<le> pos_y d" "pos_y d \<le> 1600"
    using i assms(3) by (simp_all add: track_inside_def pos_inside_def)
  then have v: "\<bar>trk_vx f\<bar> \<le> 2560" "\<bar>trk_vy f\<bar> \<le> 1600" by (simp_all add: keep s32_id)
  have ct: "\<And>ct. contact_at algo j = Some ct \<Longrightarrow> 0 \<le> ct_source_peak_age ct \<and> ct_source_peak_age ct \<le> 255"
    using assms(4) by (auto simp: contacts_ok_def contact_at_def split: if_splits)
  have p: "0 \<le> track_lost_frames (trk algo)" using assms(5) by (simp add: trk_params_ok_def)
  have sl: "1 \<le> trk_age t" "trk_age t \<le> 255" "0 \<le> trk_debounce t" "trk_debounce t \<le> 255"
    "0 \<le> trk_source_peak_age t" "trk_source_peak_age t \<le> 255" "trk_reported t \<Longrightarrow> trk_debounce t = 0"
    using t by (simp_all add: slot_ok_def)
  show "trk_active (follow_track algo t d j)"
    unfolding follow_track_def Let_def f_def [symmetric] using keep(1) by (simp split: option.split)
  show "slot_ok (trk algo) (follow_track algo t d j)"
    unfolding follow_track_def Let_def f_def [symmetric] slot_ok_def
    using fi v sl ct keep p by (auto simp: track_inside_def split: option.split)
qed

lemma zero_slot [simp]: "slot_ok p zero_track"
  by (simp add: slot_ok_def)

lemma age_track_slot:
  assumes "slot_ok (trk algo) t" "trk_active t" "trk_params_ok (trk algo)"
  shows "slot_ok (trk algo) (age_track algo t)"
proof -
  have "0 \<le> trk_missed t" "trk_missed t \<le> 16" using assms by (simp_all add: slot_ok_def trk_params_ok_def)
  then have "u8 (trk_missed t + 1) = trk_missed t + 1" by (intro u8_id) auto
  then show ?thesis using assms
    by (auto simp: age_track_def Let_def hx_reset_track_def slot_ok_def track_inside_def trk_params_ok_def)
qed

lemma age_track_missed:
  "0 \<le> track_lost_frames (trk algo) \<Longrightarrow> trk_missed (age_track algo t) \<le> track_lost_frames (trk algo)"
  by (auto simp: age_track_def Let_def hx_reset_track_def zero_track_def)

lemma settled_missed:
  assumes "tracks_ok algo" "trk_params_ok (trk algo)" "i < HIMAX_MAX_TOUCH"
  shows "trk_missed (settled_slot algo dets match i) \<le> track_lost_frames (trk algo)"
proof -
  have p: "0 \<le> track_lost_frames (trk algo)" using assms(2) by (simp add: trk_params_ok_def)
  have "trk_missed (tracks algo ! i) = 0" if "\<not> trk_active (tracks algo ! i)"
    using tracks_okD [OF assms(1,3)] that by (simp add: slot_ok_def zero_track_def)
  then show ?thesis
    using p age_track_missed [OF p] by (auto simp: settled_slot_def followed_def follow_track_def Let_def
        zero_track_def split: option.split)
qed

lemma settled_slot_ok:
  assumes "tracks_ok algo" "trk_params_ok (trk algo)" "contacts_ok algo" "\<forall>d\<in>set dets. on_panel d"
    "match_ok (active_slots algo) (length dets) match" "i < HIMAX_MAX_TOUCH"
  shows "slot_ok (trk algo) (settled_slot algo dets match i)"
proof -
  note t = tracks_okD [OF assms(1,6)]
  show ?thesis
  proof (cases "trk_active (tracks algo ! i)")
    case True
    show ?thesis
    proof (cases "match i")
      case None
      then show ?thesis using age_track_slot [OF t True assms(2)] True by (simp add: settled_slot_def)
    next
      case (Some j)
      then have "on_panel (dets ! j)" using match_okD [OF assms(5)] assms(4) by simp
      from follow_track_slot(1) [OF t True this assms(3,2)] show ?thesis
        using Some True by (simp add: settled_slot_def followed_def Let_def)
    qed
  qed (use t in \<open>simp add: settled_slot_def\<close>)
qed

section \<open>Opening slots\<close>

lemma find_index_some:
  "find_index P xs = Some k \<Longrightarrow> k < length xs \<and> P (xs ! k) \<and> (\<forall>i<k. \<not> P (xs ! i))"
  by (induction xs arbitrary: k) (auto split: if_splits simp: nth_Cons' less_Suc_eq_0_disj)

lemma find_index_none: "find_index P xs = None \<longleftrightarrow> (\<forall>x\<in>set xs. \<not> P x)"
  by (induction xs) auto

lemma split_keeps:
  assumes "hx_is_unconfirmed_split algo dets j active match prior = (algo', defer)"
  shows "\<exists>table. algo' = algo\<lparr>peak_competition := table\<rparr> \<and> length table = length (peak_competition algo)"
proof -
  have c: "length (fst (compete table peak r)) = length table" for table peak r
    by (auto simp: compete_def Let_def split: option.split)
  have w: "length (fst (split_with algo dets j n match prior table ti)) = length table" for n table ti
    by (simp add: split_with_def Let_def case_prod_beta c split: option.split)
  have sc: "length (fst (split_scan (split_with algo dets j n match prior) table ts)) = length table" for n table ts
  proof (induction ts arbitrary: table)
    case (Cons t ts)
    then show ?case using w [of n table t] by (simp add: case_prod_beta)
  qed simp
  show ?thesis
  proof (cases "j \<ge> length (contacts algo)")
    case True
    then have "algo' = algo\<lparr>peak_competition := peak_competition algo\<rparr>"
      using assms by (simp add: hx_is_unconfirmed_split_def)
    then show ?thesis by blast
  next
    case False
    then show ?thesis using assms sc
      by (auto simp: hx_is_unconfirmed_split_def Let_def case_prod_beta)
  qed
qed

lemma start_track_slot:
  assumes "slot_ok (trk algo) t" "on_panel d" "contacts_ok algo" "trk_params_ok (trk algo)"
  shows "slot_ok (trk algo) (start_track algo n m j d t)" "trk_active (start_track algo n m j d t)"
proof -
  have u: "0 \<le> u8 x" "u8 x \<le> 255" for x using u8_range [of x] by simp_all
  have ct: "\<And>ct. contact_at algo j = Some ct \<Longrightarrow> 0 \<le> ct_source_peak_age ct \<and> ct_source_peak_age ct \<le> 255"
    using assms(3) by (auto simp: contacts_ok_def contact_at_def split: if_splits)
  have p: "0 \<le> debounce_base (trk algo)" "debounce_base (trk algo) \<le> 16" "0 \<le> track_lost_frames (trk algo)"
    using assms(4) by (simp_all add: trk_params_ok_def)
  have d: "0 \<le> start_debounce algo n m j" "start_debounce algo n m j \<le> 255"
    using p u unfolding start_debounce_def Let_def by (auto split: option.split)
  have a: "trk_source_peak_age t = 0 \<or> 0 \<le> trk_source_peak_age t \<and> trk_source_peak_age t \<le> 255"
    using assms(1) by (auto simp: slot_ok_def zero_track_def split: if_splits)
  have q: "0 \<le> pos_x d" "pos_x d \<le> 2560" "0 \<le> pos_y d" "pos_y d \<le> 1600"
    using assms(2) by (simp_all add: pos_inside_def)
  then have "s32 (pos_x d * 256) = pos_x d * 256" "s32 (pos_y d * 256) = pos_y d * 256"
    by (auto intro!: s32_id)
  then show "slot_ok (trk algo) (start_track algo n m j d t)"
    using d p q a ct unfolding start_track_def Let_def slot_ok_def
    by (auto simp: track_inside_def split: option.split)
  show "trk_active (start_track algo n m j d t)"
    by (simp add: start_track_def Let_def split: option.split)
qed

lemma start_track_missed: "trk_missed (start_track algo n m j d t) = 0"
  by (simp add: start_track_def Let_def split: option.split)

text \<open>The effect of one detection: the table of competitors, and at most one free slot.\<close>

lemma open_slot_effect:
  "\<exists>table ts. open_slot dets active match prior du jr algo j = algo\<lparr>peak_competition := table, tracks := ts\<rparr>
     \<and> length table = length (peak_competition algo)
     \<and> (ts = tracks algo \<or> \<not> du j \<and> (\<exists>i<HIMAX_MAX_TOUCH. \<not> trk_active (tracks algo ! i)
         \<and> \<not> jr i
         \<and> ts = (tracks algo)[i := start_track (algo\<lparr>peak_competition := table\<rparr>) (length active) (length dets) j
               (dets ! j) (tracks algo ! i)]))"
proof (cases "du j \<or> continuation_at algo j")
  case True
  then have "open_slot dets active match prior du jr algo j
      = algo\<lparr>peak_competition := peak_competition algo, tracks := tracks algo\<rparr>"
    by (auto simp: open_slot_def)
  then show ?thesis by blast
next
  case False
  obtain a dfr where s: "hx_is_unconfirmed_split algo dets j active match prior = (a, dfr)" by fastforce
  obtain table where t: "a = algo\<lparr>peak_competition := table\<rparr>" "length table = length (peak_competition algo)"
    using split_keeps [OF s] by blast
  show ?thesis
  proof (cases "dfr \<or> free_slot a jr = None")
    case True
    then have "open_slot dets active match prior du jr algo j = algo\<lparr>peak_competition := table, tracks := tracks algo\<rparr>"
      using False s t by (auto simp: open_slot_def)
    then show ?thesis using t(2) by blast
  next
    case nd: False
    then obtain i where i: "free_slot a jr = Some i" by auto
    then have "i < HIMAX_MAX_TOUCH" "\<not> trk_active (tracks algo ! i)" "\<not> jr i"
      using find_index_some [of _ "[0..<HIMAX_MAX_TOUCH]" i] t(1) by (fastforce simp: free_slot_def)+
    moreover have "open_slot dets active match prior du jr algo j = algo\<lparr>peak_competition := table, tracks :=
        (tracks algo)[i := start_track (algo\<lparr>peak_competition := table\<rparr>) (length active) (length dets) j
          (dets ! j) (tracks algo ! i)]\<rparr>"
      using False s t nd i by (simp add: open_slot_def)
    ultimately show ?thesis using False t(2) by blast
  qed
qed

text \<open>Starting and following a track read neither the slots nor the competitors.\<close>

lemma contact_at_update [simp]:
  "contact_at (algo\<lparr>peak_competition := table\<rparr>) = contact_at algo"
  "contact_at (algo\<lparr>tracks := ts\<rparr>) = contact_at algo"
  by (simp_all add: fun_eq_iff contact_at_def)

lemma start_track_update [simp]:
  "start_track (algo\<lparr>peak_competition := table\<rparr>) = start_track algo"
  "start_track (algo\<lparr>tracks := ts\<rparr>) = start_track algo"
proof -
  have "start_debounce (algo\<lparr>peak_competition := table\<rparr>) n m j = start_debounce algo n m j"
    "start_debounce (algo\<lparr>tracks := ts\<rparr>) n m j = start_debounce algo n m j" for n m j
    by (cases "contact_at algo j"; simp add: start_debounce_def Let_def)+
  then show "start_track (algo\<lparr>peak_competition := table\<rparr>) = start_track algo"
    "start_track (algo\<lparr>tracks := ts\<rparr>) = start_track algo"
    by (simp_all add: fun_eq_iff start_track_def Let_def)
qed

lemma follow_track_update [simp]:
  "follow_track (algo\<lparr>peak_competition := table\<rparr>) = follow_track algo"
  by (simp add: fun_eq_iff follow_track_def Let_def)

lemma open_fold:
  assumes "length (tracks algo) = HIMAX_MAX_TOUCH" "\<forall>t\<in>set (tracks algo). slot_ok (trk algo) t"
    "contacts_ok algo" "trk_params_ok (trk algo)" "\<forall>d\<in>set dets. on_panel d" "set js \<subseteq> {..<length dets}"
  shows "\<exists>table ts. foldl (open_slot dets active match prior du jr) algo js
        = algo\<lparr>peak_competition := table, tracks := ts\<rparr>
     \<and> length table = length (peak_competition algo) \<and> length ts = HIMAX_MAX_TOUCH
     \<and> (\<forall>t\<in>set ts. slot_ok (trk algo) t) \<and> (\<forall>t\<in>set ts. t \<in> set (tracks algo) \<or> trk_missed t = 0)
     \<and> (\<forall>i<HIMAX_MAX_TOUCH. trk_active (tracks algo ! i) \<or> jr i \<longrightarrow> ts ! i = tracks algo ! i)
     \<and> ((\<forall>j\<in>set js. du j) \<longrightarrow> ts = tracks algo)"
  using assms(6)
proof (induction js rule: rev_induct)
  case Nil
  have "algo = algo\<lparr>peak_competition := peak_competition algo, tracks := tracks algo\<rparr>" by simp
  then show ?case using assms(1,2) by (metis foldl_Nil)
next
  case (snoc j js)
  then obtain table ts where ih: "foldl (open_slot dets active match prior du jr) algo js
        = algo\<lparr>peak_competition := table, tracks := ts\<rparr>" "length table = length (peak_competition algo)"
    "length ts = HIMAX_MAX_TOUCH" "\<forall>t\<in>set ts. slot_ok (trk algo) t"
    "\<forall>i<HIMAX_MAX_TOUCH. trk_active (tracks algo ! i) \<or> jr i \<longrightarrow> ts ! i = tracks algo ! i"
    "(\<forall>j\<in>set js. du j) \<longrightarrow> ts = tracks algo" "\<forall>t\<in>set ts. t \<in> set (tracks algo) \<or> trk_missed t = 0"
    by auto
  let ?a = "algo\<lparr>peak_competition := table, tracks := ts\<rparr>"
  have "\<exists>table' ts'. open_slot dets active match prior du jr ?a j
      = ?a\<lparr>peak_competition := table', tracks := ts'\<rparr> \<and> length table' = length table
    \<and> (ts' = ts \<or> \<not> du j \<and> (\<exists>i<HIMAX_MAX_TOUCH. \<not> trk_active (ts ! i) \<and> \<not> jr i
        \<and> ts' = ts[i := start_track algo (length active) (length dets) j (dets ! j) (ts ! i)]))"
    using open_slot_effect [of dets active match prior du jr ?a j] by (simp only: start_track_update) simp
  then obtain table' ts' where o: "open_slot dets active match prior du jr ?a j
      = ?a\<lparr>peak_competition := table', tracks := ts'\<rparr>" "length table' = length table"
    "ts' = ts \<or> \<not> du j \<and> (\<exists>i<HIMAX_MAX_TOUCH. \<not> trk_active (ts ! i) \<and> \<not> jr i
        \<and> ts' = ts[i := start_track algo (length active) (length dets) j (dets ! j) (ts ! i)])"
    by (elim exE conjE)
  have d: "on_panel (dets ! j)" using snoc.prems assms(5) by simp
  have new: "slot_ok (trk algo) (start_track algo (length active) (length dets) j (dets ! j) (ts ! i))"
    if "i < HIMAX_MAX_TOUCH" for i
    using ih(3,4) that by (intro start_track_slot(1) [OF _ d assms(3,4)]) simp
  have "\<forall>t\<in>set ts'. slot_ok (trk algo) t"
    using o(3) ih(4) new by (auto dest!: subsetD [OF set_update_subset_insert])
  moreover have "\<forall>t\<in>set ts'. t \<in> set (tracks algo) \<or> trk_missed t = 0"
    using o(3) ih(7) start_track_missed by (auto dest!: subsetD [OF set_update_subset_insert])
  moreover have "\<forall>i<HIMAX_MAX_TOUCH. trk_active (tracks algo ! i) \<or> jr i \<longrightarrow> ts' ! i = tracks algo ! i"
  proof (intro allI impI)
    fix i assume i: "i < HIMAX_MAX_TOUCH" "trk_active (tracks algo ! i) \<or> jr i"
    then have "ts ! i = tracks algo ! i" using ih(5) by blast
    then show "ts' ! i = tracks algo ! i" using o(3) i by (metis nth_list_update_neq)
  qed
  moreover have "length ts' = HIMAX_MAX_TOUCH" using o(3) ih(3) by auto
  moreover have "(\<forall>j\<in>set (js @ [j]). du j) \<longrightarrow> ts' = tracks algo" using o(3) ih(6) by auto
  moreover have "foldl (open_slot dets active match prior du jr) algo (js @ [j])
      = algo\<lparr>peak_competition := table', tracks := ts'\<rparr>" using ih(1) o(1) by simp
  ultimately show ?case using o(2) ih(2) by metis
qed

section \<open>One step, and the invariant\<close>

definition detection_used :: "hx_algo \<Rightarrow> input_mt_pos list \<Rightarrow> (nat \<Rightarrow> nat option) \<Rightarrow> nat \<Rightarrow> bool" where
  "detection_used algo dets match j \<longleftrightarrow>
     (\<exists>i\<in>set (active_slots algo). match i = Some j \<and> \<not> jumped (trk algo) (tracks algo ! i) (dets ! j))"

text \<open>The slots freed by a jump.\<close>

definition jumped_slot :: "hx_algo \<Rightarrow> input_mt_pos list \<Rightarrow> (nat \<Rightarrow> nat option) \<Rightarrow> nat \<Rightarrow> bool" where
  "jumped_slot algo dets match i \<longleftrightarrow> i \<in> set (active_slots algo)
     \<and> (\<exists>j. match i = Some j \<and> jumped (trk algo) (tracks algo ! i) (dets ! j))"

lemma track_step:
  assumes "length (tracks algo) = HIMAX_MAX_TOUCH"
  shows "track_with_match algo dets match =
    (let a = foldl (open_slot dets (active_slots algo) match (prior_peak_id algo) (detection_used algo dets match)
           (jumped_slot algo dets match))
         (algo\<lparr>peak_competition := map unsee (peak_competition algo),
            tracks := map (settled_slot algo dets match) [0..<HIMAX_MAX_TOUCH]\<rparr>) [0..<length dets] in
     a\<lparr>peak_competition := map drop_unseen (peak_competition a)\<rparr>)"
proof -
  let ?b = "algo\<lparr>peak_competition := map unsee (peak_competition algo)\<rparr>"
  have fs: "follow_slot ?b dets match = follow_slot algo dets match"
    by (auto simp: fun_eq_iff follow_slot_def Let_def split: option.split)
  have as: "age_slot ?b match = age_slot algo match"
    by (simp add: fun_eq_iff age_slot_def age_track_def)
  obtain ts du jr where f: "foldl (follow_slot algo dets match) (tracks algo, \<lambda>_. False, \<lambda>_. False) (active_slots algo)
      = (ts, du, jr)" by (metis prod_cases3)
  have sub: "set (active_slots algo) \<subseteq> {..<length (tracks algo)}" using assms by (auto simp: active_slots)
  note F = follow_fold [OF f active_slots(2) sub]
  have du: "du = detection_used algo dets match"
    using F by (simp add: fun_eq_iff detection_used_def)
  have jr: "jr = jumped_slot algo dets match"
    using F by (simp add: fun_eq_iff jumped_slot_def)
  have "age_slot algo match ts i = settled_slot algo dets match i" if i: "i < HIMAX_MAX_TOUCH" for i
  proof (cases "trk_active (tracks algo ! i)")
    case True
    then have "ts ! i = followed algo dets match i (tracks algo ! i)" using F i assms by (simp add: active_slots)
    then show ?thesis using True by (auto simp: age_slot_def settled_slot_def followed_def Let_def split: option.split)
  next
    case False
    then have "ts ! i = tracks algo ! i" using F i assms by (simp add: active_slots)
    then show ?thesis using False by (simp add: age_slot_def settled_slot_def)
  qed
  then have M: "map (age_slot algo match ts) [0..<HIMAX_MAX_TOUCH] = map (settled_slot algo dets match) [0..<HIMAX_MAX_TOUCH]"
    by (intro map_cong) simp_all
  show ?thesis
    unfolding track_with_match_def Let_def fs as
    by (simp add: f du jr M)
qed

text \<open>The whole step: which slots change and how.\<close>

lemma track_contacts_step:
  assumes "tracks_ok algo" "trk_params_ok (trk algo)" "contacts_ok algo" "\<forall>d\<in>set dets. on_panel d"
  shows "\<exists>match algo' table ts. match_detections algo dets = Some match
    \<and> match_ok (active_slots algo) (length dets) match \<and> hx_track_contacts algo dets = Some algo'
    \<and> algo' = algo\<lparr>peak_competition := table, tracks := ts\<rparr> \<and> tracks_ok algo'
    \<and> (\<forall>t\<in>set (tracks algo'). trk_missed t \<le> track_lost_frames (trk algo))
    \<and> length table = length (peak_competition algo)
    \<and> (\<forall>i<HIMAX_MAX_TOUCH. trk_active (settled_slot algo dets match i) \<or> jumped_slot algo dets match i
        \<longrightarrow> ts ! i = settled_slot algo dets match i)
    \<and> ((\<forall>j<length dets. detection_used algo dets match j)
        \<longrightarrow> ts = map (settled_slot algo dets match) [0..<HIMAX_MAX_TOUCH])"
proof -
  obtain match where m: "match_detections algo dets = Some match" "match_ok (active_slots algo) (length dets) match"
    using match_detections_ok [OF assms(1,2,4)] by blast
  have len: "length (tracks algo) = HIMAX_MAX_TOUCH" using assms(1) by (simp add: tracks_ok_def)
  let ?S = "map (settled_slot algo dets match) [0..<HIMAX_MAX_TOUCH]"
  let ?b = "algo\<lparr>peak_competition := map unsee (peak_competition algo), tracks := ?S\<rparr>"
  let ?jr = "jumped_slot algo dets match"
  note st = track_step [OF len, of dets match, unfolded Let_def]
  have ok: "\<forall>t\<in>set (tracks ?b). slot_ok (trk ?b) t"
    using settled_slot_ok [OF assms(1-4) m(2)] by auto
  have c: "contacts_ok ?b" using assms(3) by (simp add: contacts_ok_def)
  have lb: "length (tracks ?b) = HIMAX_MAX_TOUCH" and pb: "trk_params_ok (trk ?b)"
    and sub: "set [0..<length dets] \<subseteq> {..<length dets}" using assms(2) by auto
  obtain table ts where o: "foldl (open_slot dets (active_slots algo) match (prior_peak_id algo)
        (detection_used algo dets match) ?jr) ?b [0..<length dets] = ?b\<lparr>peak_competition := table, tracks := ts\<rparr>"
    "length table = length (peak_competition ?b)" "length ts = HIMAX_MAX_TOUCH" "\<forall>t\<in>set ts. slot_ok (trk ?b) t"
    "\<forall>i<HIMAX_MAX_TOUCH. trk_active (tracks ?b ! i) \<or> ?jr i \<longrightarrow> ts ! i = tracks ?b ! i"
    "(\<forall>j\<in>set [0..<length dets]. detection_used algo dets match j) \<longrightarrow> ts = tracks ?b"
    "\<forall>t\<in>set ts. t \<in> set (tracks ?b) \<or> trk_missed t = 0"
    using open_fold [OF lb ok c pb assms(4) sub, of "active_slots algo" match "prior_peak_id algo"
        "detection_used algo dets match" ?jr] by blast
  let ?a = "algo\<lparr>peak_competition := map drop_unseen table, tracks := ts\<rparr>"
  have tw: "track_with_match algo dets match = ?a" unfolding st o(1) by simp
  show ?thesis
  proof (intro exI conjI)
    show "match_detections algo dets = Some match" "match_ok (active_slots algo) (length dets) match"
      by (fact m)+
    show "?a = algo\<lparr>peak_competition := map drop_unseen table, tracks := ts\<rparr>" by (rule refl)
    show "hx_track_contacts algo dets = Some ?a" using m(1) tw by (simp add: hx_track_contacts_def)
    show "tracks_ok ?a" using o(3,4) by (simp add: tracks_ok_def)
    show "\<forall>t\<in>set (tracks ?a). trk_missed t \<le> track_lost_frames (trk algo)"
    proof
      fix t assume "t \<in> set (tracks ?a)"
      then have "t \<in> set ?S \<or> trk_missed t = 0" using o(7) by simp
      then show "trk_missed t \<le> track_lost_frames (trk algo)"
        using settled_missed [OF assms(1,2)] assms(2) by (auto simp: trk_params_ok_def)
    qed
    show "length (map drop_unseen table) = length (peak_competition algo)" using o(2) by simp
    show "\<forall>i<HIMAX_MAX_TOUCH. trk_active (settled_slot algo dets match i) \<or> ?jr i
        \<longrightarrow> ts ! i = settled_slot algo dets match i"
      using o(5) by (simp del: upt_rec_numeral)
    show "(\<forall>j<length dets. detection_used algo dets match j) \<longrightarrow> ts = ?S"
      using o(6) by (simp del: upt_rec_numeral)
  qed
qed

end
