(* ===== verification/Hx_Slots.thy ===== *)
theory Hx_Slots
  imports Hx_Track
begin

text \<open>
  What the tracker guarantees: the slot invariant, that well-separated fingers stay in their slots
  under both assignment variants, that a lost finger is released in bounded time and survives shorter
  gaps, and that ghost suppression drops exactly the ghosts.
\<close>

section \<open>The invariant\<close>

text \<open>One tracking step always returns and keeps the slot invariant: whatever the detections, the
  Hungarian search finds a free column, free slots stay zeroed, and every used slot keeps a position
  on the panel, an age of at least one frame, and is only reported once its debounce has run out; and
  afterwards no slot has missed more than \<open>track_lost_frames\<close> frames, even when that limit was lowered
  since the last frame.\<close>

theorem tracker_keeps_slots:
  assumes "tracks_ok algo" "trk_params_ok (trk algo)" "contacts_ok algo" "\<forall>d\<in>set dets. on_panel d"
  shows "\<exists>algo'. hx_track_contacts algo dets = Some algo' \<and> tracks_ok algo'
    \<and> (\<forall>t\<in>set (tracks algo'). trk_missed t \<le> track_lost_frames (trk algo))"
  using track_contacts_step [OF assms] by blast

section \<open>Separated fingers keep their slots\<close>

text \<open>
  \<open>home\<close> gives every active slot a detection that is its own and no other slot's.  It may be a
  continuation of the slot, and it may come from another peak when the penalty for that, at most three
  times \<open>track_peak_id_penalty\<close>, leaves it cheaper than losing the slot.
\<close>

definition separated :: "hx_algo \<Rightarrow> input_mt_pos list \<Rightarrow> (nat \<Rightarrow> nat) \<Rightarrow> bool" where
  "separated algo dets home \<longleftrightarrow> inj_on home (set (active_slots algo)) \<and>
     (\<forall>s\<in>set (active_slots algo). home s < length dets
        \<and> hx_dist2_predicted (dets ! home s) (tracks algo ! s) \<le> match_gate (trk algo) (tracks algo ! s)
        \<and> (continuation_at algo (home s) \<longrightarrow> ct_continuation_track_slot (contacts algo ! home s) = int s)
        \<and> (peak_changed algo (tracks algo ! s) (home s) \<longrightarrow>
             hx_dist2_predicted (dets ! home s) (tracks algo ! s)
               + track_peak_id_penalty (trk algo) * (1 + min (trk_source_peak_age (tracks algo ! s)) 20 div 10)
             < unmatched_cost (trk algo))
        \<and> (\<forall>j<length dets. j \<noteq> home s \<longrightarrow>
             match_gate (trk algo) (tracks algo ! s) < hx_dist2_predicted (dets ! j) (tracks algo ! s)))"

lemma separated_cost:
  assumes "separated algo dets home" "tracks_ok algo" "trk_params_ok (trk algo)" "\<forall>d\<in>set dets. on_panel d"
    "i < length (active_slots algo)"
  shows "assign_cost algo dets i (home (active_slots algo ! i)) < unmatched_cost (trk algo)"
    "j < length dets \<Longrightarrow> j \<noteq> home (active_slots algo ! i) \<Longrightarrow> assign_cost algo dets i j = ASSIGN_INF"
proof -
  let ?s = "active_slots algo ! i"
  let ?t = "tracks algo ! ?s" and ?d2 = "\<lambda>j. hx_dist2_predicted (dets ! j) (tracks algo ! (active_slots algo ! i))"
  have s: "?s \<in> set (active_slots algo)" using assms(5) by simp
  then have a: "?s < HIMAX_MAX_TOUCH" "trk_active ?t" by (simp_all add: active_slots)
  have t: "slot_ok (trk algo) ?t" using tracks_okD [OF assms(2) a(1)] .
  then have m: "0 \<le> trk_missed ?t" "0 \<le> trk_source_peak_age ?t" using a(2) by (simp_all add: slot_ok_def)
  note S = assms(1) [unfolded separated_def, THEN conjunct2, rule_format, OF s]
  have alone: "regular_in_gate algo dets ?s j \<Longrightarrow> j < length dets \<Longrightarrow> j = home ?s" for j
    using S by (fastforce simp: regular_in_gate_def)
  have "\<not> continuation_blocked algo dets ?s (home ?s)"
    using S alone by (auto simp: continuation_blocked_def continuation_at_def contact_at_def target_has_regular_def
        list_ex_iff regular_in_gate_def split: option.splits if_splits)
  moreover have "\<not> target_has_same_peak algo dets ?s" if "peak_changed algo ?t (home ?s)"
    using that alone by (fastforce simp: target_has_same_peak_def list_ex_iff peak_changed_def split: option.splits)
  moreover have "s64 (?d2 (home ?s) + track_peak_id_penalty (trk algo) * (1 + min (trk_source_peak_age ?t) 20 sdiv 10))
      = ?d2 (home ?s) + track_peak_id_penalty (trk algo) * (1 + min (trk_source_peak_age ?t) 20 div 10)"
  proof -
    let ?w = "1 + min (trk_source_peak_age ?t) 20 div 10"
    have "on_panel (dets ! home ?s)" using S assms(4) by simp
    from slot_motion [OF t a(2) assms(3) this] have "0 \<le> ?d2 (home ?s)" "?d2 (home ?s) \<le> 2000000000000" by simp_all
    moreover have "0 \<le> ?w" "?w \<le> 3" using m(2) by auto
    moreover have "0 \<le> track_peak_id_penalty (trk algo)" "track_peak_id_penalty (trk algo) \<le> 16777216"
      using assms(3) by (simp_all add: trk_params_ok_def)
    ultimately have "0 \<le> track_peak_id_penalty (trk algo) * ?w" "track_peak_id_penalty (trk algo) * ?w \<le> 16777216 * 3"
      by (intro mult_nonneg_nonneg mult_mono; simp)+
    then show ?thesis
      using \<open>0 \<le> ?d2 (home ?s)\<close> \<open>?d2 (home ?s) \<le> 2000000000000\<close> m(2) by (simp add: sdiv_nonneg s64_id)
  qed
  ultimately have "assign_cost algo dets i (home ?s) =
      (if peak_changed algo ?t (home ?s)
       then ?d2 (home ?s) + track_peak_id_penalty (trk algo) * (1 + min (trk_source_peak_age ?t) 20 div 10)
       else ?d2 (home ?s))"
    using S by (auto simp: assign_cost_def detection_cost_def Let_def)
  then show "assign_cost algo dets i (home ?s) < unmatched_cost (trk algo)"
    using S match_gate_range(2) [OF assms(3) m(1)] by auto
  assume j: "j < length dets" "j \<noteq> home ?s"
  then have "\<not> ?d2 j \<le> match_gate (trk algo) ?t"
    using S by fastforce
  then show "assign_cost algo dets i j = ASSIGN_INF"
    using j(1) by (simp add: assign_cost_def detection_cost_def Let_def)
qed

lemma hungarian_home:
  assumes costs: "costs_ok cost (length active) d B" "B < ASSIGN_INF div 2" "distinct active"
    and home: "inj_on home (set active)" "\<forall>i<length active. home (active ! i) < d \<and> cost i (home (active ! i)) < B"
    and far: "\<forall>i<length active. \<forall>j<d. j \<noteq> home (active ! i) \<longrightarrow> cost i j = ASSIGN_INF"
    and m: "hx_hungarian_assign cost active d = Some match" and s: "s \<in> set active"
  shows "match s = Some (home s)"
proof (rule ccontr)
  assume no: "match s \<noteq> Some (home s)"
  let ?n = "length active"
  have M: "\<forall>s j. match s = Some j \<longrightarrow> (\<exists>i<?n. active ! i = s \<and> j < d \<and> cost i j < ASSIGN_INF div 2)"
    "\<forall>f. valid_assignment ?n d f \<longrightarrow>
      assignment_cost cost B ?n (\<lambda>i. match (active ! i)) \<le> assignment_cost cost B ?n f"
    using hungarian_result [OF costs] m by auto
  let ?f = "\<lambda>i. Some (home (active ! i))"
  have v: "valid_assignment ?n d ?f"
    unfolding valid_assignment_def
  proof (intro conjI allI impI)
    fix i k j assume ik: "i < ?n" "k < ?n" "?f i = Some j" "?f k = Some j"
    then have "home (active ! i) = home (active ! k)" by simp
    from inj_onD [OF home(1) this nth_mem [OF ik(1)] nth_mem [OF ik(2)]]
    have "active ! i = active ! k" .
    then show "i = k" using ik(1,2) costs(3) by (simp add: nth_eq_iff_index_eq)
  qed (use home(2) in auto)
  have only: "match (active ! i) = None \<or> match (active ! i) = ?f i" if i: "i < ?n" for i
  proof (cases "match (active ! i)")
    case (Some j)
    then obtain k where "k < ?n" "active ! k = active ! i" "j < d" "cost k j < ASSIGN_INF div 2" using M(1) by blast
    then have "k = i" "j < d" "cost i j < ASSIGN_INF div 2" using i costs(3) by (auto simp: nth_eq_iff_index_eq)
    then have "j = home (active ! i)" using far i by (force simp: ASSIGN_INF_def)
    then show ?thesis using Some by simp
  qed simp
  let ?c = "\<lambda>g i. case g i of None \<Rightarrow> B | Some j \<Rightarrow> cost i j"
  have le: "?c ?f i \<le> ?c (\<lambda>i. match (active ! i)) i" if "i < ?n" for i
    using only [OF that] home(2) that by auto
  obtain k where k: "k < ?n" "active ! k = s" using s by (auto simp: in_set_conv_nth)
  then have "match (active ! k) = None" using only [OF k(1)] no by auto
  then have "?c ?f k < ?c (\<lambda>i. match (active ! i)) k" using home(2) k(1) by simp
  then have "(\<Sum>i<?n. ?c ?f i) < (\<Sum>i<?n. ?c (\<lambda>i. match (active ! i)) i)"
    by (intro sum_strict_mono_ex1) (use le k(1) in auto)
  then show False using M(2) v unfolding assignment_cost_def by fastforce
qed

lemma greedy_pick_unique:
  assumes "j < d" "\<not> used j" "cost j < ASSIGN_INF" "\<forall>k<d. k \<noteq> j \<longrightarrow> \<not> cost k < ASSIGN_INF"
  shows "greedy_pick cost used d = Some j"
proof -
  let ?step = "\<lambda>(best, pick) k. if \<not> used k \<and> cost k < best then (cost k, Some k) else (best, pick)"
  have "foldl ?step (ASSIGN_INF, None) [0..<e] = (if j < e then (cost j, Some j) else (ASSIGN_INF, None))"
    if "e \<le> d" for e
    using that
  proof (induction e)
    case (Suc e)
    then have "\<not> cost e < ASSIGN_INF" if "e \<noteq> j" using that assms(4) by simp
    then show ?case using Suc assms(2,3) by (auto simp: upt_Suc less_Suc_eq)
  qed simp
  from this [of d] show ?thesis using assms(1) by (simp add: greedy_pick_def)
qed

lemma greedy_home:
  assumes "distinct active" "inj_on home (set active)"
    "\<forall>i<length active. home (active ! i) < d \<and> cost i (home (active ! i)) < ASSIGN_INF"
    "\<forall>i<length active. \<forall>j<d. j \<noteq> home (active ! i) \<longrightarrow> cost i j = ASSIGN_INF"
    and s: "s \<in> set active"
  shows "greedy_assign cost active d s = Some (home s)"
proof -
  let ?n = "length active"
  have "(\<forall>i<k. fst (foldl (greedy_row cost active d) (\<lambda>_. None, \<lambda>_. False) [0..<k]) (active ! i) = Some (home (active ! i)))
      \<and> (\<forall>j. snd (foldl (greedy_row cost active d) (\<lambda>_. None, \<lambda>_. False) [0..<k]) j \<longrightarrow> (\<exists>i<k. j = home (active ! i)))"
    if "k \<le> ?n" for k
    using that
  proof (induction k)
    case (Suc k)
    obtain m u where mu: "foldl (greedy_row cost active d) (\<lambda>_. None, \<lambda>_. False) [0..<k] = (m, u)" by fastforce
    have ih: "\<forall>i<k. m (active ! i) = Some (home (active ! i))" "\<forall>j. u j \<longrightarrow> (\<exists>i<k. j = home (active ! i))"
      using Suc mu by auto
    have free: "\<not> u (home (active ! k))"
    proof
      assume "u (home (active ! k))"
      then obtain i where i: "i < k" "home (active ! k) = home (active ! i)" using ih(2) by blast
      then have "active ! k = active ! i" using Suc.prems inj_onD [OF assms(2)] by auto
      then show False using i(1) Suc.prems assms(1) by (simp add: nth_eq_iff_index_eq)
    qed
    have pick: "greedy_pick (cost k) u d = Some (home (active ! k))"
      by (rule greedy_pick_unique) (use Suc.prems assms(3,4) free in auto)
    have "active ! i \<noteq> active ! k" if "i < k" for i
      using that Suc.prems assms(1) by (simp add: nth_eq_iff_index_eq)
    moreover have "foldl (greedy_row cost active d) (\<lambda>_. None, \<lambda>_. False) [0..<Suc k]
        = (m(active ! k := Some (home (active ! k))), u(home (active ! k) := True))"
      using mu pick by (simp add: upt_Suc greedy_row_def)
    ultimately show ?case using ih by (auto simp: less_Suc_eq)
  qed simp
  from this [of ?n] s show ?thesis unfolding greedy_assign_def in_set_conv_nth by auto
qed

lemma follow_track_missed: "trk_missed (follow_track algo t d j) = 0"
  by (simp add: follow_track_def Let_def split: option.split)

lemma jumped_exact:
  assumes "slot_ok p t" "trk_active t" "on_panel d"
  shows "jumped p t d \<longleftrightarrow> 0 < track_jump_dist2 p \<and> 2 \<le> trk_age t
    \<and> track_jump_dist2 p < (pos_x d - trk_x t) * (pos_x d - trk_x t) + (pos_y d - trk_y t) * (pos_y d - trk_y t)"
proof -
  have "0 \<le> trk_x t" "trk_x t \<le> 2560" "0 \<le> trk_y t" "trk_y t \<le> 1600"
    "0 \<le> pos_x d" "pos_x d \<le> 2560" "0 \<le> pos_y d" "pos_y d \<le> 1600"
    using assms by (auto simp: slot_ok_def track_inside_def pos_inside_def)
  then have "s32 (pos_x d - trk_x t) = pos_x d - trk_x t" "s32 (pos_y d - trk_y t) = pos_y d - trk_y t"
    "\<bar>pos_x d - trk_x t\<bar> \<le> 1000000" "\<bar>pos_y d - trk_y t\<bar> \<le> 1000000"
    by (auto intro!: s32_id)
  then show ?thesis by (simp add: jumped_def sq_dist_small(1))
qed

text \<open>C12: fingers that stay apart stay in their slots, under the Hungarian and under the greedy assignment and
  whatever else is on the panel.  Let every active slot have a detection of its own inside its gate, all
  other detections being outside that gate; a continuation-only detection counts only for the slot it is
  bound to, and one of another peak only while its penalised distance stays below the cost of losing the
  slot.  Then every slot stays in use, follows its own detection and misses no frame, with one exception: a slot
  that is at least two frames old, whose detection lies further from its last position than jump
  detection allows (when that is on), is freed, and stays free in this frame.\<close>

theorem separated_fingers_keep_slots:
  assumes ok: "tracks_ok algo" "trk_params_ok (trk algo)" "contacts_ok algo" "\<forall>d\<in>set dets. on_panel d"
    and sep: "separated algo dets home"
  shows "\<exists>algo'. hx_track_contacts algo dets = Some algo' \<and>
    (\<forall>s\<in>set (active_slots algo). let t = tracks algo ! s; d = dets ! home s in
       if 0 < track_jump_dist2 (trk algo) \<and> 2 \<le> trk_age t
          \<and> track_jump_dist2 (trk algo) < (pos_x d - trk_x t) * (pos_x d - trk_x t) + (pos_y d - trk_y t) * (pos_y d - trk_y t)
       then tracks algo' ! s = zero_track
       else tracks algo' ! s = follow_track algo t d (home s) \<and> trk_active (tracks algo' ! s) \<and> trk_missed (tracks algo' ! s) = 0)"
proof -
  obtain match algo' table ts where st: "match_detections algo dets = Some match"
    "match_ok (active_slots algo) (length dets) match" "hx_track_contacts algo dets = Some algo'"
    "algo' = algo\<lparr>peak_competition := table, tracks := ts\<rparr>"
    "\<forall>i<HIMAX_MAX_TOUCH. trk_active (settled_slot algo dets match i) \<or> jumped_slot algo dets match i
      \<longrightarrow> ts ! i = settled_slot algo dets match i"
    using track_contacts_step [OF ok] by blast
  let ?A = "active_slots algo" and ?c = "assign_cost algo dets"
  have inj: "inj_on home (set ?A)" using sep by (simp add: separated_def)
  have lt: "\<forall>i<length ?A. home (?A ! i) < length dets" using sep by (simp add: separated_def)
  have far: "\<forall>i<length ?A. \<forall>j<length dets. j \<noteq> home (?A ! i) \<longrightarrow> ?c i j = ASSIGN_INF"
    using separated_cost(2) [OF sep ok(1,2,4)] by blast
  have near: "\<forall>i<length ?A. home (?A ! i) < length dets \<and> ?c i (home (?A ! i)) < unmatched_cost (trk algo)"
    using separated_cost(1) [OF sep ok(1,2,4)] lt by blast
  have match: "match s = Some (home s)" if s: "s \<in> set ?A" for s
  proof (cases "hungarian_enabled (trk algo)")
    case True
    then have h: "hx_hungarian_assign ?c ?A (length dets) = Some match"
      using st(1) by (simp add: match_detections_def Let_def)
    show ?thesis
      by (rule hungarian_home [OF assign_costs_ok [OF ok(1,2,4)] active_slots(2) inj near far h s])
  next
    case False
    have "\<forall>i<length ?A. home (?A ! i) < length dets \<and> ?c i (home (?A ! i)) < ASSIGN_INF"
      using near assign_costs_ok(2) [OF ok(1,2,4)] by (fastforce simp: ASSIGN_INF_def)
    from greedy_home [OF active_slots(2) inj this far s] False st(1) show ?thesis
      by (simp add: match_detections_def Let_def)
  qed
  have "tracks algo' ! s = (if jumped (trk algo) (tracks algo ! s) (dets ! home s) then zero_track
      else follow_track algo (tracks algo ! s) (dets ! home s) (home s))" and "on_panel (dets ! home s)"
    if s: "s \<in> set ?A" for s
  proof -
    have a: "s < HIMAX_MAX_TOUCH" "trk_active (tracks algo ! s)" using s by (simp_all add: active_slots)
    have "home s < length dets" using match_okD [OF st(2) match [OF s]] by simp
    then show d: "on_panel (dets ! home s)" using ok(4) by simp
    have e: "settled_slot algo dets match s = (if jumped (trk algo) (tracks algo ! s) (dets ! home s) then zero_track
        else follow_track algo (tracks algo ! s) (dets ! home s) (home s))"
      using a(2) match [OF s] by (simp add: settled_slot_def followed_def)
    have "trk_active (settled_slot algo dets match s) \<or> jumped_slot algo dets match s"
      using follow_track_slot(2) [OF tracks_okD [OF ok(1) a(1)] a(2) d ok(3,2)] match [OF s] s
      by (simp add: e jumped_slot_def)
    then have "ts ! s = settled_slot algo dets match s" using st(5) a(1) by blast
    then show "tracks algo' ! s = (if jumped (trk algo) (tracks algo ! s) (dets ! home s) then zero_track
        else follow_track algo (tracks algo ! s) (dets ! home s) (home s))"
      using st(4) e by simp
  qed
  moreover have "jumped (trk algo) (tracks algo ! s) (dets ! home s) \<longleftrightarrow> 0 < track_jump_dist2 (trk algo)
      \<and> 2 \<le> trk_age (tracks algo ! s) \<and> track_jump_dist2 (trk algo)
        < (pos_x (dets ! home s) - trk_x (tracks algo ! s)) * (pos_x (dets ! home s) - trk_x (tracks algo ! s))
          + (pos_y (dets ! home s) - trk_y (tracks algo ! s)) * (pos_y (dets ! home s) - trk_y (tracks algo ! s))"
    if s: "s \<in> set ?A" for s
    using s tracks_okD [OF ok(1)] calculation(2) [OF s] by (intro jumped_exact) (simp_all add: active_slots)
  moreover have "trk_active (follow_track algo (tracks algo ! s) (dets ! home s) (home s))"
      "trk_missed (follow_track algo (tracks algo ! s) (dets ! home s) (home s)) = 0" if s: "s \<in> set ?A" for s
    using s follow_track_slot(2) [OF tracks_okD [OF ok(1)] _ calculation(2) [OF s] ok(3,2)] follow_track_missed
    by (simp_all add: active_slots)
  ultimately show ?thesis using st(3) unfolding Let_def by (intro exI [of _ algo']) simp
qed

section \<open>Lost fingers\<close>

text \<open>\<open>n\<close> frames without any detection.\<close>

fun idle_frames :: "nat \<Rightarrow> hx_algo \<Rightarrow> hx_algo option" where
  "idle_frames 0 algo = Some algo"
| "idle_frames (Suc n) algo = Option.bind (idle_frames n algo) (\<lambda>a. hx_track_contacts a [])"

definition idle_slot :: "hx_algo \<Rightarrow> hx_track \<Rightarrow> hx_track" where
  "idle_slot algo t = (if trk_active t then age_track algo t else t)"

lemma idle_step:
  assumes "tracks_ok algo" "trk_params_ok (trk algo)" "contacts_ok algo"
  shows "\<exists>table. hx_track_contacts algo [] =
        Some (algo\<lparr>peak_competition := table, tracks := map (idle_slot algo) (tracks algo)\<rparr>)
      \<and> tracks_ok (algo\<lparr>peak_competition := table, tracks := map (idle_slot algo) (tracks algo)\<rparr>)"
proof -
  have none: "\<forall>d\<in>set []. on_panel d" by simp
  obtain match algo' table ts where m: "match_detections algo [] = Some match"
    and st: "match_ok (active_slots algo) (length ([] :: input_mt_pos list)) match" "hx_track_contacts algo [] = Some algo'"
      "algo' = algo\<lparr>peak_competition := table, tracks := ts\<rparr>" "tracks_ok algo'"
      "length table = length (peak_competition algo)"
      "\<forall>i<HIMAX_MAX_TOUCH. trk_active (settled_slot algo [] match i) \<longrightarrow> ts ! i = settled_slot algo [] match i"
      "(\<forall>j<length ([] :: input_mt_pos list). detection_used algo [] match j) \<longrightarrow> ts = map (settled_slot algo [] match) [0..<HIMAX_MAX_TOUCH]"
    using track_contacts_step [OF assms none] by blast
  have "match i = None" for i using st(1) by (cases "match i") (auto simp: match_ok_def)
  then have "settled_slot algo [] match = (\<lambda>i. idle_slot algo (tracks algo ! i))"
    by (simp add: fun_eq_iff settled_slot_def idle_slot_def Let_def)
  moreover have "length (tracks algo) = HIMAX_MAX_TOUCH" using assms(1) by (simp add: tracks_ok_def)
  ultimately have "ts = map (idle_slot algo) (tracks algo)"
    using st(7) by (intro nth_equalityI) (simp_all del: upt_rec_numeral)
  then show ?thesis using st(2-4) by blast
qed

lemma idle_run:
  assumes "tracks_ok algo" "trk_params_ok (trk algo)" "contacts_ok algo"
  shows "\<exists>a table. idle_frames n algo = Some a \<and> tracks_ok a
    \<and> a = algo\<lparr>peak_competition := table, tracks := map ((idle_slot algo ^^ n)) (tracks algo)\<rparr>"
proof (induction n)
  case 0
  show ?case using assms(1) by (auto simp: list.map_id intro!: exI [of _ "peak_competition algo"])
next
  case (Suc n)
  then obtain a table where a: "idle_frames n algo = Some a" "tracks_ok a"
    "a = algo\<lparr>peak_competition := table, tracks := map ((idle_slot algo ^^ n)) (tracks algo)\<rparr>" by blast
  have s: "idle_slot a = idle_slot algo" by (simp add: fun_eq_iff idle_slot_def age_track_def a(3))
  have "trk_params_ok (trk a)" "contacts_ok a" using assms(2,3) by (simp_all add: a(3) contacts_ok_def)
  from idle_step [OF a(2) this] obtain table' where
    "hx_track_contacts a [] = Some (a\<lparr>peak_competition := table', tracks := map (idle_slot a) (tracks a)\<rparr>)"
    "tracks_ok (a\<lparr>peak_competition := table', tracks := map (idle_slot a) (tracks a)\<rparr>)" by blast
  moreover have e: "a\<lparr>peak_competition := table', tracks := map (idle_slot a) (tracks a)\<rparr>
      = algo\<lparr>peak_competition := table', tracks := map (idle_slot algo ^^ Suc n) (tracks algo)\<rparr>"
    unfolding s by (simp add: a(3))
  ultimately have "idle_frames (Suc n) algo
        = Some (algo\<lparr>peak_competition := table', tracks := map (idle_slot algo ^^ Suc n) (tracks algo)\<rparr>)"
    "tracks_ok (algo\<lparr>peak_competition := table', tracks := map (idle_slot algo ^^ Suc n) (tracks algo)\<rparr>)"
    using a(1) unfolding e by (simp_all only: idle_frames.simps Option.bind.simps)
  then show ?case by blast
qed

lemma idle_slot_power:
  assumes "trk_params_ok (trk algo)" "slot_ok (trk algo) t"
  shows "trk_active ((idle_slot algo ^^ n) t) \<longrightarrow>
      (idle_slot algo ^^ n) t = t\<lparr>trk_missed := trk_missed t + int n\<rparr>
      \<and> (0 < n \<longrightarrow> trk_missed t + int n \<le> track_lost_frames (trk algo))"
proof (induction n)
  case 0
  show ?case using assms(2) by (auto simp: slot_ok_def)
next
  case (Suc n)
  let ?t = "(idle_slot algo ^^ n) t"
  show ?case
  proof (intro impI)
    assume act: "trk_active ((idle_slot algo ^^ Suc n) t)"
    then have "trk_active ?t" by (auto simp: idle_slot_def split: if_splits)
    then have e: "?t = t\<lparr>trk_missed := trk_missed t + int n\<rparr>" "0 < n \<longrightarrow> trk_missed t + int n \<le> track_lost_frames (trk algo)"
      and "trk_active t" using Suc by auto
    then have m: "0 \<le> trk_missed t + int n" "trk_missed t + int n \<le> 16"
      using assms by (cases n; auto simp: slot_ok_def trk_params_ok_def)+
    then have "u8 (trk_missed t + int n + 1) = trk_missed t + int n + 1" by (intro u8_id) auto
    then show "(idle_slot algo ^^ Suc n) t = t\<lparr>trk_missed := trk_missed t + int (Suc n)\<rparr>
        \<and> (0 < Suc n \<longrightarrow> trk_missed t + int (Suc n) \<le> track_lost_frames (trk algo))"
      using act \<open>trk_active t\<close>
      by (auto simp: e(1) idle_slot_def age_track_def hx_reset_track_def Let_def ac_simps split: if_splits)
  qed
qed

lemma idle_slot_bridged:
  assumes "trk_params_ok (trk algo)" "trk_active t" "trk_reported t" "trk_missed t = 0" "touch_active algo"
    "int n \<le> track_lost_frames (trk algo)"
  shows "(idle_slot algo ^^ n) t = t\<lparr>trk_missed := int n\<rparr>"
  using assms(6)
proof (induction n)
  case 0
  show ?case using assms(4) by simp
next
  case (Suc n)
  then have e: "(idle_slot algo ^^ n) t = t\<lparr>trk_missed := int n\<rparr>" by simp
  have "track_lost_frames (trk algo) \<le> 16" using assms(1) by (simp add: trk_params_ok_def)
  then have "u8 (int n + 1) = int n + 1" using Suc.prems by (intro u8_id) auto
  then have "idle_slot algo (t\<lparr>trk_missed := int n\<rparr>) = t\<lparr>trk_missed := int (Suc n)\<rparr>"
    using Suc.prems assms(2,3,5) by (simp add: idle_slot_def age_track_def Let_def ac_simps)
  then show ?case by (simp add: e)
qed

text \<open>C13: a lost finger is released in bounded time and not before: without detections every slot is free
  after \<open>track_lost_frames + 1\<close> frames, and until then an established touch keeps its slot, its
  position and its report, with only the missed-frame count growing.\<close>

theorem lost_finger_released:
  assumes "tracks_ok algo" "trk_params_ok (trk algo)" "contacts_ok algo"
  shows "(\<exists>a. idle_frames (Suc (nat (track_lost_frames (trk algo)))) algo = Some a \<and> active_slots a = [])
    \<and> (\<forall>n s. int n \<le> track_lost_frames (trk algo) \<and> touch_active algo \<and> s \<in> set (active_slots algo)
          \<and> trk_reported (tracks algo ! s) \<and> trk_missed (tracks algo ! s) = 0 \<longrightarrow>
        (\<exists>a. idle_frames n algo = Some a \<and> tracks a ! s = (tracks algo ! s)\<lparr>trk_missed := int n\<rparr>))"
proof (intro conjI allI impI)
  let ?n = "Suc (nat (track_lost_frames (trk algo)))"
  obtain a table where a: "idle_frames ?n algo = Some a"
    "a = algo\<lparr>peak_competition := table, tracks := map ((idle_slot algo ^^ ?n)) (tracks algo)\<rparr>"
    using idle_run [OF assms] by metis
  have len: "length (tracks algo) = HIMAX_MAX_TOUCH" using assms(1) by (simp add: tracks_ok_def)
  have "\<not> trk_active (tracks a ! i)" if i: "i < HIMAX_MAX_TOUCH" for i
  proof
    assume "trk_active (tracks a ! i)"
    then have "trk_active ((idle_slot algo ^^ ?n) (tracks algo ! i))" using i len by (simp add: a(2))
    then have "trk_missed (tracks algo ! i) + int ?n \<le> track_lost_frames (trk algo)"
      using idle_slot_power [OF assms(2) tracks_okD [OF assms(1) i]] by blast
    moreover have "0 \<le> trk_missed (tracks algo ! i)" "0 \<le> track_lost_frames (trk algo)"
      using tracks_okD [OF assms(1) i] assms(2) by (auto simp: slot_ok_def trk_params_ok_def split: if_splits)
    ultimately show False by simp
  qed
  then have "active_slots a = []" by (auto simp: active_slots_def filter_empty_conv)
  with a(1) show "\<exists>a. idle_frames ?n algo = Some a \<and> active_slots a = []" by blast
next
  fix n s
  assume h: "int n \<le> track_lost_frames (trk algo) \<and> touch_active algo \<and> s \<in> set (active_slots algo)
      \<and> trk_reported (tracks algo ! s) \<and> trk_missed (tracks algo ! s) = 0"
  then have s: "s < HIMAX_MAX_TOUCH" "trk_active (tracks algo ! s)" by (simp_all add: active_slots)
  obtain a table where a: "idle_frames n algo = Some a"
    "a = algo\<lparr>peak_competition := table, tracks := map ((idle_slot algo ^^ n)) (tracks algo)\<rparr>"
    using idle_run [OF assms] by metis
  have "length (tracks algo) = HIMAX_MAX_TOUCH" using assms(1) by (simp add: tracks_ok_def)
  then have "tracks a ! s = (tracks algo ! s)\<lparr>trk_missed := int n\<rparr>"
    using idle_slot_bridged [OF assms(2) s(2)] h s(1) by (simp add: a(2))
  with a(1) show "\<exists>a. idle_frames n algo = Some a \<and> tracks a ! s = (tracks algo ! s)\<lparr>trk_missed := int n\<rparr>" by blast
qed

section \<open>Ghosts\<close>

lemma ghost_drops_iff:
  "k \<in> set (ghost_drops algo dets) \<longleftrightarrow> (\<exists>i j. i < j \<and> j < length dets \<and> ghost_of algo dets i j = Some k)"
proof -
  have "k \<in> set (List.map_filter (ghost_of algo dets i) js) \<longleftrightarrow> (\<exists>j\<in>set js. ghost_of algo dets i j = Some k)" for i js
    by (force simp: List.map_filter_def)
  then have "k \<in> set (ghost_drops algo dets)
      \<longleftrightarrow> (\<exists>i<length dets. \<exists>j\<in>set [Suc i..<length dets]. ghost_of algo dets i j = Some k)"
    by (auto simp: ghost_drops_def Bex_def)
  also have "\<dots> \<longleftrightarrow> (\<exists>i j. i < j \<and> j < length dets \<and> ghost_of algo dets i j = Some k)"
  proof
    assume "\<exists>i j. i < j \<and> j < length dets \<and> ghost_of algo dets i j = Some k"
    then obtain i j where "i < j" "j < length dets" "ghost_of algo dets i j = Some k" by blast
    then show "\<exists>i<length dets. \<exists>j\<in>set [Suc i..<length dets]. ghost_of algo dets i j = Some k"
      by (intro exI [of _ i] conjI bexI [of _ j]) simp_all
  next
    assume "\<exists>i<length dets. \<exists>j\<in>set [Suc i..<length dets]. ghost_of algo dets i j = Some k"
    then show "\<exists>i j. i < j \<and> j < length dets \<and> ghost_of algo dets i j = Some k"
      unfolding set_upt by (meson atLeastLessThan_iff Suc_le_lessD)
  qed
  finally show ?thesis .
qed

lemma ghost_of_some:
  assumes "ghost_of algo dets i j = Some k" "i \<noteq> j"
  shows "k = i \<or> k = j" "\<not> ghost_linked algo (dets ! k)"
    "\<exists>l\<in>{i, j} - {k}. ct_signal_sum (contacts algo ! k) \<le> ct_signal_sum (contacts algo ! l)
      \<and> \<not> s64 (ct_signal_sum (contacts algo ! k) * 256) > s64 (ct_signal_sum (contacts algo ! l) * ghost_weak_ratio_q8 (trk algo))
      \<and> \<bar>pos_y (dets ! k) - pos_y (dets ! l)\<bar> \<le> ghost_row_distance (trk algo)
      \<and> ghost_min_col_distance (trk algo) \<le> \<bar>pos_x (dets ! k) - pos_x (dets ! l)\<bar>"
  using assms by (auto simp: ghost_of_def Let_def abs_minus_commute split: if_splits)

lemma ghost_dropped:
  assumes "k \<in> set (ghost_drops algo dets)"
  shows "\<exists>l<length dets. l \<noteq> k \<and> \<not> ghost_linked algo (dets ! k)
    \<and> ct_signal_sum (contacts algo ! k) \<le> ct_signal_sum (contacts algo ! l)
    \<and> \<not> s64 (ct_signal_sum (contacts algo ! k) * 256) > s64 (ct_signal_sum (contacts algo ! l) * ghost_weak_ratio_q8 (trk algo))
    \<and> \<bar>pos_y (dets ! k) - pos_y (dets ! l)\<bar> \<le> ghost_row_distance (trk algo)"
proof -
  obtain i j where ij: "i < j" "j < length dets" "ghost_of algo dets i j = Some k"
    using assms unfolding ghost_drops_iff by blast
  then have ne: "i \<noteq> j" and i: "i < length dets" by simp_all
  show ?thesis using ghost_of_some(2) [OF ij(3) ne] ghost_of_some(3) [OF ij(3) ne] ij(2) i by auto
qed

text \<open>A contact of the greatest signal is no ghost.\<close>

lemma strongest_not_dropped:
  assumes len: "length (contacts algo) = length dets"
    and ratio: "0 \<le> ghost_weak_ratio_q8 (trk algo)" "ghost_weak_ratio_q8 (trk algo) \<le> 255"
    and sig: "\<forall>ct\<in>set (contacts algo). 0 < ct_signal_sum ct \<and> ct_signal_sum ct < 2 ^ 31"
    and ne: "dets \<noteq> []"
  shows "\<exists>k<length dets. k \<notin> set (ghost_drops algo dets)"
proof (rule ccontr)
  let ?sum = "\<lambda>k. ct_signal_sum (contacts algo ! k)"
  assume "\<not> ?thesis"
  then have all: "k \<in> set (ghost_drops algo dets)" if "k < length dets" for k using that by blast
  define m where "m = Max (?sum ` {..<length dets})"
  have fin: "finite (?sum ` {..<length dets})" "?sum ` {..<length dets} \<noteq> {}" using ne by auto
  obtain k where k: "k < length dets" "?sum k = m"
    using Max_in [OF fin] by (auto simp: m_def)
  obtain l where l: "l < length dets" "?sum k \<le> ?sum l"
    "\<not> s64 (?sum k * 256) > s64 (?sum l * ghost_weak_ratio_q8 (trk algo))"
    using ghost_dropped [OF all [OF k(1)]] by blast
  have "?sum l \<le> m" using Max_ge [OF fin(1)] l(1) by (simp add: m_def)
  then have eq: "?sum l = m" using l(2) k(2) by simp
  have m: "0 < m" "m < 2 ^ 31" using sig k len by (metis nth_mem)+
  have r: "m * ghost_weak_ratio_q8 (trk algo) \<le> m * 255" "0 \<le> m * ghost_weak_ratio_q8 (trk algo)"
    using ratio m(1) by (auto intro: mult_left_mono)
  have "s64 (m * 256) = m * 256" using m by (intro s64_id) auto
  moreover have "s64 (m * ghost_weak_ratio_q8 (trk algo)) = m * ghost_weak_ratio_q8 (trk algo)"
    using r m(2) by (intro s64_id) auto
  ultimately show False using l(3) k(2) eq m(1) r(1) by simp
qed

text \<open>What a ghost is: an unlinked detection with a much stronger one on its row, in another column.\<close>

definition is_ghost :: "hx_algo \<Rightarrow> input_mt_pos list \<Rightarrow> nat \<Rightarrow> bool" where
  "is_ghost algo dets k \<longleftrightarrow> ghost_enabled (trk algo)
     \<and> \<not> (\<exists>t\<in>set (tracks algo). trk_active t \<and> hx_dist2_predicted (dets ! k) t \<le> track_dist2_max (trk algo))
     \<and> (\<exists>l\<in>set [0..<length dets]. l \<noteq> k
          \<and> \<bar>pos_y (dets ! k) - pos_y (dets ! l)\<bar> \<le> ghost_row_distance (trk algo)
          \<and> ghost_min_col_distance (trk algo) \<le> \<bar>pos_x (dets ! k) - pos_x (dets ! l)\<bar>
          \<and> ct_signal_sum (contacts algo ! k) * 256 \<le> ct_signal_sum (contacts algo ! l) * ghost_weak_ratio_q8 (trk algo))"

lemma weak_ratio_exact:
  assumes "0 \<le> r" "r \<le> 255" "0 < a" "a < 2 ^ 31" "0 < b" "b < 2 ^ 31"
  shows "s64 (a * 256) = a * 256" "s64 (b * r) = b * r" "a * 256 \<le> b * r \<Longrightarrow> a < b"
proof -
  have r: "b * r \<le> b * 255" "0 \<le> b * r" using assms by (auto intro: mult_left_mono)
  show "s64 (a * 256) = a * 256" using assms(3,4) by (intro s64_id) auto
  show "s64 (b * r) = b * r" using r assms(6) by (intro s64_id) auto
  show "a * 256 \<le> b * r \<Longrightarrow> a < b" using r(1) assms(5) by linarith
qed

lemma ghost_drops_exact:
  assumes len: "length (contacts algo) = length dets"
    and ratio: "0 \<le> ghost_weak_ratio_q8 (trk algo)" "ghost_weak_ratio_q8 (trk algo) \<le> 255"
    and sig: "\<forall>ct\<in>set (contacts algo). 0 < ct_signal_sum ct \<and> ct_signal_sum ct < 2 ^ 31"
    and k: "k < length dets" and on: "ghost_enabled (trk algo)"
  shows "k \<in> set (ghost_drops algo dets) \<longleftrightarrow> is_ghost algo dets k"
proof
  have pos: "0 < ct_signal_sum (contacts algo ! i)" "ct_signal_sum (contacts algo ! i) < 2 ^ 31" if "i < length dets" for i
    using sig len that by (metis nth_mem)+
  note exact = weak_ratio_exact [OF ratio pos [OF k] pos]
  { assume "k \<in> set (ghost_drops algo dets)"
    then obtain i j where ij: "i < j" "j < length dets" "ghost_of algo dets i j = Some k"
      unfolding ghost_drops_iff by blast
    then have ne: "i \<noteq> j" and i: "i < length dets" by simp_all
    obtain l where l: "l \<in> {i, j} - {k}"
      "\<not> s64 (ct_signal_sum (contacts algo ! k) * 256) > s64 (ct_signal_sum (contacts algo ! l) * ghost_weak_ratio_q8 (trk algo))"
      "\<bar>pos_y (dets ! k) - pos_y (dets ! l)\<bar> \<le> ghost_row_distance (trk algo)"
      "ghost_min_col_distance (trk algo) \<le> \<bar>pos_x (dets ! k) - pos_x (dets ! l)\<bar>"
      using ghost_of_some(3) [OF ij(3) ne] by blast
    then have "l < length dets" using i ij(2) by auto
    then show "is_ghost algo dets k"
      using ghost_of_some(2) [OF ij(3) ne] l exact(1,2) [of l] on
      unfolding is_ghost_def ghost_linked_def list_ex_iff by (auto intro!: bexI [of _ l]) }
  assume g: "is_ghost algo dets k"
  then obtain l where l: "l < length dets" "l \<noteq> k"
    "\<bar>pos_y (dets ! k) - pos_y (dets ! l)\<bar> \<le> ghost_row_distance (trk algo)"
    "ghost_min_col_distance (trk algo) \<le> \<bar>pos_x (dets ! k) - pos_x (dets ! l)\<bar>"
    "ct_signal_sum (contacts algo ! k) * 256 \<le> ct_signal_sum (contacts algo ! l) * ghost_weak_ratio_q8 (trk algo)"
    by (auto simp: is_ghost_def)
  have linked: "\<not> ghost_linked algo (dets ! k)" using g by (auto simp: is_ghost_def ghost_linked_def list_ex_iff)
  have lt: "ct_signal_sum (contacts algo ! k) < ct_signal_sum (contacts algo ! l)" using exact(3) [OF l(1) l(1) l(5)] .
  have "ghost_of algo dets (min k l) (max k l) = Some k"
    using l linked lt exact(1,2) [OF l(1) l(1)]
    by (cases "k < l") (auto simp: ghost_of_def Let_def min_def max_def abs_minus_commute)
  moreover have "min k l < max k l" "max k l < length dets" using k l(1,2) by auto
  ultimately show "k \<in> set (ghost_drops algo dets)" unfolding ghost_drops_iff by blast
qed

text \<open>C14: ghost suppression drops exactly the ghosts: the detections that no active slot predicts within
  \<open>track_dist2_max\<close> and that have another detection within \<open>ghost_row_distance\<close> in the rows, at least
  \<open>ghost_min_col_distance\<close> away in the columns, of whose signal theirs is at most \<open>ghost_weak_ratio_q8\<close>
  in 256; none when the suppression is off.  Contacts and positions stay paired and in order, and when
  there is a detection at all one remains.  The ratio is a byte and the signals are positive.\<close>

theorem ghosts_only_unlinked:
  assumes len: "length (contacts algo) = length dets" and ratio: "0 \<le> ghost_weak_ratio_q8 (trk algo)" "ghost_weak_ratio_q8 (trk algo) \<le> 255"
    and sig: "\<forall>ct\<in>set (contacts algo). 0 < ct_signal_sum ct \<and> ct_signal_sum ct < 2 ^ 31"
  shows "let kept = filter (\<lambda>k. \<not> is_ghost algo dets k) [0..<length dets] in
    hx_suppress_rx_ghosts algo dets = (algo\<lparr>contacts := map ((!) (contacts algo)) kept\<rparr>, map ((!) dets) kept)
    \<and> (dets \<noteq> [] \<longrightarrow> kept \<noteq> [])"
proof (cases "ghost_enabled (trk algo)")
  case False
  have "map ((!) (contacts algo)) [0..<length dets] = contacts algo" using map_nth [of "contacts algo"] len by simp
  then show ?thesis using False map_nth [of dets]
    by (simp add: hx_suppress_rx_ghosts_def is_ghost_def)
next
  case True
  have kept: "filter (\<lambda>k. \<not> is_ghost algo dets k) [0..<length dets] = filter (\<lambda>i. i \<notin> set (ghost_drops algo dets)) [0..<length dets]"
    using ghost_drops_exact [OF assms _ True] by (intro filter_cong) simp_all
  have "dets \<noteq> [] \<longrightarrow> filter (\<lambda>i. i \<notin> set (ghost_drops algo dets)) [0..<length dets] \<noteq> []"
    using strongest_not_dropped [OF assms] by (fastforce simp: filter_empty_conv)
  then show ?thesis
    using True by (simp add: hx_suppress_rx_ghosts_def kept Let_def)
qed

section \<open>Witnesses\<close>

lemma trk_new [simp]: "trk new_algo = default_trk" "contacts new_algo = []"
  "tracks new_algo = replicate HIMAX_MAX_TOUCH zero_track" "hungarian_enabled default_trk"
  by (simp_all add: new_algo_def hx_algo_full_reset_def hx_algo_clear_transient_state_def
      hx_algo_init_defaults_def zeroed_algo_def default_trk_def hx_reset_track_def)

lemma default_trk_ok [simp]: "trk_params_ok default_trk"
  by (simp add: trk_params_ok_def default_trk_def)

definition held_touch :: hx_track where
  "held_touch = sample_track\<lparr>trk_age := 5, trk_reported := True\<rparr>"

definition one_finger :: hx_algo where
  "one_finger = new_algo\<lparr>tracks := (tracks new_algo)[3 := held_touch], touch_active := True\<rparr>"

lemma one_finger_ok: "tracks_ok one_finger" "trk_params_ok (trk one_finger)" "contacts_ok one_finger"
proof -
  have "slot_ok default_trk held_touch"
    by (simp add: slot_ok_def held_touch_def sample_track_def track_inside_def zero_track_def default_trk_def)
  then show "tracks_ok one_finger"
    by (auto simp: tracks_ok_def one_finger_def dest!: subsetD [OF set_update_subset_insert])
  show "trk_params_ok (trk one_finger)" "contacts_ok one_finger"
    by (simp_all add: one_finger_def contacts_ok_def)
qed

lemma one_finger_simps [simp]: "trk one_finger = default_trk" "contacts one_finger = []"
  by (simp_all add: one_finger_def)

lemma one_finger_slot: "active_slots one_finger = [3]" "tracks one_finger ! 3 = held_touch"
  by (simp_all add: active_slots_def one_finger_def held_touch_def sample_track_def zero_track_def upt_rec nth_list_update)

theorem tracker_keeps_slots_witness:
  "\<exists>algo'. hx_track_contacts one_finger [\<lparr>pos_x = 100, pos_y = 200\<rparr>] = Some algo' \<and> tracks_ok algo'"
  using tracker_keeps_slots [OF one_finger_ok, of "[\<lparr>pos_x = 100, pos_y = 200\<rparr>]"] by (auto simp: pos_inside_def)

text \<open>One finger followed beside a new one; with a jump limit of 4, the same finger is freed.\<close>

definition jumpy_finger :: hx_algo where
  "jumpy_finger = one_finger\<lparr>trk := default_trk\<lparr>track_jump_dist2 := 4\<rparr>\<rparr>"

lemma jumpy_finger_ok: "tracks_ok jumpy_finger" "trk_params_ok (trk jumpy_finger)" "contacts_ok jumpy_finger"
  using one_finger_ok by (simp_all add: jumpy_finger_def tracks_ok_def slot_ok_def trk_params_ok_def contacts_ok_def)

theorem separated_fingers_keep_slots_witness:
  "(\<exists>algo'. hx_track_contacts one_finger [\<lparr>pos_x = 102, pos_y = 201\<rparr>, \<lparr>pos_x = 1900, pos_y = 900\<rparr>] = Some algo'
      \<and> tracks algo' ! 3 = follow_track one_finger held_touch \<lparr>pos_x = 102, pos_y = 201\<rparr> 0)
    \<and> (\<exists>algo'. hx_track_contacts jumpy_finger [\<lparr>pos_x = 102, pos_y = 201\<rparr>, \<lparr>pos_x = 1900, pos_y = 900\<rparr>] = Some algo'
      \<and> tracks algo' ! 3 = zero_track)"
proof -
  let ?d = "[\<lparr>pos_x = 102, pos_y = 201\<rparr>, \<lparr>pos_x = 1900, pos_y = 900\<rparr>]"
  have sep: "separated one_finger ?d (\<lambda>_. 0)"
    by (auto simp: separated_def one_finger_slot hx_dist2_predicted_def match_gate_def held_touch_def sample_track_def
        zero_track_def default_trk_def sq_dist_def s64_id s32_id continuation_at_def contact_at_def
        peak_changed_def less_Suc_eq nth_Cons')
  then have sepj: "separated jumpy_finger ?d (\<lambda>_. 0)"
    by (simp add: separated_def jumpy_finger_def active_slots_def match_gate_def continuation_at_def contact_at_def
        peak_changed_def unmatched_cost_def)
  have on: "\<forall>d\<in>set ?d. on_panel d" by (simp add: pos_inside_def)
  have slots: "active_slots jumpy_finger = [3]" "tracks jumpy_finger ! 3 = held_touch" "track_jump_dist2 (trk jumpy_finger) = 4"
    using one_finger_slot by (simp_all add: jumpy_finger_def active_slots_def)
  have "track_jump_dist2 (trk one_finger) \<le> 0" by (simp add: default_trk_def)
  then show ?thesis
    using separated_fingers_keep_slots [OF one_finger_ok on sep] separated_fingers_keep_slots [OF jumpy_finger_ok on sepj]
    by (auto simp: one_finger_slot slots Let_def held_touch_def sample_track_def)
qed

theorem lost_finger_released_witness:
  "\<exists>a. idle_frames (Suc (nat (track_lost_frames default_trk))) one_finger = Some a \<and> active_slots a = []"
  using conjunct1 [OF lost_finger_released [OF one_finger_ok]] by (simp add: one_finger_def)

definition plain_contact :: "int \<Rightarrow> hx_contact" where
  "plain_contact sig = \<lparr>ct_x = 0, ct_y = 0, ct_area = 5, ct_signal_sum = sig, ct_is_edge = False,
     ct_fast_start_candidate = False, ct_peak_index = 0, ct_source_peak_id = 1, ct_source_peak_age = 0,
     ct_source_zone_index = 0, ct_continuation_only = False, ct_continuation_track_slot = -1\<rparr>"

text \<open>
  Three detections on one row beside a held finger: the weak one far from the strong one is a ghost, an
  equally weak one too close to it in the columns is not; the position at which the finger is expected is
  kept however weak its signal.
\<close>

theorem ghosts_only_unlinked_witness:
  "snd (hx_suppress_rx_ghosts (one_finger\<lparr>contacts := map plain_contact [9000, 500, 500, 400]\<rparr>)
     [\<lparr>pos_x = 700, pos_y = 200\<rparr>, \<lparr>pos_x = 1500, pos_y = 205\<rparr>, \<lparr>pos_x = 760, pos_y = 195\<rparr>, \<lparr>pos_x = 102, pos_y = 201\<rparr>])
    = [\<lparr>pos_x = 700, pos_y = 200\<rparr>, \<lparr>pos_x = 760, pos_y = 195\<rparr>, \<lparr>pos_x = 102, pos_y = 201\<rparr>]"
proof -
  let ?a = "one_finger\<lparr>contacts := map plain_contact [9000, 500, 500, 400]\<rparr>"
  let ?d = "[\<lparr>pos_x = 700, pos_y = 200\<rparr>, \<lparr>pos_x = 1500, pos_y = 205\<rparr>, \<lparr>pos_x = 760, pos_y = 195\<rparr>, \<lparr>pos_x = 102, pos_y = 201\<rparr>]"
  have pre: "length (contacts ?a) = length ?d" "0 \<le> ghost_weak_ratio_q8 (trk ?a)" "ghost_weak_ratio_q8 (trk ?a) \<le> 255"
    "\<forall>ct\<in>set (contacts ?a). 0 < ct_signal_sum ct \<and> ct_signal_sum ct < 2 ^ 31"
    by (simp_all add: plain_contact_def default_trk_def)
  have "filter (\<lambda>k. \<not> is_ghost ?a ?d k) [0..<length ?d] = [0, 2, 3]" by code_simp
  then show ?thesis using ghosts_only_unlinked [OF pre] by (simp add: Let_def)
qed

end
