(* ===== verification/Hx_Wake.thy ===== *)
theory Hx_Wake
  imports Hx_State
begin

text \<open>
  Wake qualification (\<open>hx-algo.c\<close>): after every screen-on the incoming matrices are compared
  with a candidate until enough complete frames agree, and only then become the baseline.  A
  finger at screen-on selects the last safe baseline.  The run invariant says which frames a
  committed baseline rests on.  The exception-frame test of the running panel is here too.
\<close>

section \<open>The qualifier\<close>

definition wake_out_of_range :: "int list \<Rightarrow> int" where
  "wake_out_of_range raw =
     int (length (filter (\<lambda>i. raw ! i < 0x1000 \<or> raw ! i > 0xf000) [1..<HX_PIXELS]))"

text \<open>A node whose sample moved away from the candidate.\<close>

definition wake_moved :: "hx_pre_params \<Rightarrow> grid \<Rightarrow> int list \<Rightarrow> nat \<Rightarrow> bool" where
  "wake_moved p candidate raw i \<longleftrightarrow>
     \<bar>shr (s32 (s32 (raw ! i * 2 ^ 8) - candidate ! i)) 8\<bar> > wake_raw_jump_threshold p"

text \<open>The counters \<open>row_unstable[]\<close> and \<open>col_unstable[]\<close>: flagged nodes of one line.\<close>

definition row_hits :: "(nat \<Rightarrow> bool) \<Rightarrow> nat \<Rightarrow> int" where
  "row_hits P r = int (length (filter (\<lambda>i. i div HX_COLS = r \<and> P i) [1..<HX_PIXELS]))"

definition col_hits :: "(nat \<Rightarrow> bool) \<Rightarrow> nat \<Rightarrow> int" where
  "col_hits P c = int (length (filter (\<lambda>i. i mod HX_COLS = c \<and> P i) [1..<HX_PIXELS]))"

text \<open>The number of unstable nodes, forced over the limit when one line has too many.\<close>

definition unstable_nodes :: "hx_pre_params \<Rightarrow> (nat \<Rightarrow> bool) \<Rightarrow> int" where
  "unstable_nodes p moved =
     (let unstable = int (length (filter moved [1..<HX_PIXELS])) in
      if (\<exists>r\<in>set [0..<HX_ROWS]. row_hits moved r \<ge> wake_max_unstable_line_nodes p)
         \<or> (\<exists>c\<in>set [0..<HX_COLS]. col_hits moved c \<ge> wake_max_unstable_line_nodes p)
      then u16 (wake_max_unstable_nodes p + 1) else unstable)"

definition wake_unstable :: "hx_pre_params \<Rightarrow> grid \<Rightarrow> int list \<Rightarrow> int" where
  "wake_unstable p candidate raw = unstable_nodes p (wake_moved p candidate raw)"

text \<open>How far the candidate's shape is from the last safe baseline, its common shift removed.\<close>

definition wake_divergent :: "hx_algo \<Rightarrow> int" where
  "wake_divergent algo =
     (let d = (\<lambda>i. shr (s32 (wake_candidate_q8 algo ! i - safe_baseline_q8 algo ! i)) 8);
          sum = s64 (sum_list (map d [1..<HX_PIXELS]));
          common = s32 (sum sdiv (int HX_PIXELS - 1)) in
      int (length (filter (\<lambda>i. \<bar>s32 (d i - common)\<bar> > wake_raw_jump_threshold (pre algo) * 2)
        [1..<HX_PIXELS])))"

definition wake_finger_frame :: "hx_algo \<Rightarrow> hx_algo \<times> hx_wake_quality_result" where
  "wake_finger_frame algo0 =
     (let algo = algo0\<lparr>wake_candidate_valid := False, wake_candidate_frames := 0,
          wake_needs_double_confirm := False,
          wake_finger_frames := (if wake_finger_frames algo0 < U8_MAX
            then wake_finger_frames algo0 + 1 else wake_finger_frames algo0)\<rparr> in
      if wake_finger_frames algo \<ge> wake_finger_safe_frames (pre algo) then
        let base = (if safe_baseline_valid algo then safe_baseline_q8 algo
          else if \<not> baseline_initialized algo
            then replicate HX_PIXELS (s32 (baseline_initial (pre algo) * 2 ^ 8))
            else baseline_q8 algo) in
        (algo\<lparr>baseline_q8 := base, baseline_initialized := True, wake_qualifying := False\<rparr>,
         if safe_baseline_valid algo then HX_WAKE_QUALITY_USING_SAFE else HX_WAKE_QUALITY_PROTECTED)
      else (algo, HX_WAKE_QUALITY_PENDING))"

definition wake_commit :: "hx_algo \<Rightarrow> hx_algo" where
  "wake_commit algo = algo\<lparr>
     baseline_q8 := wake_candidate_q8 algo, safe_baseline_q8 := wake_candidate_q8 algo,
     baseline_initialized := True, safe_baseline_valid := True, wake_qualifying := False,
     wake_candidate_valid := False, wake_needs_double_confirm := False,
     baseline_prev_had_signal := False, baseline_had_freeze := False,
     baseline_recovery_frames := 0\<rparr>"

text \<open>A frame that agrees with the candidate: count it, and decide whether it is enough.\<close>

definition wake_stable_frame :: "hx_algo \<Rightarrow> hx_algo \<times> hx_wake_quality_result" where
  "wake_stable_frame algo0 =
     (let algo1 = algo0\<lparr>wake_candidate_frames := (if wake_candidate_frames algo0 < U8_MAX
          then wake_candidate_frames algo0 + 1 else wake_candidate_frames algo0)\<rparr>;
          p = pre algo1 in
      if wake_candidate_frames algo1 < wake_stable_frames p then (algo1, HX_WAKE_QUALITY_PENDING)
      else
        let algo = (if safe_baseline_valid algo1 \<and> \<not> wake_needs_double_confirm algo1
              \<and> wake_divergent algo1 > wake_max_unstable_nodes p
            then algo1\<lparr>wake_needs_double_confirm := True\<rparr> else algo1);
            required_frames = (if wake_needs_double_confirm algo
              then min (u8 (wake_stable_frames p * 2)) U8_MAX else wake_stable_frames p) in
        if wake_candidate_frames algo < required_frames then (algo, HX_WAKE_QUALITY_PENDING)
        else (wake_commit algo, HX_WAKE_QUALITY_READY))"

definition hx_algo_qualify_wake_frame ::
  "hx_algo \<Rightarrow> int list \<Rightarrow> hx_finger_state \<Rightarrow> hx_algo \<times> hx_wake_quality_result" where
  "hx_algo_qualify_wake_frame algo raw finger_state =
     (if \<not> wake_qualifying algo then (algo, HX_WAKE_QUALITY_READY)
      else if wake_out_of_range raw > wake_max_unstable_nodes (pre algo) then
        (algo\<lparr>wake_candidate_valid := False, wake_candidate_frames := 0,
           wake_needs_double_confirm := False\<rparr>, HX_WAKE_QUALITY_REJECTED)
      else if finger_state = HX_FINGER_PRESENT then wake_finger_frame algo
      else
        let algo = algo\<lparr>wake_finger_frames := 0\<rparr> in
        if \<not> wake_candidate_valid algo then
          (algo\<lparr>wake_candidate_q8 := hx_copy_raw_to_baseline raw, wake_candidate_valid := True,
             wake_candidate_frames := 1\<rparr>, HX_WAKE_QUALITY_PENDING)
        else if wake_unstable (pre algo) (wake_candidate_q8 algo) raw > wake_max_unstable_nodes (pre algo) then
          (algo\<lparr>wake_candidate_q8 := hx_copy_raw_to_baseline raw, wake_candidate_frames := 1,
             wake_needs_double_confirm := False\<rparr>, HX_WAKE_QUALITY_REJECTED)
        else wake_stable_frame algo)"

section \<open>Exception frames\<close>

definition hx_algo_is_exception_frame :: "hx_algo \<Rightarrow> int list \<Rightarrow> bool" where
  "hx_algo_is_exception_frame algo raw =
     (if \<not> baseline_initialized algo \<or> wake_qualifying algo then False
      else
        let p = pre algo;
            d = (\<lambda>i. s32 (raw ! i - shr (baseline_q8 algo ! i) 8));
            sum = s64 (sum_list (map d [1..<HX_PIXELS]));
            common = s32 (sum sdiv (int HX_PIXELS - 1));
            bad = (\<lambda>i. \<bar>s32 (d i - common)\<bar> \<ge> runtime_noise_threshold p) in
        (\<exists>r\<in>set [0..<HX_ROWS]. row_hits bad r \<ge> runtime_noise_line_nodes p)
        \<or> (\<exists>c\<in>set [0..<HX_COLS]. col_hits bad c \<ge> runtime_noise_line_nodes p)
        \<or> \<not> int (length (filter bad [1..<HX_PIXELS])) < runtime_noise_total_nodes p)"

section \<open>Runs of the qualifier\<close>

text \<open>The frames of a run, newest first.\<close>

definition wake_run :: "hx_algo \<Rightarrow> (int list \<times> hx_finger_state) list \<Rightarrow> hx_algo" where
  "wake_run algo frames =
     foldr (\<lambda>(raw, fs) al. fst (hx_algo_qualify_wake_frame al raw fs)) frames algo"

lemma wake_run_simps [simp]:
  "wake_run algo [] = algo"
  "wake_run algo ((raw, fs) # frames) = fst (hx_algo_qualify_wake_frame (wake_run algo frames) raw fs)"
  by (simp_all add: wake_run_def)

text \<open>
  The newest \<open>n\<close> frames are complete and without a finger, the oldest of them is the candidate,
  and the later ones agree with it.
\<close>

definition wake_window ::
  "hx_pre_params \<Rightarrow> grid \<Rightarrow> (int list \<times> hx_finger_state) list \<Rightarrow> nat \<Rightarrow> bool" where
  "wake_window p candidate frames n \<longleftrightarrow>
     0 < n \<and> n \<le> length frames
     \<and> candidate = hx_copy_raw_to_baseline (fst (frames ! (n - 1)))
     \<and> (\<forall>k<n. snd (frames ! k) \<noteq> HX_FINGER_PRESENT
          \<and> wake_out_of_range (fst (frames ! k)) \<le> wake_max_unstable_nodes p)
     \<and> (\<forall>k<n - 1. wake_unstable p candidate (fst (frames ! k)) \<le> wake_max_unstable_nodes p)"

definition wake_inv :: "hx_algo \<Rightarrow> (int list \<times> hx_finger_state) list \<Rightarrow> bool" where
  "wake_inv algo frames \<longleftrightarrow>
     (wake_qualifying algo \<longrightarrow> wake_candidate_valid algo \<longrightarrow>
       (\<exists>n. wake_candidate_frames algo \<le> int n
         \<and> wake_window (pre algo) (wake_candidate_q8 algo) frames n))"

lemma wake_window_first:
  "fs \<noteq> HX_FINGER_PRESENT \<Longrightarrow> wake_out_of_range raw \<le> wake_max_unstable_nodes p \<Longrightarrow>
    wake_window p (hx_copy_raw_to_baseline raw) ((raw, fs) # frames) 1"
  by (simp add: wake_window_def)

lemma wake_window_Cons:
  assumes "wake_window p c frames n" "fs \<noteq> HX_FINGER_PRESENT"
    "wake_out_of_range raw \<le> wake_max_unstable_nodes p"
    "wake_unstable p c raw \<le> wake_max_unstable_nodes p"
  shows "wake_window p c ((raw, fs) # frames) (Suc n)"
  using assms unfolding wake_window_def
  by (auto simp: nth_Cons split: nat.splits)

lemma wake_finger_keeps:
  "pre (fst (wake_finger_frame a)) = pre a"
  "safe_baseline_q8 (fst (wake_finger_frame a)) = safe_baseline_q8 a"
  "safe_baseline_valid (fst (wake_finger_frame a)) = safe_baseline_valid a"
  "wake_candidate_valid (fst (wake_finger_frame a)) = False"
  by (simp_all add: wake_finger_frame_def Let_def)

lemma wake_stable_pre [simp]: "pre (fst (wake_stable_frame a)) = pre a"
  by (simp add: wake_stable_frame_def wake_commit_def Let_def)

lemma wake_pre [simp]: "pre (fst (hx_algo_qualify_wake_frame a raw fs)) = pre a"
  by (simp add: hx_algo_qualify_wake_frame_def Let_def wake_finger_keeps)

text \<open>An agreeing frame that is not the last one leaves the candidate and counts it.\<close>

lemma wake_stable_cases:
  assumes "wake_stable_frame a = (a', r)"
  shows "(r = HX_WAKE_QUALITY_PENDING \<and> wake_candidate_q8 a' = wake_candidate_q8 a
      \<and> wake_candidate_frames a' \<le> wake_candidate_frames a + 1
      \<and> baseline_q8 a' = baseline_q8 a \<and> safe_baseline_q8 a' = safe_baseline_q8 a
      \<and> wake_qualifying a' = wake_qualifying a)
    \<or> (r = HX_WAKE_QUALITY_READY \<and> \<not> wake_qualifying a'
      \<and> baseline_q8 a' = wake_candidate_q8 a \<and> safe_baseline_q8 a' = wake_candidate_q8 a
      \<and> baseline_initialized a' \<and> safe_baseline_valid a'
      \<and> wake_stable_frames (pre a) \<le> wake_candidate_frames a + 1
      \<and> (safe_baseline_valid a \<and> wake_divergent a > wake_max_unstable_nodes (pre a) \<longrightarrow>
          min (u8 (wake_stable_frames (pre a) * 2)) U8_MAX \<le> wake_candidate_frames a + 1))"
proof -
  have div: "wake_divergent (a\<lparr>wake_candidate_frames := k\<rparr>) = wake_divergent a" for k
    by (simp add: wake_divergent_def)
  show ?thesis
    using assms unfolding wake_stable_frame_def Let_def
    by (simp add: div wake_commit_def split: if_splits) auto
qed

text \<open>One qualifier step that reaches the candidate comparison.\<close>

lemma qualify_agrees:
  assumes "wake_qualifying a" "wake_out_of_range raw \<le> wake_max_unstable_nodes (pre a)"
    "fs \<noteq> HX_FINGER_PRESENT" "wake_candidate_valid a"
    "wake_unstable (pre a) (wake_candidate_q8 a) raw \<le> wake_max_unstable_nodes (pre a)"
  shows "hx_algo_qualify_wake_frame a raw fs = wake_stable_frame (a\<lparr>wake_finger_frames := 0\<rparr>)"
  using assms by (simp add: hx_algo_qualify_wake_frame_def Let_def not_less)

lemma wake_inv_step:
  assumes inv: "wake_inv a frames"
  shows "wake_inv (fst (hx_algo_qualify_wake_frame a raw fs)) ((raw, fs) # frames)"
proof (cases "wake_qualifying a \<and> wake_out_of_range raw \<le> wake_max_unstable_nodes (pre a)
    \<and> fs \<noteq> HX_FINGER_PRESENT")
  case False
  then show ?thesis
    by (auto simp: wake_inv_def hx_algo_qualify_wake_frame_def Let_def not_le wake_finger_keeps)
next
  case True
  show ?thesis
  proof (cases "wake_candidate_valid a
      \<and> wake_unstable (pre a) (wake_candidate_q8 a) raw \<le> wake_max_unstable_nodes (pre a)")
    case False
    with True have "pre (fst (hx_algo_qualify_wake_frame a raw fs)) = pre a
      \<and> wake_candidate_frames (fst (hx_algo_qualify_wake_frame a raw fs)) = 1
      \<and> wake_candidate_q8 (fst (hx_algo_qualify_wake_frame a raw fs)) = hx_copy_raw_to_baseline raw"
      by (auto simp: hx_algo_qualify_wake_frame_def Let_def not_le)
    then show ?thesis
      using True wake_window_first [of fs raw "pre a" frames] unfolding wake_inv_def
      by (metis of_nat_1 order_refl)
  next
    case agrees: True
    let ?a = "a\<lparr>wake_finger_frames := 0\<rparr>"
    have q: "hx_algo_qualify_wake_frame a raw fs = wake_stable_frame ?a"
      using qualify_agrees True agrees by blast
    obtain a' r where s: "wake_stable_frame ?a = (a', r)" by (cases "wake_stable_frame ?a")
    obtain n where n: "wake_candidate_frames a \<le> int n"
      and w: "wake_window (pre a) (wake_candidate_q8 a) frames n"
      using inv True agrees by (auto simp: wake_inv_def)
    have w': "wake_window (pre a) (wake_candidate_q8 a) ((raw, fs) # frames) (Suc n)"
      using w True agrees by (blast intro: wake_window_Cons)
    have pre: "pre a' = pre a" using wake_stable_pre [of ?a] s by simp
    show ?thesis
      using wake_stable_cases [OF s] w' n pre unfolding q s wake_inv_def fst_conv
      by (auto intro!: exI [of _ "Suc n"])
  qed
qed

lemma wake_run_inv: "wake_inv (wake_run (hx_algo_begin_wake a) frames) frames"
proof (induction frames)
  case Nil
  show ?case by (simp add: wake_inv_def hx_algo_begin_wake_def)
next
  case (Cons f frames)
  then show ?case by (cases f) (simp add: wake_inv_step)
qed

lemma wake_run_pre: "pre (wake_run a frames) = pre a"
  by (induction frames) auto

text \<open>What the qualifier does to the baselines, by result.\<close>

lemma qualify_pending:
  assumes "hx_algo_qualify_wake_frame a raw fs = (a', r)" "wake_qualifying a"
    "r = HX_WAKE_QUALITY_PENDING \<or> r = HX_WAKE_QUALITY_REJECTED"
  shows "baseline_q8 a' = baseline_q8 a \<and> safe_baseline_q8 a' = safe_baseline_q8 a
    \<and> wake_qualifying a'"
proof (cases "wake_out_of_range raw \<le> wake_max_unstable_nodes (pre a) \<and> fs \<noteq> HX_FINGER_PRESENT
    \<and> wake_candidate_valid a
    \<and> wake_unstable (pre a) (wake_candidate_q8 a) raw \<le> wake_max_unstable_nodes (pre a)")
  case True
  then have "wake_stable_frame (a\<lparr>wake_finger_frames := 0\<rparr>) = (a', r)"
    using qualify_agrees assms by metis
  then show ?thesis using wake_stable_cases assms by fastforce
next
  case False
  then show ?thesis
    using assms by (auto simp: hx_algo_qualify_wake_frame_def Let_def wake_finger_frame_def
        split: if_splits)
qed

text \<open>While a frame is only pending or rejected, neither the working nor the safe baseline
  changes and qualification goes on; a frame with a finger never changes the safe baseline, and
  leaves the working baseline either alone or at the safe one, or, before any baseline was
  learned, at the nominal value: a finger at screen-on is never learned.\<close>

theorem wake_never_learns_finger:
  assumes "hx_algo_qualify_wake_frame a raw fs = (a', r)" and "wake_qualifying a"
  shows "(r = HX_WAKE_QUALITY_PENDING \<or> r = HX_WAKE_QUALITY_REJECTED \<longrightarrow>
      baseline_q8 a' = baseline_q8 a \<and> safe_baseline_q8 a' = safe_baseline_q8 a \<and> wake_qualifying a')
    \<and> (fs = HX_FINGER_PRESENT \<longrightarrow> safe_baseline_q8 a' = safe_baseline_q8 a
      \<and> \<not> wake_candidate_valid a'
      \<and> (baseline_q8 a' = baseline_q8 a
        \<or> safe_baseline_valid a \<and> baseline_q8 a' = safe_baseline_q8 a
        \<or> \<not> baseline_initialized a
          \<and> baseline_q8 a' = replicate HX_PIXELS (s32 (baseline_initial (pre a) * 2 ^ 8))))"
proof -
  have "fs = HX_FINGER_PRESENT \<longrightarrow> safe_baseline_q8 a' = safe_baseline_q8 a
      \<and> \<not> wake_candidate_valid a'
      \<and> (baseline_q8 a' = baseline_q8 a
        \<or> safe_baseline_valid a \<and> baseline_q8 a' = safe_baseline_q8 a
        \<or> \<not> baseline_initialized a
          \<and> baseline_q8 a' = replicate HX_PIXELS (s32 (baseline_initial (pre a) * 2 ^ 8)))"
    using assms by (auto simp: hx_algo_qualify_wake_frame_def wake_finger_frame_def Let_def
        split: if_splits)
  then show ?thesis using qualify_pending [OF assms] by blast
qed

text \<open>C37: after a screen-on, a baseline is only committed as READY when at least
  \<open>wake_stable_frames\<close> consecutive complete frames without a finger agree with the oldest of
  them; that oldest frame becomes both the working and the safe baseline.  When it differs in
  shape from a valid safe baseline, twice as many frames are needed.\<close>

theorem wake_commit_needs_stable_window:
  assumes "wake_run (hx_algo_begin_wake a0) frames = a" and "wake_qualifying a"
    and "hx_algo_qualify_wake_frame a raw fs = (a', HX_WAKE_QUALITY_READY)"
  shows "\<exists>n. wake_stable_frames (pre a) \<le> int n
    \<and> wake_window (pre a) (wake_candidate_q8 a) ((raw, fs) # frames) n
    \<and> baseline_q8 a' = wake_candidate_q8 a \<and> safe_baseline_q8 a' = wake_candidate_q8 a
    \<and> \<not> wake_qualifying a' \<and> baseline_initialized a' \<and> safe_baseline_valid a'
    \<and> (safe_baseline_valid a \<and> wake_divergent a > wake_max_unstable_nodes (pre a) \<longrightarrow>
        min (u8 (wake_stable_frames (pre a) * 2)) U8_MAX \<le> int n)"
proof -
  have path: "wake_out_of_range raw \<le> wake_max_unstable_nodes (pre a) \<and> fs \<noteq> HX_FINGER_PRESENT
    \<and> wake_candidate_valid a
    \<and> wake_unstable (pre a) (wake_candidate_q8 a) raw \<le> wake_max_unstable_nodes (pre a)"
    using assms(2,3) by (auto simp: hx_algo_qualify_wake_frame_def Let_def wake_finger_frame_def
        split: if_splits)
  have s: "wake_stable_frame (a\<lparr>wake_finger_frames := 0\<rparr>) = (a', HX_WAKE_QUALITY_READY)"
    using qualify_agrees [of a raw fs] path assms(2,3) by simp
  have div: "wake_divergent (a\<lparr>wake_finger_frames := 0\<rparr>) = wake_divergent a"
    by (simp add: wake_divergent_def)
  obtain n where n: "wake_candidate_frames a \<le> int n"
    and w: "wake_window (pre a) (wake_candidate_q8 a) frames n"
    using wake_run_inv [of a0 frames] assms(1,2) path by (auto simp: wake_inv_def)
  have "wake_window (pre a) (wake_candidate_q8 a) ((raw, fs) # frames) (Suc n)"
    using w path by (blast intro: wake_window_Cons)
  then show ?thesis
    using wake_stable_cases [OF s] n div by (intro exI [of _ "Suc n"]) auto
qed

section \<open>A quiet screen\<close>

lemma not_moved_self:
  "i < HX_PIXELS \<Longrightarrow> 0 \<le> wake_raw_jump_threshold p \<Longrightarrow>
    \<not> wake_moved p (hx_copy_raw_to_baseline raw) raw i"
  by (simp add: wake_moved_def hx_copy_raw_to_baseline_def s32_id shr_def)

lemma wake_unstable_self:
  assumes "0 \<le> wake_raw_jump_threshold p" "0 < wake_max_unstable_line_nodes p"
  shows "wake_unstable p (hx_copy_raw_to_baseline raw) raw = 0"
proof -
  have none: "filter (\<lambda>i. Q i \<and> wake_moved p (hx_copy_raw_to_baseline raw) raw i) [1..<HX_PIXELS] = []"
    for Q using not_moved_self [OF _ assms(1)] by (auto simp: filter_empty_conv)
  show ?thesis
    using none [of "\<lambda>_. True"] none assms(2)
    by (simp add: wake_unstable_def unstable_nodes_def Let_def row_hits_def col_hits_def)
qed

text \<open>The state in the middle of a quiet wake: \<open>k\<close> frames counted.\<close>

definition wake_counted :: "hx_algo \<Rightarrow> int list \<Rightarrow> nat \<Rightarrow> hx_pre_params \<Rightarrow> bool" where
  "wake_counted a raw k p \<longleftrightarrow> wake_qualifying a \<and> wake_candidate_valid a
     \<and> wake_candidate_frames a = int k \<and> wake_candidate_q8 a = hx_copy_raw_to_baseline raw
     \<and> pre a = p \<and> \<not> safe_baseline_valid a \<and> \<not> wake_needs_double_confirm a"

definition wake_quiet :: "hx_pre_params \<Rightarrow> int list \<Rightarrow> hx_finger_state \<Rightarrow> bool" where
  "wake_quiet p raw fs \<longleftrightarrow> 0 \<le> wake_raw_jump_threshold p \<and> 0 < wake_max_unstable_line_nodes p
     \<and> wake_out_of_range raw \<le> wake_max_unstable_nodes p \<and> fs \<noteq> HX_FINGER_PRESENT
     \<and> 0 \<le> wake_max_unstable_nodes p \<and> 2 \<le> wake_stable_frames p \<and> wake_stable_frames p < 256"

lemma wake_counted_step:
  assumes q: "wake_quiet p raw fs" and c: "wake_counted a raw k p"
    and k: "0 < k" "int k < wake_stable_frames p"
  shows "hx_algo_qualify_wake_frame a raw fs
    = (if int (Suc k) < wake_stable_frames p
       then (a\<lparr>wake_finger_frames := 0, wake_candidate_frames := int (Suc k)\<rparr>, HX_WAKE_QUALITY_PENDING)
       else (wake_commit (a\<lparr>wake_finger_frames := 0, wake_candidate_frames := int (Suc k)\<rparr>),
         HX_WAKE_QUALITY_READY))"
proof -
  have "wake_unstable (pre a) (wake_candidate_q8 a) raw = 0"
    using q c wake_unstable_self by (simp add: wake_quiet_def wake_counted_def)
  then have "hx_algo_qualify_wake_frame a raw fs = wake_stable_frame (a\<lparr>wake_finger_frames := 0\<rparr>)"
    using q c by (intro qualify_agrees) (auto simp: wake_quiet_def wake_counted_def)
  then show ?thesis
    using q c k by (auto simp: wake_stable_frame_def Let_def wake_quiet_def wake_counted_def add.commute)
qed

lemma wake_counted_run:
  assumes q: "wake_quiet p raw fs" and a: "pre a = p" "\<not> safe_baseline_valid a"
    and k: "int (Suc k) < wake_stable_frames p"
  shows "wake_counted (wake_run (hx_algo_begin_wake a) (replicate (Suc k) (raw, fs))) raw (Suc k) p"
  using k
proof (induction k)
  case 0
  show ?case
    using q a by (simp add: wake_counted_def hx_algo_begin_wake_def hx_algo_qualify_wake_frame_def
        wake_quiet_def not_less)
next
  case (Suc k)
  then have c: "wake_counted (wake_run (hx_algo_begin_wake a) (replicate (Suc k) (raw, fs))) raw (Suc k) p"
    by simp
  have "hx_algo_qualify_wake_frame (wake_run (hx_algo_begin_wake a) (replicate (Suc k) (raw, fs))) raw fs
    = ((wake_run (hx_algo_begin_wake a) (replicate (Suc k) (raw, fs)))
      \<lparr>wake_finger_frames := 0, wake_candidate_frames := int (Suc (Suc k))\<rparr>, HX_WAKE_QUALITY_PENDING)"
    using wake_counted_step [OF q c] Suc.prems by simp
  then have "wake_run (hx_algo_begin_wake a) (replicate (Suc (Suc k)) (raw, fs))
    = (wake_run (hx_algo_begin_wake a) (replicate (Suc k) (raw, fs)))
      \<lparr>wake_finger_frames := 0, wake_candidate_frames := int (Suc (Suc k))\<rparr>"
    unfolding replicate_Suc wake_run_simps by (simp only: fst_conv)
  with c show ?case unfolding wake_counted_def by simp
qed

text \<open>On a quiet screen without a learned safe baseline, qualification ends: exactly the
  \<open>wake_stable_frames\<close>-th identical complete frame without a finger is READY and becomes the
  baseline, and none before it is.\<close>

theorem wake_quiet_screen_is_ready:
  assumes "wake_quiet p raw fs" "pre a = p" "\<not> safe_baseline_valid a"
    and "int (Suc (Suc k)) \<le> wake_stable_frames p"
  shows "wake_qualifying (wake_run (hx_algo_begin_wake a) (replicate (Suc k) (raw, fs)))
    \<and> (snd (hx_algo_qualify_wake_frame
          (wake_run (hx_algo_begin_wake a) (replicate (Suc k) (raw, fs))) raw fs)
        = HX_WAKE_QUALITY_READY \<longleftrightarrow> int (Suc (Suc k)) = wake_stable_frames p)
    \<and> (int (Suc (Suc k)) = wake_stable_frames p \<longrightarrow>
        baseline_q8 (wake_run (hx_algo_begin_wake a) (replicate (Suc (Suc k)) (raw, fs)))
          = hx_copy_raw_to_baseline raw)"
proof -
  have c: "wake_counted (wake_run (hx_algo_begin_wake a) (replicate (Suc k) (raw, fs))) raw (Suc k) p"
    using assms by (intro wake_counted_run) auto
  have s: "hx_algo_qualify_wake_frame
      (wake_run (hx_algo_begin_wake a) (replicate (Suc k) (raw, fs))) raw fs
    = (let b = wake_run (hx_algo_begin_wake a) (replicate (Suc k) (raw, fs)) in
       if int (Suc (Suc k)) < wake_stable_frames p
       then (b\<lparr>wake_finger_frames := 0, wake_candidate_frames := int (Suc (Suc k))\<rparr>, HX_WAKE_QUALITY_PENDING)
       else (wake_commit (b\<lparr>wake_finger_frames := 0, wake_candidate_frames := int (Suc (Suc k))\<rparr>),
         HX_WAKE_QUALITY_READY))"
    unfolding Let_def by (rule wake_counted_step [OF assms(1) c]) (use assms(4) in auto)
  have r: "wake_run (hx_algo_begin_wake a) (replicate (Suc (Suc k)) (raw, fs))
    = fst (hx_algo_qualify_wake_frame
      (wake_run (hx_algo_begin_wake a) (replicate (Suc k) (raw, fs))) raw fs)"
    unfolding replicate_Suc by (simp only: wake_run_simps)
  show ?thesis
    unfolding r s Let_def using c assms(4) by (auto simp: wake_counted_def wake_commit_def)
qed

section \<open>Witnesses\<close>

definition quiet_raw :: "int list" where
  "quiet_raw = replicate HX_PIXELS 0x7fee"

lemma quiet_default: "wake_quiet (pre new_algo) quiet_raw HX_FINGER_ABSENT"
proof -
  have "wake_out_of_range quiet_raw = 0"
    by (auto simp: wake_out_of_range_def quiet_raw_def filter_empty_conv)
  then show ?thesis
    by (simp add: wake_quiet_def new_algo_def hx_algo_full_reset_def hx_algo_init_defaults_def
        default_pre_def)
qed

lemma new_algo_stable: "wake_stable_frames (pre new_algo) = 6" "\<not> safe_baseline_valid new_algo"
  by (simp_all add: new_algo_def hx_algo_full_reset_def hx_algo_init_defaults_def default_pre_def)

theorem wake_quiet_screen_is_ready_witness:
  "snd (hx_algo_qualify_wake_frame
      (wake_run (hx_algo_begin_wake new_algo) (replicate 5 (quiet_raw, HX_FINGER_ABSENT)))
      quiet_raw HX_FINGER_ABSENT) = HX_WAKE_QUALITY_READY"
  using wake_quiet_screen_is_ready [OF quiet_default refl new_algo_stable(2), of 4]
  by (simp add: new_algo_stable numeral_eq_Suc)

text \<open>The sixth quiet frame of a new device, and a finger frame of the same run.\<close>

definition quiet_run :: hx_algo where
  "quiet_run = wake_run (hx_algo_begin_wake new_algo) (replicate 5 (quiet_raw, HX_FINGER_ABSENT))"

lemma quiet_counted: "wake_counted quiet_run quiet_raw 5 (pre new_algo)"
  using wake_counted_run [OF quiet_default refl new_algo_stable(2), of 4]
  by (simp add: quiet_run_def new_algo_stable numeral_eq_Suc)

lemma quiet_next: "hx_algo_qualify_wake_frame quiet_run quiet_raw HX_FINGER_ABSENT
  = (wake_commit (quiet_run\<lparr>wake_finger_frames := 0, wake_candidate_frames := 6\<rparr>), HX_WAKE_QUALITY_READY)"
  using wake_counted_step [OF quiet_default quiet_counted] by (simp add: new_algo_stable)

theorem wake_commit_needs_stable_window_witness:
  "baseline_q8 (fst (hx_algo_qualify_wake_frame quiet_run quiet_raw HX_FINGER_ABSENT))
    = wake_candidate_q8 quiet_run"
proof -
  have "wake_qualifying quiet_run" using quiet_counted by (simp add: wake_counted_def)
  from wake_commit_needs_stable_window [OF quiet_run_def [symmetric] this quiet_next]
  show ?thesis unfolding quiet_next by auto
qed

theorem wake_never_learns_finger_witness:
  "safe_baseline_q8 (fst (hx_algo_qualify_wake_frame quiet_run quiet_raw HX_FINGER_PRESENT))
    = safe_baseline_q8 quiet_run"
proof -
  have "wake_qualifying quiet_run" using quiet_counted by (simp add: wake_counted_def)
  from wake_never_learns_finger [OF prod.collapse [symmetric] this] show ?thesis by blast
qed

section \<open>Properties of the exception test\<close>

text \<open>A frame that differs from the baseline by one common shift.\<close>

lemma sum_list_const: "(\<And>i. i \<in> set is \<Longrightarrow> d i = (v::int)) \<Longrightarrow> sum_list (map d is) = int (length is) * v"
  by (induction "is") (auto simp: algebra_simps)

text \<open>A panel-wide shift is never an exception frame: when every node but the first is
  the same distance \<open>v\<close> from its baseline, the common part is removed exactly and the frame
  is accepted, whatever \<open>v\<close> is.\<close>

theorem common_shift_is_no_exception:
  assumes "raw_ok raw" and "\<bar>v\<bar> < 65536"
    and "\<forall>i\<in>{1..<HX_PIXELS}. raw ! i = shr (baseline_q8 algo ! i) 8 + v"
    and "0 < runtime_noise_threshold (pre algo)" "0 < runtime_noise_line_nodes (pre algo)"
    and "0 < runtime_noise_total_nodes (pre algo)"
  shows "\<not> hx_algo_is_exception_frame algo raw"
proof -
  define d where "d = (\<lambda>i. s32 (raw ! i - shr (baseline_q8 algo ! i) 8))"
  have d: "d i = v" if "i \<in> set [1..<HX_PIXELS]" for i
  proof -
    have "raw ! i - shr (baseline_q8 algo ! i) 8 = v" using assms(3) that by auto
    then show ?thesis using assms(2) by (simp add: d_def s32_id)
  qed
  have "s64 (sum_list (map d [1..<HX_PIXELS])) = 2399 * v"
    using sum_list_const [of "[1..<HX_PIXELS]" d v] d assms(2) by (simp add: s64_id)
  moreover have "s32 ((2399 * v) sdiv (int HX_PIXELS - 1)) = v"
    using assms(2) sdiv_mult_self [of 2399 v] by (simp add: s32_id)
  ultimately have c: "s32 (s64 (sum_list (map d [1..<HX_PIXELS])) sdiv (int HX_PIXELS - 1)) = v"
    by simp
  have bad: "\<not> runtime_noise_threshold (pre algo) \<le> \<bar>s32 (d i - v)\<bar>" if "i \<in> set [1..<HX_PIXELS]" for i
    using d [OF that] assms(4) by (simp add: s32_id)
  have none: "filter (\<lambda>i. Q i \<and> runtime_noise_threshold (pre algo) \<le> \<bar>s32 (d i - v)\<bar>) [1..<HX_PIXELS] = []" for Q
    using bad by (auto simp: filter_empty_conv)
  show ?thesis
    using none [of "\<lambda>_. True"] none assms(5,6)
    unfolding hx_algo_is_exception_frame_def Let_def d_def [symmetric] c row_hits_def col_hits_def
    by simp
qed

theorem common_shift_is_no_exception_witness:
  "\<not> hx_algo_is_exception_frame
      (new_algo\<lparr>baseline_initialized := True, baseline_q8 := replicate HX_PIXELS (30000 * 256)\<rparr>)
      (replicate HX_PIXELS 32000)"
  by (rule common_shift_is_no_exception [where v = 2000])
    (simp_all add: raw_ok_def shr_def new_algo_def hx_algo_full_reset_def
      hx_algo_init_defaults_def default_pre_def)

end
