(* ===== verification/Hx_Preprocess.thy ===== *)
theory Hx_Preprocess
  imports Hx_Wake
begin

text \<open>
  Preprocessing (\<open>hx-algo-preprocess.c\<close>): the adaptive baseline with its freeze and release hold,
  the quiet-screen snapshot that becomes the safe baseline, the edge boost, the common-mode
  filter and the temporal filter.  Every cell of a pass is independent of the others, so a pass
  is a \<open>map\<close> over the pixels with the panel-wide values computed before it.
\<close>

section \<open>Baseline\<close>

definition BASELINE_MAX :: int where "BASELINE_MAX = 0xffff * 2 ^ 8"

definition hx_baseline_step_q8 :: "int \<Rightarrow> int \<Rightarrow> int \<Rightarrow> int" where
  "hx_baseline_step_q8 delta shift max_step =
     (let limit_q8 = s32 (max max_step 0 * 2 ^ 8) in
      if delta = 0 then 0
      else clamp (shr (s32 (delta * 2 ^ 8)) (nat (min shift 30))) (- limit_q8) limit_q8)"

definition seed_baseline :: "hx_algo \<Rightarrow> int list \<Rightarrow> hx_finger_state \<Rightarrow> hx_algo" where
  "seed_baseline algo raw finger_state =
     (if baseline_initialized algo then algo
      else algo\<lparr>baseline_q8 := (if finger_state \<noteq> HX_FINGER_ABSENT
            then replicate HX_PIXELS (s32 (baseline_initial (pre algo) * 2 ^ 8))
            else hx_copy_raw_to_baseline raw),
          baseline_release_hold := zero_grid, baseline_initialized := True\<rparr>)"

definition cell_delta :: "grid \<Rightarrow> int list \<Rightarrow> nat \<Rightarrow> int" where
  "cell_delta base raw i = s32 (raw ! i - shr (base ! i) 8)"

text \<open>The histogram of the deltas, and the bin that holds the lower median.\<close>

definition delta_bin :: "int \<Rightarrow> nat" where
  "delta_bin delta = nat (clamp (shr (s32 (delta + 65536)) 6) 0 2047)"

definition delta_hist :: "(nat \<Rightarrow> int) \<Rightarrow> nat list \<Rightarrow> int list" where
  "delta_hist d is =
     foldl (\<lambda>h i. h[delta_bin (d i) := u16 (h ! delta_bin (d i) + 1)]) (replicate 2048 0) is"

fun bin_scan :: "int list \<Rightarrow> nat \<Rightarrow> int \<Rightarrow> nat" where
  "bin_scan [] k cumulative = k"
| "bin_scan (h # hs) k cumulative =
     (if cumulative + h \<ge> int (HX_PIXELS div 2) then k else bin_scan hs (Suc k) (cumulative + h))"

definition common_bin :: "(nat \<Rightarrow> int) \<Rightarrow> nat" where
  "common_bin d = min (bin_scan (delta_hist d [1..<HX_PIXELS]) 0 0) 2047"

definition common_diff :: "(nat \<Rightarrow> int) \<Rightarrow> int" where
  "common_diff d =
     (let cells = filter (\<lambda>i. delta_bin (d i) = common_bin d) [1..<HX_PIXELS] in
      if cells = [] then 0 else s32 (s64 (sum_list (map d cells)) sdiv int (length cells)))"

definition max_delta :: "(nat \<Rightarrow> int) \<Rightarrow> int" where
  "max_delta d = foldl (\<lambda>m i. max m (d i)) INT_MIN [1..<HX_PIXELS]"

definition frame_has_signal :: "hx_algo \<Rightarrow> (nat \<Rightarrow> int) \<Rightarrow> hx_finger_state \<Rightarrow> bool" where
  "frame_has_signal algo d finger_state \<longleftrightarrow>
     (if finger_state = HX_FINGER_PRESENT then True
      else s32 (max_delta d - common_diff d) \<ge> baseline_peak_threshold (pre algo)
        \<or> (\<exists>t\<in>set (tracks algo). trk_active t))"

definition adapt_step :: "hx_pre_params \<Rightarrow> bool \<Rightarrow> bool \<Rightarrow> int \<Rightarrow> int" where
  "adapt_step p has_signal recovery delta =
     (if \<not> has_signal then
        (if \<bar>delta\<bar> \<le> baseline_noise_deadband p \<and> baseline_noise_tracking p
         then hx_baseline_step_q8 delta (baseline_noise_alpha_shift p) 1
         else hx_baseline_step_q8 delta (baseline_no_finger_alpha_shift p) (baseline_no_finger_max_step p))
      else if recovery then
        hx_baseline_step_q8 delta (baseline_recovery_alpha_shift p) (baseline_recovery_max_step p)
      else if \<bar>delta\<bar> \<le> baseline_noise_deadband p \<and> baseline_noise_tracking p then
        hx_baseline_step_q8 delta (baseline_noise_alpha_shift p) 1
      else if delta > baseline_positive_deadband p then
        hx_baseline_step_q8 delta (baseline_positive_alpha_shift p) (baseline_positive_max_step p)
      else if delta < - baseline_negative_deadband p then
        hx_baseline_step_q8 delta (baseline_negative_alpha_shift p) (baseline_negative_max_step p)
      else 0)"

text \<open>One cell: its frame value, baseline and hold after the pass, and whether it was frozen.\<close>

definition baseline_cell ::
  "hx_pre_params \<Rightarrow> bool \<Rightarrow> bool \<Rightarrow> int \<Rightarrow> int \<Rightarrow> int \<Rightarrow> int \<Rightarrow> int \<times> int \<times> int \<times> bool" where
  "baseline_cell p has_signal recovery common sample b hold =
     (let delta = s32 (sample - shr b 8); local = s32 (delta - common) in
      if \<not> baseline_enabled p then
        (clamp (s32 (sample - baseline_initial p)) SHRT_MIN SHRT_MAX, b, hold, False)
      else if has_signal \<and> local \<ge> baseline_peak_threshold p then
        (clamp local SHRT_MIN SHRT_MAX,
         clamp (s32 (b + hx_baseline_step_q8 common (baseline_background_alpha_shift p)
           (baseline_background_max_step p))) 0 BASELINE_MAX,
         baseline_release_hold_frames p, True)
      else if hold \<noteq> 0 then
        (clamp (if local < - baseline_negative_deadband p then local else 0) SHRT_MIN SHRT_MAX,
         b, hold - 1, False)
      else
        (0, clamp (s32 (b + adapt_step p has_signal recovery delta)) 0 BASELINE_MAX, hold, False))"

text \<open>A node that moved away from the quiet-screen snapshot.\<close>

definition idle_moved :: "hx_pre_params \<Rightarrow> grid \<Rightarrow> int list \<Rightarrow> nat \<Rightarrow> bool" where
  "idle_moved p candidate raw i \<longleftrightarrow>
     \<bar>s32 (raw ! i - shr (candidate ! i) 8)\<bar> > wake_raw_jump_threshold p"

definition idle_snapshot :: "hx_algo \<Rightarrow> int list \<Rightarrow> hx_algo" where
  "idle_snapshot algo0 raw =
     (let p = pre algo0;
          algo = (if safe_no_finger_frames algo0 = 0
            \<or> unstable_nodes p (idle_moved p (wake_candidate_q8 algo0) raw) > wake_max_unstable_nodes p
          then algo0\<lparr>wake_candidate_q8 := hx_copy_raw_to_baseline raw, safe_no_finger_frames := 1\<rparr>
          else if safe_no_finger_frames algo0 < U8_MAX
          then algo0\<lparr>safe_no_finger_frames := safe_no_finger_frames algo0 + 1\<rparr> else algo0) in
      if safe_no_finger_frames algo \<ge> safe_commit_no_finger_frames p
      then algo\<lparr>safe_baseline_q8 := wake_candidate_q8 algo, safe_baseline_valid := True,
        safe_no_finger_frames := 0\<rparr>
      else algo)"

text \<open>The pass over the cells, from the panel-wide estimates to the freeze flag.\<close>

definition baseline_pass :: "hx_algo \<Rightarrow> int list \<Rightarrow> hx_finger_state \<Rightarrow> hx_algo" where
  "baseline_pass algo raw finger_state =
     (let p = pre algo; d = cell_delta (baseline_q8 algo) raw; common = common_diff d;
          has_signal = frame_has_signal algo d finger_state;
          recovery = (has_signal
            \<and> (\<not> baseline_prev_had_signal algo \<or> \<not> baseline_had_freeze algo)
            \<and> baseline_recovery_frames algo < baseline_recovery_max_frames p);
          frames = (if recovery then baseline_recovery_frames algo + 1
            else if \<not> has_signal \<or> baseline_had_freeze algo then 0 else baseline_recovery_frames algo);
          cells = map (\<lambda>i. baseline_cell p has_signal recovery common (raw ! i)
            (baseline_q8 algo ! i) (baseline_release_hold algo ! i)) [0..<HX_PIXELS] in
      algo\<lparr>baseline_recovery_frames := frames, frame := map fst cells,
        baseline_q8 := map (\<lambda>cell. fst (snd cell)) cells,
        baseline_release_hold := map (\<lambda>cell. fst (snd (snd cell))) cells,
        baseline_prev_had_signal := has_signal,
        baseline_had_freeze := (\<exists>cell\<in>set cells. snd (snd (snd cell)))\<rparr>)"

definition hx_prepare_frame_baseline :: "hx_algo \<Rightarrow> int list \<Rightarrow> hx_finger_state \<Rightarrow> hx_algo" where
  "hx_prepare_frame_baseline algo0 raw finger_state =
     (let algo = baseline_pass (seed_baseline algo0 raw finger_state) raw finger_state;
          algo = (if finger_state = HX_FINGER_ABSENT \<and> \<not> baseline_prev_had_signal algo
              \<and> \<not> baseline_had_freeze algo
            then idle_snapshot algo raw else algo\<lparr>safe_no_finger_frames := 0\<rparr>) in
      algo\<lparr>frame := (frame algo)[0 := 0]\<rparr>)"

section \<open>Edge boost, common-mode filter, temporal filter\<close>

definition boost :: "int \<Rightarrow> int \<Rightarrow> int" where
  "boost pct v = (if v > 0 then clamp (s32 (v + s32 (v * pct) sdiv 100)) 0 SHRT_MAX else v)"

text \<open>The boost of line \<open>k\<close> of an axis with \<open>n\<close> lines: full at the border, half one line inside.\<close>

definition boost_line :: "int \<Rightarrow> nat \<Rightarrow> nat \<Rightarrow> int \<Rightarrow> int" where
  "boost_line pct n k v =
     (if k = 0 \<or> k = n - 1 then boost pct v
      else if k = 1 \<or> k = n - 2 then boost (pct sdiv 2) v else v)"

definition hx_edge_boost :: "hx_algo \<Rightarrow> hx_algo" where
  "hx_edge_boost algo =
     (let pct = edge_boost_pct (det algo) in
      if \<not> edge_comp_enabled (det algo) \<or> pct \<le> 0 then algo
      else
        let rows_done = map (\<lambda>i. boost_line pct HX_ROWS (i div HX_COLS) (frame algo ! i)) [0..<HX_PIXELS] in
        algo\<lparr>frame := map (\<lambda>i. boost_line pct HX_COLS (i mod HX_COLS) (rows_done ! i)) [0..<HX_PIXELS]\<rparr>)"

definition line_offset :: "hx_pre_params \<Rightarrow> int list \<Rightarrow> int option" where
  "line_offset p vs =
     (let quiet = filter (\<lambda>v. \<bar>v\<bar> < cmf_exclusion p) vs in
      if quiet = [] then None
      else Some (clamp (s32 (sum_list quiet) sdiv int (length quiet))
        (- cmf_max_correction p) (cmf_max_correction p)))"

definition cmf_correct :: "int option \<Rightarrow> int \<Rightarrow> int" where
  "cmf_correct off v =
     (case off of None \<Rightarrow> v | Some offset \<Rightarrow> clamp (s32 (v - offset)) SHRT_MIN SHRT_MAX)"

definition cmf_rows :: "hx_pre_params \<Rightarrow> grid \<Rightarrow> grid" where
  "cmf_rows p fr =
     (let offs = map (\<lambda>r. line_offset p (map (\<lambda>c. fr ! (r * HX_COLS + c)) [0..<HX_COLS])) [0..<HX_ROWS] in
      map (\<lambda>i. cmf_correct (offs ! (i div HX_COLS)) (fr ! i)) [0..<HX_PIXELS])"

definition cmf_cols :: "hx_pre_params \<Rightarrow> grid \<Rightarrow> grid" where
  "cmf_cols p fr =
     (let offs = map (\<lambda>c. line_offset p (map (\<lambda>r. fr ! (r * HX_COLS + c)) [0..<HX_ROWS])) [0..<HX_COLS] in
      map (\<lambda>i. cmf_correct (offs ! (i mod HX_COLS)) (fr ! i)) [0..<HX_PIXELS])"

definition hx_apply_cmf :: "hx_algo \<Rightarrow> hx_algo" where
  "hx_apply_cmf algo = algo\<lparr>frame := cmf_cols (pre algo) (cmf_rows (pre algo) (frame algo))\<rparr>"

definition iir_cell :: "hx_pre_params \<Rightarrow> int \<Rightarrow> int \<Rightarrow> int \<Rightarrow> int" where
  "iir_cell p dyn_threshold cur hist =
     (let decay_weight = min (iir_decay_weight p) 256;
          decayed = max 0 (s32 (shr (s32 (decay_weight * cur + (256 - decay_weight) * hist)) 8
            - iir_decay_step p));
          output = (if cur \<ge> dyn_threshold then cur
            else if decayed < iir_noise_floor p then 0 else decayed) in
      clamp output SHRT_MIN SHRT_MAX)"

definition hx_apply_iir :: "hx_algo \<Rightarrow> hx_algo" where
  "hx_apply_iir algo =
     (if \<not> iir_enabled (pre algo) then algo\<lparr>iir_initialized := False\<rparr>
      else if \<not> iir_initialized algo then algo\<lparr>iir_history := frame algo, iir_initialized := True\<rparr>
      else
        let p = pre algo;
            frame_max = foldl (\<lambda>m i. max m \<bar>frame algo ! i\<bar>) 0 [0..<HX_PIXELS];
            dyn_threshold = max (shr (s32 (frame_max * iir_gate_ratio_q8 p)) 8) (iir_gate_floor p);
            out = map (\<lambda>i. iir_cell p dyn_threshold (frame algo ! i) (iir_history algo ! i)) [0..<HX_PIXELS] in
        algo\<lparr>frame := out, iir_history := out\<rparr>)"

definition hx_preprocess_frame_state :: "hx_algo \<Rightarrow> int list \<Rightarrow> hx_finger_state \<Rightarrow> hx_algo" where
  "hx_preprocess_frame_state algo raw finger_state =
     (let algo = hx_prepare_frame_baseline algo raw finger_state;
          algo = (if cmf_enabled (pre algo) then hx_apply_cmf algo else algo) in
      hx_apply_iir (hx_edge_boost algo))"

section \<open>The baseline pass, cell by cell\<close>

definition baseline_ok :: "hx_algo \<Rightarrow> bool" where
  "baseline_ok algo \<longleftrightarrow>
     length (baseline_q8 algo) = HX_PIXELS \<and> length (baseline_release_hold algo) = HX_PIXELS
     \<and> (\<forall>i<HX_PIXELS. 0 \<le> baseline_q8 algo ! i \<and> baseline_q8 algo ! i \<le> BASELINE_MAX)
     \<and> (\<forall>i<HX_PIXELS. 0 \<le> baseline_release_hold algo ! i \<and> baseline_release_hold algo ! i \<le> U8_MAX)"

definition pre_params_ok :: "hx_pre_params \<Rightarrow> bool" where
  "pre_params_ok p \<longleftrightarrow> 0 \<le> baseline_initial p \<and> baseline_initial p < 65536
     \<and> 0 \<le> baseline_release_hold_frames p \<and> baseline_release_hold_frames p \<le> U8_MAX
     \<and> 0 \<le> cmf_max_correction p \<and> cmf_max_correction p \<le> SHRT_MAX"

text \<open>The values the pass computes before it visits the cells.\<close>

definition pass_common :: "hx_algo \<Rightarrow> int list \<Rightarrow> int" where
  "pass_common algo raw = common_diff (cell_delta (baseline_q8 algo) raw)"

definition pass_signal :: "hx_algo \<Rightarrow> int list \<Rightarrow> hx_finger_state \<Rightarrow> bool" where
  "pass_signal algo raw fs = frame_has_signal algo (cell_delta (baseline_q8 algo) raw) fs"

definition pass_recovery :: "hx_algo \<Rightarrow> bool \<Rightarrow> bool" where
  "pass_recovery algo has_signal \<longleftrightarrow> has_signal
     \<and> (\<not> baseline_prev_had_signal algo \<or> \<not> baseline_had_freeze algo)
     \<and> baseline_recovery_frames algo < baseline_recovery_max_frames (pre algo)"

definition pass_cell :: "hx_algo \<Rightarrow> int list \<Rightarrow> hx_finger_state \<Rightarrow> nat \<Rightarrow> int \<times> int \<times> int \<times> bool" where
  "pass_cell algo raw fs i =
     baseline_cell (pre algo) (pass_signal algo raw fs) (pass_recovery algo (pass_signal algo raw fs))
       (pass_common algo raw) (raw ! i) (baseline_q8 algo ! i) (baseline_release_hold algo ! i)"

lemma idle_snapshot_keeps [simp]:
  "frame (idle_snapshot a raw) = frame a" "baseline_q8 (idle_snapshot a raw) = baseline_q8 a"
  "baseline_release_hold (idle_snapshot a raw) = baseline_release_hold a"
  "pre (idle_snapshot a raw) = pre a" "det (idle_snapshot a raw) = det a"
  "trk (idle_snapshot a raw) = trk a" "tracks (idle_snapshot a raw) = tracks a"
  by (simp_all add: idle_snapshot_def Let_def)

lemma baseline_pass_keeps [simp]:
  "baseline_prev_had_signal (baseline_pass a raw fs) = pass_signal a raw fs"
  "safe_no_finger_frames (baseline_pass a raw fs) = safe_no_finger_frames a"
  "wake_candidate_q8 (baseline_pass a raw fs) = wake_candidate_q8 a"
  "safe_baseline_q8 (baseline_pass a raw fs) = safe_baseline_q8 a"
  "pre (baseline_pass a raw fs) = pre a"
  by (simp_all add: baseline_pass_def pass_signal_def Let_def)

lemma seed_keeps [simp]:
  "pre (seed_baseline a raw fs) = pre a" "det (seed_baseline a raw fs) = det a"
  "trk (seed_baseline a raw fs) = trk a" "tracks (seed_baseline a raw fs) = tracks a"
  by (simp_all add: seed_baseline_def)

lemma prepare_fields:
  fixes a raw fs
  defines "s \<equiv> seed_baseline a raw fs"
  shows "frame (hx_prepare_frame_baseline a raw fs)
      = (map (\<lambda>i. fst (pass_cell s raw fs i)) [0..<HX_PIXELS])[0 := 0]"
    and "baseline_q8 (hx_prepare_frame_baseline a raw fs)
      = map (\<lambda>i. fst (snd (pass_cell s raw fs i))) [0..<HX_PIXELS]"
    and "baseline_release_hold (hx_prepare_frame_baseline a raw fs)
      = map (\<lambda>i. fst (snd (snd (pass_cell s raw fs i)))) [0..<HX_PIXELS]"
    and "pre (hx_prepare_frame_baseline a raw fs) = pre a"
    and "det (hx_prepare_frame_baseline a raw fs) = det a"
    and "trk (hx_prepare_frame_baseline a raw fs) = trk a"
    and "tracks (hx_prepare_frame_baseline a raw fs) = tracks a"
proof -
  show "frame (hx_prepare_frame_baseline a raw fs)
      = (map (\<lambda>i. fst (pass_cell s raw fs i)) [0..<HX_PIXELS])[0 := 0]"
    "baseline_q8 (hx_prepare_frame_baseline a raw fs)
      = map (\<lambda>i. fst (snd (pass_cell s raw fs i))) [0..<HX_PIXELS]"
    "baseline_release_hold (hx_prepare_frame_baseline a raw fs)
      = map (\<lambda>i. fst (snd (snd (pass_cell s raw fs i)))) [0..<HX_PIXELS]"
    "pre (hx_prepare_frame_baseline a raw fs) = pre a"
    "det (hx_prepare_frame_baseline a raw fs) = det a"
    "trk (hx_prepare_frame_baseline a raw fs) = trk a"
    "tracks (hx_prepare_frame_baseline a raw fs) = tracks a"
    unfolding hx_prepare_frame_baseline_def baseline_pass_def s_def pass_cell_def pass_signal_def pass_recovery_def
      pass_common_def Let_def
    by (simp_all add: comp_def)
qed

lemma step_q8_abs: "0 \<le> max m 0 \<Longrightarrow> m < 32768 \<Longrightarrow> \<bar>hx_baseline_step_q8 d sh m\<bar> \<le> max m 0 * 256"
  using clamp_abs [of "max m 0 * 256" "shr (s32 (d * 256)) (nat (min sh 30))"]
  by (simp add: hx_baseline_step_q8_def Let_def s32_id)

lemma baseline_cell_range:
  assumes "0 \<le> b" "b \<le> BASELINE_MAX" "0 \<le> h" "h \<le> U8_MAX" "pre_params_ok p"
    "baseline_cell p sig rec common sample b h = (out, b', h', froze)"
  shows "SHRT_MIN \<le> out \<and> out \<le> SHRT_MAX \<and> 0 \<le> b' \<and> b' \<le> BASELINE_MAX \<and> 0 \<le> h' \<and> h' \<le> U8_MAX"
proof -
  have c: "SHRT_MIN \<le> clamp x SHRT_MIN SHRT_MAX \<and> clamp x SHRT_MIN SHRT_MAX \<le> SHRT_MAX"
    "0 \<le> clamp x 0 BASELINE_MAX \<and> clamp x 0 BASELINE_MAX \<le> BASELINE_MAX" for x
    by (rule clamp_bounds, simp add: BASELINE_MAX_def)+
  show ?thesis
    using assms c unfolding baseline_cell_def Let_def pre_params_ok_def
    by (auto split: if_splits)
qed

text \<open>The behaviour of an enabled cell.\<close>

lemma baseline_cell_frozen:
  "baseline_enabled p \<Longrightarrow> sig \<Longrightarrow> baseline_peak_threshold p \<le> s32 (s32 (sample - shr b 8) - common) \<Longrightarrow>
    fst (snd (baseline_cell p sig rec common sample b h)) =
      clamp (s32 (b + hx_baseline_step_q8 common (baseline_background_alpha_shift p)
        (baseline_background_max_step p))) 0 BASELINE_MAX"
  by (simp add: baseline_cell_def Let_def)

lemma baseline_cell_out:
  assumes "baseline_enabled p" "fst (baseline_cell p sig rec common sample b h) \<noteq> 0"
  shows "sig \<and> baseline_peak_threshold p \<le> s32 (s32 (sample - shr b 8) - common)
    \<or> h \<noteq> 0 \<and> s32 (s32 (sample - shr b 8) - common) < - baseline_negative_deadband p"
  using assms by (auto simp: baseline_cell_def Let_def clamp_def split: if_splits)

lemma baseline_cell_hold:
  "baseline_enabled p \<Longrightarrow> h \<noteq> 0 \<Longrightarrow>
    \<not> (sig \<and> baseline_peak_threshold p \<le> s32 (s32 (sample - shr b 8) - common)) \<Longrightarrow>
    fst (snd (baseline_cell p sig rec common sample b h)) = b
    \<and> fst (snd (snd (baseline_cell p sig rec common sample b h))) = h - 1"
  by (auto simp: baseline_cell_def Let_def)

section \<open>The common-mode estimate\<close>

lemma delta_bin_lt: "delta_bin x < 2048"
proof -
  have "clamp (shr (s32 (x + 65536)) 6) 0 2047 \<le> 2047" by (simp add: clamp_def)
  then show ?thesis by (simp add: delta_bin_def)
qed

lemma delta_bin_range:
  assumes "\<bar>x\<bar> < 65536"
  shows "64 * int (delta_bin x) - 65536 \<le> x" "x \<le> 64 * int (delta_bin x) - 65536 + 63"
proof -
  have "clamp ((x + 65536) div 64) 0 2047 = (x + 65536) div 64"
    using assms by (intro clamp_id) auto
  then have "int (delta_bin x) = (x + 65536) div 64"
    using assms by (simp add: delta_bin_def shr_def s32_id pos_imp_zdiv_nonneg_iff)
  then show "64 * int (delta_bin x) - 65536 \<le> x" "x \<le> 64 * int (delta_bin x) - 65536 + 63"
    by simp_all
qed

lemma delta_hist_step:
  "delta_hist d (is @ [i]) =
    (let h = delta_hist d is in h[delta_bin (d i) := u16 (h ! delta_bin (d i) + 1)])"
  by (simp add: delta_hist_def Let_def)

lemma length_delta_hist [simp]: "length (delta_hist d is) = 2048"
proof (induction "is" rule: rev_induct)
  case Nil
  show ?case by (simp add: delta_hist_def)
next
  case (snoc i "is")
  then show ?case by (simp add: delta_hist_step Let_def)
qed

lemma delta_hist_nth:
  "k < 2048 \<Longrightarrow> length is < 65536 \<Longrightarrow>
    delta_hist d is ! k = int (length (filter (\<lambda>i. delta_bin (d i) = k) is))"
proof (induction "is" rule: rev_induct)
  case Nil
  then show ?case by (simp add: delta_hist_def)
next
  case (snoc i "is")
  have "length (filter (\<lambda>i. delta_bin (d i) = k) is) \<le> length is" by (rule length_filter_le)
  then have len: "u16 (int (length (filter (\<lambda>i. delta_bin (d i) = k) is)) + 1)
      = int (length (filter (\<lambda>i. delta_bin (d i) = k) is)) + 1"
    using snoc.prems(2) by (intro u16_id) (simp_all del: length_filter_le)
  then show ?case
    using snoc delta_bin_lt [of "d i"] len
    by (auto simp: delta_hist_step Let_def nth_list_update)
qed

lemma sum_take_hist:
  "m \<le> 2048 \<Longrightarrow> length is < 65536 \<Longrightarrow>
    sum_list (take m (delta_hist d is)) = int (length (filter (\<lambda>i. delta_bin (d i) < m) is))"
proof (induction m)
  case (Suc m)
  have "length (filter (\<lambda>i. delta_bin (d i) < Suc m) is)
      = length (filter (\<lambda>i. delta_bin (d i) < m) is) + length (filter (\<lambda>i. delta_bin (d i) = m) is)"
    by (induction "is") auto
  then show ?case
    using Suc by (simp add: take_Suc_conv_app_nth delta_hist_nth)
qed simp

lemma bin_scan_median:
  assumes "cum < 1200" and "1200 \<le> cum + sum_list hs" and "bin_scan hs k cum = B"
  shows "k \<le> B \<and> B < k + length hs \<and> cum + sum_list (take (B - k) hs) < 1200
    \<and> 1200 \<le> cum + sum_list (take (Suc (B - k)) hs)"
  using assms
proof (induction hs k cum rule: bin_scan.induct)
  case (1 k cum)
  then show ?case by simp
next
  case (2 h hs k cum)
  show ?case
  proof (cases "1200 \<le> cum + h")
    case True
    then show ?thesis using 2 by auto
  next
    case False
    then have "Suc k \<le> B \<and> B < Suc k + length hs \<and> cum + h + sum_list (take (B - Suc k) hs) < 1200
        \<and> 1200 \<le> cum + h + sum_list (take (Suc (B - Suc k)) hs)"
      using 2 by (intro 2(1)) auto
    moreover from this have "B - k = Suc (B - Suc k)" by arith
    ultimately show ?thesis by auto
  qed
qed

text \<open>The chosen bin holds the lower median of the 2399 deltas.\<close>

lemma common_bin_median:
  "common_bin d < 2048
    \<and> length (filter (\<lambda>i. delta_bin (d i) < common_bin d) [1..<HX_PIXELS]) < 1200
    \<and> 1200 \<le> length (filter (\<lambda>i. delta_bin (d i) < Suc (common_bin d)) [1..<HX_PIXELS])"
proof -
  let ?h = "delta_hist d [1..<HX_PIXELS]" and ?B = "bin_scan (delta_hist d [1..<HX_PIXELS]) 0 0"
  have "filter (\<lambda>i. delta_bin (d i) < 2048) [1..<HX_PIXELS] = [1..<HX_PIXELS]"
    by (simp add: delta_bin_lt del: upt_conv_Cons)
  then have "sum_list ?h = 2399" using sum_take_hist [of 2048 "[1..<HX_PIXELS]" d] by simp
  then have B: "?B < 2048 \<and> sum_list (take ?B ?h) < 1200 \<and> 1200 \<le> sum_list (take (Suc ?B) ?h)"
    using bin_scan_median [of 0 ?h 0 ?B] by simp
  then have "common_bin d = ?B" by (simp add: common_bin_def)
  then show ?thesis
    using B sum_take_hist [of ?B "[1..<HX_PIXELS]" d] sum_take_hist [of "Suc ?B" "[1..<HX_PIXELS]" d]
    by simp
qed

lemma common_bin_majority:
  assumes "1200 \<le> length (filter (\<lambda>i. delta_bin (d i) = b) [1..<HX_PIXELS])"
  shows "common_bin d = b"
proof -
  have split: "length (filter (\<lambda>i. delta_bin (d i) < m) is) + length (filter (\<lambda>i. delta_bin (d i) = m) is)
      = length (filter (\<lambda>i. delta_bin (d i) < Suc m) is)" for m "is"
    by (induction "is") auto
  have mono: "length (filter (\<lambda>i. delta_bin (d i) < m) is) \<le> length (filter (\<lambda>i. delta_bin (d i) < n) is)"
    if "m \<le> n" for m n "is"
    using that by (induction "is") auto
  have all: "length (filter (\<lambda>i. delta_bin (d i) < Suc b) [1..<HX_PIXELS]) \<le> 2399"
    using length_filter_le [of "\<lambda>i. delta_bin (d i) < Suc b" "[1..<HX_PIXELS]"] by simp
  note m = common_bin_median [of d]
  have "\<not> b < common_bin d"
    using m assms split [of b "[1..<HX_PIXELS]"] mono [of "Suc b" "common_bin d" "[1..<HX_PIXELS]"] by linarith
  moreover have "\<not> common_bin d < b"
    using m assms split [of b "[1..<HX_PIXELS]"] all
      mono [of "Suc (common_bin d)" b "[1..<HX_PIXELS]"] by linarith
  ultimately show ?thesis by simp
qed

lemma common_diff_bin:
  assumes range: "\<And>i. i \<in> {1..<HX_PIXELS} \<Longrightarrow> \<bar>d i\<bar> < 65536"
    and ne: "\<exists>i\<in>{1..<HX_PIXELS}. delta_bin (d i) = common_bin d"
  shows "64 * int (common_bin d) - 65536 \<le> common_diff d
    \<and> common_diff d \<le> 64 * int (common_bin d) - 65536 + 63"
proof -
  define cells where "cells = filter (\<lambda>i. delta_bin (d i) = common_bin d) [1..<HX_PIXELS]"
  let ?lo = "64 * int (common_bin d) - 65536"
  have cne: "cells \<noteq> []" using ne by (auto simp: cells_def filter_empty_conv)
  have b: "?lo \<le> d i \<and> d i \<le> ?lo + 63" if "i \<in> set cells" for i
    using that [unfolded cells_def] delta_bin_range [of "d i"] range [of i] by auto
  have "- 65536 \<le> d i \<and> d i \<le> 65535" if "i \<in> set cells" for i
    using that [unfolded cells_def] range [of i] by auto
  then have s: "- 65536 * int (length cells) \<le> sum_list (map d cells)
      \<and> sum_list (map d cells) \<le> 65535 * int (length cells)"
    by (rule sum_list_between)
  have len: "int (length cells) \<le> 2399"
    using length_filter_le [of "\<lambda>i. delta_bin (d i) = common_bin d" "[1..<HX_PIXELS]"]
    by (simp add: cells_def del: length_filter_le)
  have s64: "s64 (sum_list (map d cells)) = sum_list (map d cells)"
    using s len by (intro s64_id) linarith+
  have m: "?lo \<le> sum_list (map d cells) sdiv int (length cells)
      \<and> sum_list (map d cells) sdiv int (length cells) \<le> ?lo + 63"
    using cne b by (rule mean_bounds)
  have "0 \<le> int (common_bin d)" "int (common_bin d) < 2048" using common_bin_median [of d] by auto
  then have "s32 (sum_list (map d cells) sdiv int (length cells))
      = sum_list (map d cells) sdiv int (length cells)"
    using m by (intro s32_id) linarith+
  then show ?thesis using m cne unfolding common_diff_def Let_def cells_def [symmetric] s64 by simp
qed

lemma common_diff_near:
  assumes range: "\<And>i. i \<in> {1..<HX_PIXELS} \<Longrightarrow> \<bar>d i\<bar> < 65536"
    and many: "1200 \<le> card {i \<in> {1..<HX_PIXELS}. d i = v}"
  shows "\<bar>common_diff d - v\<bar> \<le> 63"
proof -
  have set: "set (filter (\<lambda>i. d i = v) [1..<HX_PIXELS]) = {i \<in> {1..<HX_PIXELS}. d i = v}"
    by (simp only: set_filter atLeastLessThan_upt)
  have "card {i \<in> {1..<HX_PIXELS}. d i = v} = length (filter (\<lambda>i. d i = v) [1..<HX_PIXELS])"
    unfolding set [symmetric] by (rule distinct_card) (rule distinct_filter, rule distinct_upt)
  moreover have "length (filter (\<lambda>i. d i = v) is)
      \<le> length (filter (\<lambda>i. delta_bin (d i) = delta_bin v) is)" for "is"
    by (induction "is") auto
  ultimately have m: "1200 \<le> length (filter (\<lambda>i. delta_bin (d i) = delta_bin v) [1..<HX_PIXELS])"
    using many by (simp only: le_trans)
  have bin: "common_bin d = delta_bin v" using m by (rule common_bin_majority)
  have "{i \<in> {1..<HX_PIXELS}. d i = v} \<noteq> {}" using many by (metis card.empty not_numeral_le_zero)
  then obtain i where i: "i \<in> {1..<HX_PIXELS}" "d i = v" by blast
  have "64 * int (delta_bin v) - 65536 \<le> common_diff d
      \<and> common_diff d \<le> 64 * int (delta_bin v) - 65536 + 63"
    unfolding bin [symmetric] by (rule common_diff_bin [OF range]) (assumption, rule bexI [OF _ i(1)], simp only: bin i(2))
  then show ?thesis
    using delta_bin_range [of v] range [OF i(1)] i(2) by (simp add: abs_le_iff)
qed

section \<open>The later passes keep the frame in range\<close>

lemma boost_range: "v \<le> SHRT_MAX \<Longrightarrow> SHRT_MIN \<le> v \<Longrightarrow> SHRT_MIN \<le> boost pct v \<and> boost pct v \<le> SHRT_MAX"
  by (auto simp: boost_def clamp_def)

lemma boost_line_range:
  "v \<le> SHRT_MAX \<Longrightarrow> SHRT_MIN \<le> v \<Longrightarrow>
    SHRT_MIN \<le> boost_line pct n k v \<and> boost_line pct n k v \<le> SHRT_MAX"
  using boost_range by (auto simp: boost_line_def)

lemma frame_ok_boost: "frame_ok (frame a) \<Longrightarrow> frame_ok (frame (hx_edge_boost a))"
  unfolding hx_edge_boost_def Let_def
  by (auto intro!: frame_ok_map boost_line_range frame_okD)

lemma cmf_correct_range:
  "v \<le> SHRT_MAX \<Longrightarrow> SHRT_MIN \<le> v \<Longrightarrow> SHRT_MIN \<le> cmf_correct off v \<and> cmf_correct off v \<le> SHRT_MAX"
  using clamp_bounds [of SHRT_MIN SHRT_MAX] by (auto simp: cmf_correct_def split: option.splits)

lemma frame_ok_cmf_rows: "frame_ok fr \<Longrightarrow> frame_ok (cmf_rows p fr)"
  unfolding cmf_rows_def Let_def by (intro frame_ok_map cmf_correct_range frame_okD)

lemma frame_ok_cmf_cols: "frame_ok fr \<Longrightarrow> frame_ok (cmf_cols p fr)"
  unfolding cmf_cols_def Let_def by (intro frame_ok_map cmf_correct_range frame_okD)

lemma frame_ok_cmf: "frame_ok (frame a) \<Longrightarrow> frame_ok (frame (hx_apply_cmf a))"
  by (simp add: hx_apply_cmf_def frame_ok_cmf_rows frame_ok_cmf_cols)

lemma frame_ok_iir: "frame_ok (frame a) \<Longrightarrow> frame_ok (frame (hx_apply_iir a))"
proof -
  have "SHRT_MIN \<le> iir_cell p t c h \<and> iir_cell p t c h \<le> SHRT_MAX" for p t c h
    unfolding iir_cell_def Let_def by (rule clamp_bounds) simp
  then have "frame_ok (map (\<lambda>i. iir_cell p t (f i) (g i)) [0..<HX_PIXELS])" for p t f g
    by (intro frame_ok_map) blast
  then show "frame_ok (frame a) \<Longrightarrow> frame_ok (frame (hx_apply_iir a))"
    by (simp add: hx_apply_iir_def Let_def)
qed

lemma pass_keeps [simp]:
  "baseline_q8 (hx_edge_boost a) = baseline_q8 a" "baseline_q8 (hx_apply_cmf a) = baseline_q8 a"
  "baseline_q8 (hx_apply_iir a) = baseline_q8 a"
  "baseline_release_hold (hx_edge_boost a) = baseline_release_hold a"
  "baseline_release_hold (hx_apply_cmf a) = baseline_release_hold a"
  "baseline_release_hold (hx_apply_iir a) = baseline_release_hold a"
  "pre (hx_edge_boost a) = pre a" "pre (hx_apply_cmf a) = pre a" "pre (hx_apply_iir a) = pre a"
  "det (hx_edge_boost a) = det a" "det (hx_apply_cmf a) = det a" "det (hx_apply_iir a) = det a"
  "trk (hx_edge_boost a) = trk a" "trk (hx_apply_cmf a) = trk a" "trk (hx_apply_iir a) = trk a"
  "tracks (hx_edge_boost a) = tracks a" "tracks (hx_apply_cmf a) = tracks a"
  "tracks (hx_apply_iir a) = tracks a"
  by (simp_all add: hx_edge_boost_def hx_apply_cmf_def hx_apply_iir_def Let_def)

lemma seed_ok:
  assumes "raw_ok raw" "pre_params_ok (pre a)" "baseline_initialized a \<Longrightarrow> baseline_ok a"
  shows "baseline_ok (seed_baseline a raw fs)"
proof (cases "baseline_initialized a")
  case True
  then show ?thesis using assms by (simp add: seed_baseline_def)
next
  case False
  have "raw ! i \<le> 65535" if "i < HX_PIXELS" for i using raw_okD(2) [OF assms(1) that] by simp
  with False show ?thesis
    using assms raw_okD [OF assms(1)]
    by (auto simp: seed_baseline_def baseline_ok_def pre_params_ok_def BASELINE_MAX_def
        nth_copy_raw s32_id)
qed

lemma pass_cell_range:
  assumes "baseline_ok s" "pre_params_ok (pre s)" "i < HX_PIXELS"
  shows "SHRT_MIN \<le> fst (pass_cell s raw fs i) \<and> fst (pass_cell s raw fs i) \<le> SHRT_MAX
    \<and> 0 \<le> fst (snd (pass_cell s raw fs i)) \<and> fst (snd (pass_cell s raw fs i)) \<le> BASELINE_MAX
    \<and> 0 \<le> fst (snd (snd (pass_cell s raw fs i))) \<and> fst (snd (snd (pass_cell s raw fs i))) \<le> U8_MAX"
proof -
  obtain out b' h' froze where e: "pass_cell s raw fs i = (out, b', h', froze)"
    by (cases "pass_cell s raw fs i" rule: prod_cases4)
  have "0 \<le> baseline_q8 s ! i" "baseline_q8 s ! i \<le> BASELINE_MAX"
    "0 \<le> baseline_release_hold s ! i" "baseline_release_hold s ! i \<le> U8_MAX"
    using assms by (simp_all add: baseline_ok_def)
  from baseline_cell_range [OF this assms(2) e [unfolded pass_cell_def]] show ?thesis by (simp add: e)
qed

lemma prepare_ok:
  assumes "raw_ok raw" "pre_params_ok (pre a)" "baseline_initialized a \<Longrightarrow> baseline_ok a"
  shows "baseline_ok (hx_prepare_frame_baseline a raw fs)"
    and "frame_ok (frame (hx_prepare_frame_baseline a raw fs))"
proof -
  note c = pass_cell_range [OF seed_ok [OF assms]]
  show "baseline_ok (hx_prepare_frame_baseline a raw fs)"
    using c assms(2) by (simp add: baseline_ok_def prepare_fields)
  have "frame_ok (map (\<lambda>i. fst (pass_cell (seed_baseline a raw fs) raw fs i)) [0..<HX_PIXELS])"
    using c assms(2) by (intro frame_ok_map) simp
  then show "frame_ok (frame (hx_prepare_frame_baseline a raw fs))"
    unfolding prepare_fields(1) by (auto simp: frame_ok_def nth_list_update)
qed

section \<open>Properties\<close>

lemma preprocess_ok:
  assumes "raw_ok raw" "pre_params_ok (pre a)" "baseline_initialized a \<longrightarrow> baseline_ok a"
  shows "baseline_ok (hx_preprocess_frame_state a raw fs)
    \<and> frame_ok (frame (hx_preprocess_frame_state a raw fs))"
proof -
  have p: "baseline_ok (hx_prepare_frame_baseline a raw fs)"
    "frame_ok (frame (hx_prepare_frame_baseline a raw fs))"
    using prepare_ok assms by blast+
  then show ?thesis
    by (auto simp: hx_preprocess_frame_state_def Let_def baseline_ok_def
        intro!: frame_ok_iir frame_ok_boost frame_ok_cmf)
qed

text \<open>Preprocessing keeps the baseline invariant: every cell of the Q8 baseline stays in
  \<open>0 .. 0xffff00\<close> and every release hold in a byte, whatever the frame, the finger state and the
  tunables in their sysfs ranges; the frame it hands to detection holds only 16-bit values.\<close>

theorem preprocess_keeps_baseline:
  assumes "raw_ok raw" "pre_params_ok (pre a)" "baseline_initialized a \<longrightarrow> baseline_ok a"
  shows "baseline_ok (hx_preprocess_frame_state a raw fs)
    \<and> frame_ok (frame (hx_preprocess_frame_state a raw fs))"
  by (rule preprocess_ok [OF assms])

text \<open>A cell that carries a finger-sized signal, or is still held after a release, is not
  learned: the baseline of a frozen cell moves by a step that depends only on the panel-wide drift
  and not on the cell's own sample, a held cell keeps its baseline, and no other cell reaches the
  detector: a nonzero frame value means the cell is frozen, or held and rebounding.\<close>

theorem finger_is_not_learned:
  assumes "baseline_initialized a" "baseline_enabled (pre a)" "i < HX_PIXELS"
  shows "(pass_signal a raw fs \<and> baseline_peak_threshold (pre a)
        \<le> s32 (cell_delta (baseline_q8 a) raw i - pass_common a raw) \<longrightarrow>
      baseline_q8 (hx_prepare_frame_baseline a raw fs) ! i =
        clamp (s32 (baseline_q8 a ! i + hx_baseline_step_q8 (pass_common a raw)
          (baseline_background_alpha_shift (pre a)) (baseline_background_max_step (pre a)))) 0 BASELINE_MAX)
    \<and> (\<not> (pass_signal a raw fs \<and> baseline_peak_threshold (pre a)
        \<le> s32 (cell_delta (baseline_q8 a) raw i - pass_common a raw))
      \<and> baseline_release_hold a ! i \<noteq> 0 \<longrightarrow>
      baseline_q8 (hx_prepare_frame_baseline a raw fs) ! i = baseline_q8 a ! i
      \<and> baseline_release_hold (hx_prepare_frame_baseline a raw fs) ! i = baseline_release_hold a ! i - 1)
    \<and> (frame (hx_prepare_frame_baseline a raw fs) ! i \<noteq> 0 \<longrightarrow>
      pass_signal a raw fs \<and> baseline_peak_threshold (pre a)
        \<le> s32 (cell_delta (baseline_q8 a) raw i - pass_common a raw)
      \<or> baseline_release_hold a ! i \<noteq> 0
        \<and> s32 (cell_delta (baseline_q8 a) raw i - pass_common a raw) < - baseline_negative_deadband (pre a))"
proof -
  have s: "seed_baseline a raw fs = a" using assms(1) by (simp add: seed_baseline_def)
  have f: "frame (hx_prepare_frame_baseline a raw fs) ! i \<noteq> 0 \<Longrightarrow> fst (pass_cell a raw fs i) \<noteq> 0"
    using assms(3) by (auto simp: prepare_fields(1) s nth_list_update split: if_splits)
  have b: "baseline_q8 (hx_prepare_frame_baseline a raw fs) ! i = fst (snd (pass_cell a raw fs i))"
    "baseline_release_hold (hx_prepare_frame_baseline a raw fs) ! i = fst (snd (snd (pass_cell a raw fs i)))"
    using assms(3) by (simp_all add: prepare_fields s)
  show ?thesis
    unfolding b cell_delta_def
    using assms(2) baseline_cell_out [OF assms(2) f [unfolded pass_cell_def]]
    by (intro conjI impI) (auto simp: pass_cell_def baseline_cell_frozen baseline_cell_hold)
qed

text \<open>The common-mode estimate is robust: when more than half of the measured cells moved by
  the same amount \<open>v\<close>, the estimate is within one histogram bin of \<open>v\<close>, whatever the other
  cells (fingers, palms, broken lines) show.\<close>

theorem common_mode_robust:
  assumes "raw_ok raw" "baseline_ok a"
    and "1200 \<le> card {i \<in> {1..<HX_PIXELS}. cell_delta (baseline_q8 a) raw i = v}"
  shows "\<bar>pass_common a raw - v\<bar> \<le> 63"
proof -
  let ?d = "cell_delta (baseline_q8 a) raw"
  have range: "\<bar>?d i\<bar> < 65536" if "i \<in> {1..<HX_PIXELS}" for i
  proof -
    have "0 \<le> shr (baseline_q8 a ! i) 8" "shr (baseline_q8 a ! i) 8 \<le> 65535"
      using assms(2) that zdiv_mono1 [of "baseline_q8 a ! i" BASELINE_MAX 256]
      by (auto simp: baseline_ok_def shr_def BASELINE_MAX_def)
    moreover have "0 \<le> raw ! i" "raw ! i < 65536" using raw_okD [OF assms(1), of i] that by auto
    ultimately have "\<bar>raw ! i - shr (baseline_q8 a ! i) 8\<bar> < 65536" by linarith
    then show ?thesis by (simp add: cell_delta_def s32_id)
  qed
  show ?thesis unfolding pass_common_def by (rule common_diff_near [OF range assms(3)])
qed

section \<open>Properties of the filters\<close>

lemma line_offset_range:
  "0 \<le> cmf_max_correction p \<Longrightarrow> line_offset p vs = Some off \<Longrightarrow> \<bar>off\<bar> \<le> cmf_max_correction p"
  using clamp_abs by (auto simp: line_offset_def Let_def split: if_splits)

lemma cmf_correct_near:
  assumes "\<bar>the off\<bar> \<le> m \<or> off = None" "0 \<le> m" "m \<le> SHRT_MAX" "SHRT_MIN \<le> v" "v \<le> SHRT_MAX"
  shows "\<bar>cmf_correct off v - v\<bar> \<le> m"
  using assms by (cases off) (auto simp: cmf_correct_def clamp_def s32_id)

lemma cmf_rows_nth:
  "i < HX_PIXELS \<Longrightarrow> cmf_rows p fr ! i =
    cmf_correct (line_offset p (map (\<lambda>c. fr ! (i div HX_COLS * HX_COLS + c)) [0..<HX_COLS])) (fr ! i)"
  by (simp add: cmf_rows_def Let_def less_mult_imp_div_less del: upt_conv_Cons)

lemma cmf_cols_nth:
  "i < HX_PIXELS \<Longrightarrow> cmf_cols p fr ! i =
    cmf_correct (line_offset p (map (\<lambda>r. fr ! (r * HX_COLS + i mod HX_COLS)) [0..<HX_ROWS])) (fr ! i)"
  by (simp add: cmf_cols_def Let_def del: upt_conv_Cons)

lemma line_offset_const:
  assumes "n \<noteq> 0" "n < 65536" "\<bar>v\<bar> < cmf_exclusion p" "\<bar>v\<bar> \<le> cmf_max_correction p" "\<bar>v\<bar> \<le> 32768"
  shows "line_offset p (map (\<lambda>_. v) [0..<n]) = Some v"
proof -
  have f: "filter (\<lambda>v. \<bar>v\<bar> < cmf_exclusion p) (map (\<lambda>_. v) [0..<n]) = replicate n v"
    using assms(3) by (simp add: map_replicate_const filter_replicate)
  have "\<bar>int n * v\<bar> \<le> 65535 * 32768"
    unfolding abs_mult using assms by (intro mult_mono) auto
  then have "s32 (int n * v) sdiv int n = v"
    using assms(1) sdiv_mult_self [of "int n" v] by (simp add: s32_id)
  then show ?thesis
    using assms f by (simp add: line_offset_def Let_def sum_list_replicate clamp_def)
qed

text \<open>The common-mode filter is bounded and removes what it is for: it moves no pixel by more
  than \<open>cmf_max_correction\<close> per pass (rows, then columns), and charger noise that is constant along
  every row, within the exclusion level and the correction limit, is removed completely.\<close>

theorem cmf_bounded_and_exact:
  assumes "frame_ok (frame a)" "0 \<le> cmf_max_correction (pre a)" "cmf_max_correction (pre a) \<le> SHRT_MAX"
    and "i < HX_PIXELS"
  shows "\<bar>frame (hx_apply_cmf a) ! i - frame a ! i\<bar> \<le> 2 * cmf_max_correction (pre a)
    \<and> ((\<forall>r<HX_ROWS. \<exists>v. \<bar>v\<bar> < cmf_exclusion (pre a) \<and> \<bar>v\<bar> \<le> cmf_max_correction (pre a)
          \<and> (\<forall>c<HX_COLS. frame a ! (r * HX_COLS + c) = v))
        \<longrightarrow> frame (hx_apply_cmf a) ! i = 0)"
proof -
  let ?p = "pre a" and ?m = "cmf_max_correction (pre a)"
  let ?rows = "cmf_rows ?p (frame a)"
  have near: "\<bar>cmf_correct (line_offset ?p vs) v - v\<bar> \<le> ?m" if "SHRT_MIN \<le> v" "v \<le> SHRT_MAX" for vs v
    using cmf_correct_near [of "line_offset ?p vs" ?m v] line_offset_range [of ?p vs] assms that
    by (cases "line_offset ?p vs") auto
  have "\<bar>?rows ! i - frame a ! i\<bar> \<le> ?m"
    using near frame_okD [OF assms(1)] assms(4) by (simp add: cmf_rows_nth)
  moreover have "\<bar>cmf_cols ?p ?rows ! i - ?rows ! i\<bar> \<le> ?m"
    using near frame_okD [OF frame_ok_cmf_rows [OF assms(1)]] assms(4) by (simp add: cmf_cols_nth)
  ultimately have bound: "\<bar>frame (hx_apply_cmf a) ! i - frame a ! i\<bar> \<le> 2 * ?m"
    by (simp add: hx_apply_cmf_def abs_le_iff)
  have "frame (hx_apply_cmf a) ! i = 0"
    if rows: "\<forall>r<HX_ROWS. \<exists>v. \<bar>v\<bar> < cmf_exclusion ?p \<and> \<bar>v\<bar> \<le> ?m \<and> (\<forall>c<HX_COLS. frame a ! (r * HX_COLS + c) = v)"
  proof -
    have z: "?rows ! j = 0" if j: "j < HX_PIXELS" for j
    proof -
      obtain v where v: "\<bar>v\<bar> < cmf_exclusion ?p" "\<bar>v\<bar> \<le> ?m"
        and c: "\<And>c. c < HX_COLS \<Longrightarrow> frame a ! (j div HX_COLS * HX_COLS + c) = v"
        using rows [rule_format, of "j div HX_COLS"] less_mult_imp_div_less [of j HX_ROWS HX_COLS] j
        by (auto simp del: div_less_iff_less_mult)
      have fj: "frame a ! j = v" using c [of "j mod HX_COLS"] by simp
      have "map (\<lambda>c. frame a ! (j div HX_COLS * HX_COLS + c)) [0..<HX_COLS] = map (\<lambda>_. v) [0..<HX_COLS]"
        using c by (intro map_cong) auto
      moreover have "line_offset ?p (map (\<lambda>_. v) [0..<HX_COLS]) = Some v"
        using line_offset_const [of HX_COLS v ?p] v assms(3) by simp
      ultimately have "line_offset ?p (map (\<lambda>c. frame a ! (j div HX_COLS * HX_COLS + c)) [0..<HX_COLS]) = Some v"
        by (simp only:)
      then show ?thesis using j fj by (simp add: cmf_rows_nth cmf_correct_def clamp_def s32_id)
    qed
    have "map (\<lambda>r. ?rows ! (r * HX_COLS + i mod HX_COLS)) [0..<HX_ROWS] = map (\<lambda>_. 0) [0..<HX_ROWS]"
    proof (intro map_cong refl)
      fix r
      assume "r \<in> set [0..<HX_ROWS]"
      then have "r \<le> 39" by simp
      moreover have "i mod HX_COLS \<le> 59" by (simp add: less_Suc_eq_le [symmetric])
      ultimately have "r * HX_COLS + i mod HX_COLS < HX_PIXELS" by linarith
      then show "?rows ! (r * HX_COLS + i mod HX_COLS) = 0" by (rule z)
    qed
    moreover have "line_offset ?p (map (\<lambda>_. 0) [0..<HX_ROWS]) \<in> {Some 0, None}"
      using assms(2) by (auto simp: line_offset_def Let_def map_replicate_const filter_replicate
          sum_list_replicate clamp_def s32_id)
    ultimately have "line_offset ?p (map (\<lambda>r. ?rows ! (r * HX_COLS + i mod HX_COLS)) [0..<HX_ROWS]) \<in> {Some 0, None}"
      by (simp only:)
    then show ?thesis
      using assms(4) z [OF assms(4)] by (auto simp: hx_apply_cmf_def cmf_cols_nth cmf_correct_def clamp_def s32_id)
  qed
  with bound show ?thesis by blast
qed

lemma boost_ge: "0 \<le> pct \<Longrightarrow> pct < 32768 \<Longrightarrow> v \<le> SHRT_MAX \<Longrightarrow> v \<le> boost pct v"
proof -
  assume pct: "0 \<le> pct" "pct < 32768" and v: "v \<le> SHRT_MAX"
  show "v \<le> boost pct v"
  proof (cases "v > 0")
    case True
    have "0 \<le> v * pct" "v * pct \<le> 32767 * 32767" using True pct v mult_mono [of v 32767 pct 32767] by auto
    moreover from this have "0 \<le> (v * pct) sdiv 100" "(v * pct) sdiv 100 \<le> 32767 * 32767"
      by (simp_all add: sdiv_nonneg pos_imp_zdiv_nonneg_iff)
    ultimately show ?thesis using True v by (simp add: boost_def clamp_def s32_id)
  qed (simp add: boost_def)
qed

lemma boost_line_ge: "0 \<le> pct \<Longrightarrow> pct < 32768 \<Longrightarrow> v \<le> SHRT_MAX \<Longrightarrow> v \<le> boost_line pct n k v"
  using boost_ge [of pct v] boost_ge [of "pct sdiv 2" v] sdiv_bounds [of 2 0 pct 32767, simplified]
  by (auto simp: boost_line_def)

lemma boost_line_inner: "2 \<le> k \<Longrightarrow> k < n - 2 \<Longrightarrow> boost_line pct n k v = v"
  by (auto simp: boost_line_def)

lemma edge_boost_nth:
  "edge_comp_enabled (det a) \<Longrightarrow> 0 < edge_boost_pct (det a) \<Longrightarrow> i < HX_PIXELS \<Longrightarrow>
    frame (hx_edge_boost a) ! i = boost_line (edge_boost_pct (det a)) HX_COLS (i mod HX_COLS)
      (boost_line (edge_boost_pct (det a)) HX_ROWS (i div HX_COLS) (frame a ! i))"
  by (simp add: hx_edge_boost_def Let_def)

text \<open>The edge boost never weakens a pixel, keeps it a 16-bit value, and leaves every pixel that
  is at least two lines away from the border as it was.\<close>

theorem edge_boost_outward_only:
  assumes "frame_ok (frame a)" "edge_boost_pct (det a) < 32768" "i < HX_PIXELS"
  shows "frame a ! i \<le> frame (hx_edge_boost a) ! i \<and> frame (hx_edge_boost a) ! i \<le> SHRT_MAX
    \<and> (2 \<le> i div HX_COLS \<and> i div HX_COLS < HX_ROWS - 2 \<and> 2 \<le> i mod HX_COLS \<and> i mod HX_COLS < HX_COLS - 2
        \<longrightarrow> frame (hx_edge_boost a) ! i = frame a ! i)"
proof (cases "edge_comp_enabled (det a) \<and> 0 < edge_boost_pct (det a)")
  case False
  then have "hx_edge_boost a = a" by (auto simp: hx_edge_boost_def Let_def)
  then show ?thesis using frame_okD(2,3) [OF assms(1), of i] assms(3) by simp
next
  case True
  let ?pct = "edge_boost_pct (det a)"
  let ?v = "boost_line ?pct HX_ROWS (i div HX_COLS) (frame a ! i)"
  have v: "frame a ! i \<le> ?v" "?v \<le> SHRT_MAX"
    using True assms boost_line_ge [of ?pct "frame a ! i" HX_ROWS] boost_line_range [of "frame a ! i" ?pct HX_ROWS]
      frame_okD(2,3) [OF assms(1), of i] by auto
  have "?v \<le> boost_line ?pct HX_COLS (i mod HX_COLS) ?v"
    using True assms(2) v by (intro boost_line_ge) auto
  moreover have "frame (hx_edge_boost a) ! i \<le> SHRT_MAX"
    using frame_okD(3) [OF frame_ok_boost [OF assms(1)] assms(3)] .
  ultimately show ?thesis
    using True v assms(3) boost_line_inner by (auto simp: edge_boost_nth)
qed

text \<open>Outside wake qualification, preprocessing replaces the safe baseline only on a frame with
  firmware-confirmed absence of fingers, no finger-sized signal and no active track, and only once
  \<open>safe_commit_no_finger_frames\<close> such frames have been counted; the new safe baseline is the
  snapshot taken when the count started (or this very frame).\<close>

theorem safe_baseline_only_when_idle:
  assumes "baseline_initialized a"
    and "safe_baseline_q8 (hx_prepare_frame_baseline a raw fs) \<noteq> safe_baseline_q8 a"
  shows "fs = HX_FINGER_ABSENT \<and> \<not> pass_signal a raw fs
    \<and> (\<forall>t\<in>set (tracks a). \<not> trk_active t)
    \<and> (safe_commit_no_finger_frames (pre a) \<le> 1
      \<or> safe_commit_no_finger_frames (pre a) \<le> safe_no_finger_frames a + 1)
    \<and> (safe_baseline_q8 (hx_prepare_frame_baseline a raw fs) = hx_copy_raw_to_baseline raw
      \<or> safe_baseline_q8 (hx_prepare_frame_baseline a raw fs) = wake_candidate_q8 a
        \<and> unstable_nodes (pre a) (idle_moved (pre a) (wake_candidate_q8 a) raw)
          \<le> wake_max_unstable_nodes (pre a))"
proof -
  have s: "seed_baseline a raw fs = a" using assms(1) by (simp add: seed_baseline_def)
  have sig: "fs = HX_FINGER_ABSENT \<and> \<not> pass_signal a raw fs"
    and idle: "safe_baseline_q8 (hx_prepare_frame_baseline a raw fs)
      = safe_baseline_q8 (idle_snapshot (baseline_pass a raw fs) raw)"
    using assms(2) by (auto simp: hx_prepare_frame_baseline_def Let_def s split: if_splits)
  have "\<forall>t\<in>set (tracks a). \<not> trk_active t"
    using sig by (auto simp: pass_signal_def frame_has_signal_def)
  moreover have "(safe_commit_no_finger_frames (pre a) \<le> 1
      \<or> safe_commit_no_finger_frames (pre a) \<le> safe_no_finger_frames a + 1)
    \<and> (safe_baseline_q8 (hx_prepare_frame_baseline a raw fs) = hx_copy_raw_to_baseline raw
      \<or> safe_baseline_q8 (hx_prepare_frame_baseline a raw fs) = wake_candidate_q8 a
        \<and> unstable_nodes (pre a) (idle_moved (pre a) (wake_candidate_q8 a) raw)
          \<le> wake_max_unstable_nodes (pre a))"
    using assms(2) unfolding idle by (auto simp: idle_snapshot_def Let_def split: if_splits)
  ultimately show ?thesis using sig by blast
qed

section \<open>Witnesses\<close>

text \<open>A learned quiet panel with every cell in a release hold of five frames.\<close>

definition held_panel :: hx_algo where
  "held_panel = new_algo\<lparr>baseline_initialized := True,
     baseline_q8 := replicate HX_PIXELS (0x7fee * 256),
     baseline_release_hold := replicate HX_PIXELS 5, frame := replicate HX_PIXELS 50\<rparr>"

lemma held_panel_fields:
  "baseline_initialized held_panel" "baseline_enabled (pre held_panel)"
  "baseline_peak_threshold (pre held_panel) = 305"
  "pre_params_ok (pre held_panel)" "baseline_ok held_panel" "frame_ok (frame held_panel)"
  "cmf_exclusion (pre held_panel) = 2000" "cmf_max_correction (pre held_panel) = 2000"
  "edge_boost_pct (det held_panel) = 50"
  by (simp_all add: held_panel_def new_algo_def hx_algo_full_reset_def hx_algo_init_defaults_def
      default_pre_def default_det_def pre_params_ok_def baseline_ok_def frame_ok_def BASELINE_MAX_def)

lemma quiet_raw_ok: "raw_ok quiet_raw"
  unfolding quiet_raw_def by (rule raw_ok_replicate) simp_all

lemma held_delta: "i < HX_PIXELS \<Longrightarrow> cell_delta (baseline_q8 held_panel) quiet_raw i = 0"
  by (simp add: cell_delta_def held_panel_def quiet_raw_def shr_def s32_id)

theorem preprocess_keeps_baseline_witness:
  "baseline_ok (hx_preprocess_frame_state held_panel quiet_raw HX_FINGER_PRESENT)"
  using preprocess_keeps_baseline [OF quiet_raw_ok held_panel_fields(4)] held_panel_fields(5) by blast

theorem common_mode_robust_witness: "\<bar>pass_common held_panel quiet_raw - 0\<bar> \<le> 63"
proof (rule common_mode_robust [OF quiet_raw_ok held_panel_fields(5)])
  have "{i \<in> {1..<HX_PIXELS}. cell_delta (baseline_q8 held_panel) quiet_raw i = 0} = {1..<HX_PIXELS}"
    using held_delta by auto
  then show "1200 \<le> card {i \<in> {1..<HX_PIXELS}. cell_delta (baseline_q8 held_panel) quiet_raw i = 0}"
    by (simp only: card_atLeastLessThan)
qed

lemma held_common: "\<bar>pass_common held_panel quiet_raw\<bar> \<le> 63"
proof -
  have "{i \<in> {1..<HX_PIXELS}. cell_delta (baseline_q8 held_panel) quiet_raw i = 0} = {1..<HX_PIXELS}"
    using held_delta by auto
  then have "1200 \<le> card {i \<in> {1..<HX_PIXELS}. cell_delta (baseline_q8 held_panel) quiet_raw i = 0}"
    by (simp only: card_atLeastLessThan)
  from common_diff_near [OF _ this] show ?thesis using held_delta by (simp add: pass_common_def)
qed

theorem finger_is_not_learned_witness:
  "baseline_q8 (hx_prepare_frame_baseline held_panel quiet_raw HX_FINGER_PRESENT) ! 125 = 0x7fee * 256"
proof -
  have "s32 (- pass_common held_panel quiet_raw) = - pass_common held_panel quiet_raw"
    using held_common by (intro s32_id) auto
  then have "\<not> baseline_peak_threshold (pre held_panel)
      \<le> s32 (cell_delta (baseline_q8 held_panel) quiet_raw 125 - pass_common held_panel quiet_raw)"
    using held_common held_delta [of 125] by (simp add: held_panel_fields)
  moreover have "baseline_release_hold held_panel ! 125 \<noteq> 0" "baseline_q8 held_panel ! 125 = 0x7fee * 256"
    by (simp_all add: held_panel_def)
  ultimately show ?thesis
    using finger_is_not_learned [OF held_panel_fields(1,2), of 125 quiet_raw HX_FINGER_PRESENT] by simp
qed

theorem cmf_bounded_and_exact_witness: "frame (hx_apply_cmf held_panel) ! 125 = 0"
proof -
  have "\<forall>r<HX_ROWS. \<exists>v. \<bar>v\<bar> < cmf_exclusion (pre held_panel) \<and> \<bar>v\<bar> \<le> cmf_max_correction (pre held_panel)
      \<and> (\<forall>c<HX_COLS. frame held_panel ! (r * HX_COLS + c) = v)"
    unfolding held_panel_fields by (auto intro!: exI [of _ 50] simp: held_panel_def)
  then show ?thesis
    using cmf_bounded_and_exact [OF held_panel_fields(6), of 125] by (simp add: held_panel_fields)
qed

theorem edge_boost_outward_only_witness:
  "frame (hx_edge_boost held_panel) ! 125 = 50"
proof -
  have "frame held_panel ! 125 = 50" by (simp add: held_panel_def)
  then show ?thesis
    using edge_boost_outward_only [OF held_panel_fields(6), of 125] by (simp add: held_panel_fields)
qed

text \<open>The thirtieth quiet frame: the snapshot becomes the safe baseline.\<close>

definition idle_panel :: hx_algo where
  "idle_panel = held_panel\<lparr>safe_no_finger_frames := 29,
     wake_candidate_q8 := hx_copy_raw_to_baseline quiet_raw\<rparr>"

lemma idle_panel_fields:
  "baseline_initialized idle_panel" "pre idle_panel = pre new_algo"
  "baseline_q8 idle_panel = baseline_q8 held_panel" "tracks idle_panel = replicate 10 zero_track"
  "safe_baseline_q8 idle_panel = zero_grid" "safe_no_finger_frames idle_panel = 29"
  "wake_candidate_q8 idle_panel = hx_copy_raw_to_baseline quiet_raw"
  "safe_commit_no_finger_frames (pre new_algo) = 30" "baseline_peak_threshold (pre new_algo) = 305"
  "0 < wake_max_unstable_line_nodes (pre new_algo)" "wake_max_unstable_nodes (pre new_algo) = 24"
  "wake_raw_jump_threshold (pre new_algo) = 160"
  by (simp_all add: idle_panel_def held_panel_def new_algo_def hx_algo_full_reset_def
      hx_algo_init_defaults_def hx_algo_clear_transient_state_def default_pre_def)

lemma unstable_none:
  assumes "\<forall>i\<in>{1..<HX_PIXELS}. \<not> P i" "0 < wake_max_unstable_line_nodes p"
  shows "unstable_nodes p P = 0"
proof -
  have "filter (\<lambda>i. Q i \<and> P i) [1..<HX_PIXELS] = []" for Q
    using assms(1) by (auto simp: filter_empty_conv)
  from this [of "\<lambda>_. True"] this show ?thesis
    using assms(2) by (simp add: unstable_nodes_def row_hits_def col_hits_def)
qed

lemma max_delta_const: "(\<forall>i\<in>{1..<HX_PIXELS}. d i = 0) \<Longrightarrow> max_delta d = 0"
proof -
  assume z: "\<forall>i\<in>{1..<HX_PIXELS}. d i = 0"
  have "foldl (\<lambda>m i. max m (d i)) m is = (if is = [] then m else max m 0)"
    if "set is \<subseteq> {1..<HX_PIXELS}" for m "is"
    using that z by (induction "is" arbitrary: m) auto
  then show "max_delta d = 0" by (simp add: max_delta_def)
qed

lemma idle_panel_commit:
  "safe_baseline_q8 (hx_prepare_frame_baseline idle_panel quiet_raw HX_FINGER_ABSENT)
    = hx_copy_raw_to_baseline quiet_raw"
proof -
  let ?d = "cell_delta (baseline_q8 held_panel) quiet_raw"
  have seed: "seed_baseline idle_panel quiet_raw HX_FINGER_ABSENT = idle_panel"
    by (simp add: seed_baseline_def idle_panel_fields)
  have "max_delta ?d = 0" using held_delta by (intro max_delta_const) auto
  moreover have "s32 (- common_diff ?d) = - common_diff ?d"
    using held_common by (intro s32_id) (auto simp: pass_common_def)
  ultimately have sig: "\<not> pass_signal idle_panel quiet_raw HX_FINGER_ABSENT"
    using held_common by (simp add: pass_signal_def frame_has_signal_def idle_panel_fields pass_common_def)
  have froze: "\<not> baseline_had_freeze (baseline_pass idle_panel quiet_raw HX_FINGER_ABSENT)"
    using sig by (auto simp: baseline_pass_def baseline_cell_def pass_signal_def Let_def split: if_splits)
  have "\<forall>i\<in>{1..<HX_PIXELS}. \<not> idle_moved (pre new_algo) (hx_copy_raw_to_baseline quiet_raw) quiet_raw i"
    using nth_copy_raw [OF quiet_raw_ok]
    by (auto simp: idle_moved_def idle_panel_fields shr_def s32_id)
  then have "unstable_nodes (pre new_algo)
      (idle_moved (pre new_algo) (hx_copy_raw_to_baseline quiet_raw) quiet_raw) = 0"
    using idle_panel_fields(10) by (rule unstable_none)
  then show ?thesis
    using sig froze
    by (simp add: hx_prepare_frame_baseline_def Let_def seed idle_snapshot_def idle_panel_fields)
qed

theorem safe_baseline_only_when_idle_witness:
  "\<not> pass_signal idle_panel quiet_raw HX_FINGER_ABSENT
    \<and> safe_baseline_q8 (hx_prepare_frame_baseline idle_panel quiet_raw HX_FINGER_ABSENT)
      = hx_copy_raw_to_baseline quiet_raw"
proof -
  have "hx_copy_raw_to_baseline quiet_raw ! 0 \<noteq> zero_grid ! 0"
    using nth_copy_raw [OF quiet_raw_ok, of 0] by (simp add: quiet_raw_def)
  then have "safe_baseline_q8 (hx_prepare_frame_baseline idle_panel quiet_raw HX_FINGER_ABSENT)
      \<noteq> safe_baseline_q8 idle_panel"
    unfolding idle_panel_commit idle_panel_fields(5) by metis
  from safe_baseline_only_when_idle [OF idle_panel_fields(1) this] show ?thesis
    using idle_panel_commit by blast
qed

end
