(* ===== verification/Hx_Flood.thy ===== *)
theory Hx_Flood
  imports Hx_Types
begin

text \<open>
  The breadth-first flood fill over the 8-connected grid that both the macro-zone detector
  (\<open>hx_detect_macro_zones\<close>) and the contact expansion (\<open>hx_expand_single_peak\<close>) run.  The two
  loops share their neighbour step, \<open>flood_nbr\<close>; they differ in what a mark is, in which
  pixels are admissible and in what a popped pixel contributes.  The locale \<open>flood_fill\<close>
  states what they share, and proves once that the fill visits exactly the pixels reachable
  through admissible unmarked pixels, each of them once.
\<close>

section \<open>The neighbour loop\<close>

text \<open>
  One pass of the loop over \<open>dr[]\<close>, \<open>dc[]\<close>: a neighbour off the grid is skipped, a marked one
  is only noted (\<open>touch\<close>), an inadmissible one is skipped, any other is marked and queued.
\<close>

definition flood_nbr ::
  "('v \<Rightarrow> nat \<Rightarrow> bool) \<Rightarrow> ('v \<Rightarrow> nat \<Rightarrow> 'v) \<Rightarrow> ('v \<Rightarrow> nat \<Rightarrow> 'v) \<Rightarrow> (nat \<Rightarrow> bool) \<Rightarrow> nat
    \<Rightarrow> 'v \<times> nat list \<Rightarrow> int \<times> int \<Rightarrow> 'v \<times> nat list" where
  "flood_nbr is_marked touch mark adm ci vq d =
     (let (v, q) = vq; (dr, dc) = d; nr = row_of ci + dr; nc = col_of ci + dc in
      if nr < 0 \<or> nr \<ge> 40 \<or> nc < 0 \<or> nc \<ge> 60 then (v, q)
      else let ni = nat (nr * 60 + nc) in
        if is_marked v ni then (touch v ni, q)
        else if \<not> adm ni then (v, q)
        else (mark v ni, q @ [ni]))"

definition flood_expand ::
  "('v \<Rightarrow> nat \<Rightarrow> bool) \<Rightarrow> ('v \<Rightarrow> nat \<Rightarrow> 'v) \<Rightarrow> ('v \<Rightarrow> nat \<Rightarrow> 'v) \<Rightarrow> (nat \<Rightarrow> bool) \<Rightarrow> 'v \<Rightarrow> nat
    \<Rightarrow> 'v \<times> nat list" where
  "flood_expand is_marked touch mark adm v ci =
     foldl (flood_nbr is_marked touch mark adm ci) (v, []) nbr_offsets"

text \<open>The pixel at an offset, where it is on the grid.\<close>

definition nbr_at :: "nat \<Rightarrow> int \<times> int \<Rightarrow> nat option" where
  "nbr_at i d = (if on_grid (row_of i + fst d) (col_of i + snd d)
     then Some (nat ((row_of i + fst d) * 60 + (col_of i + snd d))) else None)"

lemma nbr_at_adj8:
  assumes i: "i < HX_PIXELS"
  shows "(\<exists>d\<in>set nbr_offsets. nbr_at i d = Some j) \<longleftrightarrow> j < HX_PIXELS \<and> adj8 i j"
proof
  assume "\<exists>d\<in>set nbr_offsets. nbr_at i d = Some j"
  then obtain a b where d: "(a, b) \<in> set nbr_offsets" and g: "on_grid (row_of i + a) (col_of i + b)"
    and j: "j = nat ((row_of i + a) * 60 + (col_of i + b))"
    by (auto simp: nbr_at_def split: if_splits)
  have rc: "row_of j = row_of i + a" "col_of j = col_of i + b" "j < HX_PIXELS"
    unfolding j using idx_row_col [OF g] by auto
  have "row_of j - row_of i = a" "col_of j - col_of i = b" using rc by auto
  then show "j < HX_PIXELS \<and> adj8 i j"
    using rc d adj8_offset [OF i rc(3)] by simp
next
  assume j: "j < HX_PIXELS \<and> adj8 i j"
  let ?d = "(row_of j - row_of i, col_of j - col_of i)"
  have "?d \<in> set nbr_offsets" using adj8_offset [OF i, of j] j by simp
  moreover have "nbr_at i ?d = Some j"
    using j on_grid_row_col [of j] by (simp add: nbr_at_def row_col_idx)
  ultimately show "\<exists>d\<in>set nbr_offsets. nbr_at i d = Some j" by blast
qed

section \<open>Marks\<close>

locale pixel_marks =
  fixes is_marked :: "'v \<Rightarrow> nat \<Rightarrow> bool"
    and touch :: "'v \<Rightarrow> nat \<Rightarrow> 'v"
    and mark :: "'v \<Rightarrow> nat \<Rightarrow> 'v"
  assumes marked_touch: "is_marked (touch v i) j = is_marked v j"
    and marked_mark: "is_marked (mark v i) j \<longleftrightarrow> j = i \<or> is_marked v j"
begin

lemma flood_nbr_cases:
  "flood_nbr is_marked touch mark adm ci (v, q) d =
     (case nbr_at ci d of None \<Rightarrow> (v, q)
      | Some ni \<Rightarrow> if is_marked v ni then (touch v ni, q)
          else if \<not> adm ni then (v, q) else (mark v ni, q @ [ni]))"
  by (cases d) (simp add: flood_nbr_def nbr_at_def on_grid_def Let_def)

lemma expand_foldl:
  assumes "\<forall>j. is_marked v j \<longleftrightarrow> is_marked v0 j \<or> j \<in> set q"
    and "distinct q" and "\<forall>j\<in>set q. \<not> is_marked v0 j"
    and "foldl (flood_nbr is_marked touch mark adm ci) (v, q) ds = (v', q')"
  shows "distinct q' \<and> (\<forall>j. is_marked v' j \<longleftrightarrow> is_marked v0 j \<or> j \<in> set q') \<and>
    set q' = set q \<union> {j. \<not> is_marked v0 j \<and> adm j \<and> (\<exists>d\<in>set ds. nbr_at ci d = Some j)} \<and>
    (\<forall>j\<in>set q'. \<not> is_marked v0 j)"
  using assms
proof (induction ds arbitrary: v q)
  case Nil
  then show ?case by auto
next
  case (Cons d ds)
  show ?case
  proof (cases "nbr_at ci d")
    case None
    then have f: "foldl (flood_nbr is_marked touch mark adm ci) (v, q) ds = (v', q')"
      using Cons.prems(4) by (simp add: flood_nbr_cases)
    have nb: "(\<exists>d'\<in>set (d # ds). nbr_at ci d' = Some j)
      \<longleftrightarrow> (\<exists>d'\<in>set ds. nbr_at ci d' = Some j)" for j
      by (simp add: None)
    show ?thesis unfolding nb by (rule Cons.IH [OF Cons.prems(1-3) f])
  next
    case (Some ni)
    have nb: "(\<exists>d'\<in>set (d # ds). nbr_at ci d' = Some j)
      \<longleftrightarrow> j = ni \<or> (\<exists>d'\<in>set ds. nbr_at ci d' = Some j)" for j
      by (auto simp: Some)
    consider (m) "is_marked v ni" | (n) "\<not> is_marked v ni" "\<not> adm ni"
      | (p) "\<not> is_marked v ni" "adm ni" by blast
    then show ?thesis
    proof cases
      case m
      then have f: "foldl (flood_nbr is_marked touch mark adm ci) (touch v ni, q) ds = (v', q')"
        using Cons.prems(4) Some by (simp add: flood_nbr_cases)
      have t: "\<forall>j. is_marked (touch v ni) j \<longleftrightarrow> is_marked v0 j \<or> j \<in> set q"
        using Cons.prems(1) marked_touch by simp
      have "ni = j \<longrightarrow> is_marked v0 j \<or> j \<in> set q" for j
        using m Cons.prems(1) by blast
      with Cons.IH [OF t Cons.prems(2,3) f] show ?thesis unfolding nb by blast
    next
      case n
      then have f: "foldl (flood_nbr is_marked touch mark adm ci) (v, q) ds = (v', q')"
        using Cons.prems(4) Some by (simp add: flood_nbr_cases)
      from Cons.IH [OF Cons.prems(1-3) f] show ?thesis
        using n(2) unfolding nb by blast
    next
      case p
      then have f: "foldl (flood_nbr is_marked touch mark adm ci) (mark v ni, q @ [ni]) ds = (v', q')"
        using Cons.prems(4) Some by (simp add: flood_nbr_cases)
      have a: "\<forall>j. is_marked (mark v ni) j \<longleftrightarrow> is_marked v0 j \<or> j \<in> set (q @ [ni])"
        using Cons.prems(1) marked_mark by auto
      have b: "distinct (q @ [ni])" using Cons.prems(1,2) p by auto
      have c: "\<forall>j\<in>set (q @ [ni]). \<not> is_marked v0 j"
        using Cons.prems(1,3) p by auto
      have n0: "\<not> is_marked v0 ni" using c by simp
      have eq: "set (q @ [ni]) \<union> {j. \<not> is_marked v0 j \<and> adm j \<and> (\<exists>d\<in>set ds. nbr_at ci d = Some j)}
        = set q \<union> {j. \<not> is_marked v0 j \<and> adm j \<and> (j = ni \<or> (\<exists>d\<in>set ds. nbr_at ci d = Some j))}"
        using p(2) n0 by auto
      show ?thesis unfolding nb eq [symmetric] by (rule Cons.IH [OF a b c f])
    qed
  qed
qed

lemma expand_spec:
  assumes i: "i < HX_PIXELS"
    and e: "flood_expand is_marked touch mark adm v i = (v', new)"
  shows "distinct new"
    and "set new = {j. j < HX_PIXELS \<and> adj8 i j \<and> adm j \<and> \<not> is_marked v j}"
    and "is_marked v' j \<longleftrightarrow> is_marked v j \<or> j \<in> set new"
proof -
  have f: "foldl (flood_nbr is_marked touch mark adm i) (v, []) nbr_offsets = (v', new)"
    using e by (simp add: flood_expand_def)
  have *: "distinct new \<and> (\<forall>j. is_marked v' j \<longleftrightarrow> is_marked v j \<or> j \<in> set new) \<and>
    set new = set [] \<union> {j. \<not> is_marked v j \<and> adm j \<and> (\<exists>d\<in>set nbr_offsets. nbr_at i d = Some j)} \<and>
    (\<forall>j\<in>set new. \<not> is_marked v j)"
    by (rule expand_foldl [OF _ _ _ f]) simp_all
  from * show "distinct new" by blast
  from * show "is_marked v' j \<longleftrightarrow> is_marked v j \<or> j \<in> set new" by blast
  have c: "set new = set [] \<union> {j. \<not> is_marked v j \<and> adm j \<and> (\<exists>d\<in>set nbr_offsets. nbr_at i d = Some j)}"
    using * by blast
  show "set new = {j. j < HX_PIXELS \<and> adj8 i j \<and> adm j \<and> \<not> is_marked v j}"
    unfolding c nbr_at_adj8 [OF i] by auto
qed

text \<open>Every queued pixel was unmarked, so the number of unmarked pixels bounds the work.\<close>

lemma expand_measure:
  assumes e: "flood_expand is_marked touch mark adm v i = (v', new)"
  shows "card {j. j < HX_PIXELS \<and> \<not> is_marked v' j} + length new
    = card {j. j < HX_PIXELS \<and> \<not> is_marked v j}"
proof -
  have f: "foldl (flood_nbr is_marked touch mark adm i) (v, []) nbr_offsets = (v', new)"
    using e by (simp add: flood_expand_def)
  have *: "distinct new \<and> (\<forall>j. is_marked v' j \<longleftrightarrow> is_marked v j \<or> j \<in> set new) \<and>
    set new = set [] \<union> {j. \<not> is_marked v j \<and> adm j \<and> (\<exists>d\<in>set nbr_offsets. nbr_at i d = Some j)} \<and>
    (\<forall>j\<in>set new. \<not> is_marked v j)"
    by (rule expand_foldl [OF _ _ _ f]) simp_all
  have px: "j < HX_PIXELS" if "nbr_at i d = Some j" for d j
    using that idx_row_col(3) [of "row_of i + fst d" "col_of i + snd d"]
    by (simp add: nbr_at_def split: if_splits)
  have c: "set new = set [] \<union> {j. \<not> is_marked v j \<and> adm j \<and> (\<exists>d\<in>set nbr_offsets. nbr_at i d = Some j)}"
    using * by blast
  have new: "set new \<subseteq> {..<HX_PIXELS}" unfolding c using px by auto
  have mk: "\<forall>j. is_marked v' j \<longleftrightarrow> is_marked v j \<or> j \<in> set new" using * by blast
  have nm: "\<forall>j\<in>set new. \<not> is_marked v j" using * by blast
  have "{j. j < HX_PIXELS \<and> \<not> is_marked v j} =
      {j. j < HX_PIXELS \<and> \<not> is_marked v' j} \<union> set new"
    using mk nm new by blast
  moreover have "{j. j < HX_PIXELS \<and> \<not> is_marked v' j} \<inter> set new = {}"
    using mk by blast
  moreover have "card (set new) = length new"
    using conjunct1 [OF *] by (rule distinct_card)
  ultimately show ?thesis by (simp add: card_Un_disjoint)
qed

lemma expand_decreases:
  "flood_expand is_marked touch mark adm v i = (v', new) \<Longrightarrow>
    2 * card {j. j < HX_PIXELS \<and> \<not> is_marked v' j} + length (q @ new)
      < 2 * card {j. j < HX_PIXELS \<and> \<not> is_marked v j} + length (i # q)"
  using expand_measure [of adm v i v' new] by simp

end

section \<open>The fill\<close>

text \<open>
  The loop: pop a pixel, let it contribute (\<open>visit\<close>), queue its new neighbours.  \<open>run\<close> is the
  component's own loop; the contract is its two recursion equations.
\<close>

locale flood_fill = pixel_marks +
  fixes adm :: "nat \<Rightarrow> bool"
    and visit :: "'s \<Rightarrow> nat \<Rightarrow> 's"
    and run :: "'v \<Rightarrow> nat list \<Rightarrow> 's \<Rightarrow> 'v \<times> 's"
  assumes run_Nil: "run v [] s = (v, s)"
    and run_Cons: "i < HX_PIXELS \<Longrightarrow> run v (i # q) s =
      (let (v', new) = flood_expand is_marked touch mark adm v i in run v' (q @ new) (visit s i))"
begin

text \<open>A step of the region: to an admissible neighbour that was unmarked at the start.\<close>

definition step :: "'v \<Rightarrow> (nat \<times> nat) set" where
  "step v = {(i, j). j < HX_PIXELS \<and> adj8 i j \<and> adm j \<and> \<not> is_marked v j}"

definition filled :: "'v \<Rightarrow> nat list \<Rightarrow> 'v \<Rightarrow> nat list \<Rightarrow> bool" where
  "filled v q v' ps \<longleftrightarrow> distinct ps \<and> set ps \<subseteq> {..<HX_PIXELS}
     \<and> (\<forall>j. is_marked v' j \<longleftrightarrow> is_marked v j \<or> j \<in> set ps)
     \<and> (\<forall>j\<in>set ps. is_marked v j \<longrightarrow> j \<in> set q) \<and> set q \<subseteq> set ps
     \<and> (\<forall>p\<in>set ps. \<forall>j. j < HX_PIXELS \<and> adj8 p j \<and> adm j \<longrightarrow> is_marked v' j)
     \<and> set ps \<subseteq> (step v)\<^sup>* `` set q"

lemma filledD:
  assumes "filled v q v' ps"
  shows "distinct ps" "set ps \<subseteq> {..<HX_PIXELS}"
    "is_marked v' j \<longleftrightarrow> is_marked v j \<or> j \<in> set ps"
    "j \<in> set ps \<Longrightarrow> is_marked v j \<Longrightarrow> j \<in> set q"
  using assms unfolding filled_def by blast+

lemma filled_Cons:
  assumes e: "flood_expand is_marked touch mark adm v i = (v1, new)"
    and i: "i < HX_PIXELS" "i \<notin> set q" "is_marked v i" and q: "\<forall>j\<in>set q. is_marked v j"
    and f: "filled v1 (q @ new) v' ps"
  shows "filled v (i # q) v' (i # ps)"
proof -
  note s = expand_spec [OF i(1) e]
  have inew: "i \<notin> set new" using s(2) i by auto
  have ips: "i \<notin> set ps" using f i inew s(3) by (auto simp: filled_def)
  have sub: "step v1 \<subseteq> step v" using s(3) by (auto simp: step_def)
  have istep: "(i, j) \<in> step v" if "j \<in> set new" for j using that s(2) by (auto simp: step_def)
  have reach: "set ps \<subseteq> (step v)\<^sup>* `` set (i # q)"
  proof
    fix p
    assume "p \<in> set ps"
    then obtain j where j: "j \<in> set (q @ new)" and r: "(j, p) \<in> (step v1)\<^sup>*"
      using f unfolding filled_def by blast
    have r': "(j, p) \<in> (step v)\<^sup>*" using r rtrancl_mono [OF sub] by blast
    show "p \<in> (step v)\<^sup>* `` set (i # q)"
    proof (cases "j \<in> set q")
      case True
      with r' show ?thesis by auto
    next
      case False
      with j have "(i, j) \<in> step v" using istep by auto
      then have "(i, p) \<in> (step v)\<^sup>*" using r' by (rule converse_rtrancl_into_rtrancl)
      then show ?thesis by auto
    qed
  qed
  have near: "is_marked v' j" if "j < HX_PIXELS" "adj8 i j" "adm j" for j
    using that s(2,3) f by (auto simp: filled_def)
  show ?thesis
    unfolding filled_def
  proof (intro conjI)
    show "distinct (i # ps)" using f ips by (simp add: filled_def)
    show "set (i # ps) \<subseteq> {..<HX_PIXELS}" using f i by (simp add: filled_def)
    show "\<forall>j. is_marked v' j \<longleftrightarrow> is_marked v j \<or> j \<in> set (i # ps)"
      using f s(3) i by (auto simp: filled_def)
    show "\<forall>j\<in>set (i # ps). is_marked v j \<longrightarrow> j \<in> set (i # q)"
      using f s(2,3) by (auto simp: filled_def)
    show "set (i # q) \<subseteq> set (i # ps)" using f by (auto simp: filled_def)
    show "\<forall>p\<in>set (i # ps). \<forall>j. j < HX_PIXELS \<and> adj8 p j \<and> adm j \<longrightarrow> is_marked v' j"
      using f near by (auto simp: filled_def)
    show "set (i # ps) \<subseteq> (step v)\<^sup>* `` set (i # q)" using reach by auto
  qed
qed

text \<open>Every fill from marked, distinct queue entries visits a list \<open>ps\<close> of the form above.\<close>

lemma run_filled:
  assumes "distinct q" "\<forall>j\<in>set q. is_marked v j \<and> j < HX_PIXELS"
  shows "\<exists>v' ps. run v q s = (v', foldl visit s ps) \<and> filled v q v' ps"
  using assms
proof (induction "2 * card {j. j < HX_PIXELS \<and> \<not> is_marked v j} + length q"
    arbitrary: v q s rule: less_induct)
  case less
  show ?case
  proof (cases q)
    case Nil
    have "filled v [] v []" by (auto simp: filled_def)
    moreover have "run v q s = (v, foldl visit s [])" using Nil run_Nil by simp
    ultimately show ?thesis using Nil by blast
  next
    case (Cons i q')
    have i: "i < HX_PIXELS" "i \<notin> set q'" "is_marked v i" using less.prems Cons by auto
    obtain v1 new where e: "flood_expand is_marked touch mark adm v i = (v1, new)"
      by (cases "flood_expand is_marked touch mark adm v i")
    note s = expand_spec [OF i(1) e]
    have "2 * card {j. j < HX_PIXELS \<and> \<not> is_marked v1 j} + length (q' @ new)
        < 2 * card {j. j < HX_PIXELS \<and> \<not> is_marked v j} + length q"
      using expand_decreases [OF e, of q'] Cons by simp
    moreover have "distinct (q' @ new)" using less.prems Cons s(1,2) by auto
    moreover have "\<forall>j\<in>set (q' @ new). is_marked v1 j \<and> j < HX_PIXELS"
      using less.prems Cons s(2,3) by auto
    ultimately obtain v' ps where r: "run v1 (q' @ new) (visit s i) = (v', foldl visit (visit s i) ps)"
      and f: "filled v1 (q' @ new) v' ps"
      using less.hyps by blast
    have "run v q s = (v', foldl visit s (i # ps))"
      using run_Cons [OF i(1), of v q' s] r e Cons by simp
    moreover have "filled v q v' (i # ps)"
      using filled_Cons [OF e i _ f] less.prems Cons by simp
    ultimately show ?thesis by blast
  qed
qed

text \<open>The pixels visited are exactly those reachable in the region.\<close>

lemma filled_reach: "filled v q v' ps \<Longrightarrow> set ps = (step v)\<^sup>* `` set q"
proof
  assume f: "filled v q v' ps"
  then show "set ps \<subseteq> (step v)\<^sup>* `` set q" by (simp add: filled_def)
  show "(step v)\<^sup>* `` set q \<subseteq> set ps"
  proof clarify
    fix i j
    assume "(i, j) \<in> (step v)\<^sup>*" and "i \<in> set q"
    then show "j \<in> set ps"
    proof (induction rule: rtrancl_induct)
      case base
      then show ?case using f by (auto simp: filled_def)
    next
      case (step y z)
      then have "is_marked v' z" "\<not> is_marked v z"
        using f by (auto simp: filled_def step_def)
      then show ?case using f by (auto simp: filled_def)
    qed
  qed
qed

end

end
