(* ===== verification/Hx_Zones.thy ===== *)
theory Hx_Zones
  imports Hx_Flood Hx_State
begin

text \<open>
  Macro-zone detection (\<open>hx-algo-detect.c\<close>, \<open>hx_detect_macro_zones\<close>): a row-major scan seeds
  a flood fill at every unvisited above-threshold pixel; the strongest \<open>HX_MAX_ZONES\<close> regions
  are kept and sorted strongest first.  The zones are shown to be exactly the 8-connected
  components of the above-threshold pixels, with exact area, signal and bounding box.
\<close>

section \<open>The detector\<close>

definition zone_add :: "grid \<Rightarrow> hx_macro_zone \<Rightarrow> nat \<Rightarrow> hx_macro_zone" where
  "zone_add fr z ci =
     (let cr = row_of ci; cc = col_of ci; sig = fr ! ci in
      z\<lparr>z_area := u16 (z_area z + 1),
        z_signal_sum := (if sig > 0 then s32 (z_signal_sum z + sig) else z_signal_sum z),
        z_min_r := (if cr < z_min_r z then cr else z_min_r z),
        z_max_r := (if cr > z_max_r z then cr else z_max_r z),
        z_min_c := (if cc < z_min_c z then cc else z_min_c z),
        z_max_c := (if cc > z_max_c z then cc else z_max_c z)\<rparr>)"

text \<open>A popped pixel goes to the arena (while there is room) and into the zone.\<close>

definition zone_visit :: "grid \<Rightarrow> nat list \<times> hx_macro_zone \<Rightarrow> nat \<Rightarrow> nat list \<times> hx_macro_zone" where
  "zone_visit fr s ci =
     (let (arena, z) = s in
      (if length arena < HX_PIXELS then arena @ [ci] else arena, zone_add fr z ci))"

definition zone_expand :: "grid \<Rightarrow> int \<Rightarrow> (nat \<Rightarrow> bool) \<Rightarrow> nat \<Rightarrow> (nat \<Rightarrow> bool) \<times> nat list" where
  "zone_expand fr thr =
     flood_expand (\<lambda>visited j. visited j) (\<lambda>visited j. visited) (\<lambda>visited j. visited(j := True))
       (\<lambda>j. \<not> fr ! j < thr)"

interpretation visited_flags:
  pixel_marks "\<lambda>visited j. visited j" "\<lambda>visited j. visited" "\<lambda>visited j. visited(j := True)"
  by unfold_locales auto

text \<open>The loop \<open>while (head != tail)\<close>; the list is the queue from \<open>head\<close> to \<open>tail\<close>.\<close>

function zone_bfs ::
  "grid \<Rightarrow> int \<Rightarrow> (nat \<Rightarrow> bool) \<Rightarrow> nat list \<Rightarrow> nat list \<times> hx_macro_zone
    \<Rightarrow> (nat \<Rightarrow> bool) \<times> (nat list \<times> hx_macro_zone)" where
  "zone_bfs fr thr visited [] s = (visited, s)"
| "zone_bfs fr thr visited (ci # q) s =
     (let (visited', new) = zone_expand fr thr visited ci in
      zone_bfs fr thr visited' (q @ new) (zone_visit fr s ci))"
  by pat_completeness auto
termination
  by (relation "measure (\<lambda>(fr, thr, visited, q, s).
        2 * card {j. j < HX_PIXELS \<and> \<not> visited j} + length q)")
    (auto simp only: wf_measure in_measure case_prod_conv zone_expand_def
      intro: visited_flags.expand_decreases [OF sym])

definition zone_weaker :: "hx_macro_zone \<Rightarrow> hx_macro_zone \<Rightarrow> bool" where
  "zone_weaker a b \<longleftrightarrow> z_signal_sum a < z_signal_sum b"

definition zone_stronger :: "hx_macro_zone \<Rightarrow> hx_macro_zone \<Rightarrow> bool" where
  "zone_stronger a b \<longleftrightarrow> z_signal_sum a > z_signal_sum b"

definition zone_candidate :: "nat list \<Rightarrow> nat \<Rightarrow> hx_macro_zone" where
  "zone_candidate arena idx =
     \<lparr>z_arena_start = length arena, z_area = 0, z_signal_sum = 0,
      z_min_r = row_of idx, z_max_r = row_of idx, z_min_c = col_of idx, z_max_c = col_of idx\<rparr>"

type_synonym scan_state = "(nat \<Rightarrow> bool) \<times> nat list \<times> hx_macro_zone list"

definition scan_pixel :: "grid \<Rightarrow> int \<Rightarrow> scan_state \<Rightarrow> nat \<Rightarrow> scan_state" where
  "scan_pixel fr thr st idx =
     (let (visited, arena, zs) = st in
      if visited idx then st
      else if fr ! idx < thr then st
      else let (visited', arena', z) =
          zone_bfs fr thr (visited(idx := True)) [idx] (arena, zone_candidate arena idx) in
        (visited', arena', pool_insert zone_weaker HX_MAX_ZONES zs z))"

definition scan_grid :: "grid \<Rightarrow> int \<Rightarrow> scan_state" where
  "scan_grid fr thr = foldl (scan_pixel fr thr) ((\<lambda>_. False), [], []) [0..<HX_PIXELS]"

definition hx_detect_macro_zones :: "hx_algo \<Rightarrow> hx_algo" where
  "hx_detect_macro_zones algo =
     (let (visited, arena, zs) = scan_grid (frame algo) (macro_threshold (det algo)) in
      algo\<lparr>zone_arena := arena, zones := sel_sort zone_stronger zs\<rparr>)"

text \<open>The pixels of a zone: its segment of the arena.\<close>

definition zone_pixels :: "nat list \<Rightarrow> hx_macro_zone \<Rightarrow> nat list" where
  "zone_pixels arena z = take (nat (z_area z)) (drop (z_arena_start z) arena)"

section \<open>The orderings and the fill\<close>

interpretation zone_weak: strict_weak zone_weaker
  by unfold_locales (auto simp: zone_weaker_def)

interpretation zone_strong: strict_weak zone_stronger
  by unfold_locales (auto simp: zone_stronger_def)

interpretation zone_fill:
  flood_fill "\<lambda>visited j. visited j" "\<lambda>visited j. visited" "\<lambda>visited j. visited(j := True)"
    "\<lambda>j. \<not> fr ! j < thr" "zone_visit fr" "zone_bfs fr thr" for fr thr
  by unfold_locales (simp_all add: zone_expand_def)

section \<open>Components\<close>

definition above :: "grid \<Rightarrow> int \<Rightarrow> nat \<Rightarrow> bool" where
  "above fr thr i \<longleftrightarrow> i < HX_PIXELS \<and> thr \<le> fr ! i"

text \<open>Two above-threshold pixels that touch, and the component of a pixel.\<close>

definition touching :: "grid \<Rightarrow> int \<Rightarrow> (nat \<times> nat) set" where
  "touching fr thr = {(i, j). above fr thr i \<and> above fr thr j \<and> adj8 i j}"

definition component :: "grid \<Rightarrow> int \<Rightarrow> nat \<Rightarrow> nat set" where
  "component fr thr i = (touching fr thr)\<^sup>* `` {i}"

definition signal_of :: "grid \<Rightarrow> nat set \<Rightarrow> int" where
  "signal_of fr P = (\<Sum>i\<in>P. max (fr ! i) 0)"

text \<open>What a stored zone says of its pixels.\<close>

definition zone_describes :: "grid \<Rightarrow> hx_macro_zone \<Rightarrow> nat set \<Rightarrow> bool" where
  "zone_describes fr z P \<longleftrightarrow>
     z_area z = int (card P) \<and> z_signal_sum z = signal_of fr P
     \<and> z_min_r z = Min (row_of ` P) \<and> z_max_r z = Max (row_of ` P)
     \<and> z_min_c z = Min (col_of ` P) \<and> z_max_c z = Max (col_of ` P)"

lemma above_pixel: "above fr thr i \<Longrightarrow> i < HX_PIXELS"
  by (simp add: above_def)

lemma component_refl [simp]: "i \<in> component fr thr i"
  by (simp add: component_def)

lemma component_sym: "j \<in> component fr thr i \<Longrightarrow> i \<in> component fr thr j"
proof -
  have "sym (touching fr thr)" by (auto simp: sym_def touching_def adj8_sym)
  then show "j \<in> component fr thr i \<Longrightarrow> i \<in> component fr thr j"
    unfolding component_def by (auto dest: sym_rtrancl [THEN symD])
qed

lemma component_eq: "j \<in> component fr thr i \<Longrightarrow> component fr thr j = component fr thr i"
  using component_sym unfolding component_def by (fastforce intro: rtrancl_trans)

lemma component_above: "above fr thr i \<Longrightarrow> component fr thr i \<subseteq> {j. above fr thr j}"
proof clarify
  fix j
  assume "above fr thr i" and "j \<in> component fr thr i"
  then have "(i, j) \<in> (touching fr thr)\<^sup>*" by (simp add: component_def)
  then show "above fr thr j"
    by (induction rule: rtrancl_induct) (auto simp: touching_def \<open>above fr thr i\<close>)
qed

lemma finite_pixels: "finite {j. above fr thr j}"
  by (rule finite_subset [of _ "{..<HX_PIXELS}"]) (auto simp: above_def)

lemma finite_component: "above fr thr i \<Longrightarrow> finite (component fr thr i)"
  using component_above finite_pixels by (rule finite_subset)

section \<open>One fill\<close>

lemma card_pixels_le: "distinct ps \<Longrightarrow> set ps \<subseteq> {..<HX_PIXELS} \<Longrightarrow> length ps \<le> HX_PIXELS"
  using card_mono [of "{..<HX_PIXELS}" "set ps"] by (simp add: distinct_card)

lemma signal_of_bounds:
  assumes ok: "frame_ok fr" and P: "P \<subseteq> {..<HX_PIXELS}"
  shows "0 \<le> signal_of fr P" "signal_of fr P \<le> 78640800"
proof -
  have fin: "finite P" using P by (rule finite_subset) simp
  have "signal_of fr P \<le> (\<Sum>i\<in>P. 32767)"
    unfolding signal_of_def using ok P by (intro sum_mono) (auto simp: frame_ok_def)
  also have "\<dots> = int (card P) * 32767" by simp
  also have "\<dots> \<le> 2400 * 32767"
    using card_mono [OF _ P] by simp
  finally show "signal_of fr P \<le> 78640800" by simp
  show "0 \<le> signal_of fr P" unfolding signal_of_def by (rule sum_nonneg) simp
qed

lemma signal_of_insert:
  "finite P \<Longrightarrow> i \<notin> P \<Longrightarrow> signal_of fr (insert i P) = signal_of fr P + max (fr ! i) 0"
  by (simp add: signal_of_def)

lemma zone_add_fields:
  "z_arena_start (zone_add fr z i) = z_arena_start z"
  "z_area (zone_add fr z i) = u16 (z_area z + 1)"
  "z_signal_sum (zone_add fr z i) =
    (if fr ! i > 0 then s32 (z_signal_sum z + fr ! i) else z_signal_sum z)"
  "z_min_r (zone_add fr z i) = min (row_of i) (z_min_r z)"
  "z_max_r (zone_add fr z i) = max (row_of i) (z_max_r z)"
  "z_min_c (zone_add fr z i) = min (col_of i) (z_min_c z)"
  "z_max_c (zone_add fr z i) = max (col_of i) (z_max_c z)"
  by (simp_all add: zone_add_def Let_def min_def max_def)

text \<open>The zone after visiting \<open>ps\<close>: every counter is exact, so no conversion wrapped.\<close>

lemma foldl_zone_add:
  fixes fr arena s ps
  assumes ok: "frame_ok fr" and d: "distinct ps" "set ps \<subseteq> {..<HX_PIXELS}"
  defines "z \<equiv> foldl (zone_add fr) (zone_candidate arena s) ps"
  shows "z_arena_start z = length arena \<and> z_area z = int (length ps)
    \<and> z_signal_sum z = signal_of fr (set ps)
    \<and> z_min_r z = Min (row_of ` insert s (set ps)) \<and> z_max_r z = Max (row_of ` insert s (set ps))
    \<and> z_min_c z = Min (col_of ` insert s (set ps)) \<and> z_max_c z = Max (col_of ` insert s (set ps))"
  using d unfolding z_def
proof (induction ps rule: rev_induct)
  case Nil
  then show ?case by (simp add: zone_candidate_def signal_of_def)
next
  case (snoc i ps)
  let ?z = "foldl (zone_add fr) (zone_candidate arena s) ps"
  have IH: "z_arena_start ?z = length arena" "z_area ?z = int (length ps)"
    "z_signal_sum ?z = signal_of fr (set ps)"
    "z_min_r ?z = Min (row_of ` insert s (set ps))" "z_max_r ?z = Max (row_of ` insert s (set ps))"
    "z_min_c ?z = Min (col_of ` insert s (set ps))" "z_max_c ?z = Max (col_of ` insert s (set ps))"
    using snoc by auto
  have len: "length ps < HX_PIXELS" using card_pixels_le [OF snoc.prems] by simp
  then have area: "u16 (z_area ?z + 1) = int (Suc (length ps))"
    using IH(2) by (simp add: u16_id)
  have sum: "signal_of fr (set (ps @ [i])) = signal_of fr (set ps) + max (fr ! i) 0"
    using snoc.prems(1) signal_of_insert [of "set ps" i fr] by simp
  have "0 \<le> signal_of fr (set (ps @ [i]))" "signal_of fr (set (ps @ [i])) \<le> 78640800"
    using signal_of_bounds [OF ok snoc.prems(2)] by auto
  then have sig: "(if fr ! i > 0 then s32 (z_signal_sum ?z + fr ! i) else z_signal_sum ?z)
      = signal_of fr (set (ps @ [i]))"
    using IH(3) sum by (cases "fr ! i > 0") (simp_all add: s32_id)
  have ins: "insert s (set (ps @ [i])) = insert i (insert s (set ps))" by auto
  have ne: "insert s (set ps) \<noteq> {}" "finite (insert s (set ps))" by auto
  have mm: "Min (f ` insert i (insert s (set ps))) = min (f i) (Min (f ` insert s (set ps)))"
    "Max (f ` insert i (insert s (set ps))) = max (f i) (Max (f ` insert s (set ps)))"
    for f :: "nat \<Rightarrow> int"
    using ne by (simp_all add: image_insert)
  have z: "foldl (zone_add fr) (zone_candidate arena s) (ps @ [i]) = zone_add fr ?z i" by simp
  show ?case
    unfolding z ins mm zone_add_fields area sig using IH by simp
qed

lemma foldl_zone_visit:
  "length arena + length ps \<le> HX_PIXELS \<Longrightarrow>
    foldl (zone_visit fr) (arena, z) ps = (arena @ ps, foldl (zone_add fr) z ps)"
  by (induction ps arbitrary: arena z) (simp_all add: zone_visit_def)

text \<open>
  The region the fill explores is the component of the seed, because the pixels marked by
  earlier fills are closed under touching.
\<close>

lemma fill_region:
  assumes seed: "above fr thr s" "\<not> visited s"
    and closed: "\<And>p j. visited p \<Longrightarrow> (p, j) \<in> touching fr thr \<Longrightarrow> visited j"
  shows "(zone_fill.step fr thr (visited(s := True)))\<^sup>* `` {s} = component fr thr s"
proof
  let ?R = "zone_fill.step fr thr (visited(s := True))"
  have "(s, j) \<in> (touching fr thr)\<^sup>*" if "(s, j) \<in> ?R\<^sup>*" for j
    using that
  proof (induction rule: rtrancl_induct)
    case base
    then show ?case by simp
  next
    case (step y z)
    have "above fr thr y" using component_above [OF seed(1)] step.IH by (auto simp: component_def)
    then have "(y, z) \<in> touching fr thr"
      using step.hyps by (auto simp: zone_fill.step_def touching_def above_def)
    with step.IH show ?case by (rule rtrancl_into_rtrancl)
  qed
  then show "?R\<^sup>* `` {s} \<subseteq> component fr thr s" by (auto simp: component_def)
  have "(s, j) \<in> ?R\<^sup>* \<and> \<not> visited j" if "(s, j) \<in> (touching fr thr)\<^sup>*" for j
    using that
  proof (induction rule: rtrancl_induct)
    case base
    then show ?case using seed by simp
  next
    case (step y z)
    have zy: "(z, y) \<in> touching fr thr" using step.hyps by (auto simp: touching_def adj8_sym)
    then have nz: "\<not> visited z" using closed step.IH by blast
    show ?case
    proof (cases "z = s")
      case True
      then show ?thesis using seed by simp
    next
      case False
      then have "(y, z) \<in> ?R"
        using step.hyps nz by (auto simp: zone_fill.step_def touching_def above_def)
      with step.IH have "(s, z) \<in> ?R\<^sup>*" by (blast intro: rtrancl_into_rtrancl)
      with nz show ?thesis by blast
    qed
  qed
  then show "component fr thr s \<subseteq> ?R\<^sup>* `` {s}" by (auto simp: component_def)
qed

section \<open>The scan\<close>

text \<open>
  The scan invariant: the visited flags are the arena, which holds each above-threshold pixel
  at most once and is closed under touching; every stored zone is a component with its exact
  measures; a component without a stored zone lost against a full pool of stronger ones.
\<close>

definition zone_stored :: "grid \<Rightarrow> int \<Rightarrow> nat list \<Rightarrow> hx_macro_zone \<Rightarrow> bool" where
  "zone_stored fr thr arena z \<longleftrightarrow>
     z_arena_start z + nat (z_area z) \<le> length arena
     \<and> (\<exists>i\<in>set arena. set (zone_pixels arena z) = component fr thr i
          \<and> zone_describes fr z (component fr thr i))"

definition zone_covered :: "grid \<Rightarrow> int \<Rightarrow> nat list \<Rightarrow> hx_macro_zone list \<Rightarrow> nat \<Rightarrow> bool" where
  "zone_covered fr thr arena zs i \<longleftrightarrow>
     (\<exists>z\<in>set zs. i \<in> set (zone_pixels arena z))
     \<or> length zs = HX_MAX_ZONES \<and> (\<forall>z\<in>set zs. signal_of fr (component fr thr i) \<le> z_signal_sum z)"

definition scan_inv :: "grid \<Rightarrow> int \<Rightarrow> nat \<Rightarrow> scan_state \<Rightarrow> bool" where
  "scan_inv fr thr n st \<longleftrightarrow>
     (let (visited, arena, zs) = st in
      distinct arena \<and> (\<forall>j. visited j \<longleftrightarrow> j \<in> set arena) \<and> (\<forall>j\<in>set arena. above fr thr j)
      \<and> (\<forall>i<n. above fr thr i \<longrightarrow> visited i)
      \<and> (\<forall>p j. visited p \<longrightarrow> (p, j) \<in> touching fr thr \<longrightarrow> visited j)
      \<and> length zs \<le> HX_MAX_ZONES
      \<and> (\<forall>z\<in>set zs. zone_stored fr thr arena z)
      \<and> (\<forall>i\<in>set arena. zone_covered fr thr arena zs i)
      \<and> distinct (map z_arena_start zs))"

lemma zone_pixels_append:
  "z_arena_start z + nat (z_area z) \<le> length arena \<Longrightarrow>
    zone_pixels (arena @ ps) z = zone_pixels arena z"
  by (simp add: zone_pixels_def)

lemma zone_stored_append: "zone_stored fr thr arena z \<Longrightarrow> zone_stored fr thr (arena @ ps) z"
  by (auto simp: zone_stored_def zone_pixels_append)

lemma zone_stored_component:
  assumes "zone_stored fr thr arena z" "i \<in> set (zone_pixels arena z)"
  shows "set (zone_pixels arena z) = component fr thr i"
    "z_signal_sum z = signal_of fr (component fr thr i)"
  using assms component_eq [of i fr thr] by (auto simp: zone_stored_def zone_describes_def)

lemma zone_stored_start:
  assumes "zone_stored fr thr arena z"
  shows "z_arena_start z < length arena" "set (zone_pixels arena z) \<noteq> {}"
proof -
  obtain i where "set (zone_pixels arena z) = component fr thr i" using assms by (auto simp: zone_stored_def)
  then show ne: "set (zone_pixels arena z) \<noteq> {}" by (metis component_refl empty_iff)
  then show "z_arena_start z < length arena" by (auto simp: zone_pixels_def not_le [symmetric])
qed

text \<open>Stored zones that start at different places of the arena share no pixel.\<close>

lemma zone_first_pixel:
  assumes d: "distinct arena" and st: "zone_stored fr thr arena z" "zone_stored fr thr arena y"
    and sub: "set (zone_pixels arena y) \<subseteq> set (zone_pixels arena z)"
  shows "z_arena_start z \<le> z_arena_start y"
proof -
  have y: "z_arena_start y < length arena" "set (zone_pixels arena y) \<noteq> {}" using zone_stored_start [OF st(2)] by blast+
  then have "arena ! z_arena_start y \<in> set (zone_pixels arena y)"
    by (cases "nat (z_area y)") (auto simp: zone_pixels_def Cons_nth_drop_Suc [symmetric])
  then have "arena ! z_arena_start y \<in> set (zone_pixels arena z)" using sub by blast
  then obtain m where m: "m < length (zone_pixels arena z)" "zone_pixels arena z ! m = arena ! z_arena_start y"
    by (auto simp: in_set_conv_nth)
  then have "z_arena_start z + m < length arena" "arena ! (z_arena_start z + m) = arena ! z_arena_start y"
    by (auto simp: zone_pixels_def)
  then have "z_arena_start z + m = z_arena_start y" using d y(1) by (simp add: nth_eq_iff_index_eq)
  then show ?thesis by simp
qed

lemma stored_zones_disjoint:
  assumes "distinct arena" "zone_stored fr thr arena z" "zone_stored fr thr arena y" "z_arena_start z \<noteq> z_arena_start y"
  shows "set (zone_pixels arena z) \<inter> set (zone_pixels arena y) = {}"
proof (rule ccontr)
  assume "\<not> ?thesis"
  then obtain i where "i \<in> set (zone_pixels arena z)" "i \<in> set (zone_pixels arena y)" by blast
  then have "set (zone_pixels arena z) = set (zone_pixels arena y)"
    using zone_stored_component(1) [OF assms(2)] zone_stored_component(1) [OF assms(3)] by metis
  then show False
    using zone_first_pixel [OF assms(1-3)] zone_first_pixel [OF assms(1,3,2)] assms(4) by simp
qed

lemma distinct_pool_insert:
  assumes "distinct (map f xs)" "f x \<notin> f ` set xs"
  shows "distinct (map f (pool_insert weaker cap xs x))"
  using assms by (auto simp: pool_insert_def Let_def map_update intro!: distinct_list_update)

text \<open>The pool either keeps a zone or holds twenty zones that are not weaker.\<close>

lemma zone_covered_insert:
  assumes st: "\<forall>z\<in>set zs. zone_stored fr thr arena z" and len: "length zs \<le> HX_MAX_ZONES"
    and sz: "zone_stored fr thr arena z"
    and cov: "zone_covered fr thr arena zs i \<or> i \<in> set (zone_pixels arena z)"
  shows "zone_covered fr thr arena (pool_insert zone_weaker HX_MAX_ZONES zs z) i"
proof (cases "\<exists>y\<in>insert z (set zs). i \<in> set (zone_pixels arena y)")
  case True
  then obtain y where y: "y \<in> insert z (set zs)" "i \<in> set (zone_pixels arena y)" by auto
  have sig: "z_signal_sum y = signal_of fr (component fr thr i)"
    using zone_stored_component(2) [OF _ y(2)] y(1) st sz by auto
  show ?thesis
  proof (cases "y \<in> set (pool_insert zone_weaker HX_MAX_ZONES zs z)")
    case True
    with y show ?thesis by (auto simp: zone_covered_def)
  next
    case False
    note d = zone_weak.pool_dropped [OF _ len y(1) False]
    have "pool_insert zone_weaker HX_MAX_ZONES zs z \<noteq> []"
      using False y(1) len by (auto simp: pool_insert_def Let_def split: if_splits)
    then obtain v where v: "v \<in> set (pool_insert zone_weaker HX_MAX_ZONES zs z)"
      by (cases "pool_insert zone_weaker HX_MAX_ZONES zs z") auto
    have "length (pool_insert zone_weaker HX_MAX_ZONES zs z) = HX_MAX_ZONES"
      using d(2) [OF _ v] by simp
    moreover have "signal_of fr (component fr thr i) \<le> z_signal_sum u"
      if "u \<in> set (pool_insert zone_weaker HX_MAX_ZONES zs z)" for u
      using d(3) [OF _ that] sig by (simp add: zone_weaker_def)
    ultimately show ?thesis by (auto simp: zone_covered_def)
  qed
next
  case False
  with cov have full: "length zs = HX_MAX_ZONES"
    "\<forall>z\<in>set zs. signal_of fr (component fr thr i) \<le> z_signal_sum z"
    by (auto simp: zone_covered_def)
  let ?y = "\<lparr>z_arena_start = 0, z_area = 0, z_signal_sum = signal_of fr (component fr thr i),
    z_min_r = 0, z_max_r = 0, z_min_c = 0, z_max_c = 0\<rparr>"
  have "\<forall>v\<in>set zs. \<not> zone_weaker v ?y" using full by (auto simp: zone_weaker_def)
  then have "\<not> zone_weaker u ?y" if "u \<in> set (pool_insert zone_weaker HX_MAX_ZONES zs z)" for u
    using zone_weak.pool_below [OF full(1) _ _ that] by simp
  moreover have "length (pool_insert zone_weaker HX_MAX_ZONES zs z) = HX_MAX_ZONES"
    using full by (simp add: pool_insert_def Let_def)
  ultimately show ?thesis by (auto simp: zone_covered_def zone_weaker_def not_less)
qed

text \<open>One fill, from the scan invariant.\<close>

lemma fill_component:
  assumes ok: "frame_ok fr" and inv: "scan_inv fr thr n (visited, arena, zs)"
    and seed: "above fr thr s" "\<not> visited s"
  obtains v' ps z where
    "zone_bfs fr thr (visited(s := True)) [s] (arena, zone_candidate arena s) = (v', arena @ ps, z)"
    "distinct (arena @ ps)" "set ps = component fr thr s"
    "\<And>j. v' j \<longleftrightarrow> j \<in> set (arena @ ps)"
    "zone_pixels (arena @ ps) z = ps" "zone_stored fr thr (arena @ ps) z" "z_arena_start z = length arena"
proof -
  have ar: "distinct arena" "\<And>j. visited j \<longleftrightarrow> j \<in> set arena" "\<forall>j\<in>set arena. above fr thr j"
    and cl: "\<And>p j. visited p \<Longrightarrow> (p, j) \<in> touching fr thr \<Longrightarrow> visited j"
    using inv by (auto simp: scan_inv_def)
  have "\<exists>v' ps. zone_bfs fr thr (visited(s := True)) [s] (arena, zone_candidate arena s)
      = (v', foldl (zone_visit fr) (arena, zone_candidate arena s) ps)
      \<and> zone_fill.filled fr thr (visited(s := True)) [s] v' ps"
    by (rule zone_fill.run_filled) (use above_pixel [OF seed(1)] in auto)
  then obtain v' ps where run: "zone_bfs fr thr (visited(s := True)) [s] (arena, zone_candidate arena s)
      = (v', foldl (zone_visit fr) (arena, zone_candidate arena s) ps)"
    and f: "zone_fill.filled fr thr (visited(s := True)) [s] v' ps"
    by blast
  have ps: "set ps = component fr thr s"
    using zone_fill.filled_reach [OF f] fill_region [where visited = visited and thr = thr, OF seed cl] by simp
  have d: "distinct ps" "set ps \<subseteq> {..<HX_PIXELS}" using zone_fill.filledD(1,2) [OF f] by auto
  have dj: "set arena \<inter> set ps = {}"
  proof -
    have "x \<notin> set ps" if "visited x" for x
      using zone_fill.filledD(4) [OF f, of x] that seed(2) by (cases "x = s") auto
    then show ?thesis using ar(2) by blast
  qed
  have dd: "distinct (arena @ ps)" using ar(1) d(1) dj by auto
  have sub: "set (arena @ ps) \<subseteq> {..<HX_PIXELS}" using d(2) ar(3) above_pixel by fastforce
  have "length arena + length ps \<le> HX_PIXELS" using card_pixels_le [OF dd sub] by simp
  note fold = foldl_zone_visit [OF this, of fr "zone_candidate arena s"]
  define z where "z = foldl (zone_add fr) (zone_candidate arena s) ps"
  have ins: "insert s (set ps) = set ps" unfolding ps by (rule insert_absorb) simp
  have zf: "z_arena_start z = length arena" "z_area z = int (length ps)"
    "zone_describes fr z (component fr thr s)"
    using foldl_zone_add [OF ok d, of arena s, folded z_def]
    unfolding zone_describes_def ps [symmetric] ins distinct_card [OF d(1)] by blast+
  have pix: "zone_pixels (arena @ ps) z = ps" using zf by (simp add: zone_pixels_def)
  have "s \<in> set (arena @ ps)" unfolding set_append ps by simp
  moreover have "z_arena_start z + nat (z_area z) \<le> length (arena @ ps)" using zf by simp
  moreover have "set (zone_pixels (arena @ ps) z) = component fr thr s" unfolding pix by (rule ps)
  ultimately have st: "zone_stored fr thr (arena @ ps) z"
    unfolding zone_stored_def using zf(3) by blast
  have mk: "v' j \<longleftrightarrow> j \<in> set (arena @ ps)" for j
    using zone_fill.filledD(3) [OF f, of j] ar(2) ps by auto
  show ?thesis by (rule that [OF _ dd ps mk pix st zf(1)]) (unfold run fold z_def, rule refl)
qed

lemma scan_pixel_inv:
  assumes ok: "frame_ok fr" and n: "n < HX_PIXELS" and inv: "scan_inv fr thr n st"
  shows "scan_inv fr thr (Suc n) (scan_pixel fr thr st n)"
proof -
  obtain visited arena zs where st: "st = (visited, arena, zs)" by (cases st) auto
  show ?thesis
  proof (cases "visited n \<or> fr ! n < thr")
    case True
    then have "scan_pixel fr thr st n = st" by (auto simp: scan_pixel_def st)
    moreover have "above fr thr n \<Longrightarrow> visited n" using True by (auto simp: above_def)
    ultimately show ?thesis using inv by (auto simp: scan_inv_def st less_Suc_eq)
  next
    case False
    then have seed: "above fr thr n" "\<not> visited n" using n by (auto simp: above_def)
    obtain v' ps z where
      r: "zone_bfs fr thr (visited(n := True)) [n] (arena, zone_candidate arena n) = (v', arena @ ps, z)"
      and d: "distinct (arena @ ps)" and ps: "set ps = component fr thr n"
      and v': "\<And>j. v' j \<longleftrightarrow> j \<in> set (arena @ ps)"
      and pix: "zone_pixels (arena @ ps) z = ps" and sz: "zone_stored fr thr (arena @ ps) z"
      and start: "z_arena_start z = length arena"
      by (rule fill_component [OF ok inv [unfolded st] seed]) (rule that; assumption)
    let ?zs = "pool_insert zone_weaker HX_MAX_ZONES zs z"
    have step: "scan_pixel fr thr st n = (v', arena @ ps, ?zs)"
      using False r by (simp add: scan_pixel_def st)
    have old: "\<And>j. visited j \<longleftrightarrow> j \<in> set arena" "\<forall>j\<in>set arena. above fr thr j"
      "\<forall>i<n. above fr thr i \<longrightarrow> visited i" "length zs \<le> HX_MAX_ZONES"
      "\<forall>z\<in>set zs. zone_stored fr thr arena z" "\<forall>i\<in>set arena. zone_covered fr thr arena zs i"
      and cl: "\<And>p j. visited p \<Longrightarrow> (p, j) \<in> touching fr thr \<Longrightarrow> visited j"
      using inv by (auto simp: scan_inv_def st)
    have "distinct (map z_arena_start zs)" using inv by (auto simp: scan_inv_def st)
    moreover have "z_arena_start z \<notin> z_arena_start ` set zs"
      using zone_stored_start(1) old(5) start by fastforce
    ultimately have starts: "distinct (map z_arena_start ?zs)" by (rule distinct_pool_insert)
    have stz: "\<forall>z\<in>set zs. zone_stored fr thr (arena @ ps) z"
      using old(5) zone_stored_append by blast
    have covz: "zone_covered fr thr (arena @ ps) zs i \<or> i \<in> set (zone_pixels (arena @ ps) z)"
      if "i \<in> set (arena @ ps)" for i
    proof (cases "i \<in> set arena")
      case True
      then have "zone_covered fr thr arena zs i" using old(6) by blast
      then have "zone_covered fr thr (arena @ ps) zs i"
        using old(5) by (auto simp: zone_covered_def zone_stored_def zone_pixels_append)
      then show ?thesis ..
    next
      case False
      with that pix show ?thesis by auto
    qed
    have cov: "zone_covered fr thr (arena @ ps) ?zs i" if "i \<in> set (arena @ ps)" for i
      by (rule zone_covered_insert [OF stz old(4) sz covz [OF that]])
    have closed: "v' j" if "v' p" "(p, j) \<in> touching fr thr" for p j
    proof (cases "p \<in> set arena")
      case True
      then show ?thesis using cl [OF _ that(2)] old(1) v' by auto
    next
      case False
      then have "p \<in> component fr thr n" using that v' ps by auto
      then have "j \<in> component fr thr n"
        using that(2) unfolding component_def by (auto intro: rtrancl_into_rtrancl)
      then show ?thesis using v' ps by auto
    qed
    have all: "\<forall>z\<in>set ?zs. zone_stored fr thr (arena @ ps) z"
      using stz sz set_pool_insert [of zone_weaker HX_MAX_ZONES zs z] by blast
    have ab: "\<forall>j\<in>set (arena @ ps). above fr thr j"
      using old(2) ps component_above [OF seed(1)] by auto
    have upto: "\<forall>i<Suc n. above fr thr i \<longrightarrow> v' i"
      using old(1,3) v' ps by (auto simp: less_Suc_eq)
    have len: "length ?zs \<le> HX_MAX_ZONES" using length_pool_insert [OF old(4)] .
    show ?thesis
      unfolding step scan_inv_def Let_def prod.case
      using d v' ab upto closed len all cov starts by (intro conjI) blast+
  qed
qed

lemma scan_grid_inv:
  assumes ok: "frame_ok fr"
  shows "scan_inv fr thr HX_PIXELS (scan_grid fr thr)"
proof -
  have "scan_inv fr thr n (foldl (scan_pixel fr thr) ((\<lambda>_. False), [], []) [0..<n])"
    if "n \<le> HX_PIXELS" for n
    using that
  proof (induction n)
    case 0
    then show ?case by (simp add: scan_inv_def)
  next
    case (Suc n)
    then show ?case using scan_pixel_inv [OF ok] by simp
  qed
  then show ?thesis by (simp add: scan_grid_def)
qed

section \<open>Properties\<close>

lemma scan_inv_covered:
  assumes "scan_inv fr thr HX_PIXELS (visited, arena, zs)" and i: "above fr thr i"
  shows "zone_covered fr thr arena zs i"
proof -
  have "\<forall>j. visited j \<longleftrightarrow> j \<in> set arena" "\<forall>i<HX_PIXELS. above fr thr i \<longrightarrow> visited i"
    "\<forall>i\<in>set arena. zone_covered fr thr arena zs i"
    using assms(1) unfolding scan_inv_def Let_def prod.case by blast+
  then show ?thesis using i above_pixel [OF i] by blast
qed

lemma detect_macro_zones_inv:
  assumes "frame_ok (frame algo)"
  shows "\<exists>visited zs. scan_inv (frame algo) (macro_threshold (det algo)) HX_PIXELS
      (visited, zone_arena (hx_detect_macro_zones algo), zs)
    \<and> zones (hx_detect_macro_zones algo) = sel_sort zone_stronger zs"
proof -
  obtain visited arena zs
    where s: "scan_grid (frame algo) (macro_threshold (det algo)) = (visited, arena, zs)"
    by (cases "scan_grid (frame algo) (macro_threshold (det algo))") auto
  then have "scan_inv (frame algo) (macro_threshold (det algo)) HX_PIXELS (visited, arena, zs)"
    using scan_grid_inv [OF assms] by metis
  with s show ?thesis by (auto simp: hx_detect_macro_zones_def)
qed

lemma zones_ok:
  assumes "frame_ok (frame algo)"
  shows "distinct (zone_arena (hx_detect_macro_zones algo))
    \<and> set (zone_arena (hx_detect_macro_zones algo))
      = {i. above (frame algo) (macro_threshold (det algo)) i}
    \<and> (\<forall>z\<in>set (zones (hx_detect_macro_zones algo)).
      \<exists>i. above (frame algo) (macro_threshold (det algo)) i
        \<and> set (zone_pixels (zone_arena (hx_detect_macro_zones algo)) z)
          = component (frame algo) (macro_threshold (det algo)) i
        \<and> zone_describes (frame algo) z (component (frame algo) (macro_threshold (det algo)) i))"
proof -
  obtain visited zs where inv: "scan_inv (frame algo) (macro_threshold (det algo)) HX_PIXELS
      (visited, zone_arena (hx_detect_macro_zones algo), zs)"
    and zs: "zones (hx_detect_macro_zones algo) = sel_sort zone_stronger zs"
    using detect_macro_zones_inv [OF assms] by blast
  have "distinct (zone_arena (hx_detect_macro_zones algo))" using inv by (simp add: scan_inv_def)
  moreover have "set (zone_arena (hx_detect_macro_zones algo))
      = {i. above (frame algo) (macro_threshold (det algo)) i}"
    using inv above_pixel unfolding scan_inv_def by auto
  moreover have "\<forall>z\<in>set (zones (hx_detect_macro_zones algo)).
      \<exists>i. above (frame algo) (macro_threshold (det algo)) i
        \<and> set (zone_pixels (zone_arena (hx_detect_macro_zones algo)) z)
          = component (frame algo) (macro_threshold (det algo)) i
        \<and> zone_describes (frame algo) z (component (frame algo) (macro_threshold (det algo)) i)"
    using inv zs unfolding scan_inv_def zone_stored_def by fastforce
  ultimately show ?thesis by blast
qed

lemma zones_partition:
  assumes "frame_ok (frame algo)"
  shows "length (zones (hx_detect_macro_zones algo)) \<le> HX_MAX_ZONES
    \<and> sorted_wrt (\<lambda>a b. z_signal_sum b \<le> z_signal_sum a) (zones (hx_detect_macro_zones algo))
    \<and> sorted_wrt (\<lambda>a b. set (zone_pixels (zone_arena (hx_detect_macro_zones algo)) a)
        \<inter> set (zone_pixels (zone_arena (hx_detect_macro_zones algo)) b) = {}) (zones (hx_detect_macro_zones algo))
    \<and> (\<forall>i. above (frame algo) (macro_threshold (det algo)) i \<longrightarrow>
      (\<exists>z\<in>set (zones (hx_detect_macro_zones algo)).
          i \<in> set (zone_pixels (zone_arena (hx_detect_macro_zones algo)) z))
      \<or> length (zones (hx_detect_macro_zones algo)) = HX_MAX_ZONES
        \<and> (\<forall>z\<in>set (zones (hx_detect_macro_zones algo)).
          signal_of (frame algo) (component (frame algo) (macro_threshold (det algo)) i)
            \<le> z_signal_sum z))"
proof -
  let ?arena = "zone_arena (hx_detect_macro_zones algo)"
  obtain visited zs where inv: "scan_inv (frame algo) (macro_threshold (det algo)) HX_PIXELS (visited, ?arena, zs)"
    and zs: "zones (hx_detect_macro_zones algo) = sel_sort zone_stronger zs"
    using detect_macro_zones_inv [OF assms] by blast
  have cov: "zone_covered (frame algo) (macro_threshold (det algo)) ?arena zs i"
    if "above (frame algo) (macro_threshold (det algo)) i" for i
    by (rule scan_inv_covered [OF inv that])
  have "length (zones (hx_detect_macro_zones algo)) \<le> HX_MAX_ZONES"
    using inv zs by (simp add: scan_inv_def)
  moreover have "sorted_wrt (\<lambda>a b. z_signal_sum b \<le> z_signal_sum a) (zones (hx_detect_macro_zones algo))"
    using zone_strong.sel_sort_sorted [of zs] zs by (simp add: zone_stronger_def not_less)
  moreover have "sorted_wrt (\<lambda>a b. set (zone_pixels ?arena a) \<inter> set (zone_pixels ?arena b) = {}) (sel_sort zone_stronger zs)"
    unfolding sorted_wrt_iff_nth_less
  proof (intro allI impI)
    fix i j assume ij: "i < j" "j < length (sel_sort zone_stronger zs)"
    have "distinct arena \<and> (\<forall>z\<in>set zs. zone_stored (frame algo) (macro_threshold (det algo)) arena z) \<and> distinct (map z_arena_start zs)"
      if "arena = ?arena" for arena using inv that unfolding scan_inv_def by simp
    then have "distinct ?arena" "\<forall>z\<in>set (sel_sort zone_stronger zs). zone_stored (frame algo) (macro_threshold (det algo)) ?arena z"
      "distinct (map z_arena_start (sel_sort zone_stronger zs))"
      using mset_eq_imp_distinct_iff [OF mset_map_sel_sort, of z_arena_start zone_stronger zs] by simp_all
    moreover have "z_arena_start (sel_sort zone_stronger zs ! i) \<noteq> z_arena_start (sel_sort zone_stronger zs ! j)"
      using \<open>distinct (map z_arena_start (sel_sort zone_stronger zs))\<close> ij by (auto simp: distinct_conv_nth)
    ultimately show "set (zone_pixels ?arena (sel_sort zone_stronger zs ! i)) \<inter> set (zone_pixels ?arena (sel_sort zone_stronger zs ! j)) = {}"
      using ij by (intro stored_zones_disjoint [where fr = "frame algo" and thr = "macro_threshold (det algo)"])
        (simp_all del: set_sel_sort)
  qed
  moreover note cov [unfolded zone_covered_def]
  ultimately show ?thesis unfolding zs set_sel_sort length_sel_sort by blast
qed

text \<open>C38: zone detection on any 16-bit frame reports the twenty strongest 8-connected components of the pixels
  at or above the macro threshold, or all when there are no more.  The arena lists every such pixel
  exactly once (so it never overflows); every reported zone is one complete component, with exact pixel
  count, exact positive signal sum (no wrap-around of the 16- and 32-bit counters) and the exact bounding
  box; the zones are sorted by signal, strongest first, and no pixel is in two of them; and a pixel above
  the threshold is in a reported zone, or twenty are reported and the signal of its component exceeds
  that of none of them.\<close>

theorem zones_are_components:
  assumes "frame_ok (frame algo)"
  shows "let arena = zone_arena (hx_detect_macro_zones algo); zs = zones (hx_detect_macro_zones algo);
      thr = macro_threshold (det algo) in
    distinct arena \<and> set arena = {i. above (frame algo) thr i}
    \<and> (\<forall>z\<in>set zs. \<exists>i. above (frame algo) thr i \<and> set (zone_pixels arena z) = component (frame algo) thr i
        \<and> zone_describes (frame algo) z (component (frame algo) thr i))
    \<and> length zs \<le> 20 \<and> sorted_wrt (\<lambda>a b. z_signal_sum b \<le> z_signal_sum a) zs
    \<and> sorted_wrt (\<lambda>a b. set (zone_pixels arena a) \<inter> set (zone_pixels arena b) = {}) zs
    \<and> (\<forall>i. above (frame algo) thr i \<longrightarrow> (\<exists>z\<in>set zs. i \<in> set (zone_pixels arena z))
        \<or> length zs = 20 \<and> (\<forall>z\<in>set zs. signal_of (frame algo) (component (frame algo) thr i) \<le> z_signal_sum z))"
  unfolding Let_def using zones_ok [OF assms] zones_partition [OF assms] by simp

text \<open>A frame with one pixel above the threshold.\<close>

definition one_touch :: hx_algo where
  "one_touch = new_algo\<lparr>frame := zero_grid[125 := 500]\<rparr>"

lemma one_touch_frame: "frame_ok (frame one_touch)"
  by (auto simp: one_touch_def frame_ok_def nth_list_update)

lemma above_one_touch: "above (frame one_touch) (macro_threshold (det one_touch)) i \<longleftrightarrow> i = 125"
  by (auto simp: one_touch_def new_algo_def hx_algo_full_reset_def hx_algo_init_defaults_def
      above_def nth_list_update default_det_def)

text \<open>Its pixel is the one pixel of a reported zone, since twenty components do not fit in one pixel.\<close>

theorem zones_are_components_witness:
  "\<exists>z\<in>set (zones (hx_detect_macro_zones one_touch)).
    set (zone_pixels (zone_arena (hx_detect_macro_zones one_touch)) z) = {125} \<and> z_area z = 1"
proof -
  let ?arena = "zone_arena (hx_detect_macro_zones one_touch)" and ?zs = "zones (hx_detect_macro_zones one_touch)"
  note Z = zones_are_components [OF one_touch_frame, unfolded Let_def above_one_touch]
  have comp: "component (frame one_touch) (macro_threshold (det one_touch)) 125 = {125}"
    using component_above [of "frame one_touch" "macro_threshold (det one_touch)" 125]
      component_refl [of 125 "frame one_touch" "macro_threshold (det one_touch)"]
    unfolding above_one_touch by blast
  have each: "\<forall>z\<in>set ?zs. set (zone_pixels ?arena z) = {125} \<and> z_area z = 1"
  proof
    fix z assume "z \<in> set ?zs"
    then have "set (zone_pixels ?arena z) = {125} \<and> zone_describes (frame one_touch) z {125}"
      using Z by (simp add: comp)
    then show "set (zone_pixels ?arena z) = {125} \<and> z_area z = 1" by (simp add: zone_describes_def)
  qed
  have "?zs \<noteq> []" using Z by auto
  then show ?thesis using each by (cases ?zs) auto
qed

end
