(* ===== verification/Hx_Palm.thy ===== *)
theory Hx_Palm
  imports Hx_Zones
begin

text \<open>
  Palm rejection (\<open>hx-algo-detect.c\<close>): each zone collects evidence (footprint, integrated signal,
  density, shape) and is dropped when it is large and the evidence is strong; a dropped zone
  leaves a palm box that suppresses peaks in its domain while the domain carries signal.
\<close>

section \<open>Palm boxes\<close>

definition hx_box_has_domain :: "hx_algo \<Rightarrow> hx_palm_box \<Rightarrow> bool" where
  "hx_box_has_domain algo box \<longleftrightarrow>
     (\<exists>r\<in>set [box_min_r box..box_max_r box]. \<exists>c\<in>set [box_min_c box..box_max_c box].
        hx_frame_at (frame algo) r c \<ge> macro_threshold (det algo))"

definition age_box :: "hx_algo \<Rightarrow> hx_palm_box \<Rightarrow> hx_palm_box" where
  "age_box algo box = box\<lparr>box_missed :=
     (if hx_box_has_domain algo box then 0 else u16 (box_missed box + 1))\<rparr>"

definition hx_age_palm_boxes :: "hx_algo \<Rightarrow> hx_algo" where
  "hx_age_palm_boxes algo = algo\<lparr>palm_boxes :=
     filter (\<lambda>box. \<not> (box_missed box \<noteq> 0
         \<and> (palm_box_max_hold (det algo) = 0 \<or> box_missed box > palm_box_max_hold (det algo))))
       (map (age_box algo) (palm_boxes algo))\<rparr>"

definition candidate_box :: "hx_det_params \<Rightarrow> hx_macro_zone \<Rightarrow> hx_palm_box" where
  "candidate_box p z = \<lparr>
     box_min_r = max 0 (z_min_r z - palm_box_expand_rows p),
     box_max_r = min (int HX_ROWS - 1) (z_max_r z + palm_box_expand_rows p),
     box_min_c = max 0 (z_min_c z - palm_box_expand_cols p),
     box_max_c = min (int HX_COLS - 1) (z_max_c z + palm_box_expand_cols p),
     box_missed = 0\<rparr>"

definition box_center :: "hx_palm_box \<Rightarrow> int \<times> int" where
  "box_center b = ((box_min_r b + box_max_r b) sdiv 2, (box_min_c b + box_max_c b) sdiv 2)"

definition box_matches :: "hx_det_params \<Rightarrow> hx_palm_box \<Rightarrow> hx_palm_box \<Rightarrow> bool" where
  "box_matches p new old \<longleftrightarrow>
     \<bar>fst (box_center new) - fst (box_center old)\<bar> \<le> palm_box_match_distance p
     \<and> \<bar>snd (box_center new) - snd (box_center old)\<bar> \<le> palm_box_match_distance p"

text \<open>The first matching box is replaced; without one the candidate is appended if there is room.\<close>

fun replace_first :: "('a \<Rightarrow> bool) \<Rightarrow> 'a \<Rightarrow> 'a list \<Rightarrow> 'a list option" where
  "replace_first P y [] = None"
| "replace_first P y (x # xs) =
     (if P x then Some (y # xs) else map_option ((#) x) (replace_first P y xs))"

definition hx_update_palm_box :: "hx_algo \<Rightarrow> hx_macro_zone \<Rightarrow> hx_algo" where
  "hx_update_palm_box algo z =
     (if \<not> palm_box_enabled (det algo) then algo
      else let candidate = candidate_box (det algo) z in
        case replace_first (box_matches (det algo) candidate) candidate (palm_boxes algo) of
          Some boxes \<Rightarrow> algo\<lparr>palm_boxes := boxes\<rparr>
        | None \<Rightarrow> if length (palm_boxes algo) < HX_MAX_PALM_BOXES
            then algo\<lparr>palm_boxes := palm_boxes algo @ [candidate]\<rparr> else algo)"

section \<open>The evidence\<close>

definition zone_max_signal :: "hx_algo \<Rightarrow> hx_macro_zone \<Rightarrow> int" where
  "zone_max_signal algo z =
     foldl (\<lambda>m idx. max m (hx_frame_at (frame algo) (row_of idx) (col_of idx))) 0
       (zone_pixels (zone_arena algo) z)"

definition palm_score :: "hx_algo \<Rightarrow> hx_macro_zone \<Rightarrow> int" where
  "palm_score algo z =
     (let p = det algo;
          bbox_w = u16 (z_max_c z - z_min_c z + 1); bbox_h = u16 (z_max_r z - z_min_r z + 1);
          max_side = max bbox_w bbox_h; min_side = min bbox_w bbox_h;
          max_signal = zone_max_signal algo z;
          mean_signal = (if z_area z \<noteq> 0 then z_signal_sum z sdiv z_area z else 0);
          strong_finger_shape =
            (max_signal \<ge> mean_signal + 100 \<and> max_signal * 100 \<ge> s32 (mean_signal * 335)) in
      (if z_area z \<ge> palm_area_threshold p then 35 else 0)
      + (if z_signal_sum z \<ge> palm_signal_threshold p then 25 else 0)
      + (if z_area z \<ge> 20 \<and> z_signal_sum z < s32 (palm_density_low p * z_area z) then 15 else 0)
      + (if z_area z \<ge> 10 \<and> min_side > 0 \<and> max_side * 256 \<ge> 1024 * min_side then 15 else 0)
      + (if z_area z \<ge> 35 \<and> u32 (z_area z * 100) \<ge> u32 (bbox_w * bbox_h * 40) then 15 else 0)
      - (if strong_finger_shape then 20 else 0))"

definition palm_rejected :: "hx_algo \<Rightarrow> hx_macro_zone \<Rightarrow> bool" where
  "palm_rejected algo z \<longleftrightarrow> z_area z \<ge> 55 \<and> palm_score algo z \<ge> 55"

definition hx_reject_palms :: "hx_algo \<Rightarrow> hx_algo" where
  "hx_reject_palms algo0 =
     (let algo = hx_age_palm_boxes algo0 in
      if \<not> palm_enabled (det algo) then algo
      else foldl (\<lambda>al z. if palm_rejected algo z then hx_update_palm_box al z
            else al\<lparr>zones := zones al @ [z]\<rparr>)
          (algo\<lparr>zones := []\<rparr>) (zones algo))"

section \<open>Facts\<close>

definition box_in_grid :: "hx_palm_box \<Rightarrow> bool" where
  "box_in_grid b \<longleftrightarrow> 0 \<le> box_min_r b \<and> box_min_r b \<le> box_max_r b \<and> box_max_r b < 40
     \<and> 0 \<le> box_min_c b \<and> box_min_c b \<le> box_max_c b \<and> box_max_c b < 60"

definition zone_in_grid :: "hx_macro_zone \<Rightarrow> bool" where
  "zone_in_grid z \<longleftrightarrow> 0 \<le> z_min_r z \<and> z_min_r z \<le> z_max_r z \<and> z_max_r z < 40
     \<and> 0 \<le> z_min_c z \<and> z_min_c z \<le> z_max_c z \<and> z_max_c z < 60"

lemma replace_first_set: "replace_first P y xs = Some ys \<Longrightarrow> set ys \<subseteq> insert y (set xs) \<and> length ys = length xs \<and> y \<in> set ys"
  by (induction xs arbitrary: ys) (auto split: if_splits)

lemma candidate_in_grid:
  "zone_in_grid z \<Longrightarrow> 0 \<le> palm_box_expand_rows p \<Longrightarrow> 0 \<le> palm_box_expand_cols p \<Longrightarrow>
    box_in_grid (candidate_box p z)"
  by (auto simp: zone_in_grid_def box_in_grid_def candidate_box_def)

lemma update_box_keeps [simp]:
  "zones (hx_update_palm_box a z) = zones a" "det (hx_update_palm_box a z) = det a"
  "frame (hx_update_palm_box a z) = frame a" "zone_arena (hx_update_palm_box a z) = zone_arena a"
  by (auto simp: hx_update_palm_box_def Let_def split: option.splits)

lemma update_box_boxes:
  assumes "zone_in_grid z" "0 \<le> palm_box_expand_rows (det a)" "0 \<le> palm_box_expand_cols (det a)"
    "\<forall>b\<in>set (palm_boxes a). box_in_grid b" "length (palm_boxes a) \<le> HX_MAX_PALM_BOXES"
  shows "(\<forall>b\<in>set (palm_boxes (hx_update_palm_box a z)). box_in_grid b)
    \<and> length (palm_boxes (hx_update_palm_box a z)) \<le> HX_MAX_PALM_BOXES"
proof (cases "replace_first (box_matches (det a) (candidate_box (det a) z)) (candidate_box (det a) z) (palm_boxes a)")
  case None
  then show ?thesis
    using assms candidate_in_grid [OF assms(1-3)] by (auto simp: hx_update_palm_box_def)
next
  case (Some boxes)
  from replace_first_set [OF this] Some show ?thesis
    using assms candidate_in_grid [OF assms(1-3)] by (auto simp: hx_update_palm_box_def)
qed

lemma age_keeps [simp]:
  "zones (hx_age_palm_boxes a) = zones a" "det (hx_age_palm_boxes a) = det a"
  "frame (hx_age_palm_boxes a) = frame a" "zone_arena (hx_age_palm_boxes a) = zone_arena a"
  by (simp_all add: hx_age_palm_boxes_def)

lemma palm_score_frame:
  "frame a = frame b \<Longrightarrow> zone_arena a = zone_arena b \<Longrightarrow> det a = det b \<Longrightarrow> palm_score a z = palm_score b z"
  by (simp add: palm_score_def zone_max_signal_def)

lemma reject_fold:
  fixes al P zs
  defines "step \<equiv> \<lambda>al z. if P z then hx_update_palm_box al z else al\<lparr>zones := zones al @ [z]\<rparr>"
  assumes "\<forall>z\<in>set zs. zone_in_grid z" "0 \<le> palm_box_expand_rows (det al)"
    "0 \<le> palm_box_expand_cols (det al)" "\<forall>b\<in>set (palm_boxes al). box_in_grid b"
    "length (palm_boxes al) \<le> HX_MAX_PALM_BOXES"
  shows "zones (foldl step al zs) = zones al @ filter (\<lambda>z. \<not> P z) zs
    \<and> (\<forall>b\<in>set (palm_boxes (foldl step al zs)). box_in_grid b)
    \<and> length (palm_boxes (foldl step al zs)) \<le> HX_MAX_PALM_BOXES
    \<and> frame (foldl step al zs) = frame al \<and> zone_arena (foldl step al zs) = zone_arena al
    \<and> det (foldl step al zs) = det al"
  using assms(2-) unfolding step_def
proof (induction zs arbitrary: al)
  case Nil
  then show ?case by simp
next
  case (Cons z zs)
  let ?al = "if P z then hx_update_palm_box al z else al\<lparr>zones := zones al @ [z]\<rparr>"
  have "zones (foldl step ?al zs) = zones ?al @ filter (\<lambda>z. \<not> P z) zs
    \<and> (\<forall>b\<in>set (palm_boxes (foldl step ?al zs)). box_in_grid b)
    \<and> length (palm_boxes (foldl step ?al zs)) \<le> HX_MAX_PALM_BOXES
    \<and> frame (foldl step ?al zs) = frame ?al \<and> zone_arena (foldl step ?al zs) = zone_arena ?al
    \<and> det (foldl step ?al zs) = det ?al"
    unfolding step_def by (rule Cons.IH) (use Cons.prems update_box_boxes in auto)
  then show ?case unfolding step_def by (cases "P z") simp_all
qed

lemma palm_needs_size:
  "palm_rejected algo z \<Longrightarrow>
    palm_area_threshold (det algo) \<le> z_area z \<or> palm_signal_threshold (det algo) \<le> z_signal_sum z"
  by (auto simp: palm_rejected_def palm_score_def Let_def split: if_splits)

section \<open>Properties\<close>

text \<open>Palm rejection keeps the order of the zones and drops exactly the large zones with
  enough evidence: a zone below 55 pixels always survives, and no zone is dropped unless its
  footprint or its integrated signal is at palm level.  Every palm box lies on the grid and
  there are at most eight.\<close>

theorem reject_palms_spares_fingers:
  assumes "\<forall>z\<in>set (zones algo). zone_in_grid z" "\<forall>b\<in>set (palm_boxes algo). box_in_grid b"
    and "length (palm_boxes algo) \<le> HX_MAX_PALM_BOXES" "palm_enabled (det algo)"
    and "0 \<le> palm_box_expand_rows (det algo)" "0 \<le> palm_box_expand_cols (det algo)"
  shows "zones (hx_reject_palms algo) = filter (\<lambda>z. \<not> palm_rejected algo z) (zones algo)
    \<and> (\<forall>z\<in>set (zones algo). z_area z < 55
          \<or> z_area z < palm_area_threshold (det algo) \<and> z_signal_sum z < palm_signal_threshold (det algo)
        \<longrightarrow> z \<in> set (zones (hx_reject_palms algo)))
    \<and> (\<forall>b\<in>set (palm_boxes (hx_reject_palms algo)). box_in_grid b)
    \<and> length (palm_boxes (hx_reject_palms algo)) \<le> HX_MAX_PALM_BOXES"
proof -
  let ?a = "(hx_age_palm_boxes algo)\<lparr>zones := []\<rparr>"
  have P: "palm_rejected (hx_age_palm_boxes algo) = palm_rejected algo"
    using palm_score_frame [of "hx_age_palm_boxes algo" algo] by (auto simp: palm_rejected_def fun_eq_iff)
  have len: "length (filter P (map (age_box algo) bs)) \<le> length bs" for P bs
    using length_filter_le [of P "map (age_box algo) bs"] by simp
  have aged: "\<forall>b\<in>set (palm_boxes ?a). box_in_grid b" "length (palm_boxes ?a) \<le> HX_MAX_PALM_BOXES"
    using assms(2) order_trans [OF len assms(3)]
    by (auto simp: hx_age_palm_boxes_def age_box_def box_in_grid_def simp del: filter_map)
  have d: "det ?a = det algo" by simp
  note f = reject_fold [OF assms(1), of ?a "palm_rejected algo", unfolded d, OF assms(5,6) aged]
  show ?thesis
    using f assms(4) palm_needs_size [of algo]
    by (fastforce simp: hx_reject_palms_def Let_def P palm_rejected_def)
qed

definition small_zone :: hx_macro_zone where
  "small_zone = \<lparr>z_arena_start = 0, z_area = 9, z_signal_sum = 9000,
     z_min_r = 10, z_max_r = 12, z_min_c = 20, z_max_c = 22\<rparr>"

theorem reject_palms_spares_fingers_witness:
  "small_zone \<in> set (zones (hx_reject_palms (new_algo\<lparr>zones := [small_zone]\<rparr>)))"
proof -
  let ?a = "new_algo\<lparr>zones := [small_zone]\<rparr>"
  have z: "\<forall>z\<in>set (zones ?a). zone_in_grid z" "\<forall>b\<in>set (palm_boxes ?a). box_in_grid b"
    "length (palm_boxes ?a) \<le> HX_MAX_PALM_BOXES" "palm_enabled (det ?a)"
    "0 \<le> palm_box_expand_rows (det ?a)" "0 \<le> palm_box_expand_cols (det ?a)"
    by (simp_all add: zone_in_grid_def small_zone_def new_algo_def hx_algo_full_reset_def
        hx_algo_init_defaults_def hx_algo_clear_transient_state_def default_det_def)
  have "small_zone \<in> set (zones ?a)" "z_area small_zone < 55" by (simp_all add: small_zone_def)
  then show ?thesis using reject_palms_spares_fingers [OF z] by blast
qed

end
