(* ===== verification/Hx_Peaks.thy ===== *)
theory Hx_Peaks
  imports Hx_Palm Hx_Motion
begin

text \<open>
  Peak detection (\<open>hx-algo-detect.c\<close>): local maxima of the surviving zones, the saddle, isolation,
  footprint, palm-domain and edge filters, the ascending sort, and the assignment of persistent
  peak identities by predicted position.
\<close>

section \<open>Local maxima\<close>

definition after_in_scan :: "int \<times> int \<Rightarrow> bool" where
  "after_in_scan d \<longleftrightarrow> fst d > 0 \<or> fst d = 0 \<and> snd d > 0"

definition hx_is_asymmetric_peak :: "hx_algo \<Rightarrow> int \<Rightarrow> int \<Rightarrow> bool" where
  "hx_is_asymmetric_peak algo r c =
     (let v = at_rc (frame algo) r c; radius = max 1 (peak_local_radius (det algo)) in
      \<forall>dr\<in>set [- radius..radius]. \<forall>dc\<in>set [- radius..radius].
        (dr = 0 \<and> dc = 0) \<or> \<not> on_grid (r + dr) (c + dc)
        \<or> (let nv = at_rc (frame algo) (r + dr) (c + dc) in
           if after_in_scan (dr, dc) then \<not> nv > v else \<not> nv \<ge> v))"

definition hx_detect_pressure_drift :: "hx_algo \<Rightarrow> int \<Rightarrow> int \<Rightarrow> bool" where
  "hx_detect_pressure_drift algo r c =
     (let limit = peak_signal_threshold_limit (det algo); fr = frame algo;
          peak_sig = at_rc fr r c;
          limit3_4 = s16 (shr (limit * 3) 2); limit3_8 = s16 (shr (limit * 3) 3);
          grad = (\<lambda>col. \<bar>hx_frame_at fr r (col + 1) - hx_frame_at fr r (col - 1)\<bar>);
          cols = [1..int HX_COLS - 2] in
      if peak_sig > limit3_4 \<or> peak_sig < limit3_8 then False
      else if \<exists>col\<in>set cols. grad col > limit sdiv 3 then False
      else
        let grad_sum = sum_list (map grad cols);
            row_sum = sum_list (map (\<lambda>col. if at_rc fr r col > 0 then at_rc fr r col else 0) cols) in
        row_sum \<ge> (peak_sig * 9) sdiv 2 \<and> peak_sig * 6 \<ge> grad_sum)"

definition peak_weaker :: "hx_peak \<Rightarrow> hx_peak \<Rightarrow> bool" where
  "peak_weaker a b \<longleftrightarrow> pk_z a < pk_z b"

definition hx_insert_peak :: "hx_peak list \<Rightarrow> hx_peak \<Rightarrow> hx_peak list" where
  "hx_insert_peak ps p = pool_insert peak_weaker HX_MAX_PEAKS ps p"

definition peak_at :: "hx_algo \<Rightarrow> nat \<Rightarrow> hx_macro_zone \<Rightarrow> nat \<Rightarrow> hx_peak" where
  "peak_at algo zi zone idx =
     (let r = row_of idx; c = col_of idx in
      \<lparr>pk_r = r, pk_c = c, pk_z = at_rc (frame algo) r c,
       pk_nbr_sum = s32 (sum_list (map (\<lambda>(dr, dc). hx_frame_at (frame algo) (r + dr) (c + dc)) nbr_offsets)),
       pk_zone_area = z_area zone, pk_zone_index = zi, pk_id = 0, pk_age = 0, pk_vr = 0, pk_vc = 0,
       pk_on_edge = (r = 0 \<or> r = int HX_ROWS - 1 \<or> c = 0 \<or> c = int HX_COLS - 1),
       pk_fast_start_candidate = False, pk_continuation_only = False,
       pk_continuation_track_slot = - 1\<rparr>)"

definition is_peak :: "hx_algo \<Rightarrow> nat \<Rightarrow> bool" where
  "is_peak algo idx =
     (let r = row_of idx; c = col_of idx; v = at_rc (frame algo) r c;
          edge_threshold_cell = (c = 1 \<or> c = int HX_COLS - 2 \<or> r = int HX_ROWS - 1) in
      \<not> v < (if edge_threshold_cell then peak_edge_threshold (det algo) else peak_threshold (det algo))
      \<and> hx_is_asymmetric_peak algo r c \<and> \<not> hx_detect_pressure_drift algo r c)"

definition scan_zone :: "hx_algo \<Rightarrow> hx_peak list \<Rightarrow> nat \<Rightarrow> hx_peak list" where
  "scan_zone algo ps zi =
     (let zone = zones algo ! zi in
      foldl (\<lambda>ps idx. if is_peak algo idx then hx_insert_peak ps (peak_at algo zi zone idx) else ps)
        ps (zone_pixels (zone_arena algo) zone))"

definition scan_peaks :: "hx_algo \<Rightarrow> hx_peak list" where
  "scan_peaks algo = foldl (scan_zone algo) [] [0..<length (zones algo)]"

section \<open>The saddle gate\<close>

text \<open>Rounded division of a possibly negative numerator.\<close>

definition round_div :: "int \<Rightarrow> int \<Rightarrow> int" where
  "round_div num steps =
     (if num \<ge> 0 then (num + steps sdiv 2) sdiv steps else (num - steps sdiv 2) sdiv steps)"

definition saddle_between :: "grid \<Rightarrow> hx_peak \<Rightarrow> hx_peak \<Rightarrow> int" where
  "saddle_between fr a b =
     (let dr = pk_r b - pk_r a; dc = pk_c b - pk_c a; steps = max \<bar>dr\<bar> \<bar>dc\<bar> in
      foldl (\<lambda>saddle s. max saddle
          (hx_frame_at fr (pk_r a + round_div (dr * s) steps) (pk_c a + round_div (dc * s) steps)))
        0 [1..steps - 1])"

definition saddle_merges :: "hx_algo \<Rightarrow> hx_peak \<Rightarrow> hx_peak \<Rightarrow> bool" where
  "saddle_merges algo a b =
     (let steps = max \<bar>pk_r b - pk_r a\<bar> \<bar>pk_c b - pk_c a\<bar>;
          weaker = min (pk_z a) (pk_z b);
          required_drop = max (peak_saddle_drop (det algo)) ((weaker * 8) sdiv 100) in
      pk_zone_index a = pk_zone_index b \<and> \<not> (steps = 0 \<or> steps > peak_saddle_radius (det algo))
      \<and> weaker - saddle_between (frame algo) a b < required_drop)"

definition saddle_step :: "hx_algo \<Rightarrow> hx_peak list \<Rightarrow> nat \<times> nat \<Rightarrow> hx_peak list" where
  "saddle_step algo ps ij =
     (let (i, j) = ij; a = ps ! i; b = ps ! j in
      if saddle_merges algo a b
      then (if pk_z a \<le> pk_z b then ps[i := a\<lparr>pk_z := - 1\<rparr>] else ps[j := b\<lparr>pk_z := - 1\<rparr>])
      else ps)"

definition saddle_filter :: "hx_algo \<Rightarrow> hx_peak list \<Rightarrow> hx_peak list" where
  "saddle_filter algo ps =
     (if \<not> peak_saddle_enabled (det algo) then ps
      else filter (\<lambda>p. pk_z p \<ge> 0)
        (foldl (saddle_step algo) ps
          (concat (map (\<lambda>i. map (Pair i) [Suc i..<length ps]) [0..<length ps]))))"

section \<open>Isolation, footprint, palm domain and edge filters\<close>

definition z8_filter :: "hx_algo \<Rightarrow> hx_peak list \<Rightarrow> hx_peak list" where
  "z8_filter algo ps =
     filter (\<lambda>p. \<not> peak_z8_enabled (det algo) \<or> shr (pk_z p) 5 \<le> pk_nbr_sum p) ps"

definition reported_tracks :: "hx_algo \<Rightarrow> int" where
  "reported_tracks algo = int (length (filter (\<lambda>t. trk_active t \<and> trk_reported t) (tracks algo)))"

definition approx_pos :: "hx_peak \<Rightarrow> input_mt_pos" where
  "approx_pos pk = \<lparr>pos_x = (pk_c pk * 256 + 128) sdiv 6, pos_y = (5 * (pk_r pk * 256 + 128)) sdiv 32\<rparr>"

text \<open>The slots whose reported track a small peak may continue, in slot order.\<close>

definition continuation_slots :: "hx_algo \<Rightarrow> hx_peak \<Rightarrow> nat list" where
  "continuation_slots algo pk =
     filter (\<lambda>ti. let t = tracks algo ! ti in trk_active t \<and> trk_reported t
         \<and> hx_dist2_predicted (approx_pos pk) t \<le> max (peak_continue_dist2 (det algo)) 1)
       [0..<length (tracks algo)]"

definition footprint_gate :: "hx_algo \<Rightarrow> nat \<Rightarrow> hx_peak \<Rightarrow> hx_peak option" where
  "footprint_gate algo n pk0 =
     (let p = det algo; cells = peak_fast_start_edge_cells p;
          near_edge = (pk_r pk0 < cells \<or> pk_r pk0 \<ge> int HX_ROWS - cells
            \<or> pk_c pk0 < cells \<or> pk_c pk0 \<ge> int HX_COLS - cells);
          fast_start = (fast_edge_start_pending algo \<and> length (zones algo) = 1 \<and> n = 1
            \<and> pk_zone_area pk0 \<ge> peak_continue_min_area p \<and> pk_zone_area pk0 < peak_macro_min_area p
            \<and> near_edge \<and> pk_z pk0 \<ge> peak_fast_start_min_signal p);
          weak_single_track = (reported_tracks algo = 1 \<and> length (zones algo) = 1
            \<and> firmware_finger_present algo \<and> pk_z pk0 \<ge> peak_single_track_continue_min_signal p);
          small = (pk_zone_area pk0 < peak_macro_min_area p \<and> \<not> pk_on_edge pk0
            \<and> pk_zone_area pk0 \<ge> peak_continue_min_area p
            \<and> (pk_z pk0 \<ge> peak_continue_min_signal p \<or> weak_single_track));
          slots = (if small then continuation_slots algo pk0 else []);
          continuation = (length slots = 1) in
      if pk_zone_area pk0 \<ge> peak_macro_min_area p \<or> pk_on_edge pk0 \<or> fast_start \<or> continuation
      then Some (pk0\<lparr>pk_fast_start_candidate := fast_start, pk_continuation_only := continuation,
        pk_continuation_track_slot := (if continuation then int (last slots) else - 1)\<rparr>)
      else None)"

definition footprint_filter :: "hx_algo \<Rightarrow> hx_peak list \<Rightarrow> hx_peak list" where
  "footprint_filter algo ps = List.map_filter (footprint_gate algo (length ps)) ps"

definition in_box :: "hx_peak \<Rightarrow> hx_palm_box \<Rightarrow> bool" where
  "in_box p b \<longleftrightarrow> pk_r p \<ge> box_min_r b \<and> pk_r p \<le> box_max_r b
     \<and> pk_c p \<ge> box_min_c b \<and> pk_c p \<le> box_max_c b"

definition palm_domain_filter :: "hx_algo \<Rightarrow> hx_peak list \<Rightarrow> hx_peak list" where
  "palm_domain_filter algo ps =
     (if palm_box_enabled (det algo) \<and> palm_boxes algo \<noteq> []
      then filter (\<lambda>p. \<not> (\<exists>b\<in>set (palm_boxes algo). in_box p b)) ps else ps)"

definition edge_filter :: "hx_peak list \<Rightarrow> int \<Rightarrow> hx_peak list" where
  "edge_filter ps col =
     (let max_sig = foldl (\<lambda>m p. if pk_c p = col \<and> pk_z p > m then pk_z p else m) 0 ps;
          cutoff = s16 (shr max_sig 3 * 5) in
      if max_sig = 0 then ps else filter (\<lambda>p. \<not> (pk_c p = col \<and> pk_z p < cutoff)) ps)"

definition candidate_peaks :: "hx_algo \<Rightarrow> hx_peak list" where
  "candidate_peaks algo =
     (let ps = scan_peaks algo; ps = saddle_filter algo ps; ps = z8_filter algo ps;
          ps = footprint_filter algo ps; ps = palm_domain_filter algo ps;
          ps = edge_filter (edge_filter ps 0) (int HX_COLS - 1) in
      sel_sort peak_weaker ps)"

section \<open>Peak identities\<close>

text \<open>The next identity that no current peak has; identities run through 1 .. 255.\<close>

fun alloc_id :: "nat \<Rightarrow> int list \<Rightarrow> int \<Rightarrow> int \<times> int" where
  "alloc_id 0 used next = (1, next)"
| "alloc_id (Suc attempts) used next =
     (let next' = (if u8 (next + 1) = 0 then 1 else u8 (next + 1)) in
      if next = 0 \<or> next \<in> set used then alloc_id attempts used next' else (next, next'))"

definition hx_allocate_peak_id :: "hx_peak list \<Rightarrow> int \<Rightarrow> int \<times> int" where
  "hx_allocate_peak_id ps next = alloc_id 255 (map pk_id ps) next"

text \<open>The score of matching a current peak to a previous one, \<open>None\<close> when they are too far apart.\<close>

definition id_score :: "hx_peak \<Rightarrow> hx_peak \<Rightarrow> int option" where
  "id_score cur prev =
     (let dr = pk_r cur - pk_r prev; dc = pk_c cur - pk_c prev;
          raw_distance = \<bar>dr\<bar> + \<bar>dc\<bar>;
          predicted_distance = \<bar>pk_r cur - (pk_r prev + pk_vr prev)\<bar> + \<bar>pk_c cur - (pk_c prev + pk_vc prev)\<bar> in
      if raw_distance > 10 \<and> predicted_distance > 6 then None
      else Some (predicted_distance * 16 + raw_distance * 2
        + min (\<bar>pk_z cur - pk_z prev\<bar> sdiv 64) 32
        + (if (pk_vr prev \<noteq> 0 \<or> pk_vc prev \<noteq> 0) \<and> dr * pk_vr prev + dc * pk_vc prev \<le> 0
            \<and> raw_distance > 1 then 48 else 0)))"

text \<open>The best unmatched pair; the flags are \<open>current_used\<close> and \<open>previous_used\<close>.\<close>

definition id_step ::
  "hx_peak list \<Rightarrow> hx_peak list \<Rightarrow> (nat \<Rightarrow> bool) \<Rightarrow> (nat \<Rightarrow> bool) \<Rightarrow> int \<times> (nat \<times> nat) option \<Rightarrow> nat \<times> nat
    \<Rightarrow> int \<times> (nat \<times> nat) option" where
  "id_step ps prev cu pu best ij =
     (if cu (fst ij) \<or> pu (snd ij) then best
      else case id_score (ps ! fst ij) (prev ! snd ij) of None \<Rightarrow> best
        | Some score \<Rightarrow> if score < fst best then (score, Some ij) else best)"

definition best_id_pair ::
  "hx_peak list \<Rightarrow> hx_peak list \<Rightarrow> (nat \<Rightarrow> bool) \<Rightarrow> (nat \<Rightarrow> bool) \<Rightarrow> (nat \<times> nat) option" where
  "best_id_pair ps prev cu pu =
     snd (foldl (id_step ps prev cu pu) (INT_MAX, None)
       (List.product [0..<length ps] [0..<length prev]))"

definition take_id :: "hx_peak \<Rightarrow> hx_peak \<Rightarrow> hx_peak" where
  "take_id cur prev = cur\<lparr>pk_id := pk_id prev,
     pk_age := (if pk_age prev < U8_MAX then pk_age prev + 1 else U8_MAX),
     pk_vr := clamp (pk_r cur - pk_r prev) (- 128) 127,
     pk_vc := clamp (pk_c cur - pk_c prev) (- 128) 127\<rparr>"

lemma best_id_pair_free:
  assumes "best_id_pair ps prev cu pu = Some (i, j)"
  shows "i < length ps \<and> j < length prev \<and> \<not> cu i \<and> \<not> pu j"
proof -
  have "snd (foldl (id_step ps prev cu pu) best ijs) = Some (i, j) \<Longrightarrow>
      snd best = Some (i, j) \<or> (i, j) \<in> set ijs \<and> \<not> cu i \<and> \<not> pu j" for best ijs
  proof (induction ijs arbitrary: best)
    case (Cons ij ijs)
    have "snd (id_step ps prev cu pu best ij) = snd best
        \<or> snd (id_step ps prev cu pu best ij) = Some ij \<and> \<not> cu (fst ij) \<and> \<not> pu (snd ij)"
      by (auto simp: id_step_def split: option.splits)
    with Cons.IH [of "id_step ps prev cu pu best ij"] Cons.prems show ?case by (cases ij) auto
  qed simp
  from this [of "(INT_MAX, None)" "List.product [0..<length ps] [0..<length prev]"] assms show ?thesis
    by (auto simp: best_id_pair_def)
qed

function match_ids ::
  "hx_peak list \<Rightarrow> hx_peak list \<Rightarrow> (nat \<Rightarrow> bool) \<Rightarrow> (nat \<Rightarrow> bool) \<Rightarrow> hx_peak list" where
  "match_ids prev ps cu pu =
     (case best_id_pair ps prev cu pu of None \<Rightarrow> ps
      | Some (i, j) \<Rightarrow> match_ids prev (ps[i := take_id (ps ! i) (prev ! j)]) (cu(i := True)) (pu(j := True)))"
  by pat_completeness auto
termination
proof (relation "measure (\<lambda>(prev, ps, cu, pu). card {i. i < length ps \<and> \<not> cu i})")
  fix prev ps cu pu ij i j
  assume "best_id_pair ps prev cu pu = Some ij" "(i, j) = ij"
  then have f: "i < length ps" "\<not> cu i" using best_id_pair_free [of ps prev cu pu i j] by auto
  have "{k. k < length ps \<and> \<not> (cu(i := True)) k} \<subset> {k. k < length ps \<and> \<not> cu k}" using f by auto
  then have "card {k. k < length ps \<and> \<not> (cu(i := True)) k} < card {k. k < length ps \<and> \<not> cu k}"
    by (intro psubset_card_mono) auto
  then show "((prev, ps[i := take_id (ps ! i) (prev ! j)], cu(i := True), pu(j := True)), (prev, ps, cu, pu))
      \<in> measure (\<lambda>(prev, ps, cu, pu). card {i. i < length ps \<and> \<not> cu i})"
    by simp
qed simp

declare match_ids.simps [simp del]

text \<open>Peaks that matched none get a fresh identity, in order.\<close>

definition fresh_id :: "hx_peak list \<times> int \<Rightarrow> nat \<Rightarrow> hx_peak list \<times> int" where
  "fresh_id st i =
     (let (ps, next) = st in
      if pk_id (ps ! i) = 0
      then let (new, next') = hx_allocate_peak_id ps next in (ps[i := (ps ! i)\<lparr>pk_id := new\<rparr>], next')
      else st)"

definition hx_track_peak_ids :: "hx_algo \<Rightarrow> hx_algo" where
  "hx_track_peak_ids algo =
     (let ps = map (\<lambda>p. p\<lparr>pk_id := 0, pk_age := 0\<rparr>) (peaks algo);
          ps = match_ids (prev_peaks algo) ps (\<lambda>_. False) (\<lambda>_. False);
          (ps, next) = foldl fresh_id (ps, next_peak_id algo) [0..<length ps] in
      algo\<lparr>peaks := ps, next_peak_id := next, prev_peaks := ps\<rparr>)"

definition hx_detect_peaks :: "hx_algo \<Rightarrow> hx_algo" where
  "hx_detect_peaks algo = hx_track_peak_ids (algo\<lparr>peaks := candidate_peaks algo\<rparr>)"

section \<open>Identities stay distinct\<close>

lemma alloc_next: "1 \<le> n \<Longrightarrow> n \<le> 255 \<Longrightarrow>
    (if u8 (n + 1) = 0 then 1 else u8 (n + 1)) = n mod 255 + 1"
proof -
  assume n: "1 \<le> n" "n \<le> 255"
  show ?thesis
  proof (cases "n = 255")
    case True
    then show ?thesis by (simp add: u8_def take_bit_eq_mod)
  next
    case False
    then have "u8 (n + 1) = n + 1" "n mod 255 = n" using n by (simp_all add: u8_id)
    then show ?thesis using n by simp
  qed
qed

text \<open>Either an unused identity is found, or every identity on the way is used.\<close>

lemma alloc_id_cases:
  "1 \<le> n \<Longrightarrow> n \<le> 255 \<Longrightarrow>
    (1 \<le> fst (alloc_id k used n) \<and> fst (alloc_id k used n) \<le> 255 \<and> fst (alloc_id k used n) \<notin> set used)
    \<or> (\<forall>i<k. (n - 1 + int i) mod 255 + 1 \<in> set used)"
proof (induction k arbitrary: n)
  case 0
  then show ?case by simp
next
  case (Suc k)
  note nx = alloc_next [OF Suc.prems]
  have r: "1 \<le> n mod 255 + 1" "n mod 255 + 1 \<le> 255"
    using pos_mod_bound [of 255 n] pos_mod_sign [of 255 n] by linarith+
  show ?case
  proof (cases "n \<in> set used")
    case False
    then have "fst (alloc_id (Suc k) used n) = n" using Suc.prems by (simp add: Let_def)
    with False Suc.prems show ?thesis by simp
  next
    case True
    then have e: "alloc_id (Suc k) used n = alloc_id k used (n mod 255 + 1)" using nx by (simp add: Let_def)
    have "(n - 1 + int i) mod 255 + 1 \<in> set used"
      if a: "\<forall>i<k. (n mod 255 + 1 - 1 + int i) mod 255 + 1 \<in> set used" and i: "i < Suc k" for i
    proof (cases i)
      case 0
      have "(n - 1) mod 255 = n - 1" using Suc.prems by simp
      with 0 True show ?thesis by simp
    next
      case (Suc i')
      then have "(n mod 255 + int i') mod 255 + 1 \<in> set used" using a i by simp
      then show ?thesis using Suc by (simp add: mod_simps)
    qed
    with Suc.IH [OF r] show ?thesis unfolding e by blast
  qed
qed

lemma alloc_id_next_range: "1 \<le> n \<Longrightarrow> n \<le> 255 \<Longrightarrow> 1 \<le> snd (alloc_id k used n) \<and> snd (alloc_id k used n) \<le> 255"
proof (induction k arbitrary: n)
  case 0
  then show ?case by simp
next
  case (Suc k)
  have r: "1 \<le> n mod 255 + 1" "n mod 255 + 1 \<le> 255"
    using pos_mod_bound [of 255 n] pos_mod_sign [of 255 n] by linarith+
  show ?case using Suc.IH [OF r] r alloc_next [OF Suc.prems] by (simp add: Let_def)
qed

lemma allocate_fresh:
  assumes "1 \<le> n" "n \<le> 255" "length ps < 255"
  shows "1 \<le> fst (hx_allocate_peak_id ps n) \<and> fst (hx_allocate_peak_id ps n) \<le> 255
    \<and> fst (hx_allocate_peak_id ps n) \<notin> pk_id ` set ps"
proof -
  let ?used = "map pk_id ps"
  have "\<not> (\<forall>i<255. (n - 1 + int i) mod 255 + 1 \<in> set ?used)"
  proof
    assume a: "\<forall>i<255. (n - 1 + int i) mod 255 + 1 \<in> set ?used"
    have "{1..255} \<subseteq> set ?used"
    proof
      fix m :: int
      assume m: "m \<in> {1..255}"
      let ?i = "nat ((m - n) mod 255)"
      have "?i < 255" using pos_mod_bound [of 255 "m - n"] by linarith
      moreover have "int ?i = (m - n) mod 255" by simp
      moreover have "(n - 1 + (m - n) mod 255) mod 255 + 1 = m" using m by (simp add: mod_simps)
      ultimately show "m \<in> set ?used" using a by metis
    qed
    then have "card {1..255::int} \<le> card (set ?used)" by (intro card_mono) auto
    also have "\<dots> \<le> length ?used" by (rule card_length)
    finally show False using assms(3) by simp
  qed
  then show ?thesis
    using alloc_id_cases [OF assms(1,2), of 255 ?used] unfolding hx_allocate_peak_id_def by auto
qed

text \<open>Nonzero identities of a list are pairwise distinct.\<close>

definition ids_distinct :: "hx_peak list \<Rightarrow> bool" where
  "ids_distinct ps \<longleftrightarrow> (\<forall>i<length ps. \<forall>j<length ps. i \<noteq> j \<longrightarrow> pk_id (ps ! i) \<noteq> 0 \<longrightarrow> pk_id (ps ! i) \<noteq> pk_id (ps ! j))"

definition ids_in_range :: "hx_peak list \<Rightarrow> bool" where
  "ids_in_range ps \<longleftrightarrow> (\<forall>p\<in>set ps. 1 \<le> pk_id p \<and> pk_id p \<le> 255)"

definition match_inv :: "hx_peak list \<Rightarrow> hx_peak list \<Rightarrow> (nat \<Rightarrow> bool) \<Rightarrow> (nat \<Rightarrow> bool) \<Rightarrow> bool" where
  "match_inv prev ps cu pu \<longleftrightarrow> ids_distinct ps
     \<and> (\<forall>i<length ps. pk_id (ps ! i) \<noteq> 0 \<longrightarrow>
         (\<exists>j<length prev. pu j \<and> pk_id (ps ! i) = pk_id (prev ! j)))"

lemma ids_distinct_update:
  assumes "ids_distinct ps" "\<And>k. k < length ps \<Longrightarrow> pk_id (ps ! k) \<noteq> pk_id q"
  shows "ids_distinct (ps[i := q])"
  unfolding ids_distinct_def length_list_update
proof (intro allI impI)
  fix a b
  assume ab: "a < length ps" "b < length ps" "a \<noteq> b" "pk_id (ps[i := q] ! a) \<noteq> 0"
  have d: "pk_id (ps ! a) \<noteq> 0 \<Longrightarrow> pk_id (ps ! a) \<noteq> pk_id (ps ! b)"
    using assms(1) ab unfolding ids_distinct_def by blast
  show "pk_id (ps[i := q] ! a) \<noteq> pk_id (ps[i := q] ! b)"
    using ab d assms(2) [of a] assms(2) [of b]
    by (cases "a = i"; cases "b = i"; simp add: nth_list_update)
qed

lemma match_ids_inv:
  assumes "ids_in_range prev" "distinct (map pk_id prev)" "match_inv prev ps cu pu"
  shows "ids_distinct (match_ids prev ps cu pu) \<and> length (match_ids prev ps cu pu) = length ps
    \<and> (\<forall>p\<in>set (match_ids prev ps cu pu). 0 \<le> pk_id p \<and> pk_id p \<le> 255)"
  using assms
proof (induction prev ps cu pu rule: match_ids.induct)
  case (1 prev ps cu pu)
  show ?case
  proof (cases "best_id_pair ps prev cu pu")
    case None
    have "0 \<le> pk_id p \<and> pk_id p \<le> 255" if p: "p \<in> set ps" for p
    proof -
      obtain i where i: "i < length ps" "p = ps ! i" using p by (auto simp: in_set_conv_nth)
      show ?thesis
      proof (cases "pk_id p = 0")
        case False
        then obtain j where j: "j < length prev" "pk_id p = pk_id (prev ! j)"
          using "1.prems"(3) i by (auto simp: match_inv_def)
        have "prev ! j \<in> set prev" using j by simp
        then have "1 \<le> pk_id (prev ! j) \<and> pk_id (prev ! j) \<le> 255"
          using "1.prems"(1) unfolding ids_in_range_def by blast
        with j(2) show ?thesis by simp
      qed simp
    qed
    then show ?thesis using None "1.prems"(3) by (subst (1 2 3) match_ids.simps) (simp add: match_inv_def)
  next
    case (Some ij)
    obtain i j where ij: "ij = (i, j)" by (cases ij)
    let ?ps = "ps[i := take_id (ps ! i) (prev ! j)]"
    have f: "i < length ps" "j < length prev" "\<not> pu j"
      using best_id_pair_free [of ps prev cu pu i j] Some ij by auto
    have other: "pk_id (ps ! k) \<noteq> pk_id (prev ! j)" if k: "k < length ps" for k
    proof
      assume e: "pk_id (ps ! k) = pk_id (prev ! j)"
      then have "pk_id (ps ! k) \<noteq> 0" using "1.prems"(1) f nth_mem by (fastforce simp: ids_in_range_def)
      then obtain j' where j': "j' < length prev" "pu j'" "pk_id (ps ! k) = pk_id (prev ! j')"
        using "1.prems"(3) k by (auto simp: match_inv_def)
      then have "j' = j" using "1.prems"(2) f e by (auto simp: distinct_conv_nth)
      with j' f show False by simp
    qed
    have "match_inv prev ?ps (cu(i := True)) (pu(j := True))"
      unfolding match_inv_def
    proof
      show "ids_distinct ?ps"
        using "1.prems"(3) other by (intro ids_distinct_update) (auto simp: match_inv_def take_id_def)
      show "\<forall>k<length ?ps. pk_id (?ps ! k) \<noteq> 0 \<longrightarrow>
          (\<exists>j'<length prev. (pu(j := True)) j' \<and> pk_id (?ps ! k) = pk_id (prev ! j'))"
        using "1.prems"(3) f by (auto simp: match_inv_def nth_list_update take_id_def)
    qed
    from "1.IH" [OF Some ij [symmetric] "1.prems"(1,2) this]
    have r: "ids_distinct (match_ids prev ?ps (cu(i := True)) (pu(j := True)))
      \<and> length (match_ids prev ?ps (cu(i := True)) (pu(j := True))) = length ?ps
      \<and> (\<forall>p\<in>set (match_ids prev ?ps (cu(i := True)) (pu(j := True))). 0 \<le> pk_id p \<and> pk_id p \<le> 255)" .
    have e: "match_ids prev ps cu pu = match_ids prev ?ps (cu(i := True)) (pu(j := True))"
      using Some ij by (subst match_ids.simps) simp
    show ?thesis unfolding e using r by simp
  qed
qed

text \<open>The fresh pass: the identities before index \<open>n\<close> are all nonzero.\<close>

definition fresh_inv :: "nat \<Rightarrow> nat \<Rightarrow> hx_peak list \<times> int \<Rightarrow> bool" where
  "fresh_inv m n st \<longleftrightarrow> length (fst st) = m \<and> ids_distinct (fst st)
     \<and> (\<forall>p\<in>set (fst st). 0 \<le> pk_id p \<and> pk_id p \<le> 255)
     \<and> (\<forall>i<n. pk_id (fst st ! i) \<noteq> 0) \<and> 1 \<le> snd st \<and> snd st \<le> 255"

lemma fresh_step:
  assumes inv: "fresh_inv m n st" and n: "n < m" "m < 255"
  shows "fresh_inv m (Suc n) (fresh_id st n)"
proof (cases "pk_id (fst st ! n) = 0")
  case False
  then have "fresh_id st n = st" by (auto simp: fresh_id_def split: prod.splits)
  then show ?thesis using inv False by (auto simp: fresh_inv_def less_Suc_eq)
next
  case True
  obtain ps nid where st: "st = (ps, nid)" by (cases st)
  obtain new nid' where a: "hx_allocate_peak_id ps nid = (new, nid')"
    by (cases "hx_allocate_peak_id ps nid")
  have e: "fresh_id st n = (ps[n := (ps ! n)\<lparr>pk_id := new\<rparr>], nid')"
    using True a by (simp add: fresh_id_def st)
  have r: "1 \<le> new" "new \<le> 255" "new \<notin> pk_id ` set ps"
    using allocate_fresh [of nid ps] inv n a by (auto simp: fresh_inv_def st)
  have nx: "1 \<le> nid' \<and> nid' \<le> 255"
    using alloc_id_next_range [of nid 255 "map pk_id ps"] inv a
    by (auto simp: fresh_inv_def st hx_allocate_peak_id_def)
  have len: "length ps = m" using inv by (simp add: fresh_inv_def st)
  have old: "\<forall>p\<in>set ps. 0 \<le> pk_id p \<and> pk_id p \<le> 255" using inv by (simp add: fresh_inv_def st)
  have new: "pk_id (ps ! k) \<noteq> new" if "k < m" for k using r(3) that len by (metis image_eqI nth_mem)
  have "ids_distinct (ps[n := (ps ! n)\<lparr>pk_id := new\<rparr>])"
    using inv new len by (intro ids_distinct_update) (auto simp: fresh_inv_def st)
  moreover have "0 \<le> pk_id p \<and> pk_id p \<le> 255" if "p \<in> set (ps[n := (ps ! n)\<lparr>pk_id := new\<rparr>])" for p
    using subsetD [OF set_update_subset_insert that] old r by auto
  moreover have "pk_id (ps[n := (ps ! n)\<lparr>pk_id := new\<rparr>] ! i) \<noteq> 0" if "i < Suc n" for i
    using that inv r n len by (auto simp: fresh_inv_def st nth_list_update less_Suc_eq)
  ultimately show ?thesis unfolding e fresh_inv_def using nx len by simp
qed

lemma fresh_fold:
  assumes "fresh_inv m 0 st" "n \<le> m" "m < 255"
  shows "fresh_inv m n (foldl fresh_id st [0..<n])"
  using assms(2)
proof (induction n)
  case 0
  then show ?case using assms(1) by simp
next
  case (Suc n)
  then show ?case using fresh_step [OF _ _ assms(3)] by simp
qed

lemma ids_distinct_iff: "(\<forall>p\<in>set ps. pk_id p \<noteq> 0) \<Longrightarrow> ids_distinct ps \<longleftrightarrow> distinct (map pk_id ps)"
  unfolding ids_distinct_def distinct_conv_nth by (auto simp: all_set_conv_all_nth)

lemma track_peak_ids_ok:
  assumes "ids_in_range (prev_peaks algo)" "distinct (map pk_id (prev_peaks algo))"
    and "1 \<le> next_peak_id algo" "next_peak_id algo \<le> 255" "length (peaks algo) \<le> HX_MAX_PEAKS"
  shows "ids_in_range (peaks (hx_track_peak_ids algo))
    \<and> distinct (map pk_id (peaks (hx_track_peak_ids algo)))
    \<and> prev_peaks (hx_track_peak_ids algo) = peaks (hx_track_peak_ids algo)
    \<and> length (peaks (hx_track_peak_ids algo)) = length (peaks algo)
    \<and> 1 \<le> next_peak_id (hx_track_peak_ids algo) \<and> next_peak_id (hx_track_peak_ids algo) \<le> 255"
proof -
  let ?ps0 = "map (\<lambda>p. p\<lparr>pk_id := 0, pk_age := 0\<rparr>) (peaks algo)"
  let ?ps1 = "match_ids (prev_peaks algo) ?ps0 (\<lambda>_. False) (\<lambda>_. False)"
  have "match_inv (prev_peaks algo) ?ps0 (\<lambda>_. False) (\<lambda>_. False)"
    by (simp add: match_inv_def ids_distinct_def)
  note m = match_ids_inv [OF assms(1,2) this]
  let ?n = "length (peaks algo)"
  have "fresh_inv ?n 0 (?ps1, next_peak_id algo)" using m assms(3,4) by (simp add: fresh_inv_def)
  then have f: "fresh_inv ?n ?n (foldl fresh_id (?ps1, next_peak_id algo) [0..<?n])"
    using assms(5) by (intro fresh_fold) auto
  obtain ps nid where st: "foldl fresh_id (?ps1, next_peak_id algo) [0..<?n] = (ps, nid)"
    by (cases "foldl fresh_id (?ps1, next_peak_id algo) [0..<?n]")
  have t: "peaks (hx_track_peak_ids algo) = ps" "prev_peaks (hx_track_peak_ids algo) = ps"
    "next_peak_id (hx_track_peak_ids algo) = nid"
    using m st by (simp_all add: hx_track_peak_ids_def Let_def)
  have nz: "\<forall>p\<in>set ps. pk_id p \<noteq> 0" using f st by (auto simp: fresh_inv_def in_set_conv_nth)
  have "\<forall>p\<in>set ps. 1 \<le> pk_id p \<and> pk_id p \<le> 255"
    using f nz st by (fastforce simp: fresh_inv_def)
  then show ?thesis
    unfolding t ids_in_range_def using f nz st ids_distinct_iff by (auto simp: fresh_inv_def)
qed

text \<open>Peak identities are a proper naming: starting from distinct identities of the previous
  frame, every peak of the new frame gets an identity in 1 .. 255, no two peaks share one (the
  allocator always finds a free one, its failure value 1 is never needed), and the counter stays in
  range, so the state is ready for the next frame.\<close>

theorem peak_ids_distinct:
  assumes "ids_in_range (prev_peaks algo)" "distinct (map pk_id (prev_peaks algo))"
    and "1 \<le> next_peak_id algo" "next_peak_id algo \<le> 255" "length (peaks algo) \<le> HX_MAX_PEAKS"
  shows "ids_in_range (peaks (hx_track_peak_ids algo))
    \<and> distinct (map pk_id (peaks (hx_track_peak_ids algo)))
    \<and> prev_peaks (hx_track_peak_ids algo) = peaks (hx_track_peak_ids algo)
    \<and> length (peaks (hx_track_peak_ids algo)) = length (peaks algo)
    \<and> 1 \<le> next_peak_id (hx_track_peak_ids algo) \<and> next_peak_id (hx_track_peak_ids algo) \<le> 255"
  by (rule track_peak_ids_ok [OF assms])

section \<open>Maxima do not crowd\<close>

text \<open>The tie-breaking of the local-maximum test is sound: two different pixels within the test
  radius of each other are never both maxima, whatever the signal (flat plateaus included).\<close>

theorem peaks_not_adjacent:
  assumes "i < HX_PIXELS" "j < HX_PIXELS" "i \<noteq> j"
    and "\<bar>row_of i - row_of j\<bar> \<le> max 1 (peak_local_radius (det algo))"
    and "\<bar>col_of i - col_of j\<bar> \<le> max 1 (peak_local_radius (det algo))"
  shows "\<not> (hx_is_asymmetric_peak algo (row_of i) (col_of i)
    \<and> hx_is_asymmetric_peak algo (row_of j) (col_of j))"
proof
  let ?R = "max 1 (peak_local_radius (det algo))"
  assume p: "hx_is_asymmetric_peak algo (row_of i) (col_of i)
    \<and> hx_is_asymmetric_peak algo (row_of j) (col_of j)"
  have test: "if after_in_scan (row_of b - row_of a, col_of b - col_of a)
      then \<not> frame algo ! b > frame algo ! a else \<not> frame algo ! b \<ge> frame algo ! a"
    if pa: "hx_is_asymmetric_peak algo (row_of a) (col_of a)" and ab: "b < HX_PIXELS" "a \<noteq> b"
      "\<bar>row_of a - row_of b\<bar> \<le> ?R" "\<bar>col_of a - col_of b\<bar> \<le> ?R" for a b
  proof -
    let ?dr = "row_of b - row_of a" and ?dc = "col_of b - col_of a"
    have "?dr \<in> set [- ?R..?R]" "?dc \<in> set [- ?R..?R]" using ab by auto
    moreover have "\<not> (?dr = 0 \<and> ?dc = 0)" using row_col_inj [of a b] ab by auto
    moreover have "on_grid (row_of a + ?dr) (col_of a + ?dc)" using ab by simp
    moreover note pa [unfolded hx_is_asymmetric_peak_def Let_def]
    ultimately have "(?dr = 0 \<and> ?dc = 0) \<or> \<not> on_grid (row_of a + ?dr) (col_of a + ?dc)
      \<or> (if after_in_scan (?dr, ?dc)
         then \<not> at_rc (frame algo) (row_of a) (col_of a) < at_rc (frame algo) (row_of a + ?dr) (col_of a + ?dc)
         else \<not> at_rc (frame algo) (row_of a) (col_of a) \<le> at_rc (frame algo) (row_of a + ?dr) (col_of a + ?dc))"
      by blast
    then show ?thesis using \<open>\<not> (?dr = 0 \<and> ?dc = 0)\<close> ab(1) by (auto split: if_splits)
  qed
  have ij: "\<bar>row_of j - row_of i\<bar> \<le> ?R" "\<bar>col_of j - col_of i\<bar> \<le> ?R"
    unfolding abs_minus_commute [of "row_of j" "row_of i"] abs_minus_commute [of "col_of j" "col_of i"]
    by (rule assms)+
  have "after_in_scan (row_of j - row_of i, col_of j - col_of i)
      \<longleftrightarrow> \<not> after_in_scan (row_of i - row_of j, col_of i - col_of j)"
  proof -
    have "row_of i \<noteq> row_of j \<or> col_of i \<noteq> col_of j" using row_col_inj assms(3) by blast
    then show ?thesis unfolding after_in_scan_def fst_conv snd_conv by arith
  qed
  with test [OF conjunct1 [OF p] assms(2-5)] test [OF conjunct2 [OF p] assms(1) assms(3) [symmetric] ij]
  show False by (simp split: if_splits)
qed

section \<open>What reaches the next stage\<close>

text \<open>A record describes a peak: a pixel of a surviving zone that passed the local tests.\<close>

definition peak_of :: "hx_algo \<Rightarrow> hx_peak \<Rightarrow> bool" where
  "peak_of algo p \<longleftrightarrow> (\<exists>zi<length (zones algo). \<exists>idx\<in>set (zone_pixels (zone_arena algo) (zones algo ! zi)).
     is_peak algo idx \<and> pk_r p = row_of idx \<and> pk_c p = col_of idx \<and> pk_z p = frame algo ! idx
     \<and> pk_zone_index p = zi \<and> pk_zone_area p = z_area (zones algo ! zi))"

lemma peak_at_of:
  "zi < length (zones algo) \<Longrightarrow> idx \<in> set (zone_pixels (zone_arena algo) (zones algo ! zi)) \<Longrightarrow>
    is_peak algo idx \<Longrightarrow> peak_of algo (peak_at algo zi (zones algo ! zi) idx)"
  by (auto simp: peak_of_def peak_at_def Let_def)

lemma insert_peak_keeps:
  "\<forall>p\<in>set ps. P p \<Longrightarrow> P p \<Longrightarrow> \<forall>p\<in>set (hx_insert_peak ps p). P p"
  using set_pool_insert [of peak_weaker HX_MAX_PEAKS ps p] by (auto simp: hx_insert_peak_def)

lemma scan_zone_sound:
  assumes "zi < length (zones algo)" "\<forall>p\<in>set ps. peak_of algo p" "length ps \<le> HX_MAX_PEAKS"
  shows "(\<forall>p\<in>set (scan_zone algo ps zi). peak_of algo p) \<and> length (scan_zone algo ps zi) \<le> HX_MAX_PEAKS"
proof -
  let ?f = "\<lambda>ps idx. if is_peak algo idx
    then hx_insert_peak ps (peak_at algo zi (zones algo ! zi) idx) else ps"
  have "(\<forall>p\<in>set (foldl ?f ps is). peak_of algo p) \<and> length (foldl ?f ps is) \<le> HX_MAX_PEAKS"
    if "set is \<subseteq> set (zone_pixels (zone_arena algo) (zones algo ! zi))" "\<forall>p\<in>set ps. peak_of algo p"
      "length ps \<le> HX_MAX_PEAKS" for ps "is"
    using that
  proof (induction "is" arbitrary: ps)
    case (Cons i "is")
    have "(\<forall>p\<in>set (?f ps i). peak_of algo p) \<and> length (?f ps i) \<le> HX_MAX_PEAKS"
    proof (cases "is_peak algo i")
      case True
      then have "peak_of algo (peak_at algo zi (zones algo ! zi) i)"
        using Cons.prems(1) by (intro peak_at_of [OF assms(1)]) auto
      then show ?thesis
        using True insert_peak_keeps [OF Cons.prems(2)] length_pool_insert [OF Cons.prems(3)]
        by (simp add: hx_insert_peak_def)
    qed (use Cons.prems in simp)
    then show ?case using Cons.IH [of "?f ps i"] Cons.prems(1) by simp
  qed simp
  from this [OF order_refl assms(2,3)] show ?thesis unfolding scan_zone_def Let_def by simp
qed

lemma scan_peaks_sound:
  "(\<forall>p\<in>set (scan_peaks algo). peak_of algo p) \<and> length (scan_peaks algo) \<le> HX_MAX_PEAKS"
proof -
  have "(\<forall>p\<in>set (foldl (scan_zone algo) ps zis). peak_of algo p)
      \<and> length (foldl (scan_zone algo) ps zis) \<le> HX_MAX_PEAKS"
    if "\<forall>zi\<in>set zis. zi < length (zones algo)" "\<forall>p\<in>set ps. peak_of algo p" "length ps \<le> HX_MAX_PEAKS"
    for ps zis
    using that
  proof (induction zis arbitrary: ps)
    case (Cons zi zis)
    have "(\<forall>p\<in>set (scan_zone algo ps zi). peak_of algo p) \<and> length (scan_zone algo ps zi) \<le> HX_MAX_PEAKS"
      by (rule scan_zone_sound [OF _ Cons.prems(2,3)]) (use Cons.prems(1) in simp)
    then show ?case unfolding foldl_Cons using Cons.IH [of "scan_zone algo ps zi"] Cons.prems(1) by simp
  qed simp
  from this [of "[0..<length (zones algo)]" "[]"] show ?thesis unfolding scan_peaks_def by simp
qed

lemma saddle_step_set: "set (saddle_step algo ps ij) \<subseteq> set ps \<union> {p. pk_z p = - 1}"
proof -
  have "set (ps[i := q]) \<subseteq> set ps \<union> {p. pk_z p = - 1}" if "pk_z q = - 1" for i q
    using set_update_subset_insert [of ps i q] that by auto
  then show ?thesis by (cases ij) (simp add: saddle_step_def Let_def)
qed

lemma saddle_fold:
  "set (foldl (saddle_step algo) ps ijs) \<subseteq> set ps \<union> {p. pk_z p = - 1}
    \<and> length (foldl (saddle_step algo) ps ijs) = length ps"
proof (induction ijs arbitrary: ps)
  case (Cons ij ijs)
  have "length (saddle_step algo ps ij) = length ps"
    by (simp add: saddle_step_def Let_def split: prod.splits)
  then show ?case using Cons.IH [of "saddle_step algo ps ij"] saddle_step_set [of algo ps ij] by auto
qed simp

lemma saddle_filter_sound:
  "set (saddle_filter algo ps) \<subseteq> set ps \<and> length (saddle_filter algo ps) \<le> length ps"
proof -
  define qs where "qs = foldl (saddle_step algo) ps
    (concat (map (\<lambda>i. map (Pair i) [Suc i..<length ps]) [0..<length ps]))"
  have qs: "set qs \<subseteq> set ps \<union> {p. pk_z p = - 1}" "length qs = length ps"
    using saddle_fold unfolding qs_def by blast+
  have "set (filter (\<lambda>p. pk_z p \<ge> 0) qs) \<subseteq> set ps" using qs(1) by auto
  moreover have "length (filter (\<lambda>p. pk_z p \<ge> 0) qs) \<le> length ps"
    using length_filter_le [of "\<lambda>p. pk_z p \<ge> 0" qs] qs(2) by simp
  ultimately show ?thesis by (simp add: saddle_filter_def qs_def [symmetric])
qed

lemma footprint_gate_sound:
  "footprint_gate algo n p = Some q \<Longrightarrow> peak_of algo p \<Longrightarrow> peak_of algo q"
proof -
  assume g: "footprint_gate algo n p = Some q" and p: "peak_of algo p"
  have "pk_r q = pk_r p \<and> pk_c q = pk_c p \<and> pk_z q = pk_z p \<and> pk_zone_index q = pk_zone_index p
      \<and> pk_zone_area q = pk_zone_area p"
    using if_SomeD [OF g [unfolded footprint_gate_def Let_def]] by simp
  with p show "peak_of algo q" unfolding peak_of_def by simp
qed

lemma footprint_filter_sound:
  "\<forall>p\<in>set ps. peak_of algo p \<Longrightarrow> (\<forall>p\<in>set (footprint_filter algo ps). peak_of algo p)
    \<and> length (footprint_filter algo ps) \<le> length ps"
  using footprint_gate_sound by (auto simp: footprint_filter_def List.map_filter_def)

lemma edge_filter_sound: "set (edge_filter ps c) \<subseteq> set ps \<and> length (edge_filter ps c) \<le> length ps"
  by (auto simp: edge_filter_def Let_def)

interpretation peak_order: strict_weak peak_weaker
  by unfold_locales (auto simp: peak_weaker_def)

lemma candidate_peaks_ok:
  "length (candidate_peaks algo) \<le> HX_MAX_PEAKS
    \<and> sorted_wrt (\<lambda>p q. pk_z p \<le> pk_z q) (candidate_peaks algo)
    \<and> (\<forall>p\<in>set (candidate_peaks algo). peak_of algo p
      \<and> (palm_box_enabled (det algo) \<longrightarrow> (\<forall>b\<in>set (palm_boxes algo). \<not> in_box p b)))"
proof -
  let ?s = "scan_peaks algo"
  let ?a = "saddle_filter algo ?s"
  let ?b = "z8_filter algo ?a"
  let ?c = "footprint_filter algo ?b"
  let ?d = "palm_domain_filter algo ?c"
  let ?e = "edge_filter (edge_filter ?d 0) (int HX_COLS - 1)"
  have b: "\<forall>p\<in>set ?b. peak_of algo p" "length ?b \<le> HX_MAX_PEAKS"
    using scan_peaks_sound [of algo] saddle_filter_sound [of algo ?s]
      length_filter_le [of "\<lambda>p. \<not> peak_z8_enabled (det algo) \<or> shr (pk_z p) 5 \<le> pk_nbr_sum p" ?a]
    unfolding z8_filter_def by (auto simp del: length_filter_le)
  have d: "\<forall>p\<in>set ?d. peak_of algo p
      \<and> (palm_box_enabled (det algo) \<longrightarrow> (\<forall>b\<in>set (palm_boxes algo). \<not> in_box p b))"
    "length ?d \<le> HX_MAX_PEAKS"
    using footprint_filter_sound [OF b(1)] b(2)
      length_filter_le [of "\<lambda>p. \<not> (\<exists>b\<in>set (palm_boxes algo). in_box p b)" ?c]
    unfolding palm_domain_filter_def by (auto simp del: length_filter_le)
  have e: "set ?e \<subseteq> set ?d" "length ?e \<le> HX_MAX_PEAKS"
    using edge_filter_sound [of ?d 0] edge_filter_sound [of "edge_filter ?d 0" "int HX_COLS - 1"] d(2)
    by (blast, linarith)
  have c: "candidate_peaks algo = sel_sort peak_weaker ?e"
    by (simp add: candidate_peaks_def Let_def)
  show ?thesis
    unfolding c set_sel_sort length_sel_sort
    using peak_order.sel_sort_sorted [of ?e] e d(1) by (auto simp: peak_weaker_def not_less)
qed

text \<open>The peak list handed to the next stage holds at most twenty peaks in ascending signal order,
  each a local maximum at or above its threshold in a surviving zone, carrying that pixel's
  coordinates and signal and that zone's index and area; none lies in the domain of a palm box.\<close>

theorem candidate_peaks_sound:
  "length (candidate_peaks algo) \<le> HX_MAX_PEAKS
    \<and> sorted_wrt (\<lambda>p q. pk_z p \<le> pk_z q) (candidate_peaks algo)
    \<and> (\<forall>p\<in>set (candidate_peaks algo). peak_of algo p
      \<and> (palm_box_enabled (det algo) \<longrightarrow> (\<forall>b\<in>set (palm_boxes algo). \<not> in_box p b)))"
  by (rule candidate_peaks_ok)

section \<open>Witnesses\<close>

theorem candidate_peaks_sound_witness: "length (candidate_peaks one_touch) \<le> HX_MAX_PEAKS"
  using candidate_peaks_sound [of one_touch] by blast

theorem peaks_not_adjacent_witness:
  "\<not> (hx_is_asymmetric_peak one_touch (row_of 125) (col_of 125)
    \<and> hx_is_asymmetric_peak one_touch (row_of 126) (col_of 126))"
  by (rule peaks_not_adjacent) (simp_all add: row_of_def col_of_def)

definition two_peaks :: hx_algo where
  "two_peaks = new_algo\<lparr>peaks := [peak_at one_touch 0 small_zone 125, peak_at one_touch 0 small_zone 600]\<rparr>"

theorem peak_ids_distinct_witness: "distinct (map pk_id (peaks (hx_track_peak_ids two_peaks)))"
proof -
  have "ids_in_range (prev_peaks two_peaks)" "distinct (map pk_id (prev_peaks two_peaks))"
    "1 \<le> next_peak_id two_peaks" "next_peak_id two_peaks \<le> 255" "length (peaks two_peaks) \<le> HX_MAX_PEAKS"
    by (simp_all add: two_peaks_def new_algo_def hx_algo_full_reset_def
        hx_algo_clear_transient_state_def ids_in_range_def)
  from peak_ids_distinct [OF this] show ?thesis by blast
qed

definition v_plateau :: hx_algo where
  "v_plateau = new_algo\<lparr>frame := zero_grid[310 := 500, 371 := 500, 312 := 500]\<rparr>"

text \<open>The comment on the local-maximum test promises exactly one peak per flat plateau; a plateau
  that is not convex has more: on three equal touching pixels in the shape of a V both upper ends
  pass the test.\<close>

theorem v_plateau_has_two_peaks:
  "hx_is_asymmetric_peak v_plateau 5 10 \<and> hx_is_asymmetric_peak v_plateau 5 12
    \<and> adj8 310 371 \<and> adj8 371 312"
proof -
  have r: "peak_local_radius (det v_plateau) = 1"
    by (simp add: v_plateau_def new_algo_def hx_algo_full_reset_def hx_algo_init_defaults_def default_det_def)
  have l: "[- 1..1] = [- 1, 0, 1 :: int]" by (simp add: upto_rec1)
  have f: "frame v_plateau ! k = (if k = 310 \<or> k = 371 \<or> k = 312 then 500 else 0)" if "k < HX_PIXELS" for k
    using that by (simp add: v_plateau_def nth_list_update)
  show ?thesis
    unfolding hx_is_asymmetric_peak_def Let_def r
    by (simp add: l at_rc_def f on_grid_def after_in_scan_def adj8_def row_of_def col_of_def)
qed

end
