(* ===== verification/Hx_Resolve.thy ===== *)
theory Hx_Resolve
  imports Hx_Peaks
begin

text \<open>
  From peaks to output positions (\<open>hx-algo-resolve.c\<close>): each peak, weakest first, claims pixels
  by a second flood fill and becomes a weighted centroid; a fill that meets another peak's pixels
  falls back to the 3x3 centroid; border contacts are pushed outwards; the ten strongest contacts
  are converted to the output space and weak ones near the border are dropped.
\<close>

section \<open>The expansion of one peak\<close>

definition hx_zone_thold :: "hx_det_params \<Rightarrow> int \<Rightarrow> int" where
  "hx_zone_thold p peak_z =
     (let base = min (peak_threshold p) peak_z; shift = min (zone_threshold_shift p) 15;
          result = shr (s32 (base * zone_threshold_numer p)) (nat shift) in
      s16 (max result 1))"

definition hx_neighbor_support :: "grid \<Rightarrow> int \<Rightarrow> int \<Rightarrow> int \<Rightarrow> int" where
  "hx_neighbor_support fr r c threshold =
     int (length (filter (\<lambda>(dr, dc). hx_frame_at fr (r + dr) (c + dc) \<ge> threshold) nbr_offsets))"

text \<open>The owner map (0 is free) with the \<open>clean\<close> flag; peak \<open>pi\<close> owns as \<open>pi + 1\<close>.\<close>

type_synonym owners = "(nat \<Rightarrow> nat) \<times> bool"

definition owned :: "owners \<Rightarrow> nat \<Rightarrow> bool" where
  "owned v i \<longleftrightarrow> fst v i \<noteq> 0"

definition meet :: "nat \<Rightarrow> owners \<Rightarrow> nat \<Rightarrow> owners" where
  "meet pi v i = (fst v, if fst v i \<noteq> Suc pi then False else snd v)"

definition claim :: "nat \<Rightarrow> owners \<Rightarrow> nat \<Rightarrow> owners" where
  "claim pi v i = ((fst v)(i := Suc pi), snd v)"

definition expandable :: "hx_algo \<Rightarrow> nat \<Rightarrow> nat \<Rightarrow> bool" where
  "expandable algo pi i =
     (let p = det algo; pk = peaks algo ! pi; thold = hx_zone_thold p (pk_z pk);
          r = row_of i; c = col_of i in
      \<not> hx_frame_at (frame algo) r c < thold
      \<and> \<not> (zone_max_radius p \<noteq> 0 \<and> max \<bar>r - pk_r pk\<bar> \<bar>c - pk_c pk\<bar> > zone_max_radius p)
      \<and> \<not> (zone_cleanup_enabled p \<and> hx_neighbor_support (frame algo) r c thold < 2))"

text \<open>The sums: \<open>area\<close>, \<open>sig_sum\<close>, \<open>w_col\<close>, \<open>w_row\<close>, \<open>w_total\<close>.\<close>

record centroid_sums =
  cs_area :: int
  cs_sig :: int
  cs_col :: int
  cs_row :: int
  cs_total :: int

definition zero_sums :: centroid_sums where
  "zero_sums = \<lparr>cs_area = 0, cs_sig = 0, cs_col = 0, cs_row = 0, cs_total = 0\<rparr>"

definition add_sums :: "centroid_sums \<Rightarrow> int \<Rightarrow> int \<Rightarrow> int \<Rightarrow> centroid_sums" where
  "add_sums s r c sig = \<lparr>cs_area = u16 (cs_area s + 1), cs_sig = s32 (cs_sig s + sig),
     cs_col = s64 (cs_col s + c * 128 * sig), cs_row = s64 (cs_row s + r * 128 * sig),
     cs_total = s32 (cs_total s + sig)\<rparr>"

definition sums_visit :: "grid \<Rightarrow> centroid_sums \<Rightarrow> nat \<Rightarrow> centroid_sums" where
  "sums_visit fr s i = add_sums s (row_of i) (col_of i) (hx_frame_at fr (row_of i) (col_of i))"

definition resolve_expand :: "hx_algo \<Rightarrow> nat \<Rightarrow> owners \<Rightarrow> nat \<Rightarrow> owners \<times> nat list" where
  "resolve_expand algo pi = flood_expand owned (meet pi) (claim pi) (expandable algo pi)"

interpretation owner_marks: pixel_marks owned "meet pi" "claim pi" for pi
  by unfold_locales (auto simp: owned_def meet_def claim_def)

function resolve_bfs ::
  "hx_algo \<Rightarrow> nat \<Rightarrow> owners \<Rightarrow> nat list \<Rightarrow> centroid_sums \<Rightarrow> owners \<times> centroid_sums" where
  "resolve_bfs algo pi v [] s = (v, s)"
| "resolve_bfs algo pi v (i # q) s =
     (let (v', new) = resolve_expand algo pi v i in
      resolve_bfs algo pi v' (q @ new) (sums_visit (frame algo) s i))"
  by pat_completeness auto
termination
  by (relation "measure (\<lambda>(algo, pi, v, q, s). 2 * card {j. j < HX_PIXELS \<and> \<not> owned v j} + length q)")
    (auto simp only: wf_measure in_measure case_prod_conv resolve_expand_def
      intro: owner_marks.expand_decreases [OF sym])

declare resolve_bfs.simps [simp del]

interpretation resolve_fill:
  flood_fill owned "meet pi" "claim pi" "expandable algo pi" "sums_visit (frame algo)" "resolve_bfs algo pi"
  for algo pi
  by unfold_locales (simp_all add: resolve_expand_def resolve_bfs.simps)

text \<open>The contact of a peak from its sums.\<close>

definition contact_of :: "hx_peak \<Rightarrow> nat \<Rightarrow> centroid_sums \<Rightarrow> hx_contact" where
  "contact_of pk pi s = \<lparr>
     ct_x = (if cs_total s > 0 then s32 (s32 (s64 (cs_col s * 2) sdiv cs_total s) + 0x80)
       else pk_c pk * 256 + 128),
     ct_y = (if cs_total s > 0 then s32 (s32 (s64 (cs_row s * 2) sdiv cs_total s) + 0x80)
       else pk_r pk * 256 + 128),
     ct_area = cs_area s, ct_signal_sum = cs_sig s,
     ct_is_edge = (pk_r pk = 0 \<or> pk_r pk = int HX_ROWS - 1 \<or> pk_c pk = 0 \<or> pk_c pk = int HX_COLS - 1),
     ct_fast_start_candidate = pk_fast_start_candidate pk, ct_peak_index = pi,
     ct_source_peak_id = pk_id pk, ct_source_peak_age = pk_age pk,
     ct_source_zone_index = pk_zone_index pk, ct_continuation_only = pk_continuation_only pk,
     ct_continuation_track_slot = pk_continuation_track_slot pk\<rparr>"

definition hx_expand_single_peak :: "hx_algo \<Rightarrow> (nat \<Rightarrow> nat) \<Rightarrow> nat \<Rightarrow> owners \<times> hx_contact" where
  "hx_expand_single_peak algo zone_map pi =
     (let pk = peaks algo ! pi; seed = nat (pk_r pk * 60 + pk_c pk);
          (v, s) = resolve_bfs algo pi (zone_map(seed := Suc pi), True) [seed] zero_sums in
      (v, contact_of pk pi s))"

definition hx_local_centroid :: "hx_algo \<Rightarrow> nat \<Rightarrow> hx_contact" where
  "hx_local_centroid algo pi =
     (let pk = peaks algo ! pi in
      contact_of pk pi
        (foldl (\<lambda>s (dr, dc).
            let r = pk_r pk + dr; c = pk_c pk + dc; sig = hx_frame_at (frame algo) r c in
            if \<not> on_grid r c then s else if sig \<le> 0 then s else add_sums s r c sig)
          zero_sums
          [(-1, -1), (-1, 0), (-1, 1), (0, -1), (0, 0), (0, 1), (1, -1), (1, 0), (1, 1)]))"

section \<open>Edge compensation\<close>

definition push_out :: "int \<Rightarrow> int \<Rightarrow> int \<Rightarrow> int" where
  "push_out push_max blend dist = s32 (push_max * (blend - dist)) sdiv blend"

text \<open>One axis with \<open>n\<close> lines: first the low border, then the high border.\<close>

definition compensate_axis :: "int \<Rightarrow> int \<Rightarrow> int \<Rightarrow> int \<Rightarrow> int" where
  "compensate_axis push_max blend n x0 =
     (let x = (if x0 < blend then max (x0 - push_out push_max blend x0) 0 else x0);
          dist = (n - 1) * 256 + 128 - x in
      if dist < blend then min (x + push_out push_max blend dist) ((n - 1) * 256 + 256) else x)"

definition hx_edge_compensate :: "hx_det_params \<Rightarrow> hx_contact \<Rightarrow> hx_contact" where
  "hx_edge_compensate p ct =
     (let push_max = edge_push_q8 p; blend = edge_blend_q8 p in
      if \<not> edge_comp_enabled p \<or> push_max \<le> 0 \<or> blend \<le> 0 then ct
      else ct\<lparr>ct_x := compensate_axis push_max blend (int HX_COLS) (ct_x ct),
        ct_y := compensate_axis push_max blend (int HX_ROWS) (ct_y ct)\<rparr>)"

section \<open>All peaks, and the output\<close>

definition resolve_peak :: "hx_algo \<Rightarrow> (nat \<Rightarrow> nat) \<Rightarrow> nat \<Rightarrow> (nat \<Rightarrow> nat) \<times> hx_contact" where
  "resolve_peak algo zone_map pi =
     (let ((zone_map', clean), ct) = hx_expand_single_peak algo zone_map pi;
          ct = (if \<not> clean then hx_local_centroid algo pi else ct) in
      (zone_map', if ct_is_edge ct then hx_edge_compensate (det algo) ct else ct))"

definition resolve_step ::
  "hx_algo \<Rightarrow> (nat \<Rightarrow> nat) \<times> hx_contact list \<Rightarrow> nat \<Rightarrow> (nat \<Rightarrow> nat) \<times> hx_contact list" where
  "resolve_step algo st pi =
     (let (zone_map', ct) = resolve_peak algo (fst st) pi in (zone_map', snd st @ [ct]))"

definition resolve_all :: "hx_algo \<Rightarrow> hx_contact list" where
  "resolve_all algo =
     snd (foldl (resolve_step algo) ((\<lambda>_. 0), []) [0..<min (length (peaks algo)) HX_MAX_PEAKS])"

definition contact_stronger :: "hx_contact \<Rightarrow> hx_contact \<Rightarrow> bool" where
  "contact_stronger a b \<longleftrightarrow> ct_signal_sum a > ct_signal_sum b"

definition strongest_contacts :: "hx_contact list \<Rightarrow> hx_contact list" where
  "strongest_contacts cts =
     (if length cts > HIMAX_MAX_TOUCH then take HIMAX_MAX_TOUCH (sel_sort contact_stronger cts) else cts)"

definition output_pos :: "hx_contact \<Rightarrow> input_mt_pos" where
  "output_pos ct = \<lparr>pos_x = clamp (ct_x ct sdiv 6) 0 65535,
     pos_y = clamp (s32 (5 * ct_y ct) sdiv 32) 0 65535\<rparr>"

definition edge_rejected :: "hx_det_params \<Rightarrow> hx_contact \<Rightarrow> bool" where
  "edge_rejected p ct =
     (let x = pos_x (output_pos ct); y = pos_y (output_pos ct); margin = edge_reject_margin p;
          near_edge = (x < margin \<or> x > int HX_COLS * 256 sdiv 6 - margin
            \<or> y < margin \<or> y > int HX_ROWS * 40 - margin) in
      edge_reject_enabled p \<and> near_edge \<and> ct_signal_sum ct < edge_reject_min_signal p)"

definition hx_expand_and_resolve :: "hx_algo \<Rightarrow> hx_algo \<times> input_mt_pos list" where
  "hx_expand_and_resolve algo =
     (let cts = filter (\<lambda>ct. \<not> edge_rejected (det algo) ct) (strongest_contacts (resolve_all algo)) in
      (algo\<lparr>contacts := cts\<rparr>, map output_pos cts))"

section \<open>The sums are exact\<close>

text \<open>A weighted pixel: row, column, signal.\<close>

definition weight_ok :: "int \<times> int \<times> int \<Rightarrow> bool" where
  "weight_ok w \<longleftrightarrow> 0 \<le> fst w \<and> fst w < 40 \<and> 0 \<le> fst (snd w) \<and> fst (snd w) < 60
     \<and> 0 \<le> snd (snd w) \<and> snd (snd w) \<le> 32767"

definition sums_of :: "(int \<times> int \<times> int) list \<Rightarrow> centroid_sums" where
  "sums_of ws = foldl (\<lambda>s (r, c, sig). add_sums s r c sig) zero_sums ws"

definition weight :: "(int \<times> int \<times> int) list \<Rightarrow> int" where
  "weight ws = sum_list (map (\<lambda>(r, c, sig). sig) ws)"

lemma weighted_bounds:
  fixes g :: "int \<times> int \<times> int \<Rightarrow> int"
  assumes "\<forall>w\<in>set ws. lo \<le> g w \<and> g w \<le> hi \<and> 0 \<le> snd (snd w)"
  shows "lo * weight ws \<le> sum_list (map (\<lambda>w. g w * snd (snd w)) ws)
    \<and> sum_list (map (\<lambda>w. g w * snd (snd w)) ws) \<le> hi * weight ws"
  using assms
proof (induction ws)
  case Nil
  then show ?case by (simp add: weight_def)
next
  case (Cons w ws)
  then have "lo * snd (snd w) \<le> g w * snd (snd w)" "g w * snd (snd w) \<le> hi * snd (snd w)"
    by (auto intro: mult_right_mono)
  moreover have "weight (w # ws) = snd (snd w) + weight ws" by (cases w) (simp add: weight_def)
  ultimately show ?case using Cons by (simp add: distrib_left)
qed

lemma weight_bounds: "\<forall>w\<in>set ws. weight_ok w \<Longrightarrow> 0 \<le> weight ws \<and> weight ws \<le> 32767 * int (length ws)"
proof (induction ws)
  case (Cons w ws)
  then show ?case by (cases w) (auto simp: weight_def weight_ok_def)
qed (simp add: weight_def)

lemma sums_of_exact:
  assumes "\<forall>w\<in>set ws. weight_ok w" "length ws \<le> HX_PIXELS"
  shows "sums_of ws = \<lparr>cs_area = int (length ws), cs_sig = weight ws,
    cs_col = sum_list (map (\<lambda>w. (fst (snd w) * 128) * snd (snd w)) ws),
    cs_row = sum_list (map (\<lambda>w. (fst w * 128) * snd (snd w)) ws), cs_total = weight ws\<rparr>"
  using assms
proof (induction ws rule: rev_induct)
  case Nil
  then show ?case by (simp add: sums_of_def zero_sums_def weight_def)
next
  case (snoc w ws)
  obtain r c sig where w: "w = (r, c, sig)" by (cases w) auto
  let ?ws = "ws @ [w]"
  have ok: "\<forall>w\<in>set ?ws. weight_ok w" using snoc.prems(1) .
  have W: "0 \<le> weight ?ws" "weight ?ws \<le> 32767 * 2400"
    using weight_bounds [OF ok] snoc.prems(2) by auto
  have wc: "\<forall>w\<in>set ?ws. 0 \<le> fst (snd w) * 128 \<and> fst (snd w) * 128 \<le> 7680 \<and> 0 \<le> snd (snd w)"
    and wr: "\<forall>w\<in>set ?ws. 0 \<le> fst w * 128 \<and> fst w * 128 \<le> 7680 \<and> 0 \<le> snd (snd w)"
    using ok by (auto simp: weight_ok_def)
  have col: "0 \<le> sum_list (map (\<lambda>w. (fst (snd w) * 128) * snd (snd w)) ?ws)"
    "sum_list (map (\<lambda>w. (fst (snd w) * 128) * snd (snd w)) ?ws) \<le> 7680 * weight ?ws"
    using weighted_bounds [OF wc] by simp_all
  have row: "0 \<le> sum_list (map (\<lambda>w. (fst w * 128) * snd (snd w)) ?ws)"
    "sum_list (map (\<lambda>w. (fst w * 128) * snd (snd w)) ?ws) \<le> 7680 * weight ?ws"
    using weighted_bounds [OF wr] by simp_all
  have IH: "sums_of ws = \<lparr>cs_area = int (length ws), cs_sig = weight ws,
    cs_col = sum_list (map (\<lambda>w. (fst (snd w) * 128) * snd (snd w)) ws),
    cs_row = sum_list (map (\<lambda>w. (fst w * 128) * snd (snd w)) ws), cs_total = weight ws\<rparr>"
    using snoc by simp
  have step: "sums_of ?ws = add_sums (sums_of ws) r c sig" by (simp add: sums_of_def w)
  have wt: "weight ?ws = weight ws + sig" by (simp add: weight_def w)
  have e: "u16 (int (length ws) + 1) = int (length ws) + 1" "s32 (weight ws + sig) = weight ws + sig"
    using snoc.prems(2) W wt by (simp_all add: u16_id s32_id)
  have f: "s64 (sum_list (map (\<lambda>w. (fst (snd w) * 128) * snd (snd w)) ?ws))
      = sum_list (map (\<lambda>w. (fst (snd w) * 128) * snd (snd w)) ?ws)"
    "s64 (sum_list (map (\<lambda>w. (fst w * 128) * snd (snd w)) ?ws))
      = sum_list (map (\<lambda>w. (fst w * 128) * snd (snd w)) ?ws)"
    using col row W by (auto intro!: s64_id)
  show ?case
    unfolding step IH add_sums_def using e f by (simp add: w weight_def)
qed

lemma centroid_coord:
  assumes "0 < T" "T \<le> 78640800" "lo * 128 * T \<le> S" "S \<le> hi * 128 * T" "0 \<le> lo" "lo \<le> hi" "hi < 60"
  shows "lo * 256 + 128 \<le> s32 (s32 (s64 (S * 2) sdiv T) + 0x80)
    \<and> s32 (s32 (s64 (S * 2) sdiv T) + 0x80) \<le> hi * 256 + 128"
proof -
  have "0 \<le> lo * 128 * T" using assms by simp
  then have S0: "0 \<le> S" using assms(3) by linarith
  have "hi * 128 * T \<le> 59 * 128 * 78640800" using assms by (intro mult_mono) auto
  then have "S * 2 \<le> 59 * 128 * 78640800 * 2" using assms(4) by linarith
  then have e: "s64 (S * 2) = S * 2" using S0 by (intro s64_id) linarith+
  have b: "lo * 256 \<le> (S * 2) sdiv T \<and> (S * 2) sdiv T \<le> hi * 256"
    using assms by (intro sdiv_bounds) (auto simp: algebra_simps)
  have "s32 ((S * 2) sdiv T) = (S * 2) sdiv T" using b assms by (intro s32_id) auto
  moreover have "s32 ((S * 2) sdiv T + 0x80) = (S * 2) sdiv T + 0x80" using b assms by (intro s32_id) auto
  ultimately show ?thesis unfolding e using b by simp
qed

text \<open>The contact lies in the bounding box of the weighted pixels.\<close>

lemma contact_in_box:
  assumes ok: "\<forall>w\<in>set ws. weight_ok w" "length ws \<le> HX_PIXELS"
    and box: "\<forall>w\<in>set ws. rlo \<le> fst w \<and> fst w \<le> rhi \<and> clo \<le> fst (snd w) \<and> fst (snd w) \<le> chi"
    and pk: "rlo \<le> pk_r pk" "pk_r pk \<le> rhi" "clo \<le> pk_c pk" "pk_c pk \<le> chi"
    and lim: "0 \<le> rlo" "rhi < 40" "0 \<le> clo" "chi < 60"
  shows "clo * 256 + 128 \<le> ct_x (contact_of pk pi (sums_of ws))
    \<and> ct_x (contact_of pk pi (sums_of ws)) \<le> chi * 256 + 128
    \<and> rlo * 256 + 128 \<le> ct_y (contact_of pk pi (sums_of ws))
    \<and> ct_y (contact_of pk pi (sums_of ws)) \<le> rhi * 256 + 128
    \<and> ct_area (contact_of pk pi (sums_of ws)) = int (length ws)
    \<and> ct_signal_sum (contact_of pk pi (sums_of ws)) = weight ws"
proof -
  have pos: "\<forall>w\<in>set ws. 0 \<le> snd (snd w)" using ok(1) by (auto simp: weight_ok_def)
  have W: "weight ws \<le> 78640800" using weight_bounds [OF ok(1)] ok(2) by auto
  have c: "clo * 128 * weight ws \<le> sum_list (map (\<lambda>w. (fst (snd w) * 128) * snd (snd w)) ws)
      \<and> sum_list (map (\<lambda>w. (fst (snd w) * 128) * snd (snd w)) ws) \<le> chi * 128 * weight ws"
    using weighted_bounds [of ws "clo * 128" "\<lambda>w. fst (snd w) * 128" "chi * 128"] box pos by simp
  have r: "rlo * 128 * weight ws \<le> sum_list (map (\<lambda>w. (fst w * 128) * snd (snd w)) ws)
      \<and> sum_list (map (\<lambda>w. (fst w * 128) * snd (snd w)) ws) \<le> rhi * 128 * weight ws"
    using weighted_bounds [of ws "rlo * 128" "\<lambda>w. fst w * 128" "rhi * 128"] box pos by simp
  show ?thesis
    unfolding contact_of_def sums_of_exact [OF ok]
    using centroid_coord [OF _ W, of clo _ chi] centroid_coord [OF _ W, of rlo _ rhi] c r pk lim
    by (cases "0 < weight ws") auto
qed

section \<open>The region of a peak\<close>

definition peak_pixel :: "hx_peak \<Rightarrow> nat" where
  "peak_pixel pk = nat (pk_r pk * 60 + pk_c pk)"

definition peak_on_grid :: "hx_peak \<Rightarrow> bool" where
  "peak_on_grid pk \<longleftrightarrow> on_grid (pk_r pk) (pk_c pk)"

text \<open>A step of the expansion: to a touching pixel that is free and expandable.\<close>

definition claim_step :: "hx_algo \<Rightarrow> (nat \<Rightarrow> nat) \<Rightarrow> nat \<Rightarrow> (nat \<times> nat) set" where
  "claim_step algo zm pi = {(i, j). j < HX_PIXELS \<and> adj8 i j \<and> expandable algo pi j
     \<and> zm j = 0 \<and> j \<noteq> peak_pixel (peaks algo ! pi)}"

definition claimed :: "hx_algo \<Rightarrow> (nat \<Rightarrow> nat) \<Rightarrow> nat \<Rightarrow> nat set" where
  "claimed algo zm pi = (claim_step algo zm pi)\<^sup>* `` {peak_pixel (peaks algo ! pi)}"

definition pixel_weight :: "grid \<Rightarrow> nat \<Rightarrow> int \<times> int \<times> int" where
  "pixel_weight fr i = (row_of i, col_of i, hx_frame_at fr (row_of i) (col_of i))"

lemma foldl_sums_visit: "foldl (sums_visit fr) zero_sums ps = sums_of (map (pixel_weight fr) ps)"
proof -
  have "foldl (sums_visit fr) s ps = foldl (\<lambda>s (r, c, sig). add_sums s r c sig) s (map (pixel_weight fr) ps)" for s
    by (induction ps arbitrary: s) (simp_all add: sums_visit_def pixel_weight_def)
  then show ?thesis by (simp add: sums_of_def)
qed

lemma pixel_weight_ok: "frame_ok fr \<Longrightarrow> i < HX_PIXELS \<Longrightarrow> weight_ok (pixel_weight fr i)"
  using frame_okD(3) [of fr i] by (simp add: weight_ok_def pixel_weight_def hx_frame_at_idx)

lemma peak_pixel_facts:
  assumes "peak_on_grid pk"
  shows "row_of (peak_pixel pk) = pk_r pk" "col_of (peak_pixel pk) = pk_c pk" "peak_pixel pk < HX_PIXELS"
  using idx_row_col [of "pk_r pk" "pk_c pk"] assms by (simp_all add: peak_on_grid_def peak_pixel_def)

lemma expand_fill:
  assumes "peak_on_grid (peaks algo ! pi)"
  obtains v' ps where
    "hx_expand_single_peak algo zm pi
      = (v', contact_of (peaks algo ! pi) pi (sums_of (map (pixel_weight (frame algo)) ps)))"
    "distinct ps" "set ps \<subseteq> {..<HX_PIXELS}" "set ps = claimed algo zm pi"
    "\<And>j. owned v' j \<longleftrightarrow> zm j \<noteq> 0 \<or> j \<in> set ps"
proof -
  let ?seed = "peak_pixel (peaks algo ! pi)"
  let ?v = "(zm(?seed := Suc pi), True)"
  have seed: "?seed < HX_PIXELS" using peak_pixel_facts(3) [OF assms] .
  have "\<exists>v' ps. resolve_bfs algo pi ?v [?seed] zero_sums = (v', foldl (sums_visit (frame algo)) zero_sums ps)
      \<and> resolve_fill.filled algo pi ?v [?seed] v' ps"
    by (rule resolve_fill.run_filled) (use seed in \<open>auto simp: owned_def\<close>)
  then obtain v' ps
    where run: "resolve_bfs algo pi ?v [?seed] zero_sums = (v', foldl (sums_visit (frame algo)) zero_sums ps)"
      and f: "resolve_fill.filled algo pi ?v [?seed] v' ps" by blast
  have st: "resolve_fill.step algo pi ?v = claim_step algo zm pi"
    by (auto simp: resolve_fill.step_def claim_step_def owned_def)
  have reach: "set ps = claimed algo zm pi"
    using resolve_fill.filled_reach [OF f] unfolding st claimed_def by simp
  have mem: "?seed \<in> set ps" unfolding reach claimed_def by blast
  show ?thesis
  proof (rule that)
    show "hx_expand_single_peak algo zm pi
      = (v', contact_of (peaks algo ! pi) pi (sums_of (map (pixel_weight (frame algo)) ps)))"
      unfolding hx_expand_single_peak_def Let_def peak_pixel_def [symmetric] run foldl_sums_visit by simp
    show "distinct ps" "set ps \<subseteq> {..<HX_PIXELS}" using resolve_fill.filledD(1,2) [OF f] .
    show "set ps = claimed algo zm pi" by (rule reach)
    show "owned v' j \<longleftrightarrow> zm j \<noteq> 0 \<or> j \<in> set ps" for j
      using resolve_fill.filledD(3) [OF f, of j] mem by (cases "j = ?seed") (auto simp: owned_def)
  qed
qed

lemma weight_pixels:
  "distinct ps \<Longrightarrow> set ps \<subseteq> {..<HX_PIXELS} \<Longrightarrow> weight (map (pixel_weight fr) ps) = signal_of fr (set ps)"
proof (induction ps)
  case (Cons p ps)
  then show ?case by (simp add: weight_def pixel_weight_def signal_of_def hx_frame_at_idx)
qed (simp add: weight_def signal_of_def)

section \<open>Properties\<close>

text \<open>C39: the expansion of a peak terminates and claims exactly the free expandable pixels reachable
  from it; the contact's area and integrated signal are the exact counts over that region (no 16- or
  32-bit wrap), and its Q8.8 centroid lies inside the region's bounding box.\<close>

theorem expansion_exact:
  assumes "frame_ok (frame algo)" and "peak_on_grid (peaks algo ! pi)"
  shows "(\<forall>j. owned (fst (hx_expand_single_peak algo zm pi)) j \<longleftrightarrow> zm j \<noteq> 0 \<or> j \<in> claimed algo zm pi)
    \<and> ct_area (snd (hx_expand_single_peak algo zm pi)) = int (card (claimed algo zm pi))
    \<and> ct_signal_sum (snd (hx_expand_single_peak algo zm pi)) = signal_of (frame algo) (claimed algo zm pi)
    \<and> Min (col_of ` claimed algo zm pi) * 256 + 128 \<le> ct_x (snd (hx_expand_single_peak algo zm pi))
    \<and> ct_x (snd (hx_expand_single_peak algo zm pi)) \<le> Max (col_of ` claimed algo zm pi) * 256 + 128
    \<and> Min (row_of ` claimed algo zm pi) * 256 + 128 \<le> ct_y (snd (hx_expand_single_peak algo zm pi))
    \<and> ct_y (snd (hx_expand_single_peak algo zm pi)) \<le> Max (row_of ` claimed algo zm pi) * 256 + 128"
proof (rule expand_fill [OF assms(2), of zm])
  fix v' ps
  let ?P = "claimed algo zm pi" and ?pk = "peaks algo ! pi"
  assume run: "hx_expand_single_peak algo zm pi
      = (v', contact_of ?pk pi (sums_of (map (pixel_weight (frame algo)) ps)))"
    and ps: "distinct ps" "set ps \<subseteq> {..<HX_PIXELS}" "set ps = ?P"
    and own: "\<And>j. owned v' j \<longleftrightarrow> zm j \<noteq> 0 \<or> j \<in> set ps"
  let ?ws = "map (pixel_weight (frame algo)) ps"
  have ok: "\<forall>w\<in>set ?ws. weight_ok w" using ps(2) pixel_weight_ok [OF assms(1)] by auto
  have len: "length ?ws \<le> HX_PIXELS" using card_pixels_le [OF ps(1,2)] by simp
  have fin: "finite ?P" unfolding ps(3) [symmetric] by simp
  have seed: "peak_pixel ?pk \<in> ?P" unfolding claimed_def by blast
  have in_P: "Min (row_of ` ?P) \<le> row_of i \<and> row_of i \<le> Max (row_of ` ?P)
      \<and> Min (col_of ` ?P) \<le> col_of i \<and> col_of i \<le> Max (col_of ` ?P)" if "i \<in> ?P" for i
    using fin that by simp
  have box: "\<forall>w\<in>set ?ws. Min (row_of ` ?P) \<le> fst w \<and> fst w \<le> Max (row_of ` ?P)
      \<and> Min (col_of ` ?P) \<le> fst (snd w) \<and> fst (snd w) \<le> Max (col_of ` ?P)"
    using in_P ps(3) by (auto simp: pixel_weight_def)
  have lim: "0 \<le> Min (row_of ` ?P)" "Max (row_of ` ?P) < 40" "0 \<le> Min (col_of ` ?P)" "Max (col_of ` ?P) < 60"
    using box_range [of ?P] seed ps(2,3) by auto
  have pk: "Min (row_of ` ?P) \<le> pk_r ?pk" "pk_r ?pk \<le> Max (row_of ` ?P)"
    "Min (col_of ` ?P) \<le> pk_c ?pk" "pk_c ?pk \<le> Max (col_of ` ?P)"
    using in_P [OF seed] peak_pixel_facts [OF assms(2)] by auto
  note b = contact_in_box [OF ok len box pk lim, of pi]
  have "int (length ?ws) = int (card ?P)" using distinct_card [OF ps(1)] ps(3) by simp
  moreover have "weight ?ws = signal_of (frame algo) ?P" using weight_pixels [OF ps(1,2)] ps(3) by simp
  ultimately show ?thesis unfolding run fst_conv snd_conv using b own ps(3) by simp
qed

section \<open>Edge compensation stays on the sensor\<close>

definition edge_params_ok :: "hx_det_params \<Rightarrow> bool" where
  "edge_params_ok p \<longleftrightarrow> edge_push_q8 p \<le> 1280 \<and> edge_blend_q8 p \<le> 1280"

lemma push_out_range:
  assumes "0 < m" "m \<le> 1280" "0 < b" "b \<le> 1280" "0 \<le> d" "d < b"
  shows "0 \<le> push_out m b d \<and> push_out m b d \<le> m"
proof -
  have "0 \<le> m * (b - d)" "m * (b - d) \<le> m * b" using assms by (auto intro: mult_left_mono)
  moreover have "m * b \<le> 1280 * 1280" using assms by (intro mult_mono) auto
  ultimately have e: "s32 (m * (b - d)) = m * (b - d)" by (intro s32_id) auto
  have "0 \<le> (m * (b - d)) sdiv b \<and> (m * (b - d)) sdiv b \<le> m"
    using assms \<open>0 \<le> m * (b - d)\<close> \<open>m * (b - d) \<le> m * b\<close> by (intro sdiv_bounds) auto
  then show ?thesis unfolding push_out_def e .
qed

lemma compensate_axis_range:
  assumes "0 < m" "m \<le> 1280" "0 < b" "b \<le> 1280" "40 \<le> n" "128 \<le> x" "x \<le> (n - 1) * 256 + 128"
  shows "0 \<le> compensate_axis m b n x \<and> compensate_axis m b n x \<le> n * 256
    \<and> \<bar>compensate_axis m b n x - x\<bar> \<le> m
    \<and> (compensate_axis m b n x < x \<longrightarrow> x < b) \<and> (x < compensate_axis m b n x \<longrightarrow> (n - 1) * 256 + 128 - x < b)"
proof (cases "x < b")
  case True
  have l: "0 \<le> push_out m b x \<and> push_out m b x \<le> m" using push_out_range assms True by simp
  define y where "y = max (x - push_out m b x) 0"
  have y: "y \<le> x" "x - m \<le> y" "0 \<le> y" using l assms by (auto simp: y_def)
  have n: "39 * 256 \<le> (n - 1) * 256" using assms by simp
  then have "\<not> (n - 1) * 256 + 128 - y < b" using assms True y by linarith
  then have e: "compensate_axis m b n x = y" using True by (simp add: compensate_axis_def Let_def y_def)
  show ?thesis unfolding e using y n assms True by auto
next
  case False
  show ?thesis
  proof (cases "(n - 1) * 256 + 128 - x < b")
    case True
    have "0 \<le> push_out m b ((n - 1) * 256 + 128 - x) \<and> push_out m b ((n - 1) * 256 + 128 - x) \<le> m"
      using assms True by (intro push_out_range) auto
    then show ?thesis using False True assms by (auto simp: compensate_axis_def Let_def)
  next
    case nr: False
    have "compensate_axis m b n x = x" using False nr by (simp add: compensate_axis_def Let_def)
    then show ?thesis using assms by simp
  qed
qed

text \<open>A contact whose centroid lies between the outermost line centres.\<close>

definition contact_on_grid :: "hx_contact \<Rightarrow> bool" where
  "contact_on_grid ct \<longleftrightarrow> 128 \<le> ct_x ct \<and> ct_x ct \<le> 59 * 256 + 128
     \<and> 128 \<le> ct_y ct \<and> ct_y ct \<le> 39 * 256 + 128"

text \<open>Edge compensation moves a contact by at most \<open>edge_push_q8\<close> per axis, never off the sensor, and
  only towards a border the contact is within \<open>edge_blend_q8\<close> of; everything else of the contact
  is unchanged.\<close>

theorem edge_compensation_bounded:
  assumes "edge_params_ok p" "contact_on_grid ct"
  shows "0 \<le> ct_x (hx_edge_compensate p ct) \<and> ct_x (hx_edge_compensate p ct) \<le> 60 * 256
    \<and> 0 \<le> ct_y (hx_edge_compensate p ct) \<and> ct_y (hx_edge_compensate p ct) \<le> 40 * 256
    \<and> \<bar>ct_x (hx_edge_compensate p ct) - ct_x ct\<bar> \<le> max 0 (edge_push_q8 p)
    \<and> \<bar>ct_y (hx_edge_compensate p ct) - ct_y ct\<bar> \<le> max 0 (edge_push_q8 p)
    \<and> (ct_x (hx_edge_compensate p ct) < ct_x ct \<longrightarrow> ct_x ct < edge_blend_q8 p)
    \<and> (ct_x ct < ct_x (hx_edge_compensate p ct) \<longrightarrow> 59 * 256 + 128 - ct_x ct < edge_blend_q8 p)
    \<and> ct_signal_sum (hx_edge_compensate p ct) = ct_signal_sum ct
    \<and> ct_source_peak_id (hx_edge_compensate p ct) = ct_source_peak_id ct"
proof (cases "\<not> edge_comp_enabled p \<or> edge_push_q8 p \<le> 0 \<or> edge_blend_q8 p \<le> 0")
  case True
  then have "hx_edge_compensate p ct = ct" by (auto simp: hx_edge_compensate_def Let_def)
  then show ?thesis using assms(2) by (simp add: contact_on_grid_def)
next
  case False
  then have e: "hx_edge_compensate p ct = ct\<lparr>ct_x := compensate_axis (edge_push_q8 p) (edge_blend_q8 p) 60 (ct_x ct),
      ct_y := compensate_axis (edge_push_q8 p) (edge_blend_q8 p) 40 (ct_y ct)\<rparr>"
    by (simp add: hx_edge_compensate_def Let_def)
  show ?thesis
    unfolding e
    using compensate_axis_range [of "edge_push_q8 p" "edge_blend_q8 p" 60 "ct_x ct"]
      compensate_axis_range [of "edge_push_q8 p" "edge_blend_q8 p" 40 "ct_y ct"] assms False
    by (simp add: edge_params_ok_def contact_on_grid_def)
qed

text \<open>The push is not mirror-symmetric: with the default tunables a contact at the centre of
  the last column is pushed by the full half cell, one at the centre of the first column only by
  three eighths of a cell, because the distance to the left border is measured from coordinate 0
  although the comment takes 0 to be the centre of column 0 (it is 128).\<close>

theorem edge_push_asymmetric:
  "compensate_axis (edge_push_q8 default_det) (edge_blend_q8 default_det) 60 (59 * 256 + 128)
      = 59 * 256 + 128 + 128
    \<and> compensate_axis (edge_push_q8 default_det) (edge_blend_q8 default_det) 60 (0 * 256 + 128)
      = 0 * 256 + 128 - 96"
  by (simp add: compensate_axis_def push_out_def default_det_def s32_id sdiv_nonneg)

section \<open>The output positions\<close>

lemma local_centroid_box:
  assumes "frame_ok (frame algo)" "peak_on_grid (peaks algo ! pi)"
  shows "contact_on_grid (hx_local_centroid algo pi)"
proof -
  let ?pk = "peaks algo ! pi" and ?fr = "frame algo"
  let ?ds = "[(-1, -1), (-1, 0), (-1, 1), (0, -1), (0, 0), (0, 1), (1, -1), (1, 0), (1, 1)] :: (int \<times> int) list"
  let ?keep = "\<lambda>(dr, dc). on_grid (pk_r ?pk + dr) (pk_c ?pk + dc)
    \<and> 0 < hx_frame_at ?fr (pk_r ?pk + dr) (pk_c ?pk + dc)"
  let ?w = "\<lambda>(dr, dc). (pk_r ?pk + dr, pk_c ?pk + dc, hx_frame_at ?fr (pk_r ?pk + dr) (pk_c ?pk + dc))"
  have fold: "foldl (\<lambda>s (dr, dc).
      let r = pk_r ?pk + dr; c = pk_c ?pk + dc; sig = hx_frame_at ?fr r c in
      if \<not> on_grid r c then s else if sig \<le> 0 then s else add_sums s r c sig) s ds
    = foldl (\<lambda>s (r, c, sig). add_sums s r c sig) s (map ?w (filter ?keep ds))" for s ds
  proof (induction ds arbitrary: s)
    case (Cons d ds)
    then show ?case by (cases d; cases "?keep d") (auto simp: Let_def not_less not_le)
  qed simp
  let ?ws = "map ?w (filter ?keep ?ds)"
  have e: "hx_local_centroid algo pi = contact_of ?pk pi (sums_of ?ws)"
    unfolding hx_local_centroid_def Let_def sums_of_def fold [symmetric] by (simp add: Let_def)
  have sig: "hx_frame_at ?fr r c \<le> 32767" if "on_grid r c" for r c
    using frame_okD(3) [OF assms(1) idx_row_col(3) [OF that]] that by (simp add: hx_frame_at_on at_rc_def)
  have "\<forall>w\<in>set (map ?w (filter ?keep ds)). weight_ok w" for ds
    using sig by (auto simp: weight_ok_def on_grid_def)
  then have ok: "\<forall>w\<in>set ?ws. weight_ok w" by blast
  have len: "length ?ws \<le> HX_PIXELS" using length_filter_le [of ?keep ?ds] by simp
  have "weight_ok w \<Longrightarrow> 0 \<le> fst w \<and> fst w \<le> 39 \<and> 0 \<le> fst (snd w) \<and> fst (snd w) \<le> 59" for w
    by (simp add: weight_ok_def)
  then have box: "\<forall>w\<in>set ?ws. 0 \<le> fst w \<and> fst w \<le> 39 \<and> 0 \<le> fst (snd w) \<and> fst (snd w) \<le> 59"
    using ok by blast
  have "0 \<le> pk_r ?pk" "pk_r ?pk \<le> 39" "0 \<le> pk_c ?pk" "pk_c ?pk \<le> 59"
    using assms(2) by (auto simp: peak_on_grid_def on_grid_def)
  from contact_in_box [OF ok len box this] show ?thesis unfolding e contact_on_grid_def by simp
qed

text \<open>A resolved contact: on the sensor after the push.\<close>

definition contact_on_sensor :: "hx_contact \<Rightarrow> bool" where
  "contact_on_sensor ct \<longleftrightarrow> 0 \<le> ct_x ct \<and> ct_x ct \<le> 60 * 256 \<and> 0 \<le> ct_y ct \<and> ct_y ct \<le> 40 * 256"

lemma compensate_on_sensor:
  assumes "edge_params_ok p" "contact_on_grid ct"
  shows "contact_on_sensor (hx_edge_compensate p ct)"
proof (cases "\<not> edge_comp_enabled p \<or> edge_push_q8 p \<le> 0 \<or> edge_blend_q8 p \<le> 0")
  case True
  then have "hx_edge_compensate p ct = ct" by (auto simp: hx_edge_compensate_def Let_def)
  then show ?thesis using assms(2) by (simp add: contact_on_grid_def contact_on_sensor_def)
next
  case False
  then show ?thesis
    using compensate_axis_range [of "edge_push_q8 p" "edge_blend_q8 p" 60 "ct_x ct"]
      compensate_axis_range [of "edge_push_q8 p" "edge_blend_q8 p" 40 "ct_y ct"] assms
    by (simp add: edge_params_ok_def contact_on_grid_def contact_on_sensor_def hx_edge_compensate_def Let_def)
qed

lemma expand_on_grid:
  assumes "frame_ok (frame algo)" "peak_on_grid (peaks algo ! pi)"
  shows "contact_on_grid (snd (hx_expand_single_peak algo zm pi))"
proof (rule expand_fill [OF assms(2), of zm])
  fix v' ps
  assume run: "hx_expand_single_peak algo zm pi
      = (v', contact_of (peaks algo ! pi) pi (sums_of (map (pixel_weight (frame algo)) ps)))"
    and ps: "distinct ps" "set ps \<subseteq> {..<HX_PIXELS}"
  let ?ws = "map (pixel_weight (frame algo)) ps"
  have ok: "\<forall>w\<in>set ?ws. weight_ok w" using ps(2) pixel_weight_ok [OF assms(1)] by auto
  have len: "length ?ws \<le> HX_PIXELS" using card_pixels_le [OF ps(1,2)] by simp
  have "weight_ok w \<Longrightarrow> 0 \<le> fst w \<and> fst w \<le> 39 \<and> 0 \<le> fst (snd w) \<and> fst (snd w) \<le> 59" for w
    by (simp add: weight_ok_def)
  then have box: "\<forall>w\<in>set ?ws. 0 \<le> fst w \<and> fst w \<le> 39 \<and> 0 \<le> fst (snd w) \<and> fst (snd w) \<le> 59"
    using ok by blast
  have "0 \<le> pk_r (peaks algo ! pi)" "pk_r (peaks algo ! pi) \<le> 39"
    "0 \<le> pk_c (peaks algo ! pi)" "pk_c (peaks algo ! pi) \<le> 59"
    using assms(2) by (auto simp: peak_on_grid_def on_grid_def)
  from contact_in_box [OF ok len box this]
  show ?thesis unfolding run contact_on_grid_def by simp
qed

lemma resolve_peak_on_sensor:
  assumes "frame_ok (frame algo)" "edge_params_ok (det algo)" "peak_on_grid (peaks algo ! pi)"
  shows "contact_on_sensor (snd (resolve_peak algo zm pi))"
proof -
  obtain zm' clean ct where e: "hx_expand_single_peak algo zm pi = ((zm', clean), ct)"
    by (metis surj_pair)
  have "contact_on_grid ct" using expand_on_grid [OF assms(1,3), of zm] e by simp
  moreover have "contact_on_grid (hx_local_centroid algo pi)" by (rule local_centroid_box [OF assms(1,3)])
  ultimately have g: "contact_on_grid (if \<not> clean then hx_local_centroid algo pi else ct)" by simp
  then have "contact_on_sensor (if \<not> clean then hx_local_centroid algo pi else ct)"
    by (auto simp: contact_on_grid_def contact_on_sensor_def)
  then show ?thesis
    using compensate_on_sensor [OF assms(2) g] by (simp add: resolve_peak_def e Let_def)
qed

lemma resolve_all_sound:
  assumes "frame_ok (frame algo)" "edge_params_ok (det algo)" "\<forall>p\<in>set (peaks algo). peak_on_grid p"
  shows "(\<forall>ct\<in>set (resolve_all algo). contact_on_sensor ct)
    \<and> length (resolve_all algo) = min (length (peaks algo)) HX_MAX_PEAKS"
proof -
  have "(\<forall>ct\<in>set (snd (foldl (resolve_step algo) st pis)). contact_on_sensor ct)
      \<and> length (snd (foldl (resolve_step algo) st pis)) = length (snd st) + length pis"
    if "\<forall>pi\<in>set pis. pi < length (peaks algo)" "\<forall>ct\<in>set (snd st). contact_on_sensor ct" for st pis
    using that
  proof (induction pis arbitrary: st)
    case (Cons pi pis)
    have "contact_on_sensor (snd (resolve_peak algo (fst st) pi))"
      using assms Cons.prems(1) by (intro resolve_peak_on_sensor) auto
    moreover have "snd (resolve_step algo st pi) = snd st @ [snd (resolve_peak algo (fst st) pi)]"
      by (simp add: resolve_step_def split: prod.split)
    ultimately have on: "\<forall>ct\<in>set (snd (resolve_step algo st pi)). contact_on_sensor ct"
      and len: "length (snd (resolve_step algo st pi)) = Suc (length (snd st))"
      using Cons.prems(2) by auto
    have "\<forall>pi\<in>set pis. pi < length (peaks algo)" using Cons.prems(1) by simp
    from Cons.IH [OF this on] show ?case unfolding foldl_Cons len by simp
  qed simp
  from this [of "[0..<min (length (peaks algo)) HX_MAX_PEAKS]" "(\<lambda>_. 0, [])"] show ?thesis
    unfolding resolve_all_def by simp
qed

interpretation contact_order: strict_weak contact_stronger
  by unfold_locales (auto simp: contact_stronger_def)

text \<open>The capacity cut keeps the strongest: at most ten contacts remain, nothing is cut when there
  are at most ten, and otherwise every contact cut is at most as strong as every contact kept.\<close>

theorem strongest_contacts_kept:
  "length (strongest_contacts cts) = min (length cts) HIMAX_MAX_TOUCH
    \<and> (\<exists>rest. mset cts = mset (strongest_contacts cts) + mset rest
      \<and> (\<forall>a\<in>set (strongest_contacts cts). \<forall>b\<in>set rest. ct_signal_sum b \<le> ct_signal_sum a))"
proof (cases "length cts > HIMAX_MAX_TOUCH")
  case False
  then show ?thesis by (auto simp: strongest_contacts_def intro!: exI [of _ "[]"])
next
  case True
  let ?s = "sel_sort contact_stronger cts"
  have so: "sorted_wrt (\<lambda>a b. ct_signal_sum b \<le> ct_signal_sum a) ?s"
    using contact_order.sel_sort_sorted [of cts] by (simp add: contact_stronger_def not_less)
  have "mset cts = mset (take HIMAX_MAX_TOUCH ?s) + mset (drop HIMAX_MAX_TOUCH ?s)"
    by (metis append_take_drop_id mset_append mset_sel_sort)
  moreover have "\<forall>a\<in>set (take HIMAX_MAX_TOUCH ?s). \<forall>b\<in>set (drop HIMAX_MAX_TOUCH ?s).
      ct_signal_sum b \<le> ct_signal_sum a"
  proof -
    have "sorted_wrt (\<lambda>a b. ct_signal_sum b \<le> ct_signal_sum a) (take HIMAX_MAX_TOUCH ?s @ drop HIMAX_MAX_TOUCH ?s)"
      unfolding append_take_drop_id by (rule so)
    then show ?thesis unfolding sorted_wrt_append by blast
  qed
  moreover have "strongest_contacts cts = take HIMAX_MAX_TOUCH ?s"
    using True by (simp add: strongest_contacts_def)
  ultimately show ?thesis using True by auto
qed

lemma output_range:
  "contact_on_sensor ct \<Longrightarrow> 0 \<le> pos_x (output_pos ct) \<and> pos_x (output_pos ct) \<le> 2560
    \<and> 0 \<le> pos_y (output_pos ct) \<and> pos_y (output_pos ct) \<le> 1600"
  using sdiv_bounds [of 6 0 "ct_x ct" 2560] sdiv_bounds [of 32 0 "5 * ct_y ct" 1600]
  by (auto simp: contact_on_sensor_def output_pos_def clamp_def s32_id)

lemma resolve_ok:
  assumes "frame_ok (frame algo)" "edge_params_ok (det algo)" "\<forall>p\<in>set (peaks algo). peak_on_grid p"
  shows "length (snd (hx_expand_and_resolve algo)) = length (contacts (fst (hx_expand_and_resolve algo)))
    \<and> length (snd (hx_expand_and_resolve algo)) \<le> HIMAX_MAX_TOUCH
    \<and> (\<forall>p\<in>set (snd (hx_expand_and_resolve algo)). pos_inside 2560 1600 p)
    \<and> (\<forall>ct\<in>set (contacts (fst (hx_expand_and_resolve algo))). \<not> edge_rejected (det algo) ct)"
proof -
  let ?k = "strongest_contacts (resolve_all algo)"
  have "set ?k \<subseteq> set (resolve_all algo)"
    using set_take_subset [of HIMAX_MAX_TOUCH "sel_sort contact_stronger (resolve_all algo)"]
    by (auto simp: strongest_contacts_def)
  then have on: "\<forall>ct\<in>set ?k. contact_on_sensor ct" using resolve_all_sound [OF assms] by blast
  have len: "length ?k \<le> HIMAX_MAX_TOUCH" by (auto simp: strongest_contacts_def)
  have "length (filter P ?k) \<le> HIMAX_MAX_TOUCH" for P
    using length_filter_le [of P ?k] len by linarith
  then show ?thesis
    using on output_range by (auto simp: hx_expand_and_resolve_def Let_def pos_inside_def)
qed

text \<open>C40: every frame resolves to at most ten output positions, one per kept contact in the same
  order, all on the panel (0..2560 by 0..1600, so the 16-bit clamp never acts), and none of them is
  a weak contact in the reject margin.\<close>

theorem resolved_positions_on_panel:
  assumes "frame_ok (frame algo)" "edge_params_ok (det algo)" "\<forall>p\<in>set (peaks algo). peak_on_grid p"
  shows "length (snd (hx_expand_and_resolve algo)) = length (contacts (fst (hx_expand_and_resolve algo)))
    \<and> length (snd (hx_expand_and_resolve algo)) \<le> HIMAX_MAX_TOUCH
    \<and> (\<forall>p\<in>set (snd (hx_expand_and_resolve algo)). pos_inside 2560 1600 p)
    \<and> (\<forall>ct\<in>set (contacts (fst (hx_expand_and_resolve algo))). \<not> edge_rejected (det algo) ct)"
  by (rule resolve_ok [OF assms])

section \<open>Witnesses\<close>

definition one_peak :: hx_algo where
  "one_peak = one_touch\<lparr>peaks := [peak_at one_touch 0 small_zone 125]\<rparr>"

lemma one_peak_facts:
  "frame_ok (frame one_peak)" "edge_params_ok (det one_peak)" "\<forall>p\<in>set (peaks one_peak). peak_on_grid p"
  using one_touch_frame
  by (simp_all add: one_peak_def one_touch_def peak_at_def peak_on_grid_def on_grid_def row_of_def
      col_of_def Let_def edge_params_ok_def new_algo_def hx_algo_full_reset_def
      hx_algo_init_defaults_def default_det_def)

theorem resolved_positions_on_panel_witness:
  "length (snd (hx_expand_and_resolve one_peak)) \<le> HIMAX_MAX_TOUCH"
  using resolved_positions_on_panel [OF one_peak_facts] by blast

theorem expansion_exact_witness:
  "ct_signal_sum (snd (hx_expand_single_peak one_peak (\<lambda>_. 0) 0))
    = signal_of (frame one_peak) (claimed one_peak (\<lambda>_. 0) 0)"
proof -
  have "peak_on_grid (peaks one_peak ! 0)" using one_peak_facts(3) by (simp add: one_peak_def)
  from expansion_exact [OF one_peak_facts(1) this] show ?thesis by blast
qed

definition corner_contact :: hx_contact where
  "corner_contact = contact_of (peak_at one_touch 0 small_zone 0) 0 zero_sums"

theorem edge_compensation_bounded_witness:
  "0 \<le> ct_x (hx_edge_compensate default_det corner_contact)"
proof -
  have "edge_params_ok default_det" "contact_on_grid corner_contact"
    by (simp_all add: edge_params_ok_def default_det_def contact_on_grid_def corner_contact_def
        contact_of_def zero_sums_def peak_at_def row_of_def col_of_def Let_def)
  from edge_compensation_bounded [OF this] show ?thesis by blast
qed

theorem strongest_contacts_kept_witness:
  "length (strongest_contacts (replicate 12 corner_contact)) = 10"
  using strongest_contacts_kept [of "replicate 12 corner_contact"] by simp

end
