(* ===== verification/Hx_Process.thy ===== *)
theory Hx_Process
  imports Hx_Preprocess Hx_Resolve Hx_Track
begin

text \<open>
  One frame through the whole algorithm (\<open>hx_algo_process_frame_state\<close>, \<open>hx-algo-track.c\<close>):
  preprocessing, zones, palms, peaks, contacts, ghosts, tracking and the touch-active state machine,
  with the firmware's finger bit as the authority for lift-off.  The result is \<open>None\<close> only where the
  Hungarian search would not return; \<open>frames_keep_invariant\<close> shows that it always does.
\<close>

section \<open>The frame pipeline\<close>

definition has_active_track :: "hx_algo \<Rightarrow> bool" where
  "has_active_track algo \<longleftrightarrow> list_ex trk_active (tracks algo)"

definition note_firmware_finger :: "hx_algo \<Rightarrow> hx_finger_state \<Rightarrow> hx_algo" where
  "note_firmware_finger algo fs =
     (case fs of HX_FINGER_PRESENT \<Rightarrow> algo\<lparr>firmware_finger_present := True\<rparr>
      | HX_FINGER_ABSENT \<Rightarrow> algo\<lparr>firmware_finger_present := False\<rparr>
      | HX_FINGER_UNKNOWN \<Rightarrow> algo)"

text \<open>From the start of the frame to the preprocessed grid.\<close>

definition frame_front :: "hx_algo \<Rightarrow> int list \<Rightarrow> hx_finger_state \<Rightarrow> hx_algo" where
  "frame_front algo raw fs =
     (let rising = (fs = HX_FINGER_PRESENT \<and> \<not> firmware_finger_present algo);
          algo = note_firmware_finger algo fs in
      hx_preprocess_frame_state
        (algo\<lparr>fast_edge_start_pending :=
           firmware_edge_fast_start (trk algo) \<and> rising \<and> \<not> has_active_track algo\<rparr>) raw fs)"

definition frame_contacts :: "hx_algo \<Rightarrow> hx_algo \<times> input_mt_pos list" where
  "frame_contacts algo =
     (let (algo, dets) = hx_expand_and_resolve (hx_detect_peaks (hx_reject_palms (hx_detect_macro_zones algo))) in
      hx_suppress_rx_ghosts algo dets)"

definition fast_edge_start :: "hx_algo \<Rightarrow> bool \<Rightarrow> input_mt_pos list \<Rightarrow> bool" where
  "fast_edge_start algo fresh dets \<longleftrightarrow> firmware_edge_fast_start (trk algo) \<and> fresh
     \<and> length dets = 1 \<and> length (contacts algo) = 1
     \<and> (ct_is_edge (contacts algo ! 0) \<or> ct_fast_start_candidate (contacts algo ! 0))
     \<and> \<not> ct_continuation_only (contacts algo ! 0)"

definition lift_off :: "hx_algo \<Rightarrow> hx_algo" where
  "lift_off algo = algo\<lparr>zones := [], peaks := [], prev_peaks := [], contacts := [],
     tracks := map hx_reset_track (tracks algo)\<rparr>"

definition update_touch_active :: "hx_algo \<Rightarrow> hx_algo" where
  "update_touch_active algo =
     (if list_ex (\<lambda>t. trk_active t \<and> trk_debounce t = 0) (tracks algo)
      then if touch_active algo then algo
        else let n = u8 (touch_start_frames algo + 1) in
          algo\<lparr>touch_start_frames := n, touch_active := n \<ge> track_start_debounce (trk algo)\<rparr>
      else algo\<lparr>touch_start_frames := 0, touch_active := False\<rparr>)"

definition report_track :: "bool \<Rightarrow> hx_track \<Rightarrow> hx_track" where
  "report_track touch t = (if trk_active t \<and> trk_debounce t = 0 \<and> touch then t\<lparr>trk_reported := True\<rparr> else t)"

definition finish_frame :: "hx_algo \<Rightarrow> hx_algo \<times> int" where
  "finish_frame algo0 =
     (let algo = update_touch_active algo0;
          algo = algo\<lparr>tracks := map (report_track (touch_active algo)) (tracks algo)\<rparr> in
      (algo, hx_count_stable_tracks algo))"

definition hx_algo_process_frame_state ::
  "hx_algo \<Rightarrow> int list \<Rightarrow> hx_finger_state \<Rightarrow> (hx_algo \<times> int) option" where
  "hx_algo_process_frame_state algo0 raw fs =
     (let fresh = (fs = HX_FINGER_PRESENT \<and> \<not> firmware_finger_present algo0 \<and> \<not> has_active_track algo0);
          algo = frame_front algo0 raw fs in
      if fs = HX_FINGER_ABSENT then Some (finish_frame (lift_off algo))
      else
        let (algo, dets) = frame_contacts algo;
            algo = algo\<lparr>fast_edge_start_pending := fast_edge_start algo fresh dets\<rparr> in
        map_option (\<lambda>a. finish_frame (a\<lparr>fast_edge_start_pending := False\<rparr>)) (hx_track_contacts algo dets))"

text \<open>A run of frames, collecting the reported counts.\<close>

fun process_frames :: "hx_algo \<Rightarrow> (int list \<times> hx_finger_state) list \<Rightarrow> (hx_algo \<times> int list) option" where
  "process_frames algo [] = Some (algo, [])"
| "process_frames algo ((raw, fs) # fr) =
     Option.bind (hx_algo_process_frame_state algo raw fs) (\<lambda>(algo, n).
       map_option (\<lambda>(algo, ns). (algo, n # ns)) (process_frames algo fr))"

section \<open>The frame state\<close>

definition ages_ok :: "hx_peak list \<Rightarrow> bool" where
  "ages_ok ps \<longleftrightarrow> (\<forall>p\<in>set ps. 0 \<le> pk_age p \<and> pk_age p \<le> 255)"

definition boxes_ok :: "hx_algo \<Rightarrow> bool" where
  "boxes_ok a \<longleftrightarrow> (\<forall>b\<in>set (palm_boxes a). box_in_grid b) \<and> length (palm_boxes a) \<le> HX_MAX_PALM_BOXES"

definition det_params_ok :: "hx_det_params \<Rightarrow> bool" where
  "det_params_ok p \<longleftrightarrow> edge_params_ok p \<and> 0 \<le> palm_box_expand_rows p \<and> 0 \<le> palm_box_expand_cols p"

definition algo_ok :: "hx_algo \<Rightarrow> bool" where
  "algo_ok a \<longleftrightarrow> (baseline_initialized a \<longrightarrow> baseline_ok a) \<and> pre_params_ok (pre a) \<and> det_params_ok (det a)
     \<and> trk_params_ok (trk a) \<and> tracks_ok a \<and> ids_in_range (prev_peaks a) \<and> distinct (map pk_id (prev_peaks a))
     \<and> ages_ok (prev_peaks a) \<and> 1 \<le> next_peak_id a \<and> next_peak_id a \<le> 255 \<and> boxes_ok a"

lemma algo_okD:
  assumes "algo_ok a"
  shows "baseline_initialized a \<longrightarrow> baseline_ok a" "pre_params_ok (pre a)" "det_params_ok (det a)" "trk_params_ok (trk a)"
    "tracks_ok a" "ids_in_range (prev_peaks a)" "distinct (map pk_id (prev_peaks a))" "ages_ok (prev_peaks a)"
    "1 \<le> next_peak_id a" "next_peak_id a \<le> 255" "boxes_ok a"
  using assms by (simp_all add: algo_ok_def)

section \<open>Stage by stage\<close>

text \<open>The fields preprocessing leaves alone.\<close>

lemma seed_rest [simp]:
  "firmware_finger_present (seed_baseline a raw fs) = firmware_finger_present a"
  "tracks (seed_baseline a raw fs) = tracks a" "trk (seed_baseline a raw fs) = trk a"
  "det (seed_baseline a raw fs) = det a" "pre (seed_baseline a raw fs) = pre a"
  "prev_peaks (seed_baseline a raw fs) = prev_peaks a"
  "next_peak_id (seed_baseline a raw fs) = next_peak_id a"
  "palm_boxes (seed_baseline a raw fs) = palm_boxes a"
  by (simp_all add: seed_baseline_def)

lemma pass_rest [simp]:
  "firmware_finger_present (baseline_pass a raw fs) = firmware_finger_present a"
  "tracks (baseline_pass a raw fs) = tracks a" "trk (baseline_pass a raw fs) = trk a"
  "det (baseline_pass a raw fs) = det a" "pre (baseline_pass a raw fs) = pre a"
  "prev_peaks (baseline_pass a raw fs) = prev_peaks a"
  "next_peak_id (baseline_pass a raw fs) = next_peak_id a"
  "palm_boxes (baseline_pass a raw fs) = palm_boxes a"
  by (simp_all add: baseline_pass_def Let_def)

lemma idle_keeps [simp]:
  "firmware_finger_present (idle_snapshot a raw) = firmware_finger_present a"
  "tracks (idle_snapshot a raw) = tracks a" "trk (idle_snapshot a raw) = trk a"
  "det (idle_snapshot a raw) = det a" "pre (idle_snapshot a raw) = pre a"
  "prev_peaks (idle_snapshot a raw) = prev_peaks a"
  "next_peak_id (idle_snapshot a raw) = next_peak_id a"
  "palm_boxes (idle_snapshot a raw) = palm_boxes a"
  by (simp_all add: idle_snapshot_def Let_def)

lemma prepare_keeps [simp]:
  "firmware_finger_present (hx_prepare_frame_baseline a raw fs) = firmware_finger_present a"
  "tracks (hx_prepare_frame_baseline a raw fs) = tracks a"
  "trk (hx_prepare_frame_baseline a raw fs) = trk a"
  "det (hx_prepare_frame_baseline a raw fs) = det a"
  "pre (hx_prepare_frame_baseline a raw fs) = pre a"
  "prev_peaks (hx_prepare_frame_baseline a raw fs) = prev_peaks a"
  "next_peak_id (hx_prepare_frame_baseline a raw fs) = next_peak_id a"
  "palm_boxes (hx_prepare_frame_baseline a raw fs) = palm_boxes a"
  by (simp_all add: hx_prepare_frame_baseline_def Let_def)

lemma edge_keeps [simp]:
  "firmware_finger_present (hx_edge_boost a) = firmware_finger_present a"
  "tracks (hx_edge_boost a) = tracks a" "trk (hx_edge_boost a) = trk a"
  "det (hx_edge_boost a) = det a" "pre (hx_edge_boost a) = pre a"
  "prev_peaks (hx_edge_boost a) = prev_peaks a" "next_peak_id (hx_edge_boost a) = next_peak_id a"
  "palm_boxes (hx_edge_boost a) = palm_boxes a"
  unfolding hx_edge_boost_def Let_def by (simp_all split: if_split)

lemma iir_keeps [simp]:
  "firmware_finger_present (hx_apply_iir a) = firmware_finger_present a"
  "tracks (hx_apply_iir a) = tracks a" "trk (hx_apply_iir a) = trk a"
  "det (hx_apply_iir a) = det a" "pre (hx_apply_iir a) = pre a"
  "prev_peaks (hx_apply_iir a) = prev_peaks a" "next_peak_id (hx_apply_iir a) = next_peak_id a"
  "palm_boxes (hx_apply_iir a) = palm_boxes a"
  unfolding hx_apply_iir_def Let_def by (simp_all split: if_split)

lemma cmf_keeps [simp]:
  "firmware_finger_present (hx_apply_cmf a) = firmware_finger_present a"
  "tracks (hx_apply_cmf a) = tracks a" "trk (hx_apply_cmf a) = trk a"
  "det (hx_apply_cmf a) = det a" "pre (hx_apply_cmf a) = pre a"
  "prev_peaks (hx_apply_cmf a) = prev_peaks a" "next_peak_id (hx_apply_cmf a) = next_peak_id a"
  "palm_boxes (hx_apply_cmf a) = palm_boxes a"
  by (simp_all add: hx_apply_cmf_def)

lemma note_keeps [simp]:
  "tracks (note_firmware_finger a fs) = tracks a" "trk (note_firmware_finger a fs) = trk a"
  "det (note_firmware_finger a fs) = det a" "pre (note_firmware_finger a fs) = pre a"
  "prev_peaks (note_firmware_finger a fs) = prev_peaks a"
  "next_peak_id (note_firmware_finger a fs) = next_peak_id a"
  "palm_boxes (note_firmware_finger a fs) = palm_boxes a"
  by (cases fs; simp add: note_firmware_finger_def)+

lemma front_keeps [simp]:
  "tracks (frame_front a raw fs) = tracks a" "trk (frame_front a raw fs) = trk a"
  "det (frame_front a raw fs) = det a" "pre (frame_front a raw fs) = pre a"
  "prev_peaks (frame_front a raw fs) = prev_peaks a"
  "next_peak_id (frame_front a raw fs) = next_peak_id a"
  "palm_boxes (frame_front a raw fs) = palm_boxes a"
  by (simp_all add: frame_front_def hx_preprocess_frame_state_def Let_def)

lemma front_ok:
  assumes "algo_ok a" "raw_ok raw"
  shows "algo_ok (frame_front a raw fs)" "frame_ok (frame (frame_front a raw fs))"
proof -
  have p: "pre_params_ok (pre a)" "baseline_initialized a \<longrightarrow> baseline_ok a" using assms(1) by (simp_all add: algo_ok_def)
  have "baseline_ok (frame_front a raw fs) \<and> frame_ok (frame (frame_front a raw fs))"
    unfolding frame_front_def Let_def
    by (rule preprocess_ok [OF assms(2)])
      (use p in \<open>auto simp: note_firmware_finger_def baseline_ok_def split: hx_finger_state.split\<close>)
  then show "algo_ok (frame_front a raw fs)" "frame_ok (frame (frame_front a raw fs))"
    using assms(1) by (auto simp: algo_ok_def tracks_ok_def boxes_ok_def)
qed

lemma detected_zones_on_grid:
  assumes "frame_ok (frame a)"
  shows "\<forall>z\<in>set (zones (hx_detect_macro_zones a)). zone_in_grid z"
    "\<forall>i\<in>set (zone_arena (hx_detect_macro_zones a)). i < HX_PIXELS"
proof -
  note z = zones_ok [OF assms]
  have up: "above (frame a) (macro_threshold (det a)) i \<Longrightarrow> i < HX_PIXELS" for i by (simp add: above_def)
  then show "\<forall>i\<in>set (zone_arena (hx_detect_macro_zones a)). i < HX_PIXELS" using z by auto
  show "\<forall>z\<in>set (zones (hx_detect_macro_zones a)). zone_in_grid z"
  proof
    fix zn assume "zn \<in> set (zones (hx_detect_macro_zones a))"
    then obtain i where i: "above (frame a) (macro_threshold (det a)) i"
      "set (zone_pixels (zone_arena (hx_detect_macro_zones a)) zn) = component (frame a) (macro_threshold (det a)) i"
      "zone_describes (frame a) zn (component (frame a) (macro_threshold (det a)) i)" using z by blast
    have "component (frame a) (macro_threshold (det a)) i \<subseteq> {..<HX_PIXELS}"
      unfolding i(2) [symmetric] using z up by (auto simp: zone_pixels_def dest!: in_set_takeD in_set_dropD)
    moreover have "component (frame a) (macro_threshold (det a)) i \<noteq> {}" using i(1) by (auto simp: component_def)
    ultimately show "zone_in_grid zn"
      using i(3) box_range [of "component (frame a) (macro_threshold (det a)) i"]
      by (simp add: zone_describes_def zone_in_grid_def)
  qed
qed

lemma detect_zones_keeps [simp]:
  "tracks (hx_detect_macro_zones a) = tracks a" "trk (hx_detect_macro_zones a) = trk a"
  "det (hx_detect_macro_zones a) = det a" "pre (hx_detect_macro_zones a) = pre a"
  "prev_peaks (hx_detect_macro_zones a) = prev_peaks a" "next_peak_id (hx_detect_macro_zones a) = next_peak_id a"
  "palm_boxes (hx_detect_macro_zones a) = palm_boxes a" "frame (hx_detect_macro_zones a) = frame a"
  "baseline_q8 (hx_detect_macro_zones a) = baseline_q8 a"
  "baseline_release_hold (hx_detect_macro_zones a) = baseline_release_hold a"
  "baseline_initialized (hx_detect_macro_zones a) = baseline_initialized a"
  by (simp_all add: hx_detect_macro_zones_def split: prod.split)

lemma algo_ok_cong:
  assumes "algo_ok a" "baseline_q8 b = baseline_q8 a" "baseline_release_hold b = baseline_release_hold a"
    "baseline_initialized b = baseline_initialized a" "pre b = pre a" "det b = det a" "trk b = trk a"
    "tracks b = tracks a" "prev_peaks b = prev_peaks a" "next_peak_id b = next_peak_id a" "boxes_ok b"
  shows "algo_ok b"
  using assms by (simp add: algo_ok_def baseline_ok_def tracks_ok_def)

text \<open>Palm rejection: a subset of the zones, the same arena, and boxes on the grid.\<close>

lemma update_box_rest [simp]:
  "tracks (hx_update_palm_box a z) = tracks a" "trk (hx_update_palm_box a z) = trk a"
  "pre (hx_update_palm_box a z) = pre a" "prev_peaks (hx_update_palm_box a z) = prev_peaks a"
  "next_peak_id (hx_update_palm_box a z) = next_peak_id a" "baseline_q8 (hx_update_palm_box a z) = baseline_q8 a"
  "baseline_release_hold (hx_update_palm_box a z) = baseline_release_hold a"
  "baseline_initialized (hx_update_palm_box a z) = baseline_initialized a"
  by (auto simp: hx_update_palm_box_def Let_def split: option.splits)

definition same_but_zones :: "hx_algo \<Rightarrow> hx_algo \<Rightarrow> bool" where
  "same_but_zones a b \<longleftrightarrow> baseline_q8 b = baseline_q8 a \<and> baseline_release_hold b = baseline_release_hold a
     \<and> baseline_initialized b = baseline_initialized a \<and> pre b = pre a \<and> det b = det a \<and> trk b = trk a
     \<and> tracks b = tracks a \<and> prev_peaks b = prev_peaks a \<and> next_peak_id b = next_peak_id a
     \<and> frame b = frame a \<and> zone_arena b = zone_arena a"

lemma reject_fold_same:
  "same_but_zones al (foldl (\<lambda>al z. if P z then hx_update_palm_box al z else al\<lparr>zones := zones al @ [z]\<rparr>) al zs)"
proof (induction zs arbitrary: al)
  case Nil
  show ?case by (simp add: same_but_zones_def)
next
  case (Cons z zs)
  have "same_but_zones al (if P z then hx_update_palm_box al z else al\<lparr>zones := zones al @ [z]\<rparr>)"
    by (simp add: same_but_zones_def)
  then show ?case using Cons [of "if P z then hx_update_palm_box al z else al\<lparr>zones := zones al @ [z]\<rparr>"]
    by (simp add: same_but_zones_def)
qed

lemma aged_boxes_ok:
  assumes "boxes_ok a"
  shows "boxes_ok (hx_age_palm_boxes a)"
proof -
  have "length (palm_boxes (hx_age_palm_boxes a)) \<le> length (palm_boxes a)"
    unfolding hx_age_palm_boxes_def by (simp del: filter_map)
  moreover have "\<forall>b\<in>set (palm_boxes (hx_age_palm_boxes a)). box_in_grid b"
    using assms by (auto simp: boxes_ok_def hx_age_palm_boxes_def age_box_def box_in_grid_def)
  ultimately show ?thesis using assms by (simp add: boxes_ok_def)
qed

lemma age_rest:
  "same_but_zones a (hx_age_palm_boxes a)"
  by (simp add: same_but_zones_def hx_age_palm_boxes_def)

lemma reject_ok:
  assumes "\<forall>z\<in>set (zones a). zone_in_grid z" "boxes_ok a" "det_params_ok (det a)"
  shows "same_but_zones a (hx_reject_palms a) \<and> boxes_ok (hx_reject_palms a)
    \<and> set (zones (hx_reject_palms a)) \<subseteq> set (zones a)"
proof (cases "palm_enabled (det a)")
  case False
  then show ?thesis using aged_boxes_ok [OF assms(2)] age_rest [of a]
    by (simp add: hx_reject_palms_def)
next
  case True
  let ?b = "(hx_age_palm_boxes a)\<lparr>zones := []\<rparr>"
  have boxes: "\<forall>b\<in>set (palm_boxes ?b). box_in_grid b" "length (palm_boxes ?b) \<le> HX_MAX_PALM_BOXES"
    using aged_boxes_ok [OF assms(2)] by (simp_all add: boxes_ok_def)
  have p: "0 \<le> palm_box_expand_rows (det ?b)" "0 \<le> palm_box_expand_cols (det ?b)"
    using assms(3) by (simp_all add: det_params_ok_def)
  let ?r = "palm_rejected (hx_age_palm_boxes a)"
  note f = reject_fold [OF assms(1) p boxes, of ?r]
  have e: "hx_reject_palms a = foldl (\<lambda>al z. if ?r z then hx_update_palm_box al z else al\<lparr>zones := zones al @ [z]\<rparr>) ?b (zones a)"
    using True by (simp add: hx_reject_palms_def Let_def)
  have "same_but_zones a ?b" using age_rest [of a] by (simp add: same_but_zones_def)
  then have "same_but_zones a (hx_reject_palms a)"
    using reject_fold_same [where al = ?b and P = ?r and zs = "zones a"] by (simp add: e same_but_zones_def)
  then show ?thesis using f unfolding e boxes_ok_def by auto
qed

text \<open>Peak identities: positions and ages.\<close>

definition place :: "hx_peak \<Rightarrow> int \<times> int" where
  "place p = (pk_r p, pk_c p)"

lemma match_ids_place:
  assumes "ages_ok prev" "ages_ok ps"
  shows "map place (match_ids prev ps cu pu) = map place ps \<and> ages_ok (match_ids prev ps cu pu)"
  using assms
proof (induction prev ps cu pu rule: match_ids.induct)
  case (1 prev ps cu pu)
  show ?case
  proof (cases "best_id_pair ps prev cu pu")
    case None
    then show ?thesis using "1.prems" by (subst (1 2) match_ids.simps) simp
  next
    case (Some ij)
    obtain i j where ij: "ij = (i, j)" by (cases ij)
    let ?t = "take_id (ps ! i) (prev ! j)"
    have f: "i < length ps" "j < length prev" using best_id_pair_free [of ps prev cu pu i j] Some ij by auto
    have "0 \<le> pk_age (prev ! j)" "pk_age (prev ! j) \<le> 255" using "1.prems"(1) f(2) by (auto simp: ages_ok_def)
    then have "ages_ok (ps[i := ?t])"
      using "1.prems"(2) by (auto simp: ages_ok_def take_id_def dest!: subsetD [OF set_update_subset_insert])
    from "1.IH" [OF Some ij [symmetric] "1.prems"(1) this]
    have r: "map place (match_ids prev (ps[i := ?t]) (cu(i := True)) (pu(j := True))) = map place (ps[i := ?t])
      \<and> ages_ok (match_ids prev (ps[i := ?t]) (cu(i := True)) (pu(j := True)))" .
    have "map place (ps[i := ?t]) = map place ps"
      using f(1) by (intro nth_equalityI) (auto simp: nth_list_update place_def take_id_def)
    then show ?thesis using r Some ij by (subst (1 2) match_ids.simps) simp
  qed
qed

lemma fresh_ids_place:
  assumes "foldl fresh_id (ps, n) is = (ps', n')" "\<forall>i\<in>set is. i < length ps" "ages_ok ps"
  shows "map place ps' = map place ps \<and> ages_ok ps'"
  using assms
proof (induction "is" arbitrary: ps n)
  case (Cons i "is")
  obtain qs m where q: "fresh_id (ps, n) i = (qs, m)" by fastforce
  have i: "i < length ps" using Cons.prems(2) by simp
  have e: "qs = ps \<or> (\<exists>v. qs = ps[i := (ps ! i)\<lparr>pk_id := v\<rparr>])"
    using q by (auto simp: fresh_id_def split: if_splits prod.splits)
  then have p: "map place qs = map place ps"
    using i by (auto intro!: nth_equalityI simp: nth_list_update place_def)
  have "ages_ok qs" using e Cons.prems(3) i
    by (auto simp: ages_ok_def dest!: subsetD [OF set_update_subset_insert])
  then have "map place ps' = map place qs \<and> ages_ok ps'"
    using Cons.IH [of qs m] Cons.prems(1,2) q e by auto
  then show ?case using p by simp
qed simp

lemma detect_peaks_ok:
  assumes "\<forall>i\<in>set (zone_arena a). i < HX_PIXELS" "algo_ok a"
  shows "algo_ok (hx_detect_peaks a)" "\<forall>p\<in>set (peaks (hx_detect_peaks a)). peak_on_grid p"
    "ages_ok (peaks (hx_detect_peaks a))" "frame (hx_detect_peaks a) = frame a"
proof -
  let ?b = "a\<lparr>peaks := candidate_peaks a\<rparr>"
  note cand = candidate_peaks_ok [of a]
  note A = algo_okD [OF assms(2)]
  have grid: "peak_on_grid p" if p: "p \<in> set (candidate_peaks a)" for p
  proof -
    obtain zi idx where "zi < length (zones a)" "idx \<in> set (zone_pixels (zone_arena a) (zones a ! zi))"
      "pk_r p = row_of idx" "pk_c p = col_of idx" using cand p unfolding peak_of_def by blast
    moreover from this have "idx < HX_PIXELS"
      using assms(1) by (auto simp: zone_pixels_def dest!: in_set_takeD in_set_dropD)
    ultimately show ?thesis by (simp add: peak_on_grid_def)
  qed
  have ids: "ids_in_range (prev_peaks ?b)" "distinct (map pk_id (prev_peaks ?b))" "1 \<le> next_peak_id ?b"
    "next_peak_id ?b \<le> 255" "length (peaks ?b) \<le> HX_MAX_PEAKS"
    using A cand by simp_all
  note T = track_peak_ids_ok [OF ids]
  let ?ps0 = "map (\<lambda>p. p\<lparr>pk_id := 0, pk_age := 0\<rparr>) (candidate_peaks a)"
  let ?ps1 = "match_ids (prev_peaks a) ?ps0 (\<lambda>_. False) (\<lambda>_. False)"
  obtain ps n where f: "foldl fresh_id (?ps1, next_peak_id a) [0..<length ?ps1] = (ps, n)" by fastforce
  have d: "hx_detect_peaks a = ?b\<lparr>peaks := ps, next_peak_id := n, prev_peaks := ps\<rparr>"
    using f by (simp add: hx_detect_peaks_def hx_track_peak_ids_def Let_def)
  have m: "map place ?ps1 = map place ?ps0 \<and> ages_ok ?ps1"
    by (rule match_ids_place [OF A(8)]) (auto simp: ages_ok_def)
  have g: "map place ps = map place ?ps1 \<and> ages_ok ps"
    by (rule fresh_ids_place [OF f]) (use m in auto)
  have pl: "map place ps = map place (candidate_peaks a)" using m g by (simp add: place_def comp_def)
  have on: "peak_on_grid p \<longleftrightarrow> (\<lambda>(r, c). on_grid r c) (place p)" for p by (simp add: peak_on_grid_def place_def)
  have "\<forall>x\<in>set (map place ps). (\<lambda>(r, c). on_grid r c) x"
    unfolding pl using grid on by simp
  then have "\<forall>p\<in>set ps. peak_on_grid p" using on by simp
  then show "\<forall>p\<in>set (peaks (hx_detect_peaks a)). peak_on_grid p" by (simp add: d)
  show "ages_ok (peaks (hx_detect_peaks a))" "frame (hx_detect_peaks a) = frame a" using g by (simp_all add: d)
  have "ids_in_range ps" "distinct (map pk_id ps)" "1 \<le> n" "n \<le> 255"
    using T unfolding hx_detect_peaks_def [symmetric] d by simp_all
  then show "algo_ok (hx_detect_peaks a)"
    using A g by (simp add: d algo_ok_def baseline_ok_def tracks_ok_def boxes_ok_def)
qed

text \<open>Contacts carry the age of a peak.\<close>

lemma edge_compensate_age [simp]: "ct_source_peak_age (hx_edge_compensate p ct) = ct_source_peak_age ct"
  by (simp add: hx_edge_compensate_def Let_def)

lemma resolve_peak_age:
  "ct_source_peak_age (snd (resolve_peak a zm pi)) = pk_age (peaks a ! pi)"
  by (simp add: resolve_peak_def hx_expand_single_peak_def hx_local_centroid_def contact_of_def Let_def
      split: prod.split)

lemma resolve_all_ages:
  assumes "ages_ok (peaks a)"
  shows "\<forall>ct\<in>set (resolve_all a). 0 \<le> ct_source_peak_age ct \<and> ct_source_peak_age ct \<le> 255"
proof -
  have "\<forall>ct\<in>set (snd (foldl (resolve_step a) st pis)). 0 \<le> ct_source_peak_age ct \<and> ct_source_peak_age ct \<le> 255"
    if "\<forall>pi\<in>set pis. pi < length (peaks a)" "\<forall>ct\<in>set (snd st). 0 \<le> ct_source_peak_age ct \<and> ct_source_peak_age ct \<le> 255"
    for st pis
    using that
  proof (induction pis arbitrary: st)
    case (Cons pi pis)
    have "0 \<le> pk_age (peaks a ! pi) \<and> pk_age (peaks a ! pi) \<le> 255"
      using assms Cons.prems(1) by (auto simp: ages_ok_def)
    then have "\<forall>ct\<in>set (snd (resolve_step a st pi)). 0 \<le> ct_source_peak_age ct \<and> ct_source_peak_age ct \<le> 255"
      using Cons.prems(2) resolve_peak_age [of a "fst st" pi]
      by (auto simp: resolve_step_def split: prod.splits)
    with Cons.IH [of "resolve_step a st pi"] Cons.prems(1) show ?case by simp
  qed simp
  from this [of "[0..<min (length (peaks a)) HX_MAX_PEAKS]" "(\<lambda>_. 0, [])"] show ?thesis
    unfolding resolve_all_def by simp
qed

lemma expand_contacts_ok:
  assumes "ages_ok (peaks a)" "hx_expand_and_resolve a = (b, dets)"
  shows "contacts_ok b" "b = a\<lparr>contacts := contacts b\<rparr>"
proof -
  have b: "contacts b = filter (\<lambda>ct. \<not> edge_rejected (det a) ct) (strongest_contacts (resolve_all a))"
    "b = a\<lparr>contacts := contacts b\<rparr>"
    using assms(2) by (auto simp: hx_expand_and_resolve_def Let_def)
  have "set (strongest_contacts (resolve_all a)) \<subseteq> set (resolve_all a)"
    by (auto simp: strongest_contacts_def dest: in_set_takeD)
  then show "contacts_ok b" using resolve_all_ages [OF assms(1)] unfolding contacts_ok_def b(1) by auto
  show "b = a\<lparr>contacts := contacts b\<rparr>" by (rule b(2))
qed

lemma suppress_ok:
  assumes "hx_suppress_rx_ghosts a dets = (b, dets')" "length (contacts a) = length dets"
  shows "set dets' \<subseteq> set dets" "set (contacts b) \<subseteq> set (contacts a)" "b = a\<lparr>contacts := contacts b\<rparr>"
    "length (contacts b) = length dets'" "length dets' \<le> length dets"
proof -
  have "length (filter P [0..<n]) \<le> n" for P n using length_filter_le [of P "[0..<n]"] by simp
  then show "set dets' \<subseteq> set dets" "set (contacts b) \<subseteq> set (contacts a)" "b = a\<lparr>contacts := contacts b\<rparr>"
    "length (contacts b) = length dets'" "length dets' \<le> length dets"
    using assms by (auto simp: hx_suppress_rx_ghosts_def Let_def split: if_splits)
qed

lemma frame_contacts_ok:
  assumes "algo_ok a" "frame_ok (frame a)" "frame_contacts a = (b, dets)"
  shows "algo_ok b" "contacts_ok b" "\<forall>d\<in>set dets. on_panel d" "length (contacts b) = length dets"
    "length dets \<le> HIMAX_MAX_TOUCH" "trk b = trk a" "touch_active b = touch_active b"
proof -
  define z where "z = hx_detect_macro_zones a"
  define r where "r = hx_reject_palms z"
  define p where "p = hx_detect_peaks r"
  obtain c ds where c: "hx_expand_and_resolve p = (c, ds)" by fastforce
  have g: "hx_suppress_rx_ghosts c ds = (b, dets)"
    using assms(3) c by (simp add: frame_contacts_def z_def r_def p_def)
  note A = algo_okD [OF assms(1)]
  note Z = detected_zones_on_grid [OF assms(2), folded z_def]
  have zok: "algo_ok z" "det_params_ok (det z)" "boxes_ok z"
    using assms(1) A(3,11) by (auto intro: algo_ok_cong simp: z_def boxes_ok_def)
  note R = reject_ok [OF Z(1) zok(3,2), folded r_def]
  have rok: "algo_ok r" by (rule algo_ok_cong [OF zok(1)]) (use R in \<open>simp_all add: same_but_zones_def\<close>)
  have arena: "\<forall>i\<in>set (zone_arena r). i < HX_PIXELS" using Z(2) R by (simp add: same_but_zones_def)
  note P = detect_peaks_ok [OF arena rok, folded p_def]
  have fr: "frame_ok (frame p)" using assms(2) P(4) R by (simp add: same_but_zones_def z_def)
  have ep: "edge_params_ok (det p)" using algo_okD(3) [OF P(1)] by (simp add: det_params_ok_def)
  note X = resolve_ok [OF fr ep P(2), unfolded c fst_conv snd_conv]
  note E = expand_contacts_ok [OF P(3) c]
  have len: "length (contacts c) = length ds" using X by simp
  note S = suppress_ok [OF g len]
  have bp: "b = p\<lparr>contacts := contacts b\<rparr>" 
  proof -
    have "c\<lparr>contacts := contacts b\<rparr> = p\<lparr>contacts := contacts b\<rparr>"
      using arg_cong [OF E(2), of "\<lambda>x. x\<lparr>contacts := contacts b\<rparr>"] by simp
    then show ?thesis using S(3) by simp
  qed
  show "algo_ok b"
    by (subst bp) (use P(1) in \<open>simp add: algo_ok_def baseline_ok_def tracks_ok_def boxes_ok_def\<close>)
  show "contacts_ok b" using E(1) S(2) by (auto simp: contacts_ok_def)
  show "\<forall>d\<in>set dets. on_panel d" using X S(1) by auto
  show "length (contacts b) = length dets" by (rule S(4))
  show "length dets \<le> HIMAX_MAX_TOUCH" using X S(5) by simp
  show "trk b = trk a" "touch_active b = touch_active b"
    using arg_cong [OF bp, of trk] R by (simp_all add: same_but_zones_def p_def hx_detect_peaks_def hx_track_peak_ids_def
        Let_def z_def split: prod.split)
qed

text \<open>The end of the frame.\<close>

lemma report_track_slot: "slot_ok p t \<Longrightarrow> slot_ok p (report_track b t)"
  by (auto simp: report_track_def slot_ok_def track_inside_def)

lemma update_touch_keeps [simp]:
  "tracks (update_touch_active a) = tracks a" "trk (update_touch_active a) = trk a" "det (update_touch_active a) = det a"
  "pre (update_touch_active a) = pre a" "prev_peaks (update_touch_active a) = prev_peaks a"
  "next_peak_id (update_touch_active a) = next_peak_id a" "palm_boxes (update_touch_active a) = palm_boxes a"
  "baseline_q8 (update_touch_active a) = baseline_q8 a"
  "baseline_release_hold (update_touch_active a) = baseline_release_hold a"
  "baseline_initialized (update_touch_active a) = baseline_initialized a"
  by (simp_all add: update_touch_active_def Let_def)

lemma finish_ok:
  assumes "algo_ok a" "finish_frame a = (b, n)"
  shows "algo_ok b" "n = hx_count_stable_tracks b" "0 \<le> n" "n \<le> 10"
proof -
  have b: "b = (update_touch_active a)\<lparr>tracks := map (report_track (touch_active (update_touch_active a))) (tracks a)\<rparr>"
    "n = hx_count_stable_tracks b"
    using assms(2) by (auto simp: finish_frame_def Let_def)
  have t: "tracks_ok b" using algo_okD(5) [OF assms(1)] report_track_slot by (auto simp: b(1) tracks_ok_def)
  then show "algo_ok b" using assms(1) unfolding b(1) by (simp add: algo_ok_def baseline_ok_def boxes_ok_def)
  show "n = hx_count_stable_tracks b" by (rule b(2))
  have "length (tracks b) = HIMAX_MAX_TOUCH" using t by (simp add: tracks_ok_def)
  then have "length (filter (\<lambda>t. trk_active t \<and> trk_reported t) (tracks b)) \<le> HIMAX_MAX_TOUCH"
    by (metis length_filter_le)
  then show "0 \<le> n" "n \<le> 10" by (simp_all add: b(2) hx_count_stable_tracks_def)
qed

lemma lift_off_ok: "algo_ok a \<Longrightarrow> algo_ok (lift_off a)"
  by (auto simp: algo_ok_def lift_off_def tracks_ok_def baseline_ok_def boxes_ok_def ids_in_range_def ages_ok_def
      hx_reset_track_def)

lemma process_frame_ok:
  assumes "algo_ok a" "raw_ok raw"
  shows "\<exists>b n. hx_algo_process_frame_state a raw fs = Some (b, n) \<and> algo_ok b
    \<and> n = hx_count_stable_tracks b \<and> 0 \<le> n \<and> n \<le> 10"
proof (cases "fs = HX_FINGER_ABSENT")
  case True
  then have "hx_algo_process_frame_state a raw fs = Some (finish_frame (lift_off (frame_front a raw fs)))"
    by (simp add: hx_algo_process_frame_state_def Let_def)
  moreover obtain b n where f: "finish_frame (lift_off (frame_front a raw fs)) = (b, n)" by fastforce
  ultimately show ?thesis using finish_ok [OF lift_off_ok [OF front_ok(1) [OF assms]] f] by simp
next
  case False
  define fr where "fr = frame_front a raw fs"
  obtain c dets where c: "frame_contacts fr = (c, dets)" by fastforce
  note C = frame_contacts_ok [OF front_ok [OF assms, where fs = fs, folded fr_def] c]
  define e where "e = c\<lparr>fast_edge_start_pending := fast_edge_start c
    (fs = HX_FINGER_PRESENT \<and> \<not> firmware_finger_present a \<and> \<not> has_active_track a) dets\<rparr>"
  have e: "algo_ok e" "contacts_ok e" using C(1,2) by (simp_all add: e_def algo_ok_def baseline_ok_def
      tracks_ok_def boxes_ok_def contacts_ok_def)
  obtain d table ts where d: "hx_track_contacts e dets = Some d" "d = e\<lparr>peak_competition := table, tracks := ts\<rparr>" "tracks_ok d"
    using track_contacts_step [OF algo_okD(5,4) [OF e(1)] e(2) C(3)] by blast
  have dok: "algo_ok (d\<lparr>fast_edge_start_pending := False\<rparr>)"
    using e(1) d(3) by (simp add: d(2) algo_ok_def baseline_ok_def tracks_ok_def boxes_ok_def)
  obtain b n where f: "finish_frame (d\<lparr>fast_edge_start_pending := False\<rparr>) = (b, n)" by fastforce
  have "hx_algo_process_frame_state a raw fs = Some (b, n)"
    using False c d(1) f by (simp add: hx_algo_process_frame_state_def Let_def fr_def [symmetric] e_def)
  then show ?thesis using finish_ok [OF dok f] by simp
qed

section \<open>Properties\<close>

text \<open>C2: the whole pipeline is total and safe for any number of frames: from a state that satisfies the
  frame invariant, every sequence of raw frames with any finger bits is processed to the end, the
  invariant (baseline in range, peak identities distinct, palm boxes and slots consistent and on the
  panel) holds again, and every reported count is between 0 and 10.\<close>

theorem frames_keep_invariant:
  assumes "algo_ok a" "\<forall>(raw, fs)\<in>set frames. raw_ok raw"
  shows "\<exists>b ns. process_frames a frames = Some (b, ns) \<and> algo_ok b \<and> length ns = length frames
    \<and> (\<forall>n\<in>set ns. 0 \<le> n \<and> n \<le> 10)"
  using assms
proof (induction frames arbitrary: a)
  case (Cons f frames)
  obtain raw fs where f: "f = (raw, fs)" by fastforce
  then obtain b n where b: "hx_algo_process_frame_state a raw fs = Some (b, n)" "algo_ok b" "0 \<le> n \<and> n \<le> 10"
    using process_frame_ok [OF Cons.prems(1), of raw fs] Cons.prems(2) by auto
  have "\<forall>(raw, fs)\<in>set frames. raw_ok raw" using Cons.prems(2) by auto
  from Cons.IH [OF b(2) this] obtain c ns where "process_frames b frames = Some (c, ns)" "algo_ok c"
    "length ns = length frames" "\<forall>n\<in>set ns. 0 \<le> n \<and> n \<le> 10" by blast
  then show ?case using b f by simp
qed simp

text \<open>C8: the firmware's finger bit is the authority for lift-off: whatever the state and the raw frame, a
  frame with the finger bit cleared reports nothing, frees every slot and leaves touch-active off,
  with no peak identity carried over.\<close>

theorem lift_off_is_authoritative:
  "\<exists>b. hx_algo_process_frame_state a raw HX_FINGER_ABSENT = Some (b, 0)
    \<and> tracks b = replicate (length (tracks a)) zero_track \<and> \<not> touch_active b \<and> prev_peaks b = [] \<and> contacts b = []
    \<and> \<not> firmware_finger_present b"
proof -
  let ?f = "lift_off (frame_front a raw HX_FINGER_ABSENT)"
  have "map hx_reset_track ts = replicate (length ts) zero_track" for ts
    by (induction ts) (simp_all add: hx_reset_track_def)
  then have t: "tracks ?f = replicate (length (tracks a)) zero_track" by (simp add: lift_off_def)
  have ffp: "\<not> firmware_finger_present ?f"
    by (simp add: lift_off_def frame_front_def hx_preprocess_frame_state_def note_firmware_finger_def Let_def)
  have "update_touch_active ?f = ?f\<lparr>touch_start_frames := 0, touch_active := False\<rparr>"
    unfolding update_touch_active_def t by (simp add: list_ex_iff)
  then have "finish_frame ?f = (?f\<lparr>touch_start_frames := 0, touch_active := False\<rparr>, 0)"
    by (simp add: finish_frame_def Let_def t hx_count_stable_tracks_def report_track_def map_replicate_const)
  moreover have "hx_algo_process_frame_state a raw HX_FINGER_ABSENT = Some (finish_frame ?f)"
    by (simp add: hx_algo_process_frame_state_def Let_def)
  ultimately show ?thesis using t ffp by (simp add: lift_off_def)
qed

lemma new_algo_ok: "algo_ok new_algo"
proof -
  have "pre_params_ok (pre new_algo)" "det_params_ok (det new_algo)" "trk_params_ok (trk new_algo)"
    by (simp_all add: new_algo_def hx_algo_full_reset_def hx_algo_clear_transient_state_def hx_algo_init_defaults_def
        pre_params_ok_def det_params_ok_def edge_params_ok_def trk_params_ok_def default_pre_def default_det_def
        default_trk_def)
  moreover have "tracks new_algo = replicate HIMAX_MAX_TOUCH zero_track"
    by (simp add: new_algo_def hx_algo_full_reset_def hx_algo_clear_transient_state_def hx_algo_init_defaults_def
        zeroed_algo_def hx_reset_track_def)
  moreover have "\<not> baseline_initialized new_algo" "prev_peaks new_algo = []" "next_peak_id new_algo = 1"
    "palm_boxes new_algo = []"
    by (simp_all add: new_algo_def hx_algo_full_reset_def hx_algo_clear_transient_state_def)
  ultimately show ?thesis
    by (simp add: algo_ok_def tracks_ok_def ids_in_range_def ages_ok_def boxes_ok_def)
qed

definition first_frames :: "(int list \<times> hx_finger_state) list" where
  "first_frames = [(replicate HX_PIXELS 32000, HX_FINGER_ABSENT), (replicate HX_PIXELS 32050, HX_FINGER_PRESENT)]"

theorem frames_keep_invariant_witness:
  "\<exists>b n1 n2. process_frames new_algo first_frames = Some (b, [n1, n2]) \<and> algo_ok b \<and> n1 \<le> 10 \<and> n2 \<le> 10"
proof -
  have "\<forall>(raw, fs)\<in>set first_frames. raw_ok raw" by (simp add: raw_ok_def first_frames_def)
  from frames_keep_invariant [OF new_algo_ok this] obtain b ns where "process_frames new_algo first_frames = Some (b, ns)"
    "algo_ok b" "length ns = length first_frames" "\<forall>n\<in>set ns. 0 \<le> n \<and> n \<le> 10" by blast
  moreover from this(3) obtain n1 n2 where "ns = [n1, n2]" by (auto simp: length_Suc_conv first_frames_def)
  ultimately show ?thesis by auto
qed

end
