(* ===== verification/Step_Systems.thy ===== *)
theory Step_Systems
  imports Main
begin

text \<open>
  The interface of the driver state machines: a step relation over the driver's state and its
  environment, a set of start states, and an invariant that holds at the start and that every step
  keeps.  The consequences for all reachable states are proved once, in the locale
  \<open>invariant_system\<close>, and every driver theory interprets it on its own step relation.
\<close>

inductive reachable :: "('s \<Rightarrow> bool) \<Rightarrow> ('s \<Rightarrow> 's \<Rightarrow> bool) \<Rightarrow> 's \<Rightarrow> bool" for start step where
  init: "start s \<Longrightarrow> reachable start step s"
| more: "reachable start step s \<Longrightarrow> step s t \<Longrightarrow> reachable start step t"

inductive_cases reachable_cases: "reachable start step s"

locale invariant_system =
  fixes start :: "'s \<Rightarrow> bool" and step :: "'s \<Rightarrow> 's \<Rightarrow> bool" and inv :: "'s \<Rightarrow> bool"
  assumes start_inv: "start s \<Longrightarrow> inv s"
    and step_inv: "step s t \<Longrightarrow> inv s \<Longrightarrow> inv t"
begin

lemma reachable_inv: "reachable start step s \<Longrightarrow> inv s"
  by (induction rule: reachable.induct) (auto intro: start_inv step_inv)

lemma steps_inv: "step\<^sup>*\<^sup>* s t \<Longrightarrow> inv s \<Longrightarrow> inv t"
  by (induction rule: rtranclp_induct) (auto intro: step_inv)

lemma reachable_steps: "step\<^sup>*\<^sup>* s t \<Longrightarrow> reachable start step s \<Longrightarrow> reachable start step t"
  by (induction rule: rtranclp_induct) (auto intro: reachable.more)

text \<open>What the invariant forbids in a single step is forbidden in every run.\<close>

lemma reachable_step_property:
  assumes "\<And>s t. step s t \<Longrightarrow> inv s \<Longrightarrow> R s t" "reachable start step s" "step s t"
  shows "R s t"
  using assms reachable_inv by blast

end

end
