(* ===== verification/Driver_Prelude.thy ===== *)
theory Driver_Prelude
  imports Gaokun_Prelude Step_Systems
begin

text \<open>
  What the device drivers share: bytes and little-endian numbers, the kernel's error codes, and
  operations on a device that may fail.  Such an operation takes the state of the device (and of the bus
  it hangs on) and gives the next state with either the error code (\<open>Inl\<close>) or a result (\<open>Inr\<close>); in C
  it is a function returning 0 or a negative code whose caller returns early on failure, which is
  \<open>io_bind\<close>.
\<close>

unbundle bit_operations_syntax

section \<open>Bytes and error codes\<close>

type_synonym byte = "8 word"

definition EINVAL :: int where "EINVAL = 22"
definition EIO :: int where "EIO = 5"
definition ENOMEM :: int where "ENOMEM = 12"
definition ENODEV :: int where "ENODEV = 19"
definition EAGAIN :: int where "EAGAIN = 11"
definition ENODATA :: int where "ENODATA = 61"
definition ETIMEDOUT :: int where "ETIMEDOUT = 110"
definition EHOSTDOWN :: int where "EHOSTDOWN = 112"
definition EUCLEAN :: int where "EUCLEAN = 117"
definition ERANGE :: int where "ERANGE = 34"

lemmas errno_defs = EINVAL_def EIO_def ENOMEM_def ENODEV_def EAGAIN_def ENODATA_def ETIMEDOUT_def
  EHOSTDOWN_def EUCLEAN_def ERANGE_def

definition le16 :: "byte list \<Rightarrow> int" where
  "le16 bs = uint (bs ! 0) + 256 * uint (bs ! 1)"

definition le32 :: "byte list \<Rightarrow> int" where
  "le32 bs = uint (bs ! 0) + 256 * uint (bs ! 1) + 65536 * uint (bs ! 2) + 16777216 * uint (bs ! 3)"

definition le16_bytes :: "int \<Rightarrow> byte list" where
  "le16_bytes v = [word_of_int v, word_of_int (v div 256)]"

definition le32_bytes :: "int \<Rightarrow> byte list" where
  "le32_bytes v = [word_of_int v, word_of_int (v div 256), word_of_int (v div 65536), word_of_int (v div 16777216)]"

lemma byte_range [simp]: "0 \<le> uint (b :: byte)" "uint (b :: byte) < 256"
  using uint_lt2p [of b] by simp_all

lemma le16_range [simp]: "0 \<le> le16 bs" "le16 bs < 65536"
proof -
  show "0 \<le> le16 bs" by (simp add: le16_def)
  show "le16 bs < 65536"
    using byte_range(2) [of "bs ! 0"] byte_range(2) [of "bs ! 1"] unfolding le16_def by linarith
qed

lemma le32_le32_bytes: "0 \<le> v \<Longrightarrow> v < 2 ^ 32 \<Longrightarrow> le32 (le32_bytes v) = v"
proof -
  assume v: "0 \<le> v" "v < 2 ^ 32"
  define a b c where "a = v div 256" and "b = a div 256" and "c = b div 256"
  have abc: "v div 65536 = b" "v div 16777216 = c"
    by (simp_all add: a_def b_def c_def zdiv_zmult2_eq [symmetric])
  have "c < 256" "0 \<le> c" using v by (simp_all add: abc(2) [symmetric] pos_imp_zdiv_nonneg_iff)
  then have c: "c mod 256 = c" by simp
  have "v = v mod 256 + 256 * a" "a = a mod 256 + 256 * b" "b = b mod 256 + 256 * c"
    by (simp_all add: a_def b_def c_def)
  then have "v = v mod 256 + 256 * (a mod 256) + 65536 * (b mod 256) + 16777216 * (c mod 256)"
    unfolding c by linarith
  then show ?thesis
    by (simp add: le32_def le32_bytes_def uint_word_of_int abc a_def [symmetric])
qed

lemma le16_le16_bytes: "0 \<le> v \<Longrightarrow> v < 2 ^ 16 \<Longrightarrow> le16 (le16_bytes v) = v"
  by (simp add: le16_def le16_bytes_def uint_word_of_int)

lemma length_le_bytes [simp]: "length (le32_bytes v) = 4" "length (le16_bytes v) = 2"
  by (simp_all add: le32_bytes_def le16_bytes_def)

section \<open>Operations that may fail\<close>

type_synonym ('w, 'a) io = "'w \<Rightarrow> 'w \<times> (int + 'a)"

definition io_return :: "'a \<Rightarrow> ('w, 'a) io" where
  "io_return x w = (w, Inr x)"

definition io_fail :: "int \<Rightarrow> ('w, 'a) io" where
  "io_fail e w = (w, Inl e)"

definition io_bind :: "('w, 'a) io \<Rightarrow> ('a \<Rightarrow> ('w, 'b) io) \<Rightarrow> ('w, 'b) io" where
  "io_bind m f w = (case m w of (w', Inl e) \<Rightarrow> (w', Inl e) | (w', Inr x) \<Rightarrow> f x w')"

text \<open>An operation whose error is looked at: the handler gets the code.\<close>

definition io_try :: "('w, 'a) io \<Rightarrow> (int \<Rightarrow> ('w, 'b) io) \<Rightarrow> ('a \<Rightarrow> ('w, 'b) io) \<Rightarrow> ('w, 'b) io" where
  "io_try m h f w = (case m w of (w', Inl e) \<Rightarrow> h e w' | (w', Inr x) \<Rightarrow> f x w')"

lemma io_simps [simp]:
  "io_bind (io_return x) f = f x"
  "io_bind (io_fail e) f = io_fail e"
  "io_bind (io_bind m f) g = io_bind m (\<lambda>x. io_bind (f x) g)"
  "io_try (io_return x) h f = f x"
  "io_try (io_fail e) h f = h e"
  by (auto simp: io_bind_def io_return_def io_fail_def io_try_def fun_eq_iff split: prod.splits sum.splits)

lemma io_bind_Inr [simp]:
  "io_bind m f w = (w', Inr y) \<longleftrightarrow> (\<exists>w1 x. m w = (w1, Inr x) \<and> f x w1 = (w', Inr y))"
  by (auto simp: io_bind_def split: prod.splits sum.splits)

lemma io_return_eq [simp]: "io_return x w = (w', r) \<longleftrightarrow> w' = w \<and> r = Inr x"
  by (auto simp: io_return_def)

lemma io_fail_eq [simp]: "io_fail e w = (w', r) \<longleftrightarrow> w' = w \<and> r = Inl e"
  by (auto simp: io_fail_def)

section \<open>Counting device accesses\<close>

text \<open>
  Operations over a device state with an access counter.  \<open>within k m\<close>: whatever the device does, \<open>m\<close>
  makes at most \<open>k\<close> accesses.  The rules for the combinators are in \<open>within_intros\<close>.
\<close>

named_theorems within_intros \<open>bounds on the number of device accesses\<close>

definition within :: "nat \<Rightarrow> ('w \<times> nat, 'a) io \<Rightarrow> bool" where
  "within k m \<longleftrightarrow> (\<forall>w n. snd (fst (m (w, n))) \<le> n + k)"

lemma withinD: "within k m \<Longrightarrow> snd (fst (m w)) \<le> snd w + k"
  by (cases w) (simp add: within_def)

lemma withinI: "(\<And>w n. snd (fst (m (w, n))) \<le> n + k) \<Longrightarrow> within k m"
  by (simp add: within_def)

lemma within_mono: "within a m \<Longrightarrow> a \<le> b \<Longrightarrow> within b m"
  unfolding within_def by (meson add_left_mono order_trans)

lemma within_return [within_intros]: "within 0 (io_return x)"
  by (simp add: within_def io_return_def)

lemma within_fail [within_intros]: "within 0 (io_fail e)"
  by (simp add: within_def io_fail_def)

lemma within_try [within_intros]:
  assumes "within a m" "\<And>e. within b (h e)" "\<And>x. within c (f x)"
  shows "within (a + max b c) (io_try m h f)"
proof (rule withinI)
  fix w n
  obtain w1 n1 r where m: "m (w, n) = ((w1, n1), r)" by (metis prod.exhaust)
  have "n1 \<le> n + a" using withinD [OF assms(1), of "(w, n)"] m by simp
  moreover have "snd (fst (h e (w1, n1))) \<le> n1 + b" "snd (fst (f x (w1, n1))) \<le> n1 + c" for x e
    using withinD [OF assms(2), of e "(w1, n1)"] withinD [OF assms(3), of x "(w1, n1)"] by simp_all
  ultimately show "snd (fst (io_try m h f (w, n))) \<le> n + (a + max b c)"
    using m by (cases r) (fastforce simp: io_try_def max_def intro: order_trans)+
qed

lemma io_bind_try: "io_bind m f = io_try m io_fail f"
  by (auto simp: io_bind_def io_try_def io_fail_def fun_eq_iff split: prod.splits sum.splits)

lemma within_bind [within_intros]:
  assumes "within a m" "\<And>x. within b (f x)"
  shows "within (a + b) (io_bind m f)"
  using within_try [OF assms(1) within_fail assms(2)] by (simp add: io_bind_try)

lemma within_if [within_intros]:
  "within a m \<Longrightarrow> within b m' \<Longrightarrow> within (max a b) (if c then m else m')"
  by (auto intro: within_mono)

end
