(* ===== verification/Ec_Core.thy ===== *)
theory Ec_Core
  imports Driver_Prelude
begin

text \<open>
  The embedded-controller core (\<open>huawei-gaokun-ec.c\<close>, \<open>huawei-gaokun-ec.h\<close>): framing of requests and
  responses, the accessors the battery and UCSI drivers use, the sysfs and hwmon entry points, standby
  and the interrupt handler with the lid switch.  The I2C adapter and the controller behind it are one
  parameter \<open>xfer\<close>: the state of the bus, the bytes written and the number of bytes to read give the
  new state, the number of messages transferred (or an error) and the read buffer.
\<close>

unbundle bit_operations_syntax

section \<open>Requests and responses\<close>

type_synonym 'w i2c_bus = "'w \<Rightarrow> byte list \<Rightarrow> nat \<Rightarrow> 'w \<times> int \<times> byte list"

definition REQ_HDR_SIZE :: nat where "REQ_HDR_SIZE = 3"
definition INPUT_SIZE_OFFSET :: nat where "INPUT_SIZE_OFFSET = 2"
definition RESP_HDR_SIZE :: nat where "RESP_HDR_SIZE = 2"

definition REQ_LEN :: "byte list \<Rightarrow> nat" where
  "REQ_LEN req = REQ_HDR_SIZE + unat (req ! INPUT_SIZE_OFFSET)"

definition MKREQ :: "byte \<Rightarrow> byte \<Rightarrow> nat \<Rightarrow> byte list \<Rightarrow> byte list" where
  "MKREQ reg0 reg1 n args =
     take (3 + n) ([reg0, reg1, of_nat n] @ args @ replicate n 0) @ [0]"

definition MKRESP :: "nat \<Rightarrow> byte list" where
  "MKRESP n = replicate (RESP_HDR_SIZE + n) 0"

definition refill_req :: "byte list \<Rightarrow> byte list \<Rightarrow> byte list" where
  "refill_req dest src = take REQ_HDR_SIZE dest @ src @ drop (REQ_HDR_SIZE + length src) dest"

definition refill_req_byte :: "byte list \<Rightarrow> byte \<Rightarrow> byte list" where
  "refill_req_byte dest b = dest[REQ_HDR_SIZE := b]"

definition extr_resp :: "byte list \<Rightarrow> nat \<Rightarrow> byte list" where
  "extr_resp src n = take n (drop RESP_HDR_SIZE src)"

definition extr_resp_byte :: "byte list \<Rightarrow> byte" where
  "extr_resp_byte src = src ! RESP_HDR_SIZE"

section \<open>Transactions\<close>

definition gaokun_ec_request ::
  "'w i2c_bus \<Rightarrow> 'w \<Rightarrow> byte list \<Rightarrow> nat \<Rightarrow> 'w \<times> int \<times> byte list" where
  "gaokun_ec_request xfer w req resp_len =
     (let (w, ret, resp) = xfer w (take (REQ_LEN req) req) resp_len in
      if ret \<noteq> 2 then (w, ret, resp) else (w, uint (resp ! 0), resp))"

definition gaokun_ec_read ::
  "'w i2c_bus \<Rightarrow> 'w \<Rightarrow> byte list \<Rightarrow> nat \<Rightarrow> 'w \<times> int \<times> byte list" where
  "gaokun_ec_read xfer w req resp_len = gaokun_ec_request xfer w req resp_len"

definition gaokun_ec_write :: "'w i2c_bus \<Rightarrow> 'w \<Rightarrow> byte list \<Rightarrow> 'w \<times> int" where
  "gaokun_ec_write xfer w req =
     (let (w, ret, resp) = gaokun_ec_request xfer w req (length (MKRESP 0)) in (w, ret))"

definition gaokun_ec_read_byte :: "'w i2c_bus \<Rightarrow> 'w \<Rightarrow> byte list \<Rightarrow> 'w \<times> int \<times> byte" where
  "gaokun_ec_read_byte xfer w req =
     (let (w, ret, resp) = gaokun_ec_read xfer w req (length (MKRESP 1)) in
      (w, ret, extr_resp_byte resp))"

text \<open>An accessor that fills its output only on success: \<open>Inl\<close> a nonzero code, or \<open>Inr\<close> the output.\<close>

definition gaokun_ec_read_data ::
  "'w i2c_bus \<Rightarrow> 'w \<Rightarrow> byte list \<Rightarrow> nat \<Rightarrow> 'w \<times> (int + byte list)" where
  "gaokun_ec_read_data xfer w req n =
     (let (w, ret, resp) = gaokun_ec_read xfer w req (length (MKRESP n)) in
      (w, if ret \<noteq> 0 then Inl ret else Inr (extr_resp resp n)))"

section \<open>Power supply\<close>

fun multi_read_loop ::
  "'w i2c_bus \<Rightarrow> 'w \<Rightarrow> byte list \<Rightarrow> byte \<Rightarrow> nat \<Rightarrow> 'w \<times> int \<times> byte list" where
  "multi_read_loop xfer w ec_req reg 0 = (w, 0, [])"
| "multi_read_loop xfer w ec_req reg (Suc n) =
     (let ec_req = refill_req_byte ec_req reg;
          (w, ret, ec_resp) = gaokun_ec_read xfer w ec_req (length (MKRESP 1)) in
      if ret \<noteq> 0 then (w, ret, [])
      else let (w, ret, resp) = multi_read_loop xfer w ec_req (reg + 1) n in
        (w, ret, extr_resp_byte ec_resp # resp))"

text \<open>The result is the bytes stored into the caller's buffer, from its start; the rest is untouched.\<close>

definition gaokun_ec_psy_multi_read ::
  "'w i2c_bus \<Rightarrow> 'w \<Rightarrow> byte \<Rightarrow> nat \<Rightarrow> 'w \<times> int \<times> byte list" where
  "gaokun_ec_psy_multi_read xfer w reg resp_len =
     multi_read_loop xfer w (MKREQ 0x02 0x80 1 [0]) reg resp_len"

definition gaokun_ec_psy_read_byte :: "'w i2c_bus \<Rightarrow> 'w \<Rightarrow> byte \<Rightarrow> byte \<Rightarrow> 'w \<times> int \<times> byte" where
  "gaokun_ec_psy_read_byte xfer w reg b =
     (let (w, ret, resp) = gaokun_ec_psy_multi_read xfer w reg 1 in
      (w, ret, case resp of [] \<Rightarrow> b | r # rs \<Rightarrow> r))"

definition gaokun_ec_psy_read_word :: "'w i2c_bus \<Rightarrow> 'w \<Rightarrow> byte \<Rightarrow> byte list \<Rightarrow> 'w \<times> int \<times> byte list" where
  "gaokun_ec_psy_read_word xfer w reg word =
     (let (w, ret, resp) = gaokun_ec_psy_multi_read xfer w reg 2 in
      (w, ret, resp @ drop (length resp) word))"

definition gaokun_ec_psy_get_smart_charge :: "'w i2c_bus \<Rightarrow> 'w \<Rightarrow> 'w \<times> (int + byte list)" where
  "gaokun_ec_psy_get_smart_charge xfer w = gaokun_ec_read_data xfer w (MKREQ 0x02 0xE4 0 []) 4"

definition validate_battery_threshold_range :: "byte \<Rightarrow> byte \<Rightarrow> bool" where
  "validate_battery_threshold_range lo hi \<longleftrightarrow> hi \<noteq> 0 \<and> lo \<le> hi \<and> hi \<le> 100"

definition gaokun_ec_psy_set_smart_charge :: "'w i2c_bus \<Rightarrow> 'w \<Rightarrow> byte list \<Rightarrow> 'w \<times> int" where
  "gaokun_ec_psy_set_smart_charge xfer w req =
     (if \<not> validate_battery_threshold_range (req ! 2) (req ! 3) then (w, - EINVAL)
      else gaokun_ec_write xfer w (refill_req (MKREQ 0x02 0xE3 4 []) req))"

definition gaokun_ec_psy_get_smart_charge_enable :: "'w i2c_bus \<Rightarrow> 'w \<Rightarrow> 'w \<times> (int + bool)" where
  "gaokun_ec_psy_get_smart_charge_enable xfer w =
     (let (w, ret, state) = gaokun_ec_read_byte xfer w (MKREQ 0x02 0xE6 0 []) in
      (w, if ret \<noteq> 0 then Inl ret else Inr (state \<noteq> 0)))"

definition gaokun_ec_psy_set_smart_charge_enable :: "'w i2c_bus \<Rightarrow> 'w \<Rightarrow> bool \<Rightarrow> 'w \<times> int" where
  "gaokun_ec_psy_set_smart_charge_enable xfer w on =
     gaokun_ec_write xfer w (MKREQ 0x02 0xE5 1 [if on then 1 else 0])"

section \<open>UCSI\<close>

definition gaokun_ec_ucsi_read :: "'w i2c_bus \<Rightarrow> 'w \<Rightarrow> 'w \<times> (int + byte list)" where
  "gaokun_ec_ucsi_read xfer w = gaokun_ec_read_data xfer w (MKREQ 0x03 0xD5 0 []) 20"

definition gaokun_ec_ucsi_write :: "'w i2c_bus \<Rightarrow> 'w \<Rightarrow> byte list \<Rightarrow> 'w \<times> int" where
  "gaokun_ec_ucsi_write xfer w req = gaokun_ec_write xfer w (refill_req (MKREQ 0x03 0xD4 24 []) req)"

definition gaokun_ec_ucsi_get_reg :: "'w i2c_bus \<Rightarrow> 'w \<Rightarrow> 'w \<times> (int + byte list)" where
  "gaokun_ec_ucsi_get_reg xfer w = gaokun_ec_read_data xfer w (MKREQ 0x03 0xD3 0 []) 7"

text \<open>A shift by \<open>-1\<close> is undefined in C; its value is replaced by 0 before it is used.\<close>

definition gaokun_ec_ucsi_pan_ack :: "'w i2c_bus \<Rightarrow> 'w \<Rightarrow> int \<Rightarrow> 'w \<times> int" where
  "gaokun_ec_ucsi_pan_ack xfer w port_id =
     (let data = (if port_id = -1 then 0 else push_bit (nat port_id) 1) in
      gaokun_ec_write xfer w (refill_req_byte (MKREQ 0x03 0xD2 1 []) data))"

section \<open>Fn lock and temperatures\<close>

definition EC_FN_LOCK_ON :: byte where "EC_FN_LOCK_ON = 0x5A"
definition EC_FN_LOCK_OFF :: byte where "EC_FN_LOCK_OFF = 0x55"

definition gaokun_ec_get_fn_lock :: "'w i2c_bus \<Rightarrow> 'w \<Rightarrow> 'w \<times> (int + bool)" where
  "gaokun_ec_get_fn_lock xfer w =
     (let (w, ret, state) = gaokun_ec_read_byte xfer w (MKREQ 0x02 0x6B 0 []) in
      (w, if ret \<noteq> 0 then Inl ret
          else if state = EC_FN_LOCK_ON then Inr True
          else if state = EC_FN_LOCK_OFF then Inr False
          else Inl (- EIO)))"

definition gaokun_ec_set_fn_lock :: "'w i2c_bus \<Rightarrow> 'w \<Rightarrow> bool \<Rightarrow> 'w \<times> int" where
  "gaokun_ec_set_fn_lock xfer w on =
     gaokun_ec_write xfer w (MKREQ 0x02 0x6C 1 [if on then EC_FN_LOCK_ON else EC_FN_LOCK_OFF])"

text \<open>A show routine returns a length or an error code, and the text on success.\<close>

definition fn_lock_show :: "'w i2c_bus \<Rightarrow> 'w \<Rightarrow> 'w \<times> int \<times> string" where
  "fn_lock_show xfer w =
     (case gaokun_ec_get_fn_lock xfer w of
        (w, Inl ret) \<Rightarrow> (w, ret, '''')
      | (w, Inr on) \<Rightarrow> (w, 2, if on then ''1'' @ [CHR 0x0A] else ''0'' @ [CHR 0x0A]))"

text \<open>\<open>kstrtobool\<close> belongs to the kernel: \<open>None\<close> where it reports an error.\<close>

definition fn_lock_store ::
  "(string \<Rightarrow> bool option) \<Rightarrow> 'w i2c_bus \<Rightarrow> 'w \<Rightarrow> string \<Rightarrow> 'w \<times> int" where
  "fn_lock_store kstrtobool xfer w buf =
     (case kstrtobool buf of
        None \<Rightarrow> (w, - EINVAL)
      | Some on \<Rightarrow>
          let (w, ret) = gaokun_ec_set_fn_lock xfer w on in
          (w, if ret \<noteq> 0 then ret else int (length buf)))"

definition temp_reg :: "byte list" where
  "temp_reg = [0x05, 0x07, 0x08, 0x0E, 0x0F, 0x12, 0x15, 0x1E,
     0x1F, 0x20, 0x21, 0x22, 0x23, 0x24, 0x25, 0x26,
     0x27, 0x28, 0x29, 0x2A]"

definition gaokun_ec_get_temp :: "'w i2c_bus \<Rightarrow> 'w \<Rightarrow> nat \<Rightarrow> 'w \<times> (int + int)" where
  "gaokun_ec_get_temp xfer w idx =
     (case gaokun_ec_read_data xfer w (MKREQ 0x02 0x61 1 [temp_reg ! idx]) 2 of
        (w, Inl ret) \<Rightarrow> (w, Inl ret)
      | (w, Inr tmp) \<Rightarrow> (w, Inr (le16 tmp * 100)))"

text \<open>\<open>temp\<close> tells whether the sensor type is \<open>hwmon_temp\<close>.\<close>

definition gaokun_ec_hwmon_is_visible :: "bool \<Rightarrow> nat" where
  "gaokun_ec_hwmon_is_visible temp = (if temp then 4 * 64 + 4 * 8 + 4 else 0)"

definition gaokun_ec_hwmon_read :: "'w i2c_bus \<Rightarrow> 'w \<Rightarrow> bool \<Rightarrow> nat \<Rightarrow> 'w \<times> (int + int)" where
  "gaokun_ec_hwmon_read xfer w temp channel =
     (if temp then gaokun_ec_get_temp xfer w channel else (w, Inl (- EINVAL)))"

section \<open>Standby, lid and events\<close>

text \<open>
  The driver's state: the enable line, the two flags of the structure, and what the driver has told the
  rest of the kernel, oldest first: the values reported for \<open>SW_LID\<close> and the events passed to the
  notifier chain.
\<close>

record gaokun_ec =
  enable_gpio :: bool
  lid_opened :: bool
  suspended :: bool
  lid_reports :: "bool list"
  notified :: "byte list"

text \<open>The structure as \<open>gaokun_ec_probe\<close> leaves it: zeroed, with the enable line high.\<close>

definition probed_ec :: gaokun_ec where
  "probed_ec = \<lparr>enable_gpio = True, lid_opened = False, suspended = False, lid_reports = [], notified = []\<rparr>"

definition gaokun_ec_suspend :: "'w i2c_bus \<Rightarrow> 'w \<Rightarrow> gaokun_ec \<Rightarrow> 'w \<times> gaokun_ec \<times> int" where
  "gaokun_ec_suspend xfer w ec =
     (if suspended ec then (w, ec, 0)
      else
        let (w, ret) = gaokun_ec_write xfer w (MKREQ 0x02 0xB2 1 [0xDB]) in
        if ret \<noteq> 0 then (w, ec, ret)
        else (w, ec\<lparr>enable_gpio := False, suspended := True\<rparr>, 0))"

fun standby_exit :: "nat \<Rightarrow> 'w i2c_bus \<Rightarrow> 'w \<Rightarrow> int \<Rightarrow> 'w \<times> int" where
  "standby_exit 0 xfer w ret = (w, ret)"
| "standby_exit (Suc n) xfer w _ =
     (let (w, ret) = gaokun_ec_write xfer w (MKREQ 0x02 0xB2 1 [0xEB]) in
      if ret = 0 then (w, ret) else standby_exit n xfer w ret)"

definition gaokun_ec_resume :: "'w i2c_bus \<Rightarrow> 'w \<Rightarrow> gaokun_ec \<Rightarrow> 'w \<times> gaokun_ec \<times> int" where
  "gaokun_ec_resume xfer w ec =
     (if \<not> suspended ec then (w, ec, 0)
      else
        let ec = ec\<lparr>enable_gpio := True\<rparr>;
            (w, ret) = standby_exit 3 xfer w 0 in
        if ret \<noteq> 0 then (w, ec, ret)
        else (w, ec\<lparr>lid_reports := lid_reports ec @ [False], lid_opened := True, suspended := False\<rparr>, 0))"

definition lid_event :: "gaokun_ec \<Rightarrow> byte \<Rightarrow> gaokun_ec" where
  "lid_event ec status =
     (let status = status AND 2 in
      if lid_opened ec \<noteq> (status \<noteq> 0)
      then ec\<lparr>lid_reports := lid_reports ec @ [status = 0], lid_opened := (status \<noteq> 0)\<rparr>
      else ec)"

text \<open>\<open>junk\<close> is the value of the uninitialised \<open>status\<close>, used when the register cannot be read.\<close>

definition gaokun_ec_irq_handler :: "'w i2c_bus \<Rightarrow> 'w \<Rightarrow> gaokun_ec \<Rightarrow> byte \<Rightarrow> 'w \<times> gaokun_ec" where
  "gaokun_ec_irq_handler xfer w ec junk =
     (if suspended ec then (w, ec)
      else
        let (w, ret, ident) = gaokun_ec_read_byte xfer w (MKREQ 0x06 0x84 0 []) in
        if ret \<noteq> 0 then (w, ec)
        else if ident = 0 then (w, ec)
        else if ident = 0x81 then
          let (w, ret, status) = gaokun_ec_psy_read_byte xfer w 0x80 junk in
          (w, lid_event ec status)
        else (w, ec\<lparr>notified := notified ec @ [ident]\<rparr>))"

section \<open>Reading registers\<close>

lemma request_sent [simp]:
  "n < 2 ^ 8 \<Longrightarrow> length args = n \<Longrightarrow>
   take (REQ_LEN (MKREQ a b n args)) (MKREQ a b n args) = [a, b, of_nat n] @ args"
  by (simp add: REQ_LEN_def MKREQ_def REQ_HDR_SIZE_def INPUT_SIZE_OFFSET_def unat_of_nat numeral_3_eq_3)

lemma request_refilled [simp]:
  "length args = n \<Longrightarrow> refill_req (MKREQ a b n []) args = MKREQ a b n args"
  by (simp add: refill_req_def MKREQ_def REQ_HDR_SIZE_def numeral_3_eq_3)

lemma request_byte_refilled [simp]: "refill_req_byte (MKREQ a b (Suc 0) args) c = MKREQ a b (Suc 0) [c]"
  by (cases args) (simp_all add: refill_req_byte_def MKREQ_def REQ_HDR_SIZE_def numeral_3_eq_3)

lemma length_MKRESP [simp]: "length (MKRESP n) = 2 + n"
  by (simp add: MKRESP_def RESP_HDR_SIZE_def)

text \<open>
  What the driver relies on: \<open>peek w\<close> gives the register contents, or the error with which a read
  fails (a failed transfer, or a nonzero status byte), and reading changes no register.
\<close>

definition reads_registers :: "'w i2c_bus \<Rightarrow> ('w \<Rightarrow> byte \<Rightarrow> int + byte) \<Rightarrow> bool" where
  "reads_registers xfer peek \<longleftrightarrow> (\<forall>w r. case xfer w [0x02, 0x80, 1, r] 3 of (w', ret, resp) \<Rightarrow>
     peek w' = peek w \<and>
     (case peek w r of
        Inr v \<Rightarrow> ret = 2 \<and> (\<exists>x. resp = [0, x, v])
      | Inl e \<Rightarrow> e \<noteq> 0 \<and> (if ret = 2 then uint (resp ! 0) = e else ret = e)))"

text \<open>Consecutive registers, read until the first failure.\<close>

definition register_run :: "(byte \<Rightarrow> int + byte) \<Rightarrow> byte \<Rightarrow> nat \<Rightarrow> (int + byte) list" where
  "register_run regs reg n = map (\<lambda>i. regs (reg + of_nat i)) [0..<n]"

definition run_code :: "(int + byte) list \<Rightarrow> int" where
  "run_code rs = (case dropWhile (Not \<circ> isl) rs of [] \<Rightarrow> 0 | e # es \<Rightarrow> projl e)"

definition run_data :: "(int + byte) list \<Rightarrow> byte list" where
  "run_data rs = map projr (takeWhile (Not \<circ> isl) rs)"

lemma register_run_Suc: "register_run regs reg (Suc n) = regs reg # register_run regs (reg + 1) n"
proof -
  have "[0..<Suc n] = 0 # map Suc [0..<n]"
    by (simp add: map_Suc_upt upt_conv_Cons del: upt_Suc)
  then show ?thesis
    by (simp add: register_run_def ac_simps del: upt_Suc)
qed

lemma run_Inl [simp]: "run_code (Inl e # rs) = e" "run_data (Inl e # rs) = []"
  and run_Inr [simp]: "run_code (Inr v # rs) = run_code rs" "run_data (Inr v # rs) = v # run_data rs"
  by (simp_all add: run_code_def run_data_def)

lemma read_register:
  assumes "reads_registers xfer peek"
  shows "\<exists>w'. peek w' = peek w \<and> (\<exists>resp. gaokun_ec_read xfer w (MKREQ 0x02 0x80 1 [reg]) 3 =
    (w', (case peek w reg of Inl e \<Rightarrow> e | Inr v \<Rightarrow> 0), resp)
    \<and> (\<forall>v. peek w reg = Inr v \<longrightarrow> extr_resp_byte resp = v)) \<and> (\<forall>e. peek w reg = Inl e \<longrightarrow> e \<noteq> 0)"
  using assms [unfolded reads_registers_def, rule_format, of w reg]
  by (auto simp: gaokun_ec_read_def gaokun_ec_request_def extr_resp_byte_def RESP_HDR_SIZE_def
      split: sum.splits if_splits)

lemma multi_read_loop_run:
  assumes "reads_registers xfer peek"
  shows "\<exists>w'. peek w' = peek w \<and> multi_read_loop xfer w (MKREQ 0x02 0x80 1 [c]) reg n
    = (w', run_code (register_run (peek w) reg n), run_data (register_run (peek w) reg n))"
proof (induction n arbitrary: w c reg)
  case 0
  then show ?case by (simp add: register_run_def run_code_def run_data_def)
next
  case (Suc n)
  obtain w1 resp where one: "peek w1 = peek w"
      "gaokun_ec_read xfer w (MKREQ 0x02 0x80 1 [reg]) 3 = (w1, (case peek w reg of Inl e \<Rightarrow> e | Inr v \<Rightarrow> 0), resp)"
      "\<forall>v. peek w reg = Inr v \<longrightarrow> extr_resp_byte resp = v" "\<forall>e. peek w reg = Inl e \<longrightarrow> e \<noteq> 0"
    using read_register [OF assms, of w reg] by blast
  obtain w2 where rest: "peek w2 = peek w1"
      "multi_read_loop xfer w1 (MKREQ 0x02 0x80 1 [reg]) (reg + 1) n
        = (w2, run_code (register_run (peek w1) (reg + 1) n), run_data (register_run (peek w1) (reg + 1) n))"
    using Suc.IH by blast
  show ?case
  proof (cases "peek w reg")
    case (Inl e)
    then show ?thesis using one by (simp add: register_run_Suc Let_def)
  next
    case (Inr v)
    then show ?thesis using one rest by (simp add: register_run_Suc Let_def)
  qed
qed

text \<open>C17: a multi-register read returns the registers in ascending order, wrapping after 255, and stops at
  the first register the controller does not deliver: the bytes before it are stored, its error is the
  result, and 0 is returned only when all of them were read.\<close>

theorem multi_read_contiguous:
  assumes "reads_registers xfer peek"
  shows "\<exists>w'. peek w' = peek w \<and> gaokun_ec_psy_multi_read xfer w reg n
    = (w', run_code (register_run (peek w) reg n), run_data (register_run (peek w) reg n))"
  using multi_read_loop_run [OF assms] by (simp add: gaokun_ec_psy_multi_read_def)

text \<open>A controller whose register \<open>r\<close> holds \<open>2 * r\<close>, with register 3 missing.\<close>

definition sample_regs :: "byte \<Rightarrow> int + byte" where
  "sample_regs r = (if r = 3 then Inl 7 else Inr (2 * r))"

definition sample_bus :: "unit i2c_bus" where
  "sample_bus w req n = (w, 2, (case sample_regs (req ! 3) of Inl e \<Rightarrow> [of_int e, 0, 0] | Inr v \<Rightarrow> [0, 1, v]))"

theorem multi_read_contiguous_witness:
  "gaokun_ec_psy_multi_read sample_bus () 255 3 = ((), 0, [254, 0, 2])
   \<and> gaokun_ec_psy_multi_read sample_bus () 1 4 = ((), 7, [2, 4])"
proof -
  have ok: "reads_registers sample_bus (\<lambda>_. sample_regs)"
    by (auto simp: reads_registers_def sample_bus_def sample_regs_def)
  show ?thesis
    using multi_read_contiguous [OF ok, of "()" 255 3] multi_read_contiguous [OF ok, of "()" 1 4]
    by (simp add: register_run_def sample_regs_def run_code_def run_data_def upt_rec)
qed

section \<open>Settings\<close>

text \<open>
  What the driver relies on for a setting of \<open>n\<close> bytes: what the controller has acknowledged it reports
  back on the next read.
\<close>

definition ec_cell :: "'w i2c_bus \<Rightarrow> byte \<Rightarrow> byte \<Rightarrow> nat \<Rightarrow> bool" where
  "ec_cell xfer wr rd n \<longleftrightarrow> (\<forall>w v w' resp. length v = n
     \<longrightarrow> xfer w ([0x02, wr, of_nat n] @ v) 2 = (w', 2, resp) \<longrightarrow> resp ! 0 = 0
     \<longrightarrow> (\<exists>w'' x. xfer w' [0x02, rd, 0] (2 + n) = (w'', 2, [0, x] @ v)))"

text \<open>A transfer of two messages is never reported as one of no messages.\<close>

definition never_empty :: "'w i2c_bus \<Rightarrow> bool" where
  "never_empty xfer \<longleftrightarrow> (\<forall>w req n. fst (snd (xfer w req n)) \<noteq> 0)"

lemma write_acknowledged:
  assumes "never_empty xfer" "gaokun_ec_write xfer w req = (w', 0)"
  shows "\<exists>resp. xfer w (take (REQ_LEN req) req) 2 = (w', 2, resp) \<and> resp ! 0 = 0"
proof -
  obtain w1 ret resp where x: "xfer w (take (REQ_LEN req) req) 2 = (w1, ret, resp)"
    by (metis prod.exhaust)
  moreover have "ret \<noteq> 0"
    using assms(1) x by (metis fst_conv never_empty_def snd_conv)
  ultimately show ?thesis
    using assms(2)
    by (auto simp: gaokun_ec_write_def gaokun_ec_request_def unsigned_eq_0_iff split: if_splits)
qed

lemma cell_round_trip:
  assumes "never_empty xfer" "ec_cell xfer wr rd (length v)" "length v < 2 ^ 8"
    "gaokun_ec_write xfer w (MKREQ 0x02 wr (length v) v) = (w', 0)"
  shows "\<exists>w'' x. gaokun_ec_read xfer w' (MKREQ 0x02 rd 0 []) (2 + length v) = (w'', 0, [0, x] @ v)"
proof -
  obtain resp where "xfer w ([0x02, wr, of_nat (length v)] @ v) 2 = (w', 2, resp)" "resp ! 0 = 0"
    using write_acknowledged [OF assms(1,4)] assms(3) by auto
  then obtain w'' x where "xfer w' [0x02, rd, 0] (2 + length v) = (w'', 2, [0, x] @ v)"
    using assms(2) by (metis ec_cell_def)
  then show ?thesis by (simp add: gaokun_ec_read_def gaokun_ec_request_def)
qed

text \<open>The three settings of the controller.\<close>

definition keeps_settings :: "'w i2c_bus \<Rightarrow> bool" where
  "keeps_settings xfer \<longleftrightarrow>
     never_empty xfer \<and> ec_cell xfer 0x6C 0x6B 1 \<and> ec_cell xfer 0xE5 0xE6 1 \<and> ec_cell xfer 0xE3 0xE4 4"

lemma smart_charge_kept:
  assumes "keeps_settings xfer" "length data = 4" "gaokun_ec_psy_set_smart_charge xfer w data = (w', 0)"
  shows "(\<exists>w''. gaokun_ec_psy_get_smart_charge xfer w' = (w'', Inr data))
    \<and> data ! 2 \<le> data ! 3 \<and> data ! 3 \<noteq> 0 \<and> data ! 3 \<le> 100"
proof -
  have ok: "never_empty xfer" "ec_cell xfer 0xE3 0xE4 4"
    using assms(1) by (simp_all add: keeps_settings_def)
  have valid: "validate_battery_threshold_range (data ! 2) (data ! 3)"
    and wr: "gaokun_ec_write xfer w (MKREQ 0x02 0xE3 4 data) = (w', 0)"
    using assms(2,3) by (auto simp: gaokun_ec_psy_set_smart_charge_def EINVAL_def refill_req_def MKREQ_def REQ_HDR_SIZE_def
        split: if_splits)
  have "\<exists>w''. gaokun_ec_psy_get_smart_charge xfer w' = (w'', Inr data)"
    using cell_round_trip [OF ok(1), of "0xE3" "0xE4" data w w'] ok(2) wr assms(2)
    by (auto simp: gaokun_ec_psy_get_smart_charge_def gaokun_ec_read_data_def extr_resp_def
        RESP_HDR_SIZE_def drop_Cons')
  then show ?thesis using valid by (auto simp: validate_battery_threshold_range_def)
qed

text \<open>What writing the smart charge data does on the bus: at most one transfer, and none for bad thresholds.\<close>

lemma smart_charge_transfer:
  assumes "length data = 4"
  shows "gaokun_ec_psy_set_smart_charge xfer w data =
    (if data ! 3 \<noteq> 0 \<and> data ! 2 \<le> data ! 3 \<and> data ! 3 \<le> 100
     then let (w', ret, resp) = xfer w ([0x02, 0xE3, 4] @ data) 2 in (w', if ret \<noteq> 2 then ret else uint (resp ! 0))
     else (w, - 22))"
  using assms
  by (auto simp: gaokun_ec_psy_set_smart_charge_def validate_battery_threshold_range_def EINVAL_def gaokun_ec_write_def
      gaokun_ec_request_def refill_req_def MKREQ_def REQ_HDR_SIZE_def REQ_LEN_def INPUT_SIZE_OFFSET_def MKRESP_def RESP_HDR_SIZE_def
      split: prod.split)

text \<open>C18: on a controller that keeps its settings (what it has acknowledged it reports back on the next read, and
  no transfer of two messages counts none), settings read back as they were written: after a successful
  write of the Fn lock, of the smart charge switch or of the smart charge data, the matching read
  succeeds and returns what was written.  The thresholds in the smart charge data are checked before the
  bus is touched: data with a zero end, a start above the end or an end above 100 is refused with
  \<open>- EINVAL\<close> and causes no transfer; other data is sent once, as it is, and the caller gets the
  controller's answer.\<close>

theorem settings_round_trip:
  assumes "keeps_settings xfer"
  shows "(\<forall>w on w'. gaokun_ec_set_fn_lock xfer w on = (w', 0) \<longrightarrow>
      (\<exists>w''. gaokun_ec_get_fn_lock xfer w' = (w'', Inr on)))
    \<and> (\<forall>w on w'. gaokun_ec_psy_set_smart_charge_enable xfer w on = (w', 0) \<longrightarrow>
      (\<exists>w''. gaokun_ec_psy_get_smart_charge_enable xfer w' = (w'', Inr on)))
    \<and> (\<forall>w data w'. length data = 4 \<longrightarrow> gaokun_ec_psy_set_smart_charge xfer w data = (w', 0) \<longrightarrow>
      (\<exists>w''. gaokun_ec_psy_get_smart_charge xfer w' = (w'', Inr data))
      \<and> data ! 2 \<le> data ! 3 \<and> data ! 3 \<noteq> 0 \<and> data ! 3 \<le> 100)
    \<and> (\<forall>w data. length data = 4 \<longrightarrow> gaokun_ec_psy_set_smart_charge xfer w data =
      (if data ! 3 \<noteq> 0 \<and> data ! 2 \<le> data ! 3 \<and> data ! 3 \<le> 100
       then let (w', ret, resp) = xfer w ([0x02, 0xE3, 4] @ data) 2 in (w', if ret \<noteq> 2 then ret else uint (resp ! 0))
       else (w, - 22)))"
proof (intro conjI allI impI)
  have ok: "never_empty xfer" "ec_cell xfer 0x6C 0x6B 1" "ec_cell xfer 0xE5 0xE6 1" "ec_cell xfer 0xE3 0xE4 4"
    using assms by (simp_all add: keeps_settings_def)
  show "\<exists>w''. gaokun_ec_get_fn_lock xfer w' = (w'', Inr on)"
    if "gaokun_ec_set_fn_lock xfer w on = (w', 0)" for w on w'
    using cell_round_trip [OF ok(1), of "0x6C" "0x6B" "[if on then EC_FN_LOCK_ON else EC_FN_LOCK_OFF]" w w'] ok(2) that
    by (auto simp: gaokun_ec_set_fn_lock_def gaokun_ec_get_fn_lock_def gaokun_ec_read_byte_def
        extr_resp_byte_def RESP_HDR_SIZE_def EC_FN_LOCK_ON_def EC_FN_LOCK_OFF_def numeral_3_eq_3)
  show "\<exists>w''. gaokun_ec_psy_get_smart_charge_enable xfer w' = (w'', Inr on)"
    if "gaokun_ec_psy_set_smart_charge_enable xfer w on = (w', 0)" for w on w'
    using cell_round_trip [OF ok(1), of "0xE5" "0xE6" "[if on then 1 else 0]" w w'] ok(3) that
    by (auto simp: gaokun_ec_psy_set_smart_charge_enable_def gaokun_ec_psy_get_smart_charge_enable_def
        gaokun_ec_read_byte_def extr_resp_byte_def RESP_HDR_SIZE_def numeral_3_eq_3)
  show "\<exists>w''. gaokun_ec_psy_get_smart_charge xfer w' = (w'', Inr data)" "data ! 2 \<le> data ! 3" "data ! 3 \<noteq> 0"
    "data ! 3 \<le> 100"
    if "length data = 4" "gaokun_ec_psy_set_smart_charge xfer w data = (w', 0)" for w w' and data :: "byte list"
    using smart_charge_kept [OF assms that] by blast+
qed (fact smart_charge_transfer)

text \<open>A controller that stores the three settings.\<close>

definition setting_bus :: "(byte \<Rightarrow> byte list) i2c_bus" where
  "setting_bus w req n =
     (if req ! 1 = 0x6C then (w(0x6B := drop 3 req), 2, [0, 0])
      else if req ! 1 = 0xE5 then (w(0xE6 := drop 3 req), 2, [0, 0])
      else if req ! 1 = 0xE3 then (w(0xE4 := drop 3 req), 2, [0, 0])
      else (w, 2, [0, 0] @ w (req ! 1)))"

lemma setting_bus_keeps: "keeps_settings setting_bus"
  by (auto simp: keeps_settings_def never_empty_def ec_cell_def setting_bus_def)

theorem settings_round_trip_witness:
  "(\<exists>w' w''. gaokun_ec_set_fn_lock setting_bus (\<lambda>_. []) True = (w', 0)
      \<and> gaokun_ec_get_fn_lock setting_bus w' = (w'', Inr True))
    \<and> (\<exists>w' w''. gaokun_ec_psy_set_smart_charge setting_bus (\<lambda>_. []) [1, 10, 40, 80] = (w', 0)
      \<and> gaokun_ec_psy_get_smart_charge setting_bus w' = (w'', Inr [1, 10, 40, 80]))
    \<and> gaokun_ec_psy_set_smart_charge setting_bus (\<lambda>_. []) [1, 10, 40, 30] = (\<lambda>_. [], - 22)"
proof -
  note * = settings_round_trip [OF setting_bus_keeps]
  have "\<exists>w'. gaokun_ec_set_fn_lock setting_bus (\<lambda>_. []) True = (w', 0)"
    by (simp add: gaokun_ec_set_fn_lock_def gaokun_ec_write_def gaokun_ec_request_def setting_bus_def)
  moreover have "\<exists>w'. gaokun_ec_psy_set_smart_charge setting_bus (\<lambda>_. []) [1, 10, 40, 80] = (w', 0)"
    using * [THEN conjunct2, THEN conjunct2, THEN conjunct2, rule_format, of "[1, 10, 40, 80]" "\<lambda>_. []"]
    by (simp add: setting_bus_def)
  moreover have "gaokun_ec_psy_set_smart_charge setting_bus (\<lambda>_. []) [1, 10, 40, 30] = (\<lambda>_. [], - 22)"
    using * [THEN conjunct2, THEN conjunct2, THEN conjunct2, rule_format, of "[1, 10, 40, 30]" "\<lambda>_. []"]
    by simp
  moreover have "length ([1, 10, 40, 80] :: byte list) = 4" by simp
  ultimately show ?thesis using * by blast
qed

section \<open>The lid switch and standby\<close>

text \<open>The switch value the input core holds for \<open>SW_LID\<close>: the last one reported, 0 before any report.\<close>

definition sw_lid :: "gaokun_ec \<Rightarrow> bool" where
  "sw_lid ec \<longleftrightarrow> lid_reports ec \<noteq> [] \<and> last (lid_reports ec)"

text \<open>The steps of the driver, and of the controller on its own.\<close>

inductive ec_step :: "'w i2c_bus \<Rightarrow> 'w \<times> gaokun_ec \<Rightarrow> 'w \<times> gaokun_ec \<Rightarrow> bool" for xfer where
  suspend: "gaokun_ec_suspend xfer w ec = (w', ec', ret) \<Longrightarrow> ec_step xfer (w, ec) (w', ec')"
| resume: "gaokun_ec_resume xfer w ec = (w', ec', ret) \<Longrightarrow> ec_step xfer (w, ec) (w', ec')"
| irq: "gaokun_ec_irq_handler xfer w ec junk = (w', ec') \<Longrightarrow> ec_step xfer (w, ec) (w', ec')"
| controller: "ec_step xfer (w, ec) (w', ec)"

inductive_cases ec_step_cases: "ec_step xfer (w, ec) t"

inductive_simps ec_step_simps: "ec_step xfer (w, ec) (w', ec')"

text \<open>
  The switch agrees with the flag once anything has been reported, is never reported twice in a row by
  a lid event, and the controller is enabled whenever the driver is awake.
\<close>

definition ec_inv :: "'w \<times> gaokun_ec \<Rightarrow> bool" where
  "ec_inv s \<longleftrightarrow> (case s of (w, ec) \<Rightarrow>
     (lid_reports ec \<noteq> [] \<longrightarrow> last (lid_reports ec) = (\<not> lid_opened ec))
   \<and> (lid_reports ec = [] \<longrightarrow> \<not> lid_opened ec)
   \<and> (\<not> suspended ec \<longrightarrow> enable_gpio ec)
   \<and> 0 \<notin> set (notified ec) \<and> 0x81 \<notin> set (notified ec))"

lemma ec_step_inv: "ec_step xfer s t \<Longrightarrow> ec_inv s \<Longrightarrow> ec_inv t"
proof (induction rule: ec_step.induct)
  case (irq w ec junk w' ec')
  then show ?case
    by (auto simp: ec_inv_def gaokun_ec_irq_handler_def lid_event_def Let_def split: if_splits prod.splits)
qed (auto simp: ec_inv_def gaokun_ec_suspend_def gaokun_ec_resume_def Let_def split: if_splits prod.splits)

interpretation ec_machine: invariant_system "\<lambda>s. snd s = probed_ec" "ec_step xfer" ec_inv for xfer
proof unfold_locales
  show "ec_inv s" if "snd s = probed_ec" for s :: "'a \<times> gaokun_ec"
    using that by (cases s) (simp add: ec_inv_def probed_ec_def)
qed (rule ec_step_inv)

abbreviation ec_reachable :: "'w i2c_bus \<Rightarrow> 'w \<times> gaokun_ec \<Rightarrow> bool" where
  "ec_reachable xfer \<equiv> reachable (\<lambda>s. snd s = probed_ec) (ec_step xfer)"

text \<open>C16: in every reachable state of the controller driver, whatever the bus does, the reported lid switch
  agrees with the driver's flag, an awake driver has the controller enabled, and the notifier chain has
  never been called for the empty event or for the lid; and while the driver is suspended the
  interrupt handler performs no transfer and changes nothing.\<close>

theorem ec_driver_invariant:
  assumes "ec_reachable xfer (w, ec)"
  shows "(lid_reports ec \<noteq> [] \<longrightarrow> sw_lid ec = (\<not> lid_opened ec))
    \<and> (\<not> suspended ec \<longrightarrow> enable_gpio ec)
    \<and> set (notified ec) \<inter> {0, 0x81} = {}
    \<and> (suspended ec \<longrightarrow> gaokun_ec_irq_handler xfer w ec junk = (w, ec))"
  using ec_machine.reachable_inv [OF assms]
  by (auto simp: ec_inv_def sw_lid_def gaokun_ec_irq_handler_def)

text \<open>The bus of a controller with pending events: each query takes the next one, register \<open>0x80\<close> is the lid.\<close>

definition event_bus :: "(byte list \<times> byte) i2c_bus" where
  "event_bus w req n =
     (if req ! 1 = 0x84 then
        (case fst w of [] \<Rightarrow> (w, 2, [0, 1, 0]) | e # es \<Rightarrow> ((es, snd w), 2, [0, 1, e]))
      else if req ! 1 = 0x80 then (w, 2, [0, 1, snd w])
      else (w, 2, replicate n 0))"

lemma event_bus_irq:
  "\<not> suspended ec \<Longrightarrow> gaokun_ec_irq_handler event_bus (0x81 # es, s) ec junk = ((es, s), lid_event ec s)"
  "\<not> suspended ec \<Longrightarrow> e \<noteq> 0 \<Longrightarrow> e \<noteq> 0x81 \<Longrightarrow>
   gaokun_ec_irq_handler event_bus (e # es, s) ec junk = ((es, s), ec\<lparr>notified := notified ec @ [e]\<rparr>)"
  by (simp_all add: gaokun_ec_irq_handler_def gaokun_ec_read_byte_def gaokun_ec_read_def
      gaokun_ec_request_def gaokun_ec_psy_read_byte_def gaokun_ec_psy_multi_read_def
      event_bus_def extr_resp_byte_def RESP_HDR_SIZE_def del: One_nat_def add: One_nat_def)

theorem ec_driver_invariant_witness:
  "\<exists>ec. ec_reachable event_bus (([], 2), ec) \<and> lid_reports ec = [False] \<and> notified ec = [0x21]
     \<and> sw_lid ec = (\<not> lid_opened ec)"
proof -
  define ec1 ec2 where "ec1 = lid_event probed_ec 2" and "ec2 = ec1\<lparr>notified := notified ec1 @ [0x21]\<rparr>"
  have awake: "\<not> suspended probed_ec" "\<not> suspended ec1"
    by (simp_all add: probed_ec_def ec1_def lid_event_def)
  have "ec_step event_bus (([0x81, 0x21], 2), probed_ec) (([0x21], 2), ec1)"
    using event_bus_irq(1) [OF awake(1)] by (auto intro: ec_step.irq simp: ec1_def)
  moreover have "ec_step event_bus (([0x21], 2), ec1) (([], 2), ec2)"
    using event_bus_irq(2) [OF awake(2)] by (auto intro: ec_step.irq simp: ec2_def)
  ultimately have r: "ec_reachable event_bus (([], 2), ec2)"
    by (meson reachable.init reachable.more snd_conv)
  moreover have "lid_reports ec2 = [False]" "notified ec2 = [0x21]"
    by (simp_all add: ec2_def ec1_def lid_event_def probed_ec_def)
  ultimately show ?thesis
    using ec_driver_invariant [OF r] by (intro exI [of _ ec2]) simp
qed

text \<open>What a lid interrupt finds: the event, then the lid register.\<close>

definition lid_interrupt :: "'w i2c_bus \<Rightarrow> 'w \<Rightarrow> byte \<Rightarrow> byte \<Rightarrow> 'w \<Rightarrow> bool" where
  "lid_interrupt xfer w junk status w' \<longleftrightarrow> (\<exists>w1.
     gaokun_ec_read_byte xfer w (MKREQ 0x06 0x84 0 []) = (w1, 0, 0x81)
   \<and> gaokun_ec_psy_read_byte xfer w1 0x80 junk = (w', 0, status))"

lemma lid_interrupt_handled:
  "lid_interrupt xfer w junk status w' \<Longrightarrow> \<not> suspended ec
    \<Longrightarrow> gaokun_ec_irq_handler xfer w ec junk = (w', lid_event ec status)"
  by (auto simp: lid_interrupt_def gaokun_ec_irq_handler_def)

text \<open>C15: the lid switch follows the controller: in any reachable awake state, once a switch value has been
  reported or when the lid is open, handling a lid interrupt leaves the reported switch at "closed"
  exactly when the controller's lid bit is clear, with at most one report, and none when nothing changed.\<close>

theorem lid_switch_follows:
  assumes "ec_reachable xfer (w, ec)" "\<not> suspended ec" "lid_interrupt xfer w junk status w'"
    "lid_reports ec \<noteq> [] \<or> status AND 2 \<noteq> 0"
  shows "\<exists>ec'. gaokun_ec_irq_handler xfer w ec junk = (w', ec')
    \<and> sw_lid ec' = (status AND 2 = 0) \<and> lid_opened ec' = (status AND 2 \<noteq> 0)
    \<and> lid_reports ec' = lid_reports ec
        @ (if lid_reports ec \<noteq> [] \<and> sw_lid ec = (status AND 2 = 0) then [] else [status AND 2 = 0])"
  using ec_machine.reachable_inv [OF assms(1)] lid_interrupt_handled [OF assms(3,2)] assms(4)
  by (auto simp: ec_inv_def sw_lid_def lid_event_def Let_def)

theorem lid_switch_follows_witness:
  "\<exists>ec'. gaokun_ec_irq_handler event_bus ([0x81], 2) probed_ec 0 = (([], 2), ec') \<and> \<not> sw_lid ec'"
proof -
  have "ec_reachable event_bus (([0x81], 2), probed_ec)" by (simp add: reachable.init)
  moreover have "lid_interrupt event_bus ([0x81], 2) 0 2 ([], 2)"
    by (simp add: lid_interrupt_def gaokun_ec_read_byte_def gaokun_ec_read_def gaokun_ec_request_def
        gaokun_ec_psy_read_byte_def gaokun_ec_psy_multi_read_def event_bus_def extr_resp_byte_def
        RESP_HDR_SIZE_def)
  ultimately show ?thesis
    using lid_switch_follows [of event_bus "([0x81], 2)" probed_ec 0 2 "([], 2)"] by (auto simp: probed_ec_def)
qed

text \<open>The first closing of the lid after boot is not reported: the driver's flag starts as "closed" while
  the input core starts as "open", so the first lid interrupt with the lid closed changes and reports
  nothing, and the system goes on believing the lid open.\<close>

theorem first_close_is_lost:
  assumes "lid_interrupt xfer w junk status w'" "status AND 2 = 0"
  shows "gaokun_ec_irq_handler xfer w probed_ec junk = (w', probed_ec) \<and> \<not> sw_lid probed_ec"
  using lid_interrupt_handled [OF assms(1), of probed_ec] assms(2)
  by (simp add: probed_ec_def sw_lid_def lid_event_def)

theorem first_close_is_lost_witness:
  "gaokun_ec_irq_handler event_bus ([0x81], 0) probed_ec 7 = (([], 0), probed_ec)"
proof -
  have "lid_interrupt event_bus ([0x81], 0) 7 0 ([], 0)"
    by (simp add: lid_interrupt_def gaokun_ec_read_byte_def gaokun_ec_read_def gaokun_ec_request_def
        gaokun_ec_psy_read_byte_def gaokun_ec_psy_multi_read_def event_bus_def extr_resp_byte_def
        RESP_HDR_SIZE_def)
  from first_close_is_lost [OF this] show ?thesis by simp
qed

section \<open>Resuming\<close>

text \<open>A bus that counts its transfers.\<close>

definition counting :: "'w i2c_bus \<Rightarrow> ('w \<times> nat) i2c_bus" where
  "counting xfer w req n = (let (w', r) = xfer (fst w) req n in ((w', Suc (snd w)), r))"

lemma counting_write:
  "gaokun_ec_write (counting xfer) (w, k) req
    = (let (w', ret) = gaokun_ec_write xfer w req in ((w', Suc k), ret))"
  by (simp add: gaokun_ec_write_def gaokun_ec_request_def counting_def Let_def split: prod.splits)

lemma standby_exit_tries:
  "case standby_exit n (counting xfer) (w, k) r of ((w', k'), ret) \<Rightarrow>
     k' \<le> k + n \<and> (ret \<noteq> 0 \<longrightarrow> k' = k + n) \<and> (0 < n \<longrightarrow> k < k')"
proof (induction n arbitrary: w k r)
  case (Suc n)
  obtain w1 ret where one: "gaokun_ec_write xfer w (MKREQ 0x02 0xB2 1 [0xEB]) = (w1, ret)"
    by (cases "gaokun_ec_write xfer w (MKREQ 0x02 0xB2 1 [0xEB])")
  show ?case
    using Suc.IH [where w = w1 and k = "Suc k" and r = ret] one by (cases n) (auto simp: counting_write split: prod.splits)
qed simp

text \<open>Resuming from standby makes between one and three attempts and never more; it succeeds exactly when
  an attempt was acknowledged, then reports the lid open; when all three fail the driver stays
  suspended with the controller enabled and nothing reported, so a later resume tries again.\<close>

theorem resume_bounded:
  assumes "suspended ec" "gaokun_ec_resume (counting xfer) (w, k) ec = ((w', k'), ec', ret)"
  shows "k < k' \<and> k' \<le> k + 3 \<and> enable_gpio ec'
    \<and> (if ret = 0 then \<not> suspended ec' \<and> lid_opened ec' \<and> lid_reports ec' = lid_reports ec @ [False]
       else ec' = ec\<lparr>enable_gpio := True\<rparr> \<and> k' = k + 3)"
  using standby_exit_tries [where n = 3 and xfer = xfer and w = w and k = k and r = 0] assms
  by (auto simp: gaokun_ec_resume_def Let_def split: prod.splits if_splits)

text \<open>A controller that fails \<open>n\<close> more times.\<close>

definition waking_bus :: "nat i2c_bus" where
  "waking_bus left req n = (left - 1, if left = 0 then 2 else -5, [0, 0])"

theorem resume_bounded_witness:
  "\<exists>ec'. gaokun_ec_resume (counting waking_bus) (2, 0) (probed_ec\<lparr>suspended := True, enable_gpio := False\<rparr>)
      = ((0, 3), ec', 0) \<and> \<not> suspended ec' \<and> lid_reports ec' = [False]"
proof -
  obtain ec' where *: "gaokun_ec_resume (counting waking_bus) (2, 0)
      (probed_ec\<lparr>suspended := True, enable_gpio := False\<rparr>) = ((0, 3), ec', 0)"
    by (simp add: gaokun_ec_resume_def counting_def waking_bus_def gaokun_ec_write_def
        gaokun_ec_request_def numeral_3_eq_3)
  show ?thesis
    using resume_bounded [OF _ *] * by (auto simp: probed_ec_def)
qed

section \<open>Error codes\<close>

lemma status_positive: "0 < uint (b :: byte) \<longleftrightarrow> b \<noteq> 0"
  by (metis less_le unsigned_eq_0_iff unsigned_greater_eq)

text \<open>The request path does not return a negative error code for everything that goes wrong: a status byte
  set by the controller is returned as that positive number, and a transfer cut short is returned as
  the number of messages moved, which for an empty transfer is 0, that is, success.\<close>

theorem request_codes:
  assumes "xfer w (take (REQ_LEN req) req) n = (w', ret, resp)"
  shows "(ret = 2 \<and> resp ! 0 \<noteq> 0 \<longrightarrow> 0 < fst (snd (gaokun_ec_request xfer w req n)))
    \<and> (ret \<in> {0, 1} \<longrightarrow> fst (snd (gaokun_ec_request xfer w req n)) = ret)
    \<and> (fst (snd (gaokun_ec_request xfer w req n)) < 0 \<longleftrightarrow> ret < 0)"
  using assms by (simp add: gaokun_ec_request_def status_positive not_less)

theorem request_codes_witness: "fst (snd (gaokun_ec_request (\<lambda>w req n. (w, 2, [9, 0])) () [2, 0x6B, 0] 2)) = 9"
  using request_codes [of "\<lambda>w req n. (w, 2, [9, 0])" "()" "[2, 0x6B, 0]" 2 "()" 2 "[9, 0]"]
  by (simp add: gaokun_ec_request_def)

section \<open>Probing\<close>

text \<open>
  What the kernel answers during probing is a parameter: whether allocations succeed and what each
  registration returns.  The result lists what was done with the auxiliary devices; the last reference
  drop of \<open>auxiliary_device_uninit\<close> runs the release callback.
\<close>

record aux_outcome =
  aux_alloc :: bool
  aux_init_ret :: int
  aux_add_ret :: int
  aux_action_ret :: int

datatype aux_action = AuxAlloc | NodeGet | AuxInit | AuxAdd | AuxDelete | NodePut | AuxFree

definition gaokun_aux_release :: "aux_action list" where
  "gaokun_aux_release = [NodePut, AuxFree]"

definition gaokun_aux_remove :: "aux_action list" where
  "gaokun_aux_remove = AuxDelete # gaokun_aux_release"

definition gaokun_aux_init :: "aux_outcome \<Rightarrow> int \<times> aux_action list" where
  "gaokun_aux_init k =
     (if \<not> aux_alloc k then (- ENOMEM, [])
      else if aux_init_ret k \<noteq> 0 then (aux_init_ret k, [AuxAlloc, NodeGet, NodePut, AuxFree])
      else if aux_add_ret k \<noteq> 0 then (aux_add_ret k, [AuxAlloc, NodeGet, AuxInit] @ gaokun_aux_release)
      else if aux_action_ret k \<noteq> 0
      then (aux_action_ret k, [AuxAlloc, NodeGet, AuxInit, AuxAdd] @ gaokun_aux_remove)
      else (0, [AuxAlloc, NodeGet, AuxInit, AuxAdd]))"

record ec_outcome =
  ec_alloc :: bool
  mutex_ret :: int
  input_alloc :: bool
  input_ret :: int
  psy_outcome :: aux_outcome
  ucsi_outcome :: aux_outcome
  irq_ret :: int
  hwmon_ret :: int

definition gaokun_ec_probe :: "ec_outcome \<Rightarrow> int \<times> aux_action list" where
  "gaokun_ec_probe k =
     (if \<not> ec_alloc k then (- ENOMEM, [])
      else if mutex_ret k \<noteq> 0 then (mutex_ret k, [])
      else if \<not> input_alloc k then (- ENOMEM, [])
      else if input_ret k \<noteq> 0 then (input_ret k, [])
      else
        let (ret, acts) = gaokun_aux_init (psy_outcome k) in
        if ret \<noteq> 0 then (ret, acts)
        else
          let (ret, acts2) = gaokun_aux_init (ucsi_outcome k) in
          if ret \<noteq> 0 then (ret, acts @ acts2)
          else if irq_ret k \<noteq> 0 then (irq_ret k, acts @ acts2)
          else if hwmon_ret k \<noteq> 0 then (hwmon_ret k, acts @ acts2)
          else (0, acts @ acts2))"

text \<open>A failed initialisation leaves nothing behind; a successful one exactly one device and one reference.\<close>

lemma aux_init_balanced:
  assumes "gaokun_aux_init k = (ret, acts)"
  shows "count_list acts AuxAlloc = count_list acts AuxFree + (if ret = 0 then 1 else 0)"
    "count_list acts NodeGet = count_list acts NodePut + (if ret = 0 then 1 else 0)"
    "count_list acts AuxAdd = count_list acts AuxDelete + (if ret = 0 then 1 else 0)"
  using assms
  by (auto simp: gaokun_aux_init_def gaokun_aux_release_def gaokun_aux_remove_def ENOMEM_def split: if_splits)

end
