(* ===== verification/Ec_Battery.thy ===== *)
theory Ec_Battery
  imports Ec_Core
begin

text \<open>
  The power-supply driver (\<open>huawei-gaokun-battery.c\<close>) on top of the accessors of \<open>Ec_Core\<close>: the adapter
  and battery properties with the two-second cache, the charge thresholds, the two sysfs controls, the
  notifier and probing.  Besides the I2C bus the driver uses one GPIO line, the jiffies counter and the
  power-supply core; they are collected in \<open>psy_env\<close>.  A local byte that the C code leaves
  uninitialised when a read fails is the parameter \<open>stack_byte\<close>.
\<close>

record 'w psy_env =
  ec_xfer :: "'w i2c_bus"
  bat_sta_get :: "'w \<Rightarrow> bool"
  bat_sta_set :: "bool \<Rightarrow> 'w \<Rightarrow> 'w"
  jiffies :: "'w \<Rightarrow> int"
  cache_jiffies :: int
  stack_byte :: byte

section \<open>State\<close>

datatype psy_status = PS_UNKNOWN | PS_CHARGING | PS_DISCHARGING | PS_FULL

datatype psy_supply = ADP_PSY | BAT_PSY

text \<open>The two packed structs are their bytes, in the order of the registers.\<close>

record gaokun_psy =
  update_time :: int
  bat_status :: "byte list"
  bat_info :: "byte list"
  battery_model :: "byte list"
  battery_serial :: "byte list"
  battery_vendor :: "byte list"
  charge_now :: psy_status
  online :: bool
  bat_present :: bool
  nb_registered :: bool
  changed :: "psy_supply list"

definition fresh_psy :: gaokun_psy where
  "fresh_psy = \<lparr>update_time = 0, bat_status = replicate 14 0, bat_info = replicate 12 0,
     battery_model = replicate 16 0, battery_serial = replicate 16 0, battery_vendor = replicate 16 0,
     charge_now = PS_UNKNOWN, online = False, bat_present = False, nb_registered = False, changed = []\<rparr>"

definition EC_BAT_VENDOR :: byte where "EC_BAT_VENDOR = 0x01"
definition EC_BAT_MODEL :: byte where "EC_BAT_MODEL = 0x11"
definition EC_ADP_STATUS :: byte where "EC_ADP_STATUS = 0x81"
definition EC_BAT_STATUS :: byte where "EC_BAT_STATUS = 0x82"
definition EC_BAT_STATUS_START :: byte where "EC_BAT_STATUS_START = 0x90"
definition EC_BAT_INFO_START :: byte where "EC_BAT_INFO_START = 0xA0"

definition MILLI_TO_MICRO :: int where "MILLI_TO_MICRO = 1000"

text \<open>The 16-bit fields of the packed structs, by their register.\<close>

definition status_word :: "gaokun_psy \<Rightarrow> nat \<Rightarrow> int" where
  "status_word psy reg = le16 (drop (reg - 0x90) (bat_status psy))"

definition info_word :: "gaokun_psy \<Rightarrow> nat \<Rightarrow> int" where
  "info_word psy reg = le16 (drop (reg - 0xA0) (bat_info psy))"

section \<open>Reading the controller\<close>

text \<open>A register block read into a buffer: what arrived replaces its beginning.\<close>

definition read_block :: "'w psy_env \<Rightarrow> 'w \<Rightarrow> byte \<Rightarrow> nat \<Rightarrow> byte list \<Rightarrow> 'w \<times> int \<times> byte list" where
  "read_block env w reg n buf =
     (let (w, ret, resp) = gaokun_ec_psy_multi_read (ec_xfer env) w reg n in (w, ret, resp @ drop (length resp) buf))"

definition gaokun_psy_get_adp_status :: "'w psy_env \<Rightarrow> gaokun_psy \<times> 'w \<Rightarrow> (gaokun_psy \<times> 'w) \<times> int" where
  "gaokun_psy_get_adp_status env = (\<lambda>(psy, w).
     let (w, ret, status) = gaokun_ec_psy_read_byte (ec_xfer env) w EC_ADP_STATUS (stack_byte env) in
     if ret \<noteq> 0 then ((psy, w), ret) else ((psy\<lparr>online := bit status 0\<rparr>, w), 0))"

definition gaokun_psy_get_bat_present :: "'w psy_env \<Rightarrow> gaokun_psy \<times> 'w \<Rightarrow> gaokun_psy \<times> 'w" where
  "gaokun_psy_get_bat_present env = (\<lambda>(psy, w).
     let w = (if bat_sta_get env w then w
           else fst (gaokun_ec_write (ec_xfer env) (bat_sta_set env True w) [0x02, 0xB2, 1, 0x90]));
         (w, ret, present) = gaokun_ec_psy_read_byte (ec_xfer env) w EC_ADP_STATUS (stack_byte env) in
     (psy\<lparr>bat_present := ret = 0 \<and> bit present 1\<rparr>, w))"

definition gaokun_psy_get_bat_info :: "'w psy_env \<Rightarrow> gaokun_psy \<times> 'w \<Rightarrow> (gaokun_psy \<times> 'w) \<times> int" where
  "gaokun_psy_get_bat_info env = (\<lambda>(psy, w).
     if \<not> bat_present psy then ((psy, w), 0)
     else let (w, ret, info) = read_block env w EC_BAT_INFO_START 12 (bat_info psy) in
       ((psy\<lparr>bat_info := info\<rparr>, w), ret))"

text \<open>The result of the read is not looked at; a status byte that is no single bit changes nothing.\<close>

definition charge_of :: "byte \<Rightarrow> psy_status \<Rightarrow> psy_status" where
  "charge_of charge old =
     (if charge = 2 then PS_CHARGING else if charge = 1 then PS_DISCHARGING else if charge = 8 then PS_FULL else old)"

definition gaokun_psy_update_bat_charge :: "'w psy_env \<Rightarrow> gaokun_psy \<times> 'w \<Rightarrow> gaokun_psy \<times> 'w" where
  "gaokun_psy_update_bat_charge env = (\<lambda>(psy, w).
     let (w, ret, charge) = gaokun_ec_psy_read_byte (ec_xfer env) w EC_BAT_STATUS (stack_byte env) in
     (psy\<lparr>charge_now := charge_of charge (charge_now psy)\<rparr>, w))"

text \<open>The kernel's comparison of two counter values that may have wrapped.\<close>

definition time_before :: "int \<Rightarrow> int \<Rightarrow> bool" where
  "time_before a b \<longleftrightarrow> s64 (a - b) < 0"

definition gaokun_psy_get_bat_status :: "'w psy_env \<Rightarrow> gaokun_psy \<times> 'w \<Rightarrow> (gaokun_psy \<times> 'w) \<times> int" where
  "gaokun_psy_get_bat_status env = (\<lambda>(psy, w).
     if time_before (jiffies env w) (update_time psy + cache_jiffies env) then ((psy, w), 0)
     else
       let (psy, w) = gaokun_psy_update_bat_charge env (psy, w);
           (w, ret, status) = read_block env w EC_BAT_STATUS_START 14 (bat_status psy) in
       ((psy\<lparr>bat_status := status, update_time := jiffies env w\<rparr>, w), ret))"

text \<open>\<open>snprintf\<close> into a buffer of \<open>n\<close> bytes: the text cut to fit, a zero byte, the old bytes.\<close>

fun decimal :: "nat \<Rightarrow> byte list" where
  "decimal v = (if v < 10 then [of_nat (48 + v)] else decimal (v div 10) @ [of_nat (48 + v mod 10)])"

declare decimal.simps [simp del]

definition put_text :: "byte list \<Rightarrow> byte list \<Rightarrow> byte list" where
  "put_text txt buf = (let t = take (length buf - 1) txt in t @ [0] @ drop (length t + 1) buf)"

definition gaokun_psy_init :: "'w psy_env \<Rightarrow> gaokun_psy \<times> 'w \<Rightarrow> gaokun_psy \<times> 'w" where
  "gaokun_psy_init env s =
     (let (psy, w) = gaokun_psy_get_bat_present env s in
      if \<not> bat_present psy then (psy, w)
      else
        let (psy, w) = fst (gaokun_psy_get_bat_info env (psy, w));
            psy = psy\<lparr>battery_serial := put_text (decimal (nat (info_word psy 0xA6))) (battery_serial psy)\<rparr>;
            (w, r1, vendor) = read_block env w EC_BAT_VENDOR 15 (battery_vendor psy);
            (w, r2, model) = read_block env w EC_BAT_MODEL 15 (battery_model psy) in
        (psy\<lparr>battery_vendor := vendor, battery_model := model[14 := 0x41]\<rparr>, w))"

section \<open>Properties\<close>

datatype psy_prop =
    PROP_ONLINE | PROP_USB_TYPE | PROP_STATUS | PROP_PRESENT | PROP_TECHNOLOGY | PROP_CYCLE_COUNT
  | PROP_VOLTAGE_MIN_DESIGN | PROP_VOLTAGE_NOW | PROP_CURRENT_NOW | PROP_CHARGE_FULL_DESIGN | PROP_CHARGE_FULL
  | PROP_CHARGE_NOW | PROP_START_THRESHOLD | PROP_END_THRESHOLD | PROP_CAPACITY | PROP_MODEL_NAME
  | PROP_MANUFACTURER | PROP_SERIAL_NUMBER | PROP_OTHER

datatype psy_val = IntVal int | StatusVal psy_status | TypeC | Lion | StrVal "byte list"

definition gaokun_psy_get_adp_property ::
  "'w psy_env \<Rightarrow> psy_prop \<Rightarrow> gaokun_psy \<times> 'w \<Rightarrow> (gaokun_psy \<times> 'w) \<times> (int + psy_val)" where
  "gaokun_psy_get_adp_property env psp s =
     (let ((psy, w), ret) = gaokun_psy_get_adp_status env s in
      ((psy, w), if ret \<noteq> 0 then Inl ret
        else case psp of PROP_ONLINE \<Rightarrow> Inr (IntVal (if online psy then 1 else 0)) | PROP_USB_TYPE \<Rightarrow> Inr TypeC
          | _ \<Rightarrow> Inl (- EINVAL)))"

definition gaokun_psy_get_bat_property ::
  "'w psy_env \<Rightarrow> psy_prop \<Rightarrow> gaokun_psy \<times> 'w \<Rightarrow> (gaokun_psy \<times> 'w) \<times> (int + psy_val)" where
  "gaokun_psy_get_bat_property env psp s =
     (if \<not> bat_present (fst s) \<and> psp \<noteq> PROP_PRESENT then (s, Inl (- ENODEV))
      else
        let (psy, w) = (if bat_present (fst s) then fst (gaokun_psy_get_bat_status env s) else s) in
        case psp of
          PROP_STATUS \<Rightarrow> ((psy, w), Inr (StatusVal (charge_now psy)))
        | PROP_PRESENT \<Rightarrow> ((psy, w), Inr (IntVal (if bat_present psy then 1 else 0)))
        | PROP_TECHNOLOGY \<Rightarrow> ((psy, w), Inr Lion)
        | PROP_CYCLE_COUNT \<Rightarrow> ((psy, w), Inr (IntVal (info_word psy 0xAA)))
        | PROP_VOLTAGE_MIN_DESIGN \<Rightarrow> ((psy, w), Inr (IntVal (info_word psy 0xA4 * MILLI_TO_MICRO)))
        | PROP_VOLTAGE_NOW \<Rightarrow> ((psy, w), Inr (IntVal (status_word psy 0x92 * MILLI_TO_MICRO)))
        | PROP_CURRENT_NOW \<Rightarrow> ((psy, w), Inr (IntVal (s16 (status_word psy 0x9A) * MILLI_TO_MICRO)))
        | PROP_CHARGE_FULL_DESIGN \<Rightarrow> ((psy, w), Inr (IntVal (info_word psy 0xA2 * MILLI_TO_MICRO)))
        | PROP_CHARGE_FULL \<Rightarrow> ((psy, w), Inr (IntVal (status_word psy 0x96 * MILLI_TO_MICRO)))
        | PROP_CHARGE_NOW \<Rightarrow> ((psy, w), Inr (IntVal (status_word psy 0x94 * MILLI_TO_MICRO)))
        | PROP_START_THRESHOLD \<Rightarrow>
            (let (w, r) = gaokun_ec_psy_get_smart_charge (ec_xfer env) w in
             ((psy, w), case r of Inl e \<Rightarrow> Inl e | Inr buf \<Rightarrow> Inr (IntVal (uint (buf ! 2)))))
        | PROP_END_THRESHOLD \<Rightarrow>
            (let (w, r) = gaokun_ec_psy_get_smart_charge (ec_xfer env) w in
             ((psy, w), case r of Inl e \<Rightarrow> Inl e | Inr buf \<Rightarrow> Inr (IntVal (uint (buf ! 3)))))
        | PROP_CAPACITY \<Rightarrow> ((psy, w), Inr (IntVal (status_word psy 0x90)))
        | PROP_MODEL_NAME \<Rightarrow> ((psy, w), Inr (StrVal (battery_model psy)))
        | PROP_MANUFACTURER \<Rightarrow> ((psy, w), Inr (StrVal (battery_vendor psy)))
        | PROP_SERIAL_NUMBER \<Rightarrow> ((psy, w), Inr (StrVal (battery_serial psy)))
        | _ \<Rightarrow> ((psy, w), Inl (- EINVAL)))"

text \<open>The thresholds are bytes 2 and 3 of the smart-charge data; a value is cut to a byte.\<close>

definition set_start :: "int \<Rightarrow> byte list \<Rightarrow> byte list" where
  "set_start v buf =
     (let buf = buf[2 := word_of_int v] in if buf ! 2 > buf ! 3 then buf[3 := buf ! 2 + 1] else buf)"

definition set_end :: "int \<Rightarrow> byte list \<Rightarrow> byte list" where
  "set_end v buf =
     (let buf = buf[3 := word_of_int v] in if buf ! 3 < buf ! 2 then buf[2 := buf ! 3 - 1] else buf)"

definition gaokun_psy_set_bat_property ::
  "'w psy_env \<Rightarrow> psy_prop \<Rightarrow> int \<Rightarrow> gaokun_psy \<times> 'w \<Rightarrow> (gaokun_psy \<times> 'w) \<times> int" where
  "gaokun_psy_set_bat_property env psp v = (\<lambda>(psy, w).
     if \<not> bat_present psy then ((psy, w), - ENODEV)
     else
       let (w, r) = gaokun_ec_psy_get_smart_charge (ec_xfer env) w in
       case r of Inl e \<Rightarrow> ((psy, w), e)
       | Inr buf \<Rightarrow>
           (case psp of
              PROP_START_THRESHOLD \<Rightarrow>
                (let (w, ret) = gaokun_ec_psy_set_smart_charge (ec_xfer env) w (set_start v buf) in ((psy, w), ret))
            | PROP_END_THRESHOLD \<Rightarrow>
                (let (w, ret) = gaokun_ec_psy_set_smart_charge (ec_xfer env) w (set_end v buf) in ((psy, w), ret))
            | _ \<Rightarrow> ((psy, w), - EINVAL)))"

definition gaokun_psy_is_bat_property_writeable :: "psy_prop \<Rightarrow> bool" where
  "gaokun_psy_is_bat_property_writeable psp \<longleftrightarrow> psp = PROP_START_THRESHOLD \<or> psp = PROP_END_THRESHOLD"

definition gaokun_psy_adp_props :: "psy_prop list" where
  "gaokun_psy_adp_props = [PROP_ONLINE, PROP_USB_TYPE]"

definition gaokun_psy_bat_props :: "psy_prop list" where
  "gaokun_psy_bat_props = [PROP_STATUS, PROP_PRESENT, PROP_TECHNOLOGY, PROP_CYCLE_COUNT, PROP_VOLTAGE_MIN_DESIGN,
     PROP_VOLTAGE_NOW, PROP_CURRENT_NOW, PROP_CHARGE_FULL_DESIGN, PROP_CHARGE_FULL, PROP_CHARGE_NOW,
     PROP_START_THRESHOLD, PROP_END_THRESHOLD, PROP_CAPACITY, PROP_MODEL_NAME, PROP_MANUFACTURER, PROP_SERIAL_NUMBER]"

section \<open>The two controls\<close>

definition battery_adaptive_charge_show :: "'w psy_env \<Rightarrow> 'w \<Rightarrow> 'w \<times> (int + bool)" where
  "battery_adaptive_charge_show env w = gaokun_ec_psy_get_smart_charge_enable (ec_xfer env) w"

text \<open>The argument is what \<open>kstrtobool\<close> makes of the text; the result is a code or the number of bytes.\<close>

definition battery_adaptive_charge_store :: "'w psy_env \<Rightarrow> int + bool \<Rightarrow> nat \<Rightarrow> 'w \<Rightarrow> 'w \<times> int" where
  "battery_adaptive_charge_store env arg n w =
     (case arg of Inl e \<Rightarrow> (w, - EINVAL)
      | Inr on \<Rightarrow> let (w, ret) = gaokun_ec_psy_set_smart_charge_enable (ec_xfer env) w on in
          (w, if ret \<noteq> 0 then ret else int n))"

definition NO_DELAY_MODE :: byte where "NO_DELAY_MODE = 1"
definition DELAY_MODE :: byte where "DELAY_MODE = 4"

definition get_charge_delay :: "byte list \<Rightarrow> int" where
  "get_charge_delay buf = (if buf ! 0 = NO_DELAY_MODE then 0 else uint (buf ! 1))"

definition set_charge_delay :: "byte list \<Rightarrow> byte \<Rightarrow> byte list" where
  "set_charge_delay buf delay =
     (if delay \<noteq> 0 then buf[1 := delay, 0 := DELAY_MODE] else buf[0 := NO_DELAY_MODE])"

definition smart_charge_delay_show :: "'w psy_env \<Rightarrow> 'w \<Rightarrow> 'w \<times> (int + int)" where
  "smart_charge_delay_show env w =
     (let (w, r) = gaokun_ec_psy_get_smart_charge (ec_xfer env) w in
      (w, case r of Inl e \<Rightarrow> Inl e | Inr buf \<Rightarrow> Inr (get_charge_delay buf)))"

definition smart_charge_delay_store :: "'w psy_env \<Rightarrow> int + byte \<Rightarrow> nat \<Rightarrow> 'w \<Rightarrow> 'w \<times> int" where
  "smart_charge_delay_store env arg n w =
     (case arg of Inl e \<Rightarrow> (w, - EINVAL)
      | Inr delay \<Rightarrow>
          let (w, r) = gaokun_ec_psy_get_smart_charge (ec_xfer env) w in
          case r of Inl e \<Rightarrow> (w, e)
          | Inr buf \<Rightarrow>
              let (w, ret) = gaokun_ec_psy_set_smart_charge (ec_xfer env) w (set_charge_delay buf delay) in
              (w, if ret \<noteq> 0 then ret else int n))"

section \<open>Events, probing\<close>

datatype notify_result = NOTIFY_OK | NOTIFY_DONE

definition supply_changed :: "psy_supply \<Rightarrow> gaokun_psy \<Rightarrow> gaokun_psy" where
  "supply_changed p psy = psy\<lparr>changed := changed psy @ [p]\<rparr>"

text \<open>The tail all status events share.\<close>

definition refresh_battery :: "'w psy_env \<Rightarrow> gaokun_psy \<times> 'w \<Rightarrow> gaokun_psy \<times> 'w" where
  "refresh_battery env s =
     (let (psy, w) = fst (gaokun_psy_get_bat_status env s) in (supply_changed BAT_PSY psy, w))"

definition gaokun_psy_notify :: "'w psy_env \<Rightarrow> byte \<Rightarrow> gaokun_psy \<times> 'w \<Rightarrow> (gaokun_psy \<times> 'w) \<times> notify_result" where
  "gaokun_psy_notify env action s =
     (if action = 0xA2 \<or> action = 0xB1 then (fst (gaokun_psy_get_bat_info env s), NOTIFY_OK)
      else if action = 0xA0 then
        (let (psy, w) = fst (gaokun_psy_get_adp_status env s) in
         (refresh_battery env (supply_changed ADP_PSY psy, w), NOTIFY_OK))
      else if action = 0xA1 then (refresh_battery env s, NOTIFY_OK)
      else if action = 0xA3 then
        (refresh_battery env (fst (gaokun_psy_get_bat_info env (gaokun_psy_get_bat_present env s))), NOTIFY_OK)
      else (s, NOTIFY_DONE))"

text \<open>The kernel calls of probing: the allocation, the two registrations and that of the notifier.\<close>

record psy_probe_calls =
  psy_alloc :: bool
  adp_register_ret :: int
  bat_register_ret :: int
  notify_register_ret :: int

definition gaokun_psy_probe ::
  "'w psy_env \<Rightarrow> psy_probe_calls \<Rightarrow> 'w \<Rightarrow> 'w \<times> (int + gaokun_psy)" where
  "gaokun_psy_probe env k w =
     (if \<not> psy_alloc k then (w, Inl (- ENOMEM))
      else if adp_register_ret k \<noteq> 0 then (w, Inl (adp_register_ret k))
      else if bat_register_ret k \<noteq> 0 then (w, Inl (bat_register_ret k))
      else let (psy, w) = gaokun_psy_init env (fresh_psy, w) in
        (w, if notify_register_ret k \<noteq> 0 then Inl (notify_register_ret k) else Inr (psy\<lparr>nb_registered := True\<rparr>)))"

definition gaokun_psy_remove :: "gaokun_psy \<Rightarrow> gaokun_psy" where
  "gaokun_psy_remove psy = psy\<lparr>nb_registered := False\<rparr>"

section \<open>Thresholds\<close>

lemma set_start_fields:
  assumes "length buf = 4"
  shows "length (set_start v buf) = 4" "take 2 (set_start v buf) = take 2 buf" "set_start v buf ! 2 = word_of_int v"
    "set_start v buf ! 3 = (if word_of_int v > buf ! 3 then word_of_int v + 1 else buf ! 3)"
  using assms by (simp_all add: set_start_def Let_def)

lemma set_end_fields:
  assumes "length buf = 4"
  shows "length (set_end v buf) = 4" "take 2 (set_end v buf) = take 2 buf" "set_end v buf ! 3 = word_of_int v"
    "set_end v buf ! 2 = (if word_of_int v < buf ! 2 then word_of_int v - 1 else buf ! 2)"
  using assms by (simp_all add: set_end_def Let_def)

text \<open>C19: Charge thresholds survive the round trip: when setting the start (or the end) threshold reports
  success on a controller that keeps its settings, the controller then holds the value, cut to a byte,
  as that threshold; the other one is as before, unless the pair would be out of order and it was moved
  next to the new value; mode and delay are as before; and the pair is ordered and at most 100.\<close>

theorem threshold_round_trip:
  assumes "keeps_settings (ec_xfer env)" "gaokun_ec_psy_get_smart_charge (ec_xfer env) w = (w0, Inr old)" "length old = 4"
    "psp = PROP_START_THRESHOLD \<or> psp = PROP_END_THRESHOLD"
    "gaokun_psy_set_bat_property env psp v (psy, w) = ((psy', w'), 0)"
  shows "\<exists>w'' d. gaokun_ec_psy_get_smart_charge (ec_xfer env) w' = (w'', Inr d) \<and> take 2 d = take 2 old
    \<and> (if psp = PROP_START_THRESHOLD
       then d ! 2 = word_of_int v \<and> d ! 3 = (if word_of_int v > old ! 3 then word_of_int v + 1 else old ! 3)
       else d ! 3 = word_of_int v \<and> d ! 2 = (if word_of_int v < old ! 2 then word_of_int v - 1 else old ! 2))
    \<and> d ! 2 \<le> d ! 3 \<and> d ! 3 \<le> 100"
proof -
  define d where "d = (if psp = PROP_START_THRESHOLD then set_start v old else set_end v old)"
  have len: "length d = 4" using assms(3) by (simp add: d_def set_start_fields set_end_fields)
  have "gaokun_ec_psy_set_smart_charge (ec_xfer env) w0 d = (w', 0)"
    using assms(2,4,5) by (auto simp: gaokun_psy_set_bat_property_def d_def ENODEV_def split: if_splits prod.splits)
  from smart_charge_kept [OF assms(1) len this] show ?thesis
    using assms(3,4) by (auto simp: d_def set_start_fields set_end_fields)
qed

text \<open>A laptop with the controller that stores its settings.\<close>

definition setting_env :: "(byte \<Rightarrow> byte list) psy_env" where
  "setting_env = \<lparr>ec_xfer = setting_bus, bat_sta_get = \<lambda>_. True, bat_sta_set = \<lambda>_ w. w, jiffies = \<lambda>_. 5000,
     cache_jiffies = 500, stack_byte = 0\<rparr>"

lemma setting_env_xfer [simp]: "ec_xfer setting_env = setting_bus"
  by (simp add: setting_env_def)

lemma setting_bus_reads: "gaokun_ec_psy_get_smart_charge setting_bus (\<lambda>_. [4, 0, 40, 60]) = (\<lambda>_. [4, 0, 40, 60], Inr [4, 0, 40, 60])"
  by (simp add: gaokun_ec_psy_get_smart_charge_def gaokun_ec_read_data_def gaokun_ec_read_def gaokun_ec_request_def
      setting_bus_def extr_resp_def RESP_HDR_SIZE_def)

lemma setting_bus_writes:
  assumes "length d = 4" "validate_battery_threshold_range (d ! 2) (d ! 3)"
  shows "\<exists>w'. gaokun_ec_psy_set_smart_charge setting_bus w d = (w', 0)"
  using assms
  by (auto simp: gaokun_ec_psy_set_smart_charge_def gaokun_ec_write_def gaokun_ec_request_def setting_bus_def
      length_Suc_conv numeral_eq_Suc)

theorem threshold_round_trip_witness:
  "\<exists>w' w'' d. gaokun_psy_set_bat_property setting_env PROP_START_THRESHOLD 70 (fresh_psy\<lparr>bat_present := True\<rparr>, \<lambda>_. [4, 0, 40, 60])
      = ((fresh_psy\<lparr>bat_present := True\<rparr>, w'), 0)
    \<and> gaokun_ec_psy_get_smart_charge setting_bus w' = (w'', Inr d) \<and> d ! 2 = 70 \<and> d ! 3 = 71"
proof -
  let ?p = "fresh_psy\<lparr>bat_present := True\<rparr>"
  obtain w' where "gaokun_ec_psy_set_smart_charge setting_bus (\<lambda>_. [4, 0, 40, 60]) [4, 0, 70, 71] = (w', 0)"
    using setting_bus_writes [of "[4, 0, 70, 71]"] by (auto simp: validate_battery_threshold_range_def)
  then have s: "gaokun_psy_set_bat_property setting_env PROP_START_THRESHOLD 70 (?p, \<lambda>_. [4, 0, 40, 60]) = ((?p, w'), 0)"
    by (simp add: gaokun_psy_set_bat_property_def setting_bus_reads set_start_def)
  show ?thesis
    using threshold_round_trip [of setting_env, OF _ _ _ _ s, of "\<lambda>_. [4, 0, 40, 60]" "[4, 0, 40, 60]"] s
    by (auto simp: setting_bus_keeps setting_bus_reads)
qed

text \<open>The value of a threshold is not checked before it is cut to a byte: a value that is too large by a
  multiple of 256 is treated like its remainder, so 296 is stored as 40.\<close>

theorem threshold_cut_to_byte:
  "gaokun_psy_set_bat_property env psp (v + 256 * k) s = gaokun_psy_set_bat_property env psp v s"
proof -
  have e: "(word_of_int (v + 256 * k) :: byte) = word_of_int v"
    unfolding word_of_int_eq_iff
    by (simp add: word_of_int_eq_iff take_bit_eq_mod)
  show ?thesis unfolding gaokun_psy_set_bat_property_def set_start_def set_end_def e by (rule refl)
qed

text \<open>Setting a threshold to the value of the other one sends an empty range.\<close>

lemma equal_thresholds_sent:
  assumes "length buf = 4"
  shows "set_start (uint (buf ! 3)) buf ! 2 = set_start (uint (buf ! 3)) buf ! 3"
  using assms by (simp add: set_start_fields)

section \<open>The charge delay\<close>

lemma delay_fields:
  assumes "length buf = 4"
  shows "length (set_charge_delay buf d) = 4" "get_charge_delay (set_charge_delay buf d) = uint d"
    "drop 2 (set_charge_delay buf d) = drop 2 buf"
  using assms by (simp_all add: set_charge_delay_def get_charge_delay_def NO_DELAY_MODE_def DELAY_MODE_def)

text \<open>The charge delay reads back as written, zero included: when the controller, which keeps its
  settings, acknowledges the data with the new delay, the store reports the full count, showing gives
  the same number, and the thresholds are as before.\<close>

theorem delay_round_trip:
  assumes "keeps_settings (ec_xfer env)" "gaokun_ec_psy_get_smart_charge (ec_xfer env) w = (w0, Inr old)" "length old = 4"
    "gaokun_ec_psy_set_smart_charge (ec_xfer env) w0 (set_charge_delay old d) = (w', 0)"
  shows "smart_charge_delay_store env (Inr d) n w = (w', int n)
    \<and> snd (smart_charge_delay_show env w') = Inr (uint d)
    \<and> (\<exists>w'' new. gaokun_ec_psy_get_smart_charge (ec_xfer env) w' = (w'', Inr new) \<and> drop 2 new = drop 2 old)"
proof -
  obtain w'' where "gaokun_ec_psy_get_smart_charge (ec_xfer env) w' = (w'', Inr (set_charge_delay old d))"
    using smart_charge_kept [OF assms(1) delay_fields(1) [OF assms(3)] assms(4)] by blast
  then show ?thesis
    using assms(2,4) delay_fields [OF assms(3)]
    by (simp add: smart_charge_delay_show_def smart_charge_delay_store_def)
qed

theorem delay_round_trip_witness:
  "\<exists>w'. smart_charge_delay_store setting_env (Inr 7) 2 (\<lambda>_. [4, 0, 40, 60]) = (w', 2)
    \<and> snd (smart_charge_delay_show setting_env w') = Inr 7"
proof -
  obtain w' where s: "gaokun_ec_psy_set_smart_charge setting_bus (\<lambda>_. [4, 0, 40, 60]) (set_charge_delay [4, 0, 40, 60] 7) = (w', 0)"
    using setting_bus_writes [of "set_charge_delay [4, 0, 40, 60] 7"]
    by (auto simp: validate_battery_threshold_range_def set_charge_delay_def)
  show ?thesis
    using delay_round_trip [of setting_env "\<lambda>_. [4, 0, 40, 60]" "\<lambda>_. [4, 0, 40, 60]" "[4, 0, 40, 60]" 7 w' 2] s
    by (auto simp: setting_bus_keeps setting_bus_reads)
qed

section \<open>The cache and stale values\<close>

definition from_cache :: "psy_prop \<Rightarrow> bool" where
  "from_cache psp \<longleftrightarrow> psp \<noteq> PROP_START_THRESHOLD \<and> psp \<noteq> PROP_END_THRESHOLD"

lemma cached_property:
  assumes "from_cache psp" "bat_present psy" "gaokun_psy_get_bat_status env (psy, w) = ((psy', w'), ret)"
  shows "fst (gaokun_psy_get_bat_property env psp (psy, w)) = (psy', w')"
  using assms by (simp add: gaokun_psy_get_bat_property_def from_cache_def split: psy_prop.split)

text \<open>The battery is asked at most once per cache period: a property read within the period after the
  last refresh leaves driver and controller alone, and a later one records the new time, whatever became
  of the transfers.\<close>

theorem cache_limits_transfers:
  assumes "from_cache psp" "bat_present psy"
  shows "if time_before (jiffies env w) (update_time psy + cache_jiffies env)
    then fst (gaokun_psy_get_bat_property env psp (psy, w)) = (psy, w)
    else update_time (fst (fst (gaokun_psy_get_bat_property env psp (psy, w))))
      = jiffies env (snd (fst (gaokun_psy_get_bat_property env psp (psy, w))))"
proof -
  obtain psy' w' ret where g: "gaokun_psy_get_bat_status env (psy, w) = ((psy', w'), ret)" by (metis prod.exhaust)
  show ?thesis
    unfolding cached_property [OF assms g]
    using g by (auto simp: gaokun_psy_get_bat_status_def gaokun_psy_update_bat_charge_def split: prod.splits)
qed

theorem cache_limits_transfers_witness:
  "update_time (fst (fst (gaokun_psy_get_bat_property setting_env PROP_CAPACITY (fresh_psy\<lparr>bat_present := True\<rparr>, \<lambda>_. [])))) = 5000
    \<and> fst (gaokun_psy_get_bat_property setting_env PROP_CAPACITY (fresh_psy\<lparr>bat_present := True, update_time := 4600\<rparr>, \<lambda>_. []))
      = (fresh_psy\<lparr>bat_present := True, update_time := 4600\<rparr>, \<lambda>_. [])"
  using cache_limits_transfers [of PROP_CAPACITY "fresh_psy\<lparr>bat_present := True\<rparr>" setting_env "\<lambda>_. []"]
    cache_limits_transfers [of PROP_CAPACITY "fresh_psy\<lparr>bat_present := True, update_time := 4600\<rparr>" setting_env "\<lambda>_. []"]
  by (simp add: from_cache_def setting_env_def time_before_def fresh_psy_def s64_def)

text \<open>C30: A dead bus goes unnoticed: when every transfer fails, a property read after the cache period still
  succeeds, reports the voltage of the last good refresh, and marks the stale values as fresh.\<close>

theorem dead_bus_reports_stale_voltage:
  assumes "\<And>w req n. fst (snd (ec_xfer env w req n)) < 0" "bat_present psy" "length (bat_status psy) = 14"
    "\<not> time_before (jiffies env w) (update_time psy + cache_jiffies env)"
  shows "\<exists>psy' w'. gaokun_psy_get_bat_property env PROP_VOLTAGE_NOW (psy, w)
      = ((psy', w'), Inr (IntVal (status_word psy 0x92 * 1000)))
    \<and> update_time psy' = jiffies env w' \<and> bat_status psy' = bat_status psy"
proof -
  have dead: "\<exists>w' e. multi_read_loop (ec_xfer env) u q r (Suc n) = (w', e, []) \<and> e \<noteq> 0" for u q r n
  proof -
    obtain w' e resp where x: "ec_xfer env u (take (REQ_LEN (refill_req_byte q r)) (refill_req_byte q r)) 3 = (w', e, resp)"
      by (metis prod.exhaust)
    then have "e < 0" using assms(1) by (metis fst_conv snd_conv)
    then show ?thesis using x by (simp add: gaokun_ec_read_def gaokun_ec_request_def)
  qed
  obtain w1 e1 where b: "gaokun_ec_psy_read_byte (ec_xfer env) w EC_BAT_STATUS (stack_byte env) = (w1, e1, stack_byte env)"
    using dead [of w "MKREQ 0x02 0x80 1 [0]" EC_BAT_STATUS 0]
    by (auto simp: gaokun_ec_psy_read_byte_def gaokun_ec_psy_multi_read_def)
  obtain w2 e2 where m: "gaokun_ec_psy_multi_read (ec_xfer env) w1 EC_BAT_STATUS_START 14 = (w2, e2, [])"
    using dead [of w1 "MKREQ 0x02 0x80 1 [0]" EC_BAT_STATUS_START 13]
    by (auto simp: gaokun_ec_psy_multi_read_def)
  show ?thesis
    using assms(2,4)
    by (simp add: gaokun_psy_get_bat_property_def gaokun_psy_get_bat_status_def gaokun_psy_update_bat_charge_def b
        read_block_def m status_word_def MILLI_TO_MICRO_def)
qed

definition dead_env :: "unit psy_env" where
  "dead_env = \<lparr>ec_xfer = \<lambda>w req n. (w, -5, []), bat_sta_get = \<lambda>_. True, bat_sta_set = \<lambda>_ w. w, jiffies = \<lambda>_. 5000,
     cache_jiffies = 500, stack_byte = 0\<rparr>"

theorem dead_bus_reports_stale_voltage_witness:
  "\<exists>psy'. gaokun_psy_get_bat_property dead_env PROP_VOLTAGE_NOW
      (fresh_psy\<lparr>bat_present := True, bat_status := [50, 0, 0, 0x10] @ replicate 10 0\<rparr>, ())
    = ((psy', ()), Inr (IntVal 4096000)) \<and> update_time psy' = 5000"
  using dead_bus_reports_stale_voltage [of dead_env "fresh_psy\<lparr>bat_present := True, bat_status := [50, 0, 0, 0x10] @ replicate 10 0\<rparr>" "()"]
  by (auto simp: dead_env_def time_before_def fresh_psy_def s64_def status_word_def le16_def)

section \<open>The state over the life of the driver\<close>

lemma multi_read_length: "multi_read_loop xfer w q r n = (w', ret, resp) \<Longrightarrow> length resp \<le> n"
  by (induction n arbitrary: w q r w' ret resp) (auto simp: Let_def split: prod.splits if_splits)

lemma read_block_length:
  assumes "read_block env w reg n buf = (w', ret, out)" "n \<le> length buf"
  shows "length out = length buf \<and> drop n out = drop n buf"
proof -
  obtain w1 r resp where m: "gaokun_ec_psy_multi_read (ec_xfer env) w reg n = (w1, r, resp)" by (metis prod.exhaust)
  then have "length resp \<le> n" using multi_read_length by (simp add: gaokun_ec_psy_multi_read_def)
  then show ?thesis using assms m by (auto simp: read_block_def)
qed

text \<open>Complete structs, and strings that end within their buffers.\<close>

definition psy_inv :: "gaokun_psy \<Rightarrow> bool" where
  "psy_inv psy \<longleftrightarrow> length (bat_status psy) = 14 \<and> length (bat_info psy) = 12
     \<and> length (battery_model psy) = 16 \<and> battery_model psy ! 15 = 0
     \<and> length (battery_vendor psy) = 16 \<and> battery_vendor psy ! 15 = 0
     \<and> length (battery_serial psy) = 16 \<and> 0 \<in> set (battery_serial psy)"

lemma psy_inv_upd [simp]:
  "psy_inv (psy\<lparr>online := b\<rparr>) = psy_inv psy" "psy_inv (psy\<lparr>bat_present := b\<rparr>) = psy_inv psy"
  "psy_inv (psy\<lparr>charge_now := c\<rparr>) = psy_inv psy" "psy_inv (psy\<lparr>changed := l\<rparr>) = psy_inv psy"
  "psy_inv (psy\<lparr>update_time := t\<rparr>) = psy_inv psy" "psy_inv (psy\<lparr>nb_registered := b\<rparr>) = psy_inv psy"
  by (simp_all add: psy_inv_def)

lemma adp_inv: "psy_inv (fst s) \<Longrightarrow> psy_inv (fst (fst (gaokun_psy_get_adp_status env s)))"
  by (auto simp: gaokun_psy_get_adp_status_def Let_def split: prod.split)

lemma present_inv: "psy_inv (fst s) \<Longrightarrow> psy_inv (fst (gaokun_psy_get_bat_present env s))"
  by (cases s) (simp add: gaokun_psy_get_bat_present_def Let_def split: prod.split)

lemma info_inv: "psy_inv (fst s) \<Longrightarrow> psy_inv (fst (fst (gaokun_psy_get_bat_info env s)))"
  by (auto simp: gaokun_psy_get_bat_info_def psy_inv_def dest: read_block_length split: prod.split)

lemma status_inv: "psy_inv (fst s) \<Longrightarrow> psy_inv (fst (fst (gaokun_psy_get_bat_status env s)))"
  by (auto simp: gaokun_psy_get_bat_status_def gaokun_psy_update_bat_charge_def psy_inv_def
      dest: read_block_length split: prod.split)

lemma put_text_length:
  assumes "0 < length buf"
  shows "length (put_text txt buf) = length buf" "0 \<in> set (put_text txt buf)"
  using assms by (cases buf; simp add: put_text_def Let_def min_def)+

lemma init_inv:
  assumes "psy_inv (fst s)"
  shows "psy_inv (fst (gaokun_psy_init env s))"
proof -
  obtain psy1 w1 where p: "gaokun_psy_get_bat_present env s = (psy1, w1)" by fastforce
  obtain psy2 w2 r2 where i: "gaokun_psy_get_bat_info env (psy1, w1) = ((psy2, w2), r2)" by (metis prod.exhaust)
  have inv: "psy_inv psy1" "psy_inv psy2"
    using present_inv [OF assms, of env] info_inv [of "(psy1, w1)" env] p i by simp_all
  define psy3 where "psy3 = psy2\<lparr>battery_serial := put_text (decimal (nat (info_word psy2 0xA6))) (battery_serial psy2)\<rparr>"
  have three: "psy_inv psy3"
    using inv(2) put_text_length [of "battery_serial psy2"] by (simp add: psy_inv_def psy3_def)
  obtain w3 r3 vendor where v: "read_block env w2 EC_BAT_VENDOR 15 (battery_vendor psy3) = (w3, r3, vendor)" by (metis prod.exhaust)
  obtain w4 r4 model where m: "read_block env w3 EC_BAT_MODEL 15 (battery_model psy3) = (w4, r4, model)" by (metis prod.exhaust)
  have last: "x ! 15 = (0 :: byte)" if "length x = 16" "drop 15 x = drop 15 y" "length y = 16" "y ! 15 = 0" for x y
    using that by (metis append_take_drop_id drop_eq_Nil hd_drop_conv_nth le_numeral_extra(4) linorder_not_le
        numeral_less_iff semiring_norm(76,78,80,81))
  have "length vendor = 16 \<and> vendor ! 15 = 0" "length model = 16 \<and> model ! 15 = 0"
    using read_block_length [OF v] read_block_length [OF m] three last by (simp_all add: psy_inv_def)
  then have "psy_inv (psy3\<lparr>battery_vendor := vendor, battery_model := model[14 := 0x41]\<rparr>)"
    using three by (simp add: psy_inv_def)
  moreover have "battery_vendor psy3 = battery_vendor psy2" "battery_model psy3 = battery_model psy2"
    by (simp_all add: psy3_def)
  ultimately show ?thesis
    using inv(1) v m by (simp add: gaokun_psy_init_def p i Let_def psy3_def [symmetric])
qed

lemma refresh_inv: "psy_inv (fst s) \<Longrightarrow> psy_inv (fst (refresh_battery env s))"
  using status_inv [of s env]
  by (cases "fst (gaokun_psy_get_bat_status env s)") (simp add: refresh_battery_def supply_changed_def)

lemma notify_inv: "psy_inv (fst s) \<Longrightarrow> psy_inv (fst (fst (gaokun_psy_notify env action s)))"
proof -
  assume a: "psy_inv (fst s)"
  have ac: "psy_inv (fst (let (psy, w) = fst (gaokun_psy_get_adp_status env s) in (supply_changed ADP_PSY psy, w)))"
    using adp_inv [OF a, of env]
    by (cases "fst (gaokun_psy_get_adp_status env s)") (simp add: supply_changed_def)
  show ?thesis
    unfolding gaokun_psy_notify_def
    using a refresh_inv [OF a] refresh_inv [OF ac] info_inv [OF a]
      refresh_inv [OF info_inv [OF present_inv [OF a]]]
    by (cases "fst (gaokun_psy_get_adp_status env s)") simp
qed

lemma get_inv: "psy_inv (fst s) \<Longrightarrow> psy_inv (fst (fst (gaokun_psy_get_bat_property env psp s)))"
proof -
  assume a: "psy_inv (fst s)"
  have "\<exists>psy w w'. fst (gaokun_psy_get_bat_property env psp s) = (psy, w') \<and> (psy_inv psy)"
    using a status_inv [OF a, of env]
    by (cases s; cases "fst (gaokun_psy_get_bat_status env s)")
      (auto simp: gaokun_psy_get_bat_property_def split: psy_prop.split prod.split)
  then show ?thesis by auto
qed

lemma get_adp_inv: "psy_inv (fst s) \<Longrightarrow> psy_inv (fst (fst (gaokun_psy_get_adp_property env psp s)))"
  using adp_inv [of s env] by (auto simp: gaokun_psy_get_adp_property_def split: prod.split)

lemma set_inv: "psy_inv (fst s) \<Longrightarrow> psy_inv (fst (fst (gaokun_psy_set_bat_property env psp v s)))"
  by (cases s) (auto simp: gaokun_psy_set_bat_property_def split: prod.split sum.split psy_prop.split)

text \<open>Events, property reads and writes in any order, and the controller moving on by itself.\<close>

inductive psy_step :: "'w psy_env \<Rightarrow> gaokun_psy \<times> 'w \<Rightarrow> gaokun_psy \<times> 'w \<Rightarrow> bool" for env where
  event: "nb_registered (fst s) \<Longrightarrow> psy_step env s (fst (gaokun_psy_notify env action s))"
| get_bat: "psy_step env s (fst (gaokun_psy_get_bat_property env psp s))"
| get_adp: "psy_step env s (fst (gaokun_psy_get_adp_property env psp s))"
| set_bat: "psy_step env s (fst (gaokun_psy_set_bat_property env psp v s))"
| remove: "psy_step env (psy, w) (gaokun_psy_remove psy, w)"
| controls: "psy_step env (psy, w) (psy, w')"

definition psy_start :: "'w psy_env \<Rightarrow> gaokun_psy \<times> 'w \<Rightarrow> bool" where
  "psy_start env s \<longleftrightarrow> (\<exists>k w. gaokun_psy_probe env k w = (snd s, Inr (fst s)))"

lemma psy_start_inv: "psy_start env s \<Longrightarrow> psy_inv (fst s)"
proof -
  have fresh: "psy_inv fresh_psy" by (simp add: psy_inv_def fresh_psy_def)
  assume "psy_start env s"
  then obtain k w where "gaokun_psy_probe env k w = (snd s, Inr (fst s))" by (auto simp: psy_start_def)
  then have "(fst (gaokun_psy_init env (fresh_psy, w)))\<lparr>nb_registered := True\<rparr> = fst s"
    by (auto simp: gaokun_psy_probe_def split: if_splits prod.splits)
  then show ?thesis using init_inv [of "(fresh_psy, w)" env] fresh by (metis fst_conv psy_inv_upd(6))
qed

lemma psy_step_inv: "psy_step env s t \<Longrightarrow> psy_inv (fst s) \<Longrightarrow> psy_inv (fst t)"
  by (induction rule: psy_step.induct) (simp_all add: notify_inv get_inv get_adp_inv set_inv gaokun_psy_remove_def)

interpretation battery: invariant_system "psy_start env" "psy_step env" "\<lambda>s. psy_inv (fst s)" for env
  by unfold_locales (rule psy_start_inv psy_step_inv; assumption)+

text \<open>C25: The data handed to user space is always within its buffers: in every reachable state the two
  register blocks have their full size, and the model, vendor and serial strings are 16-byte buffers with
  a terminating zero, whatever the controller delivered.\<close>

theorem battery_strings_terminated:
  assumes "reachable (psy_start env) (psy_step env) s"
  shows "length (bat_status (fst s)) = 14 \<and> length (bat_info (fst s)) = 12
    \<and> length (battery_model (fst s)) = 16 \<and> battery_model (fst s) ! 15 = 0
    \<and> length (battery_vendor (fst s)) = 16 \<and> battery_vendor (fst s) ! 15 = 0
    \<and> length (battery_serial (fst s)) = 16 \<and> 0 \<in> set (battery_serial (fst s))"
  using battery.reachable_inv [OF assms] by (simp add: psy_inv_def)

text \<open>A controller with a battery whose every register reads 2.\<close>

definition battery_env :: "unit psy_env" where
  "battery_env = dead_env\<lparr>ec_xfer := \<lambda>w req n. (w, 2, [0, 1, 2])\<rparr>"

lemma battery_env_reads:
  "multi_read_loop (ec_xfer battery_env) w q r n = (w, 0, replicate n 2)"
  by (induction n arbitrary: q r)
    (simp_all add: battery_env_def gaokun_ec_read_def gaokun_ec_request_def extr_resp_byte_def RESP_HDR_SIZE_def)

lemma battery_env_probe:
  "\<exists>psy. gaokun_psy_init battery_env (fresh_psy, ()) = (psy, ()) \<and> bat_present psy \<and> battery_vendor psy = replicate 15 2 @ [0]"
proof -
  have "gaokun_psy_get_bat_present battery_env (fresh_psy, ()) = (fresh_psy\<lparr>bat_present := True\<rparr>, ())"
    by (simp add: gaokun_psy_get_bat_present_def gaokun_ec_psy_read_byte_def gaokun_ec_psy_multi_read_def battery_env_reads
        del: multi_read_loop.simps)
  then show ?thesis
    by (simp add: gaokun_psy_init_def gaokun_psy_get_bat_info_def read_block_def gaokun_ec_psy_multi_read_def battery_env_reads
        fresh_psy_def del: multi_read_loop.simps)
qed

theorem battery_strings_terminated_witness:
  "\<exists>psy. reachable (psy_start battery_env) (psy_step battery_env) (psy, ()) \<and> bat_present psy
    \<and> battery_vendor psy = replicate 15 2 @ [0]"
proof -
  let ?k = "\<lparr>psy_alloc = True, adp_register_ret = 0, bat_register_ret = 0, notify_register_ret = 0\<rparr>"
  obtain psy where p: "gaokun_psy_init battery_env (fresh_psy, ()) = (psy, ())" and
    v: "bat_present psy" "battery_vendor psy = replicate 15 2 @ [0]"
    using battery_env_probe by blast
  define psy' where "psy' = psy\<lparr>nb_registered := True\<rparr>"
  have "gaokun_psy_probe battery_env ?k () = ((), Inr psy')" using p by (simp add: gaokun_psy_probe_def psy'_def)
  then have r: "reachable (psy_start battery_env) (psy_step battery_env) (psy', ())"
    by (auto simp: psy_start_def intro!: reachable.init)
  show ?thesis using battery_strings_terminated [OF r] r v by (intro exI [of _ psy']) (simp add: psy'_def)
qed

end
