(* ===== verification/Ec_Ucsi.thy ===== *)
theory Ec_Ucsi
  imports Ec_Core
begin

text \<open>
  The UCSI driver (\<open>ucsi_huawei_gaokun.c\<close>): the transport operations of the UCSI core, the decoding of
  the controller's port data, the alternate-mode notifications with their acknowledgements, the USB
  follow-up timers, registration with its retries, probing and removal.  A handler or worker is one
  step.  What lies outside the repository is collected in \<open>ucsi_env\<close>: the I2C bus, the Type-C mux, the
  display bridge, the notification of the UCSI core, the outcome of taking the core's lock, the jiffies
  counter; the constants and the one macro of the kernel's headers are in \<open>typec_hdr\<close>.
\<close>

section \<open>State\<close>

record typec_hdr =
  DP_PIN_ASSIGN_C :: int
  DP_PIN_ASSIGN_D :: int
  DP_PIN_ASSIGN_E :: int
  TYPEC_STATE_SAFE :: int
  TYPEC_STATE_USB :: int
  TYPEC_DP_STATE_C :: int
  TYPEC_DP_STATE_D :: int
  TYPEC_DP_STATE_E :: int
  USB_SID_PD :: int
  USB_SID_DISPLAYPORT :: int
  UCSI_VERSION_1_0 :: int
  UCSI_CCI_CONNECTOR :: "int \<Rightarrow> int"

text \<open>The arguments of \<open>typec_mux_set\<close> that vary.\<close>

record mux_state =
  state_mode :: int
  dp_hpd :: bool
  dp_irq :: bool
  dp_pins :: int

record 'w ucsi_env =
  ec_bus :: "'w i2c_bus"
  typec_mux_set :: "nat \<Rightarrow> mux_state \<Rightarrow> 'w \<Rightarrow> 'w"
  bridge_notify :: "nat \<Rightarrow> bool \<Rightarrow> 'w \<Rightarrow> 'w"
  ucsi_notify_common :: "int \<Rightarrow> 'w \<Rightarrow> 'w"
  ppm_trylock :: "'w \<Rightarrow> bool"
  now :: "'w \<Rightarrow> int"
  hz :: int
  hdr :: typec_hdr

record gaokun_ucsi_reg =
  reg_num_ports :: nat
  port_updt :: byte
  port_data :: "byte list"
  reg_checksum :: byte

definition ureg_of :: "byte list \<Rightarrow> gaokun_ucsi_reg" where
  "ureg_of bytes = \<lparr>reg_num_ports = unat (bytes ! 0), port_updt = bytes ! 1, port_data = take 4 (drop 2 bytes),
     reg_checksum = bytes ! 6\<rparr>"

definition GAOKUN_UCSI_BYTES_PER_PORT :: nat where "GAOKUN_UCSI_BYTES_PER_PORT = 2"
definition GAOKUN_UCSI_MAX_PORTS :: nat where "GAOKUN_UCSI_MAX_PORTS = 4 div GAOKUN_UCSI_BYTES_PER_PORT"
definition GAOKUN_UCSI_MAX_RETRIES :: nat where "GAOKUN_UCSI_MAX_RETRIES = 3"
definition GAOKUN_UCSI_NO_PORT_UPDATE :: int where "GAOKUN_UCSI_NO_PORT_UPDATE = -1"
definition GAOKUN_UCSI_WRITE_SIZE :: nat where "GAOKUN_UCSI_WRITE_SIZE = 24"
definition GAOKUN_UCSI_CCI_SIZE :: nat where "GAOKUN_UCSI_CCI_SIZE = 4"
definition GAOKUN_UCSI_MSGI_SIZE :: nat where "GAOKUN_UCSI_MSGI_SIZE = 16"

definition USBC_CCX_NONE :: int where "USBC_CCX_NONE = 2"
definition USBC_MUX_NONE :: int where "USBC_MUX_NONE = 0"
definition USBC_MUX_USB_2L :: int where "USBC_MUX_USB_2L = 1"

definition CCX_TO_ORI :: "int \<Rightarrow> int" where
  "CCX_TO_ORI ccx = (ccx + 1) mod 3"

text \<open>
  The enumerations are kept as numbers, since the driver stores whatever bits it finds.  \<open>usb_work\<close>, and
  in the driver state \<open>work\<close> and the two queued works, say whether the work is pending in its queue.
\<close>

record gaokun_ucsi_port =
  bridge :: bool
  typec_mux :: bool
  usb_work :: bool
  ccx :: int
  mux :: int
  mode :: int
  svid :: int
  hpd_state :: bool
  hpd_irq :: bool

record gaokun_ucsi =
  ports :: "gaokun_ucsi_port list"
  work :: bool
  init_sync_work :: bool
  usb_sync_work :: bool
  version :: int
  num_ports :: nat
  register_retries :: nat
  pending_usb_acks :: "64 word"
  last_connector_jiffies :: int
  last_connector_idx :: int
  ports_initialized :: bool
  notifier_registered :: bool
  ucsi_registered :: bool

section \<open>Transport operations\<close>

definition gaokun_ucsi_read_version :: "gaokun_ucsi \<Rightarrow> int" where
  "gaokun_ucsi_read_version uec = version uec"

definition gaokun_ucsi_read_cci :: "'w i2c_bus \<Rightarrow> 'w \<Rightarrow> 'w \<times> (int + int)" where
  "gaokun_ucsi_read_cci xfer w =
     (let (w, r) = gaokun_ec_ucsi_read xfer w in
      (w, case r of Inl e \<Rightarrow> Inl e
          | Inr buf \<Rightarrow> Inr (uint (buf ! 0) + 256 * uint (buf ! 1) + 65536 * uint (buf ! 2) + 16777216 * uint (buf ! 3))))"

text \<open>The result is what is stored at the start of the caller's buffer of \<open>val_len\<close> bytes.\<close>

definition gaokun_ucsi_read_message_in :: "'w i2c_bus \<Rightarrow> 'w \<Rightarrow> nat \<Rightarrow> 'w \<times> (int + byte list)" where
  "gaokun_ucsi_read_message_in xfer w val_len =
     (let (w, r) = gaokun_ec_ucsi_read xfer w in
      (w, case r of Inl e \<Rightarrow> Inl e
          | Inr buf \<Rightarrow> Inr (take (min val_len GAOKUN_UCSI_MSGI_SIZE) (drop GAOKUN_UCSI_CCI_SIZE buf))))"

definition gaokun_ucsi_async_control :: "'w i2c_bus \<Rightarrow> 'w \<Rightarrow> 64 word \<Rightarrow> 'w \<times> int" where
  "gaokun_ucsi_async_control xfer w command =
     gaokun_ec_ucsi_write xfer w
       (map (\<lambda>i. ucast (drop_bit (8 * i) command)) [0..<8] @ replicate (GAOKUN_UCSI_WRITE_SIZE - 8) 0)"

text \<open>Whether the connector is marked as aware of its orientation; the orientation set, if any.\<close>

definition gaokun_ucsi_update_connector :: "gaokun_ucsi \<Rightarrow> nat \<Rightarrow> bool" where
  "gaokun_ucsi_update_connector uec con \<longleftrightarrow> \<not> con > num_ports uec"

definition gaokun_set_orientation :: "gaokun_ucsi_port \<Rightarrow> int" where
  "gaokun_set_orientation port = CCX_TO_ORI (ccx port)"

definition gaokun_ucsi_connector_status :: "gaokun_ucsi \<Rightarrow> nat \<Rightarrow> int option" where
  "gaokun_ucsi_connector_status uec con =
     (if con > num_ports uec then None else Some (gaokun_set_orientation (ports uec ! (con - 1))))"

section \<open>The port snapshot\<close>

definition gaokun_ucsi_port_update :: "typec_hdr \<Rightarrow> nat \<Rightarrow> byte list \<Rightarrow> gaokun_ucsi_port \<Rightarrow> gaokun_ucsi_port" where
  "gaokun_ucsi_port_update h idx data port =
     (let dcc = data ! (idx * GAOKUN_UCSI_BYTES_PER_PORT);
          ddi = data ! (idx * GAOKUN_UCSI_BYTES_PER_PORT + 1);
          port = port\<lparr>ccx := uint (dcc AND 3), mux := uint (drop_bit 2 dcc AND 3), mode := uint (ddi AND 15),
                   hpd_state := bit ddi 4, hpd_irq := bit ddi 5\<rparr>;
          port = (if mode port = 3 \<or> mode port = 9 then port\<lparr>mode := DP_PIN_ASSIGN_C h\<rparr>
             else if mode port = 4 \<or> mode port = 10 then port\<lparr>mode := DP_PIN_ASSIGN_D h\<rparr>
             else if mode port = 5 \<or> mode port = 11 then port\<lparr>mode := DP_PIN_ASSIGN_E h\<rparr>
             else if mode port = 0 then port\<lparr>mode := TYPEC_STATE_SAFE h\<rparr>
             else port) in
      if mux port = USBC_MUX_NONE then port\<lparr>svid := 0\<rparr>
      else if mux port = USBC_MUX_USB_2L then port\<lparr>svid := USB_SID_PD h, mode := TYPEC_STATE_USB h\<rparr>
      else port\<lparr>svid := USB_SID_DISPLAYPORT h\<rparr>)"

definition gaokun_ucsi_valid_port_mask :: "gaokun_ucsi \<Rightarrow> byte" where
  "gaokun_ucsi_valid_port_mask uec = (if num_ports uec = 0 then 0 else mask (num_ports uec))"

text \<open>All loops over the ports selected by a mask.\<close>

definition for_ports :: "gaokun_ucsi \<Rightarrow> byte \<Rightarrow> (nat \<Rightarrow> 'a \<Rightarrow> 'a) \<Rightarrow> 'a \<Rightarrow> 'a" where
  "for_ports uec port_mask f = fold (\<lambda>idx s. if \<not> bit port_mask idx then s else f idx s) [0..<num_ports uec]"

definition update_ports ::
  "nat \<Rightarrow> (nat \<Rightarrow> bool) \<Rightarrow> (nat \<Rightarrow> gaokun_ucsi_port \<Rightarrow> gaokun_ucsi_port) \<Rightarrow> gaokun_ucsi_port list \<Rightarrow> gaokun_ucsi_port list" where
  "update_ports n sel f ps = fold (\<lambda>idx ps. if \<not> sel idx then ps else ps[idx := f idx (ps ! idx)]) [0..<n] ps"

definition gaokun_ucsi_refresh :: "'w ucsi_env \<Rightarrow> gaokun_ucsi \<Rightarrow> 'w \<Rightarrow> (gaokun_ucsi \<times> 'w) \<times> (int + byte)" where
  "gaokun_ucsi_refresh env uec w =
     (let (w, r) = gaokun_ec_ucsi_get_reg (ec_bus env) w in
      case r of Inl e \<Rightarrow> ((uec, w), Inl e)
      | Inr bytes \<Rightarrow>
          let ureg = ureg_of bytes;
              updates = port_updt ureg AND gaokun_ucsi_valid_port_mask uec;
              ps = update_ports (num_ports uec) (bit updates)
                (\<lambda>idx. gaokun_ucsi_port_update (hdr env) idx (port_data ureg)) (ports uec) in
          ((uec\<lparr>ports := ps\<rparr>, w), Inr updates))"

section \<open>Alternate modes\<close>

definition gaokun_ucsi_typec_mux_mode :: "typec_hdr \<Rightarrow> int \<Rightarrow> int" where
  "gaokun_ucsi_typec_mux_mode h m =
     (if m = DP_PIN_ASSIGN_C h then TYPEC_DP_STATE_C h
      else if m = DP_PIN_ASSIGN_D h then TYPEC_DP_STATE_D h
      else if m = DP_PIN_ASSIGN_E h then TYPEC_DP_STATE_E h
      else TYPEC_STATE_SAFE h)"

definition gaokun_ucsi_handle_altmode :: "'w ucsi_env \<Rightarrow> gaokun_ucsi \<Rightarrow> nat \<Rightarrow> 'w \<Rightarrow> 'w" where
  "gaokun_ucsi_handle_altmode env uec idx w =
     (if idx \<ge> num_ports uec then w
      else
        let port = ports uec ! idx;
            w = (if typec_mux port \<and> svid port = USB_SID_DISPLAYPORT (hdr env)
              then typec_mux_set env idx
                \<lparr>state_mode = gaokun_ucsi_typec_mux_mode (hdr env) (mode port), dp_hpd = hpd_state port,
                 dp_irq = hpd_irq port, dp_pins = mode port\<rparr> w
              else w) in
        if bridge port then bridge_notify env idx (hpd_state port) w else w)"

definition gaokun_ucsi_complete_usb_ack :: "gaokun_ucsi \<Rightarrow> byte \<Rightarrow> gaokun_ucsi" where
  "gaokun_ucsi_complete_usb_ack uec port_mask =
     uec\<lparr>pending_usb_acks := for_ports uec port_mask (\<lambda>idx. unset_bit idx) (pending_usb_acks uec)\<rparr>"

definition gaokun_ucsi_pending_usb_mask :: "gaokun_ucsi \<Rightarrow> byte" where
  "gaokun_ucsi_pending_usb_mask uec =
     fold (\<lambda>idx m. if bit (pending_usb_acks uec) idx then m OR push_bit idx 1 else m) [0..<num_ports uec] 0"

definition gaokun_ucsi_port_disconnected :: "gaokun_ucsi_port \<Rightarrow> bool" where
  "gaokun_ucsi_port_disconnected port \<longleftrightarrow> ccx port = USBC_CCX_NONE \<and> mux port = USBC_MUX_NONE \<and> svid port = 0"

definition hweight8 :: "byte \<Rightarrow> nat" where
  "hweight8 m = length (filter (bit m) [0..<8])"

definition gaokun_ucsi_infer_usb_complete_mask :: "gaokun_ucsi \<Rightarrow> byte" where
  "gaokun_ucsi_infer_usb_complete_mask uec =
     (let pending_mask = gaokun_ucsi_pending_usb_mask uec;
          idx = last_connector_idx uec in
      if pending_mask = 0 then 0
      else if hweight8 pending_mask = 1 then pending_mask
      else if 0 \<le> idx \<and> idx < int (num_ports uec) \<and> bit pending_mask (nat idx) then push_bit (nat idx) 1
      else 0)"

definition gaokun_ucsi_reschedule_usb_followups :: "gaokun_ucsi \<Rightarrow> byte \<Rightarrow> gaokun_ucsi" where
  "gaokun_ucsi_reschedule_usb_followups uec port_mask =
     uec\<lparr>ports := update_ports (num_ports uec) (bit port_mask) (\<lambda>idx port. port\<lparr>usb_work := True\<rparr>) (ports uec)\<rparr>"

text \<open>The results of the acknowledgements are only logged.\<close>

definition gaokun_ucsi_ack_updates :: "'w ucsi_env \<Rightarrow> gaokun_ucsi \<Rightarrow> byte \<Rightarrow> 'w \<Rightarrow> 'w" where
  "gaokun_ucsi_ack_updates env uec port_mask w =
     (if port_mask = 0 then fst (gaokun_ec_ucsi_pan_ack (ec_bus env) w GAOKUN_UCSI_NO_PORT_UPDATE)
      else for_ports uec port_mask (\<lambda>idx w. fst (gaokun_ec_ucsi_pan_ack (ec_bus env) w (int idx))) w)"

definition gaokun_ucsi_refresh_snapshot_trylock :: "'w ucsi_env \<Rightarrow> gaokun_ucsi \<Rightarrow> 'w \<Rightarrow> gaokun_ucsi \<times> 'w" where
  "gaokun_ucsi_refresh_snapshot_trylock env uec w =
     (if \<not> ucsi_registered uec then (uec, w)
      else if \<not> ppm_trylock env w then (uec, w)
      else fst (gaokun_ucsi_refresh env uec w))"

text \<open>What follows a refresh that delivered a mask: every selected port is handled, then acknowledged.\<close>

definition handle_and_ack :: "'w ucsi_env \<Rightarrow> gaokun_ucsi \<Rightarrow> byte \<Rightarrow> 'w \<Rightarrow> 'w" where
  "handle_and_ack env uec port_mask w =
     gaokun_ucsi_ack_updates env uec port_mask (for_ports uec port_mask (gaokun_ucsi_handle_altmode env uec) w)"

definition gaokun_ucsi_altmode_notify_ind ::
  "'w ucsi_env \<Rightarrow> bool \<Rightarrow> bool \<Rightarrow> gaokun_ucsi \<Rightarrow> 'w \<Rightarrow> gaokun_ucsi \<times> 'w" where
  "gaokun_ucsi_altmode_notify_ind env got_usb_event defer_on_ppm_busy uec w =
     (if \<not> ucsi_registered uec then (uec, gaokun_ucsi_ack_updates env uec 0 w)
      else if got_usb_event \<and> defer_on_ppm_busy \<and> \<not> ppm_trylock env w then
        ((gaokun_ucsi_reschedule_usb_followups uec (gaokun_ucsi_pending_usb_mask uec))\<lparr>usb_sync_work := True\<rparr>, w)
      else
        let ((uec, w), r) = gaokun_ucsi_refresh env uec w in
        case r of Inl e \<Rightarrow> (uec, w)
        | Inr port_mask \<Rightarrow>
            let uec = (if got_usb_event
                  then gaokun_ucsi_complete_usb_ack uec
                    (if port_mask = 0 then gaokun_ucsi_infer_usb_complete_mask uec else port_mask)
                  else uec) in
            if port_mask = 0 then (uec, gaokun_ucsi_ack_updates env uec 0 w)
            else (uec, handle_and_ack env uec port_mask w))"

definition gaokun_ucsi_sync_deferred_usb :: "'w ucsi_env \<Rightarrow> gaokun_ucsi \<Rightarrow> 'w \<Rightarrow> gaokun_ucsi \<times> 'w" where
  "gaokun_ucsi_sync_deferred_usb env uec w = gaokun_ucsi_altmode_notify_ind env True False uec w"

definition gaokun_ucsi_sync_initial_state :: "'w ucsi_env \<Rightarrow> gaokun_ucsi \<Rightarrow> 'w \<Rightarrow> gaokun_ucsi \<times> 'w" where
  "gaokun_ucsi_sync_initial_state env uec w =
     (if \<not> ucsi_registered uec then (uec, w)
      else
        let ((uec, w), r) = gaokun_ucsi_refresh env uec w in
        case r of Inl e \<Rightarrow> (uec, w)
        | Inr port_mask \<Rightarrow> if port_mask = 0 then (uec, w) else (uec, handle_and_ack env uec port_mask w))"

section \<open>Events\<close>

definition time_is_before_jiffies :: "int \<Rightarrow> int \<Rightarrow> bool" where
  "time_is_before_jiffies t j \<longleftrightarrow> s64 (t - j) < 0"

definition gaokun_ucsi_should_handle_usb_event :: "'w ucsi_env \<Rightarrow> gaokun_ucsi \<Rightarrow> 'w \<Rightarrow> bool" where
  "gaokun_ucsi_should_handle_usb_event env uec w \<longleftrightarrow>
     (if gaokun_ucsi_pending_usb_mask uec \<noteq> 0 then True
      else if \<exists>idx \<in> set [0..<num_ports uec]. svid (ports uec ! idx) = USB_SID_DISPLAYPORT (hdr env) then True
      else if last_connector_idx uec = GAOKUN_UCSI_NO_PORT_UPDATE then False
      else \<not> time_is_before_jiffies (last_connector_jiffies uec + 2 * hz env) (now env w))"

definition arm_usb_work :: "nat \<Rightarrow> bool \<Rightarrow> gaokun_ucsi \<Rightarrow> gaokun_ucsi" where
  "arm_usb_work idx b uec = uec\<lparr>ports := (ports uec)[idx := (ports uec ! idx)\<lparr>usb_work := b\<rparr>]\<rparr>"

definition gaokun_ucsi_handle_no_usb_event :: "'w ucsi_env \<Rightarrow> nat \<Rightarrow> gaokun_ucsi \<Rightarrow> 'w \<Rightarrow> gaokun_ucsi \<times> 'w" where
  "gaokun_ucsi_handle_no_usb_event env idx uec w =
     (if \<not> bit (pending_usb_acks uec) idx then (uec, w)
      else
        let uec = uec\<lparr>pending_usb_acks := unset_bit idx (pending_usb_acks uec)\<rparr> in
        if gaokun_ucsi_port_disconnected (ports uec ! idx) then (uec, w)
        else gaokun_ucsi_altmode_notify_ind env False False uec w)"

datatype ucsi_notify_result = UN_OK | UN_BAD | UN_DONE

definition gaokun_ucsi_notify ::
  "'w ucsi_env \<Rightarrow> byte \<Rightarrow> gaokun_ucsi \<Rightarrow> 'w \<Rightarrow> (gaokun_ucsi \<times> 'w) \<times> ucsi_notify_result" where
  "gaokun_ucsi_notify env action uec w =
     (if action = 0x22 then
        (if \<not> gaokun_ucsi_should_handle_usb_event env uec w then ((uec, w), UN_OK)
         else (gaokun_ucsi_altmode_notify_ind env True True uec w, UN_OK))
      else if action = 0x21 then
        (let (w, r) = gaokun_ucsi_read_cci (ec_bus env) w in
         case r of Inl e \<Rightarrow> ((uec, w), UN_BAD)
         | Inr cci \<Rightarrow>
             let con = UCSI_CCI_CONNECTOR (hdr env) cci;
                 (uec, w) = (if con \<noteq> 0 then gaokun_ucsi_refresh_snapshot_trylock env uec w else (uec, w));
                 w = ucsi_notify_common env cci w in
             if con = 0 then ((uec, w), UN_OK)
             else
               let idx = nat (u8 (con - 1)) in
               if idx \<ge> num_ports uec then ((uec, w), UN_BAD)
               else
                 let uec = uec\<lparr>last_connector_idx := int idx, last_connector_jiffies := now env w,
                        pending_usb_acks := set_bit idx (pending_usb_acks uec)\<rparr> in
                 ((arm_usb_work idx True uec, w), UN_OK))
      else ((uec, w), UN_DONE))"

section \<open>Set-up\<close>

text \<open>
  A child node of the device: its register property, and what allocating its bridge and looking up its
  mux give (an error code, or whether there is a mux).
\<close>

record port_node =
  node_reg :: "int + nat"
  node_bridge :: int
  node_mux :: "int + bool"

definition new_port :: gaokun_ucsi_port where
  "new_port = \<lparr>bridge = False, typec_mux = False, usb_work = False, ccx = USBC_CCX_NONE, mux = 0, mode = 0, svid = 0,
     hpd_state = False, hpd_irq = False\<rparr>"

fun init_nodes :: "port_node list \<Rightarrow> gaokun_ucsi_port list \<Rightarrow> gaokun_ucsi_port list \<times> int" where
  "init_nodes [] ps = (ps, 0)"
| "init_nodes (n # ns) ps =
     (case node_reg n of Inl e \<Rightarrow> (ps, e)
      | Inr port \<Rightarrow>
          if port \<ge> length ps then init_nodes ns ps
          else if node_bridge n \<noteq> 0 then (ps, node_bridge n)
          else
            let ps = ps[port := (ps ! port)\<lparr>bridge := True\<rparr>] in
            case node_mux n of
              Inl e \<Rightarrow> if e = - ENODEV then init_nodes ns (ps[port := (ps ! port)\<lparr>typec_mux := False\<rparr>]) else (ps, e)
            | Inr m \<Rightarrow> init_nodes ns (ps[port := (ps ! port)\<lparr>typec_mux := m\<rparr>]))"

fun add_bridges :: "(nat \<Rightarrow> int) \<Rightarrow> nat \<Rightarrow> gaokun_ucsi_port list \<Rightarrow> int" where
  "add_bridges add i [] = 0"
| "add_bridges add i (p # ps) =
     (if \<not> bridge p then add_bridges add (Suc i) ps
      else if add i \<noteq> 0 then add i else add_bridges add (Suc i) ps)"

record ucsi_calls =
  child_nodes :: "port_node list"
  ports_alloc :: bool
  bridge_add :: "nat \<Rightarrow> int"
  uec_alloc :: bool
  ucsi_create_ret :: int

definition gaokun_ucsi_ports_init :: "ucsi_calls \<Rightarrow> gaokun_ucsi \<Rightarrow> gaokun_ucsi \<times> int" where
  "gaokun_ucsi_ports_init k uec =
     (if ports_initialized uec then (uec, 0)
      else
        let n = length (child_nodes k) in
        if n = 0 then (uec, - ENODEV)
        else if n > GAOKUN_UCSI_MAX_PORTS then (uec, - EINVAL)
        else
          let uec = uec\<lparr>num_ports := n\<rparr> in
          if \<not> ports_alloc k then (uec\<lparr>ports := []\<rparr>, - ENOMEM)
          else
            let (ps, ret) = init_nodes (child_nodes k) (replicate n new_port);
                uec = uec\<lparr>ports := ps\<rparr> in
            if ret \<noteq> 0 then (uec, ret)
            else
              let ret = add_bridges (bridge_add k) 0 ps in
              if ret \<noteq> 0 then (uec, ret) else (uec\<lparr>ports_initialized := True\<rparr>, 0))"

definition gaokun_ucsi_ec_init :: "'w ucsi_env \<Rightarrow> gaokun_ucsi \<Rightarrow> 'w \<Rightarrow> (gaokun_ucsi \<times> 'w) \<times> int" where
  "gaokun_ucsi_ec_init env uec w =
     (let (w, r) = gaokun_ec_ucsi_get_reg (ec_bus env) w in
      case r of Inl e \<Rightarrow> ((uec, w), e)
      | Inr bytes \<Rightarrow>
          let ureg = ureg_of bytes in
          if reg_num_ports ureg = 0 then ((uec, w), - ENODEV)
          else if reg_num_ports ureg > num_ports uec then ((uec, w), - EINVAL)
          else ((uec\<lparr>num_ports := reg_num_ports ureg\<rparr>, w), 0))"

text \<open>The retry at the end of the worker; the counter is a byte.\<close>

definition register_retry :: "gaokun_ucsi \<Rightarrow> gaokun_ucsi" where
  "register_retry uec =
     (let uec = uec\<lparr>register_retries := (register_retries uec + 1) mod 256\<rparr> in
      if register_retries uec > GAOKUN_UCSI_MAX_RETRIES then uec else uec\<lparr>work := True\<rparr>)"

definition gaokun_ucsi_register_worker ::
  "'w ucsi_env \<Rightarrow> ucsi_calls \<Rightarrow> int \<Rightarrow> int \<Rightarrow> gaokun_ucsi \<Rightarrow> 'w \<Rightarrow> gaokun_ucsi \<times> 'w" where
  "gaokun_ucsi_register_worker env k ucsi_register_ret notify_ret uec w =
     (let (uec, ret) = gaokun_ucsi_ports_init k uec in
      if ret \<noteq> 0 then (register_retry uec, w)
      else
        let ((uec, w), ret) = gaokun_ucsi_ec_init env uec w in
        if ret \<noteq> 0 then (register_retry uec, w)
        else if ucsi_register_ret \<noteq> 0 then (register_retry uec, w)
        else
          let uec = uec\<lparr>ucsi_registered := True\<rparr> in
          if notify_ret \<noteq> 0 then (register_retry (uec\<lparr>ucsi_registered := False\<rparr>), w)
          else (uec\<lparr>notifier_registered := True, init_sync_work := True\<rparr>, w))"

definition new_uec :: "typec_hdr \<Rightarrow> gaokun_ucsi" where
  "new_uec h = \<lparr>ports = [], work = False, init_sync_work = False, usb_sync_work = False, version = UCSI_VERSION_1_0 h,
     num_ports = 0, register_retries = 0, pending_usb_acks = 0, last_connector_jiffies = 0,
     last_connector_idx = GAOKUN_UCSI_NO_PORT_UPDATE, ports_initialized = False, notifier_registered = False,
     ucsi_registered = False\<rparr>"

definition gaokun_ucsi_probe :: "typec_hdr \<Rightarrow> ucsi_calls \<Rightarrow> int + gaokun_ucsi" where
  "gaokun_ucsi_probe h k =
     (if \<not> uec_alloc k then Inl (- ENOMEM)
      else
        let (uec, ret) = gaokun_ucsi_ports_init k (new_uec h) in
        if ret \<noteq> 0 then Inl ret
        else if ucsi_create_ret k \<noteq> 0 then Inl (ucsi_create_ret k)
        else Inr (uec\<lparr>work := True\<rparr>))"

text \<open>Removal: every pending work is cancelled, the notifier and the core are released, and the muxes of
  the ports up to \<open>num_ports\<close> are put; a mux that has been put is gone from its port.\<close>

definition gaokun_ucsi_remove :: "gaokun_ucsi \<Rightarrow> gaokun_ucsi" where
  "gaokun_ucsi_remove uec =
     (let uec = uec\<lparr>work := False, init_sync_work := False, notifier_registered := False, usb_sync_work := False\<rparr>;
          uec = (if ports_initialized uec then
              uec\<lparr>ports := update_ports (num_ports uec) (\<lambda>_. True) (\<lambda>i port. port\<lparr>usb_work := False, typec_mux := False\<rparr>) (ports uec)\<rparr>
            else uec) in
      uec\<lparr>ucsi_registered := False\<rparr>)"

section \<open>The loops over the ports\<close>

lemma update_ports_length [simp]: "length (update_ports n sel g ps) = length ps"
proof -
  have "length (fold (\<lambda>idx ps. if \<not> sel idx then ps else ps[idx := g idx (ps ! idx)]) xs ps) = length ps" for xs
    by (induction xs arbitrary: ps) simp_all
  then show ?thesis by (simp add: update_ports_def)
qed

lemma update_ports_Suc:
  "update_ports (Suc n) sel g ps =
     (if sel n then (update_ports n sel g ps)[n := g n (update_ports n sel g ps ! n)] else update_ports n sel g ps)"
  by (simp add: update_ports_def)

lemma update_ports_nth:
  "n \<le> length ps \<Longrightarrow> i < length ps \<Longrightarrow> update_ports n sel g ps ! i = (if i < n \<and> sel i then g i (ps ! i) else ps ! i)"
proof (induction n arbitrary: i)
  case 0
  then show ?case by (simp add: update_ports_def)
next
  case (Suc n)
  then show ?case by (auto simp: update_ports_Suc nth_list_update less_Suc_eq)
qed

lemma pending_usb_mask_bit:
  assumes "num_ports uec \<le> 8"
  shows "bit (gaokun_ucsi_pending_usb_mask uec) i \<longleftrightarrow> i < num_ports uec \<and> bit (pending_usb_acks uec) i"
proof -
  have "bit (fold (\<lambda>idx m. if bit p idx then m OR push_bit idx 1 else m) [0..<n] (0 :: byte)) i \<longleftrightarrow> i < n \<and> bit p i"
    if "n \<le> 8" for n and p :: "64 word"
    using that by (induction n) (auto simp: bit_simps less_Suc_eq)
  then show ?thesis using assms by (simp add: gaokun_ucsi_pending_usb_mask_def)
qed

lemma complete_bit:
  "bit (pending_usb_acks (gaokun_ucsi_complete_usb_ack uec m)) i \<longleftrightarrow>
     bit (pending_usb_acks uec) i \<and> \<not> (i < num_ports uec \<and> bit m i)"
proof -
  have "bit (fold (\<lambda>idx p. if \<not> bit m idx then p else unset_bit idx p) [0..<n] p) i \<longleftrightarrow> bit p i \<and> \<not> (i < n \<and> bit m i)"
    for n and p :: "64 word"
    by (induction n) (auto simp: bit_unset_bit_iff less_Suc_eq)
  then show ?thesis by (simp add: gaokun_ucsi_complete_usb_ack_def for_ports_def)
qed

section \<open>The invariant\<close>

text \<open>
  A pending follow-up has its timer armed; timers run only for ports in use and only while the
  notifier is registered; before that the registration work is pending, or it has failed four times.
\<close>

definition ucsi_inv :: "gaokun_ucsi \<Rightarrow> bool" where
  "ucsi_inv uec \<longleftrightarrow> ports_initialized uec \<and> 0 < num_ports uec \<and> num_ports uec \<le> length (ports uec) \<and> length (ports uec) \<le> 2
     \<and> (\<forall>i. bit (pending_usb_acks uec) i \<longrightarrow> i < num_ports uec \<and> usb_work (ports uec ! i))
     \<and> (\<forall>i < length (ports uec). usb_work (ports uec ! i) \<longrightarrow> i < num_ports uec \<and> notifier_registered uec)
     \<and> (last_connector_idx uec = -1 \<or> 0 \<le> last_connector_idx uec \<and> last_connector_idx uec < int (num_ports uec))
     \<and> ucsi_registered uec = notifier_registered uec
     \<and> (init_sync_work uec \<or> usb_sync_work uec \<longrightarrow> notifier_registered uec)
     \<and> (notifier_registered uec \<longrightarrow> \<not> work uec \<and> register_retries uec \<le> 3)
     \<and> (\<not> notifier_registered uec \<longrightarrow> last_connector_idx uec = -1 \<and> register_retries uec \<le> 4
          \<and> work uec = (register_retries uec \<le> 3))"

text \<open>A change of the ports that keeps their number and raises no timer but those of ports in use.\<close>

lemma ports_changed_inv:
  assumes "ucsi_inv uec" "length ps = length (ports uec)"
    "\<And>i. i < length ps \<Longrightarrow> usb_work (ports uec ! i) \<Longrightarrow> usb_work (ps ! i)"
    "\<And>i. i < length ps \<Longrightarrow> usb_work (ps ! i) \<Longrightarrow> usb_work (ports uec ! i) \<or> i < num_ports uec \<and> notifier_registered uec"
  shows "ucsi_inv (uec\<lparr>ports := ps\<rparr>)"
proof -
  have "usb_work (ps ! i)" if "bit (pending_usb_acks uec) i" for i
  proof -
    have "i < num_ports uec" "usb_work (ports uec ! i)" "num_ports uec \<le> length (ports uec)"
      using assms(1) that by (auto simp: ucsi_inv_def)
    then show ?thesis using assms(2,3) by simp
  qed
  moreover have "i < num_ports uec \<and> notifier_registered uec" if "i < length ps" "usb_work (ps ! i)" for i
    using assms(4) [OF that] assms(1,2) that by (auto simp: ucsi_inv_def)
  ultimately show ?thesis using assms(1,2) unfolding ucsi_inv_def by simp
qed

lemma port_update_timer [simp]:
  "usb_work (gaokun_ucsi_port_update h idx data p) = usb_work p"
  "typec_mux (gaokun_ucsi_port_update h idx data p) = typec_mux p"
  "bridge (gaokun_ucsi_port_update h idx data p) = bridge p"
  by (simp_all add: gaokun_ucsi_port_update_def Let_def)

lemma refresh_ports:
  assumes "num_ports uec \<le> length (ports uec)" "gaokun_ucsi_refresh env uec w = ((uec', w'), r)"
  shows "\<exists>ps. uec' = uec\<lparr>ports := ps\<rparr> \<and> length ps = length (ports uec)
    \<and> (\<forall>i < length ps. usb_work (ps ! i) = usb_work (ports uec ! i))"
proof (cases "snd (gaokun_ec_ucsi_get_reg (ec_bus env) w)")
  case (Inl e)
  then show ?thesis
    using assms(2) by (auto simp: gaokun_ucsi_refresh_def split: prod.splits intro!: exI [of _ "ports uec"])
next
  case (Inr bytes)
  define ps where "ps = update_ports (num_ports uec) (bit (port_updt (ureg_of bytes) AND gaokun_ucsi_valid_port_mask uec))
    (\<lambda>idx. gaokun_ucsi_port_update (hdr env) idx (port_data (ureg_of bytes))) (ports uec)"
  have "uec' = uec\<lparr>ports := ps\<rparr>"
    using assms(2) Inr by (auto simp: gaokun_ucsi_refresh_def ps_def Let_def split: prod.splits)
  then show ?thesis
    using assms(1) by (intro exI [of _ ps]) (simp add: ps_def update_ports_nth)
qed

lemma ucsi_refresh_inv: "gaokun_ucsi_refresh env uec w = ((uec', w'), r) \<Longrightarrow> ucsi_inv uec \<Longrightarrow> ucsi_inv uec'"
proof -
  assume r: "gaokun_ucsi_refresh env uec w = ((uec', w'), r)" and inv: "ucsi_inv uec"
  then have "num_ports uec \<le> length (ports uec)" by (simp add: ucsi_inv_def)
  from refresh_ports [OF this r] obtain ps where "uec' = uec\<lparr>ports := ps\<rparr>" "length ps = length (ports uec)"
    "\<forall>i < length ps. usb_work (ps ! i) = usb_work (ports uec ! i)"
    by blast
  then show "ucsi_inv uec'" using ports_changed_inv [OF inv, of ps] by simp
qed

lemma refresh_frame:
  assumes "ucsi_inv uec" "gaokun_ucsi_refresh env uec w = ((uec', w'), r)"
  shows "notifier_registered uec' = notifier_registered uec" "num_ports uec' = num_ports uec"
    "pending_usb_acks uec' = pending_usb_acks uec" "ucsi_registered uec' = ucsi_registered uec"
proof -
  have "num_ports uec \<le> length (ports uec)" using assms(1) by (simp add: ucsi_inv_def)
  from refresh_ports [OF this assms(2)] obtain ps where "uec' = uec\<lparr>ports := ps\<rparr>" by blast
  then show "notifier_registered uec' = notifier_registered uec" "num_ports uec' = num_ports uec"
    "pending_usb_acks uec' = pending_usb_acks uec" "ucsi_registered uec' = ucsi_registered uec" by simp_all
qed

lemma pending_subset_inv:
  assumes "ucsi_inv uec" "\<And>i. bit p i \<Longrightarrow> bit (pending_usb_acks uec) i"
  shows "ucsi_inv (uec\<lparr>pending_usb_acks := p\<rparr>)"
  using assms by (simp add: ucsi_inv_def)

lemma complete_inv: "ucsi_inv uec \<Longrightarrow> ucsi_inv (gaokun_ucsi_complete_usb_ack uec m)"
  using pending_subset_inv [of uec "pending_usb_acks (gaokun_ucsi_complete_usb_ack uec m)"] complete_bit [of uec m]
  by (simp add: gaokun_ucsi_complete_usb_ack_def)

lemma reschedule_inv:
  assumes "ucsi_inv uec" "notifier_registered uec"
  shows "ucsi_inv ((gaokun_ucsi_reschedule_usb_followups uec m)\<lparr>usb_sync_work := True\<rparr>)"
proof -
  have "num_ports uec \<le> length (ports uec)" using assms(1) by (simp add: ucsi_inv_def)
  then have "ucsi_inv (gaokun_ucsi_reschedule_usb_followups uec m)"
    unfolding gaokun_ucsi_reschedule_usb_followups_def using assms
    by (intro ports_changed_inv) (auto simp: update_ports_nth split: if_splits)
  moreover have "notifier_registered (gaokun_ucsi_reschedule_usb_followups uec m)"
    using assms(2) by (simp add: gaokun_ucsi_reschedule_usb_followups_def)
  ultimately show ?thesis by (simp add: ucsi_inv_def)
qed

lemma registered_iff: "ucsi_inv uec \<Longrightarrow> ucsi_registered uec = notifier_registered uec"
  by (simp add: ucsi_inv_def)

lemma altmode_inv: "ucsi_inv uec \<Longrightarrow> ucsi_inv (fst (gaokun_ucsi_altmode_notify_ind env got defer_busy uec w))"
  using registered_iff [of uec]
  by (auto simp: gaokun_ucsi_altmode_notify_ind_def Let_def reschedule_inv dest: ucsi_refresh_inv
      intro: complete_inv split: prod.split sum.split)

lemma initial_inv: "ucsi_inv uec \<Longrightarrow> ucsi_inv (fst (gaokun_ucsi_sync_initial_state env uec w))"
  by (auto simp: gaokun_ucsi_sync_initial_state_def dest: ucsi_refresh_inv split: prod.split sum.split)

lemma snapshot_inv: "ucsi_inv uec \<Longrightarrow> ucsi_inv (fst (gaokun_ucsi_refresh_snapshot_trylock env uec w))"
  by (cases "gaokun_ucsi_refresh env uec w")
    (auto simp: gaokun_ucsi_refresh_snapshot_trylock_def dest: ucsi_refresh_inv)

section \<open>The driver as a step system\<close>

lemma armed_event_inv:
  assumes "ucsi_inv uec" "notifier_registered uec" "idx < num_ports uec"
  shows "ucsi_inv (arm_usb_work idx True (uec\<lparr>last_connector_idx := int idx, last_connector_jiffies := j,
    pending_usb_acks := set_bit idx (pending_usb_acks uec)\<rparr>))"
proof -
  have "num_ports uec \<le> length (ports uec)" using assms(1) by (simp add: ucsi_inv_def)
  then show ?thesis
    using assms by (auto simp: ucsi_inv_def arm_usb_work_def bit_set_bit_iff nth_list_update)
qed

lemma ucsi_notify_inv:
  assumes "ucsi_inv uec" "notifier_registered uec"
  shows "ucsi_inv (fst (fst (gaokun_ucsi_notify env action uec w)))"
proof -
  define snap where "snap w' con = (if con \<noteq> (0 :: int) then gaokun_ucsi_refresh_snapshot_trylock env uec w' else (uec, w'))" for w' con
  have s: "ucsi_inv (fst (snap w' con))" "notifier_registered (fst (snap w' con))" for w' con
    using snapshot_inv [OF assms(1), of env w'] assms
    by (cases "gaokun_ucsi_refresh env uec w'";
      auto simp: snap_def gaokun_ucsi_refresh_snapshot_trylock_def refresh_frame [OF assms(1)])+
  obtain w1 r where c: "gaokun_ucsi_read_cci (ec_bus env) w = (w1, r)" by fastforce
  have "ucsi_inv (fst (fst (gaokun_ucsi_notify env 0x21 uec w)))"
  proof (cases r)
    case (Inr cci)
    obtain u2 w2 where p: "snap w1 (UCSI_CCI_CONNECTOR (hdr env) cci) = (u2, w2)" by fastforce
    then have "ucsi_inv u2" "notifier_registered u2" using s [of w1 "UCSI_CCI_CONNECTOR (hdr env) cci"] by simp_all
    moreover define idx where "idx = nat (u8 (UCSI_CCI_CONNECTOR (hdr env) cci - 1))"
    ultimately show ?thesis
      using armed_event_inv [of u2 idx] p by (simp add: gaokun_ucsi_notify_def c Inr snap_def [symmetric] idx_def [symmetric] Let_def)
  qed (simp add: gaokun_ucsi_notify_def c assms(1))
  moreover have "ucsi_inv (fst (fst (gaokun_ucsi_notify env action uec w)))" if "action \<noteq> 0x21"
    using altmode_inv [OF assms(1), of env True True w] assms(1) that by (simp add: gaokun_ucsi_notify_def)
  ultimately show ?thesis by blast
qed

lemma timer_inv:
  assumes "ucsi_inv uec" "idx < length (ports uec)" "usb_work (ports uec ! idx)"
  shows "ucsi_inv (fst (gaokun_ucsi_handle_no_usb_event env idx (arm_usb_work idx False uec) w))"
proof -
  let ?off = "arm_usb_work idx False uec"
  have clear: "ucsi_inv (?off\<lparr>pending_usb_acks := unset_bit idx (pending_usb_acks ?off)\<rparr>)"
    using assms by (auto simp: ucsi_inv_def arm_usb_work_def bit_unset_bit_iff nth_list_update)
  show ?thesis
  proof (cases "bit (pending_usb_acks ?off) idx")
    case True
    then show ?thesis using clear altmode_inv [OF clear, of env False False w] by (simp add: gaokun_ucsi_handle_no_usb_event_def Let_def)
  next
    case False
    then have "unset_bit idx (pending_usb_acks ?off) = pending_usb_acks ?off"
      by (intro bit_eqI) (auto simp: bit_unset_bit_iff)
    then have "ucsi_inv ?off" using clear by simp
    then show ?thesis using False by (simp add: gaokun_ucsi_handle_no_usb_event_def)
  qed
qed

text \<open>Until the registration succeeds there is nothing but the ports and the counter of attempts.\<close>

definition unregistered :: "gaokun_ucsi \<Rightarrow> bool" where
  "unregistered uec \<longleftrightarrow> ports_initialized uec \<and> 0 < num_ports uec \<and> num_ports uec \<le> length (ports uec) \<and> length (ports uec) \<le> 2
     \<and> pending_usb_acks uec = 0 \<and> (\<forall>p \<in> set (ports uec). \<not> usb_work p) \<and> last_connector_idx uec = -1
     \<and> \<not> ucsi_registered uec \<and> \<not> notifier_registered uec \<and> \<not> init_sync_work uec \<and> \<not> usb_sync_work uec"

lemma unregistered_inv:
  "unregistered uec \<Longrightarrow> register_retries uec \<le> 4 \<Longrightarrow> work uec = (register_retries uec \<le> 3) \<Longrightarrow> ucsi_inv uec"
  by (simp add: unregistered_def ucsi_inv_def)

lemma waiting_inv:
  assumes "ucsi_inv uec" "work uec"
  shows "unregistered (uec\<lparr>work := False\<rparr>)" "register_retries uec \<le> 3"
proof -
  have un: "\<not> notifier_registered uec" using assms by (auto simp: ucsi_inv_def)
  have "\<not> bit (pending_usb_acks uec) i" for i
    using assms(1) un by (auto simp: ucsi_inv_def dest: order_less_le_trans)
  then have "pending_usb_acks uec = 0" by (simp add: bit_eq_iff)
  moreover have "\<forall>p \<in> set (ports uec). \<not> usb_work p"
    using assms(1) un by (auto simp: ucsi_inv_def in_set_conv_nth)
  ultimately show "unregistered (uec\<lparr>work := False\<rparr>)"
    using assms(1) un by (simp add: ucsi_inv_def unregistered_def)
  show "register_retries uec \<le> 3" using assms un by (simp add: ucsi_inv_def)
qed

lemma retry_inv:
  assumes "unregistered uec" "register_retries uec \<le> 3" "\<not> work uec"
  shows "ucsi_inv (register_retry uec)"
    "work (register_retry uec) = (register_retries uec < 3)" "register_retries (register_retry uec) = Suc (register_retries uec)"
proof -
  have m: "(register_retries uec + 1) mod 256 = Suc (register_retries uec)" using assms(2) by simp
  have "unregistered (register_retry uec)"
    using assms(1) by (simp add: register_retry_def unregistered_def Let_def)
  then show "ucsi_inv (register_retry uec)"
    using assms(2,3) m by (intro unregistered_inv) (simp_all add: register_retry_def Let_def GAOKUN_UCSI_MAX_RETRIES_def)
  show "work (register_retry uec) = (register_retries uec < 3)" "register_retries (register_retry uec) = Suc (register_retries uec)"
    using assms(3) m by (simp_all add: register_retry_def Let_def GAOKUN_UCSI_MAX_RETRIES_def)
qed

lemma ec_init_unregistered:
  assumes "unregistered uec" "gaokun_ucsi_ec_init env uec w = ((uec', w'), ret)"
  shows "unregistered uec' \<and> register_retries uec' = register_retries uec \<and> work uec' = work uec"
  using assms by (auto simp: gaokun_ucsi_ec_init_def unregistered_def Let_def split: prod.splits sum.splits if_splits)

text \<open>A run of the worker registers the driver or counts one more failed attempt.\<close>

lemma worker_outcome:
  assumes "unregistered uec" "\<not> work uec"
  shows "\<exists>uec' w'. unregistered uec' \<and> register_retries uec' = register_retries uec \<and> \<not> work uec'
    \<and> (gaokun_ucsi_register_worker env k r1 r2 uec w = (register_retry uec', w')
     \<or> gaokun_ucsi_register_worker env k r1 r2 uec w
       = (uec'\<lparr>ucsi_registered := True, notifier_registered := True, init_sync_work := True\<rparr>, w'))"
proof -
  obtain uec' w' ret where e: "gaokun_ucsi_ec_init env uec w = ((uec', w'), ret)" by (metis prod.exhaust)
  note i = ec_init_unregistered [OF assms(1) e]
  have pi: "ports_initialized uec" using assms(1) by (simp add: unregistered_def)
  have "uec'\<lparr>ucsi_registered := False\<rparr> = uec'" using i by (simp add: unregistered_def)
  then show ?thesis
    using e i assms(2)
    by (intro exI [of _ uec'] exI [of _ w']) (simp add: gaokun_ucsi_register_worker_def gaokun_ucsi_ports_init_def pi Let_def)
qed

lemma worker_inv:
  assumes "ucsi_inv uec" "work uec"
  shows "ucsi_inv (fst (gaokun_ucsi_register_worker env k r1 r2 (uec\<lparr>work := False\<rparr>) w))"
proof -
  note u = waiting_inv [OF assms]
  obtain uec' w' where o: "unregistered uec'" "register_retries uec' = register_retries uec" "\<not> work uec'"
    "gaokun_ucsi_register_worker env k r1 r2 (uec\<lparr>work := False\<rparr>) w = (register_retry uec', w')
     \<or> gaokun_ucsi_register_worker env k r1 r2 (uec\<lparr>work := False\<rparr>) w
       = (uec'\<lparr>ucsi_registered := True, notifier_registered := True, init_sync_work := True\<rparr>, w')"
    using worker_outcome [OF u(1), of env k r1 r2 w] by auto
  moreover have "ucsi_inv (uec'\<lparr>ucsi_registered := True, notifier_registered := True, init_sync_work := True\<rparr>)"
    using o(1-3) u(2) by (simp add: ucsi_inv_def unregistered_def)
  ultimately show ?thesis using retry_inv(1) [OF o(1)] u(2) by auto
qed

inductive ucsi_step :: "'w ucsi_env \<Rightarrow> gaokun_ucsi \<times> 'w \<Rightarrow> gaokun_ucsi \<times> 'w \<Rightarrow> bool" for env where
  register: "work uec \<Longrightarrow> ucsi_step env (uec, w) (gaokun_ucsi_register_worker env k r1 r2 (uec\<lparr>work := False\<rparr>) w)"
| event: "notifier_registered uec \<Longrightarrow> ucsi_step env (uec, w) (fst (gaokun_ucsi_notify env action uec w))"
| initial: "init_sync_work uec \<Longrightarrow>
    ucsi_step env (uec, w) (gaokun_ucsi_sync_initial_state env (uec\<lparr>init_sync_work := False\<rparr>) w)"
| deferred: "usb_sync_work uec \<Longrightarrow>
    ucsi_step env (uec, w) (gaokun_ucsi_sync_deferred_usb env (uec\<lparr>usb_sync_work := False\<rparr>) w)"
| timer: "idx < length (ports uec) \<Longrightarrow> usb_work (ports uec ! idx) \<Longrightarrow>
    ucsi_step env (uec, w) (gaokun_ucsi_handle_no_usb_event env idx (arm_usb_work idx False uec) w)"
| controller: "ucsi_step env (uec, w) (uec, w')"

definition ucsi_start :: "typec_hdr \<Rightarrow> gaokun_ucsi \<times> 'w \<Rightarrow> bool" where
  "ucsi_start h s \<longleftrightarrow> (\<exists>k. gaokun_ucsi_probe h k = Inr (fst s))"

lemma init_nodes_length: "length (fst (init_nodes ns ps)) = length ps"
  by (induction ns ps rule: init_nodes.induct) (auto simp: Let_def split: sum.split)

lemma no_timer_update:
  "\<forall>p \<in> set ps. \<not> usb_work p \<Longrightarrow> \<not> usb_work q \<Longrightarrow> \<forall>p \<in> set (ps[i := q]). \<not> usb_work p"
  using set_update_subset_insert [of ps i q] by auto

lemma init_nodes_timers:
  "\<forall>p \<in> set ps. \<not> usb_work p \<Longrightarrow> \<forall>p \<in> set (fst (init_nodes ns ps)). \<not> usb_work p"
proof (induction ns arbitrary: ps)
  case (Cons n ns)
  show ?case
  proof (cases "node_reg n")
    case (Inr port)
    define ps1 where "ps1 = ps[port := (ps ! port)\<lparr>bridge := True\<rparr>]"
    show ?thesis
    proof (cases "port < length ps")
      case True
      then have off: "\<not> usb_work (ps ! port)" using Cons.prems by simp
      then have one: "\<forall>p \<in> set ps1. \<not> usb_work p" unfolding ps1_def by (intro no_timer_update Cons.prems) simp
      then have two: "\<forall>p \<in> set (ps1[port := (ps1 ! port)\<lparr>typec_mux := m\<rparr>]). \<not> usb_work p" for m
        using True off by (intro no_timer_update) (simp_all add: ps1_def)
      show ?thesis
        using Cons.IH [OF two] one Cons.prems Inr True
        by (simp add: Let_def ps1_def [symmetric] split: sum.split)
    next
      case False
      then show ?thesis using Cons.IH [OF Cons.prems] Inr by simp
    qed
  qed (use Cons.prems in simp)
qed simp

lemma probe_unregistered:
  assumes "gaokun_ucsi_probe h k = Inr uec"
  shows "unregistered (uec\<lparr>work := False\<rparr>)" "work uec" "register_retries uec = 0"
proof -
  obtain uec' where p: "gaokun_ucsi_ports_init k (new_uec h) = (uec', 0)" "uec = uec'\<lparr>work := True\<rparr>"
    using assms by (auto simp: gaokun_ucsi_probe_def split: if_splits prod.splits)
  define ps where "ps = fst (init_nodes (child_nodes k) (replicate (length (child_nodes k)) new_port))"
  have n: "0 < length (child_nodes k)" "length (child_nodes k) \<le> 2"
    "uec' = (new_uec h)\<lparr>num_ports := length (child_nodes k), ports := ps, ports_initialized := True\<rparr>"
    using p(1) by (auto simp: gaokun_ucsi_ports_init_def new_uec_def ps_def Let_def GAOKUN_UCSI_MAX_PORTS_def
        GAOKUN_UCSI_BYTES_PER_PORT_def ENODEV_def EINVAL_def ENOMEM_def split: if_splits prod.splits)
  have "length ps = length (child_nodes k)" by (simp add: ps_def init_nodes_length)
  moreover have "\<forall>p \<in> set ps. \<not> usb_work p"
    unfolding ps_def by (rule init_nodes_timers) (simp add: new_port_def)
  ultimately show "unregistered (uec\<lparr>work := False\<rparr>)" "work uec" "register_retries uec = 0"
    using n p(2) by (simp_all add: unregistered_def new_uec_def GAOKUN_UCSI_NO_PORT_UPDATE_def)
qed

lemma probe_inv: "gaokun_ucsi_probe h k = Inr uec \<Longrightarrow> ucsi_inv uec"
  using probe_unregistered [of h k uec] by (intro unregistered_inv) (simp_all add: unregistered_def)

lemma ucsi_step_inv: "ucsi_step env s t \<Longrightarrow> ucsi_inv (fst s) \<Longrightarrow> ucsi_inv (fst t)"
proof (induction rule: ucsi_step.induct)
  case (register uec w k r1 r2)
  then show ?case using worker_inv by simp
next
  case (event uec w action)
  then show ?case using ucsi_notify_inv by simp
next
  case (initial uec w)
  then have "ucsi_inv (uec\<lparr>init_sync_work := False\<rparr>)" by (simp add: ucsi_inv_def)
  then show ?case by (rule initial_inv)
next
  case (deferred uec w)
  then have "ucsi_inv (uec\<lparr>usb_sync_work := False\<rparr>)" by (simp add: ucsi_inv_def)
  then show ?case unfolding gaokun_ucsi_sync_deferred_usb_def by (rule altmode_inv)
next
  case (timer idx uec w)
  then show ?case using timer_inv by simp
qed simp

interpretation ucsi_driver: invariant_system "ucsi_start h" "ucsi_step env" "\<lambda>s. ucsi_inv (fst s)" for h env
proof unfold_locales
  show "ucsi_inv (fst s)" if "ucsi_start h s" for s :: "gaokun_ucsi \<times> 'a"
    using that probe_inv unfolding ucsi_start_def by blast
qed (rule ucsi_step_inv)

text \<open>C9: In every reachable state of the UCSI driver, whatever the controller and the kernel do: there are one
  or two ports and the devicetree's bound is kept; every pending follow-up belongs to a port in use and
  has its timer armed, so none is forgotten; the last connector is none or a port in use; the notifier
  and the core are registered together; and the registration work is pending exactly while fewer than
  four attempts have failed and none has succeeded.\<close>

theorem ucsi_driver_invariant:
  assumes "reachable (ucsi_start h) (ucsi_step env) (uec, w)"
  shows "0 < num_ports uec \<and> num_ports uec \<le> length (ports uec) \<and> length (ports uec) \<le> 2
    \<and> (\<forall>i. bit (pending_usb_acks uec) i \<longrightarrow> i < num_ports uec \<and> usb_work (ports uec ! i))
    \<and> (last_connector_idx uec = -1 \<or> 0 \<le> last_connector_idx uec \<and> last_connector_idx uec < int (num_ports uec))
    \<and> ucsi_registered uec = notifier_registered uec
    \<and> work uec = (\<not> notifier_registered uec \<and> register_retries uec \<le> 3) \<and> register_retries uec \<le> 4"
  using ucsi_driver.reachable_inv [OF assms] by (auto simp: ucsi_inv_def)

text \<open>The numbers of the kernel's headers, two connectors, and a controller that reports both ports.\<close>

definition linux_hdr :: typec_hdr where
  "linux_hdr = \<lparr>DP_PIN_ASSIGN_C = 2, DP_PIN_ASSIGN_D = 3, DP_PIN_ASSIGN_E = 4, TYPEC_STATE_SAFE = 0, TYPEC_STATE_USB = 1,
     TYPEC_DP_STATE_C = 4, TYPEC_DP_STATE_D = 5, TYPEC_DP_STATE_E = 6, USB_SID_PD = 0xFF00, USB_SID_DISPLAYPORT = 0xFF01,
     UCSI_VERSION_1_0 = 0x100, UCSI_CCI_CONNECTOR = \<lambda>cci. cci div 2 mod 128\<rparr>"

text \<open>A bus whose state is the answer to a register read and to a UCSI read.\<close>

definition ucsi_bus :: "(byte list \<times> byte list) i2c_bus" where
  "ucsi_bus w req n =
     (if req ! 1 = 0xD3 then (w, 2, [0, 7] @ fst w) else if req ! 1 = 0xD5 then (w, 2, [0, 20] @ snd w) else (w, 2, [0, 0]))"

definition sample_ucsi :: "(byte list \<times> byte list) ucsi_env" where
  "sample_ucsi = \<lparr>ec_bus = ucsi_bus, typec_mux_set = \<lambda>_ _ w. w, bridge_notify = \<lambda>_ _ w. w, ucsi_notify_common = \<lambda>_ w. w,
     ppm_trylock = \<lambda>_. True, now = \<lambda>_. 0, hz = 250, hdr = linux_hdr\<rparr>"

definition sample_calls :: ucsi_calls where
  "sample_calls = \<lparr>child_nodes = map (\<lambda>i. \<lparr>node_reg = Inr i, node_bridge = 0, node_mux = Inr True\<rparr>) [0, 1],
     ports_alloc = True, bridge_add = \<lambda>_. 0, uec_alloc = True, ucsi_create_ret = 0\<rparr>"

lemma ucsi_bus_reads:
  "length (fst w) = 7 \<Longrightarrow> gaokun_ec_ucsi_get_reg ucsi_bus w = (w, Inr (fst w))"
  "length (snd w) = 20 \<Longrightarrow> gaokun_ec_ucsi_read ucsi_bus w = (w, Inr (snd w))"
  by (simp_all add: gaokun_ec_ucsi_get_reg_def gaokun_ec_ucsi_read_def gaokun_ec_read_data_def gaokun_ec_read_def
      gaokun_ec_request_def ucsi_bus_def extr_resp_def RESP_HDR_SIZE_def)

definition sample_uec0 :: gaokun_ucsi where
  "sample_uec0 = projr (gaokun_ucsi_probe linux_hdr sample_calls)"

definition two_ports :: "byte list \<times> byte list" where
  "two_ports = ([2, 1, 6, 3, 0, 0, 0], 2 # replicate 19 0)"

definition sample_uec1 :: gaokun_ucsi where
  "sample_uec1 = fst (gaokun_ucsi_register_worker sample_ucsi sample_calls 0 0 (sample_uec0\<lparr>work := False\<rparr>) two_ports)"

definition sample_uec2 :: gaokun_ucsi where
  "sample_uec2 = fst (fst (gaokun_ucsi_notify sample_ucsi 0x21 sample_uec1 two_ports))"

lemma sample_probe: "gaokun_ucsi_probe linux_hdr sample_calls = Inr sample_uec0" "work sample_uec0"
  by code_simp+

lemma sample_register:
  "gaokun_ucsi_register_worker sample_ucsi sample_calls 0 0 (sample_uec0\<lparr>work := False\<rparr>) two_ports = (sample_uec1, two_ports)"
  "notifier_registered sample_uec1"
  by code_simp+

lemma sample_notify:
  "gaokun_ucsi_notify sample_ucsi 0x21 sample_uec1 two_ports = ((sample_uec2, two_ports), UN_OK)"
  "bit (pending_usb_acks sample_uec2) 0" "num_ports sample_uec2 = 2"
  by code_simp+

lemma sample_reachable: "reachable (ucsi_start linux_hdr) (ucsi_step sample_ucsi) (sample_uec2, two_ports)"
proof -
  have "ucsi_step sample_ucsi (sample_uec0, two_ports) (sample_uec1, two_ports)"
    using ucsi_step.register [OF sample_probe(2), of sample_ucsi two_ports sample_calls 0 0] sample_register(1) by simp
  moreover have "ucsi_step sample_ucsi (sample_uec1, two_ports) (sample_uec2, two_ports)"
    using ucsi_step.event [OF sample_register(2), of sample_ucsi two_ports "0x21"] sample_notify(1) by simp
  moreover have "reachable (ucsi_start linux_hdr) (ucsi_step sample_ucsi) (sample_uec0, two_ports)"
    using sample_probe(1) by (intro reachable.init) (auto simp: ucsi_start_def)
  ultimately show ?thesis by (meson reachable.more)
qed

theorem ucsi_driver_invariant_witness:
  "bit (pending_usb_acks sample_uec2) 0 \<and> usb_work (ports sample_uec2 ! 0)"
  using ucsi_driver_invariant [OF sample_reachable] sample_notify(2) by blast

section \<open>Acknowledgements\<close>

text \<open>What reaches the controller, the mux and the bridge, in order.\<close>

datatype ucsi_event = Sent "byte list" | MuxSet nat mux_state | Bridge nat bool

definition recording :: "'w i2c_bus \<Rightarrow> ('w \<times> ucsi_event list) i2c_bus" where
  "recording xfer w req n = (let (w', r) = xfer (fst w) req n in ((w', snd w @ [Sent req]), r))"

definition traced :: "'w ucsi_env \<Rightarrow> ('w \<times> ucsi_event list) ucsi_env" where
  "traced env = \<lparr>ec_bus = recording (ec_bus env),
     typec_mux_set = \<lambda>i m w. (typec_mux_set env i m (fst w), snd w @ [MuxSet i m]),
     bridge_notify = \<lambda>i b w. (bridge_notify env i b (fst w), snd w @ [Bridge i b]),
     ucsi_notify_common = \<lambda>c w. (ucsi_notify_common env c (fst w), snd w),
     ppm_trylock = \<lambda>w. ppm_trylock env (fst w), now = \<lambda>w. now env (fst w), hz = hz env, hdr = hdr env\<rparr>"

lemma traced_env [simp]:
  "ec_bus (traced env) = recording (ec_bus env)" "ppm_trylock (traced env) w = ppm_trylock env (fst w)"
  "hdr (traced env) = hdr env"
  by (simp_all add: traced_def)

text \<open>
  What the controller's two bytes about a port say, field by field: orientation, mux and hot plug as they
  are, the pin assignment with its reversed variant folded in, the service by the mux field.
\<close>

definition reported_port :: "typec_hdr \<Rightarrow> byte list \<Rightarrow> nat \<Rightarrow> gaokun_ucsi_port \<Rightarrow> gaokun_ucsi_port" where
  "reported_port h bytes idx port =
     (let dcc = bytes ! (2 + 2 * idx); ddi = bytes ! (3 + 2 * idx);
          lanes = uint (drop_bit 2 dcc AND 3); pins = uint (ddi AND 15) in
      port\<lparr>ccx := uint (dcc AND 3), mux := lanes,
        mode := if lanes = 1 then TYPEC_STATE_USB h
          else if pins = 0 then TYPEC_STATE_SAFE h
          else if pins \<in> {3, 9} then DP_PIN_ASSIGN_C h
          else if pins \<in> {4, 10} then DP_PIN_ASSIGN_D h
          else if pins \<in> {5, 11} then DP_PIN_ASSIGN_E h
          else pins,
        svid := if lanes = 0 then 0 else if lanes = 1 then USB_SID_PD h else USB_SID_DISPLAYPORT h,
        hpd_state := bit ddi 4, hpd_irq := bit ddi 5\<rparr>)"

text \<open>What a port in such a state asks of its mux and of its bridge.\<close>

definition port_events :: "typec_hdr \<Rightarrow> gaokun_ucsi_port \<Rightarrow> nat \<Rightarrow> ucsi_event list" where
  "port_events h port idx =
      (if typec_mux port \<and> svid port = USB_SID_DISPLAYPORT h
       then [MuxSet idx
         \<lparr>state_mode = if mode port = DP_PIN_ASSIGN_C h then TYPEC_DP_STATE_C h
            else if mode port = DP_PIN_ASSIGN_D h then TYPEC_DP_STATE_D h
            else if mode port = DP_PIN_ASSIGN_E h then TYPEC_DP_STATE_E h
            else TYPEC_STATE_SAFE h,
          dp_hpd = hpd_state port, dp_irq = hpd_irq port, dp_pins = mode port\<rparr>] else [])
      @ (if bridge port then [Bridge idx (hpd_state port)] else [])"

lemma port_update_reported:
  assumes "idx < 2" "length bytes = 7"
  shows "gaokun_ucsi_port_update h idx (port_data (ureg_of bytes)) port = reported_port h bytes idx port"
proof -
  let ?dcc = "bytes ! (2 + 2 * idx)" and ?ddi = "bytes ! (3 + 2 * idx)"
  have data: "port_data (ureg_of bytes) ! (idx * GAOKUN_UCSI_BYTES_PER_PORT) = ?dcc"
    "port_data (ureg_of bytes) ! (idx * GAOKUN_UCSI_BYTES_PER_PORT + 1) = ?ddi"
    using assms by (simp_all add: ureg_of_def GAOKUN_UCSI_BYTES_PER_PORT_def mult.commute numeral_3_eq_3)
  obtain lanes pins cc hpd irq where f: "uint (drop_bit 2 ?dcc AND 3) = lanes" "uint (?ddi AND 15) = pins"
    "uint (?dcc AND 3) = cc" "bit ?ddi 4 = hpd" "bit ?ddi 5 = irq" by blast
  show ?thesis
    unfolding gaokun_ucsi_port_update_def reported_port_def data f Let_def USBC_MUX_NONE_def USBC_MUX_USB_2L_def
    by auto
qed

definition selected :: "gaokun_ucsi \<Rightarrow> byte \<Rightarrow> nat list" where
  "selected uec m = filter (bit m) [0..<num_ports uec]"

lemma for_ports_selected: "for_ports uec m f s = fold f (selected uec m) s"
proof -
  have "fold (\<lambda>idx s. if \<not> bit m idx then s else f idx s) xs s = fold f (filter (bit m) xs) s" for xs
    by (induction xs arbitrary: s) simp_all
  then show ?thesis by (simp add: for_ports_def selected_def)
qed

lemma traced_request:
  "gaokun_ec_request (recording xfer) (w, l) req n
    = (let (w', ret, resp) = gaokun_ec_request xfer w req n in ((w', l @ [Sent (take (REQ_LEN req) req)]), ret, resp))"
  by (simp add: gaokun_ec_request_def recording_def split: prod.split)

lemma traced_refresh:
  assumes "gaokun_ucsi_refresh env uec w = ((uec', w'), r)"
  shows "gaokun_ucsi_refresh (traced env) uec (w, l) = ((uec', (w', l @ [Sent [0x03, 0xD3, 0]])), r)"
  using assms
  by (auto simp: gaokun_ucsi_refresh_def gaokun_ec_ucsi_get_reg_def gaokun_ec_read_data_def gaokun_ec_read_def
      traced_request traced_def Let_def split: prod.splits sum.splits)

lemma traced_ack:
  "fst (gaokun_ec_ucsi_pan_ack (recording xfer) (w, l) p)
    = (fst (gaokun_ec_ucsi_pan_ack xfer w p), l @ [Sent [0x03, 0xD2, 1, if p = -1 then 0 else push_bit (nat p) 1]])"
  by (simp add: gaokun_ec_ucsi_pan_ack_def gaokun_ec_write_def traced_request Let_def split: prod.split)

lemma traced_acks:
  "snd (fold (\<lambda>idx w. fst (gaokun_ec_ucsi_pan_ack (recording xfer) w (int idx))) xs (w, l))
    = l @ map (\<lambda>idx. Sent [0x03, 0xD2, 1, push_bit idx 1]) xs"
  by (induction xs arbitrary: w l) (simp_all add: traced_ack)

lemma traced_handles:
  assumes "\<forall>i \<in> set xs. i < num_ports uec"
  shows "snd (fold (gaokun_ucsi_handle_altmode (traced env) uec) xs (w, l))
    = l @ concat (map (\<lambda>i. port_events (hdr env) (ports uec ! i) i) xs)"
  using assms
proof (induction xs arbitrary: w l)
  case (Cons i xs)
  have "\<exists>w'. gaokun_ucsi_handle_altmode (traced env) uec i (w, l) = (w', l @ port_events (hdr env) (ports uec ! i) i)"
    using Cons.prems by (simp add: gaokun_ucsi_handle_altmode_def gaokun_ucsi_typec_mux_mode_def port_events_def traced_def Let_def)
  then obtain w' where
    "gaokun_ucsi_handle_altmode (traced env) uec i (w, l) = (w', l @ port_events (hdr env) (ports uec ! i) i)" by blast
  then show ?case using Cons by simp
qed simp

lemma traced_handle_and_ack:
  assumes "m \<noteq> 0"
  shows "snd (handle_and_ack (traced env) uec m (w, l))
    = l @ concat (map (\<lambda>i. port_events (hdr env) (ports uec ! i) i) (selected uec m))
      @ map (\<lambda>idx. Sent [0x03, 0xD2, 1, push_bit idx 1]) (selected uec m)"
proof -
  obtain w' l' where h: "fold (gaokun_ucsi_handle_altmode (traced env) uec) (selected uec m) (w, l) = (w', l')" by fastforce
  then have "l' = l @ concat (map (\<lambda>i. port_events (hdr env) (ports uec ! i) i) (selected uec m))"
    using traced_handles [of "selected uec m" uec env w l] by (simp add: selected_def)
  then show ?thesis
    using assms traced_acks [of "ec_bus env" "selected uec m" w' l'] h
    by (simp add: handle_and_ack_def gaokun_ucsi_ack_updates_def for_ports_selected traced_def)
qed

lemma complete_ports [simp]:
  "ports (gaokun_ucsi_complete_usb_ack uec m) = ports uec"
  "selected (gaokun_ucsi_complete_usb_ack uec m) = selected uec"
  by (simp_all add: gaokun_ucsi_complete_usb_ack_def selected_def fun_eq_iff)

text \<open>The ports a report names: those in use whose bit is set in its second byte.\<close>

definition named_ports :: "gaokun_ucsi \<Rightarrow> byte list \<Rightarrow> nat list" where
  "named_ports uec bytes = filter (bit (bytes ! 1)) [0..<num_ports uec]"

lemma named_ports_mask:
  assumes "num_ports uec \<le> 8"
  shows "selected uec ((bytes ! 1) AND gaokun_ucsi_valid_port_mask uec) = named_ports uec bytes"
    "(bytes ! 1) AND gaokun_ucsi_valid_port_mask uec = 0 \<longleftrightarrow> named_ports uec bytes = []"
proof -
  let ?m = "(bytes ! 1) AND gaokun_ucsi_valid_port_mask uec"
  have b: "bit ?m i \<longleftrightarrow> i < num_ports uec \<and> bit (bytes ! 1) i" for i
    using assms by (auto simp: gaokun_ucsi_valid_port_mask_def bit_and_iff bit_mask_iff)
  show "selected uec ?m = named_ports uec bytes"
    unfolding selected_def named_ports_def by (rule filter_cong) (simp_all only: b set_upt atLeastLessThan_iff simp_thms)
  have "?m = 0 \<longleftrightarrow> (\<forall>i. \<not> bit ?m i)" by (metis bit_0_eq bit_eqI bot_apply bot_bool_def)
  also have "\<dots> \<longleftrightarrow> named_ports uec bytes = []"
    unfolding b named_ports_def filter_empty_conv set_upt Ball_def atLeastLessThan_iff by blast
  finally show "?m = 0 \<longleftrightarrow> named_ports uec bytes = []" .
qed

text \<open>What a refresh that could read stores and delivers.\<close>

lemma refresh_stores:
  assumes "num_ports uec \<le> length (ports uec)" "length (ports uec) \<le> 2"
    "gaokun_ec_ucsi_get_reg (ec_bus env) w = (w', Inr bytes)" "length bytes = 7"
  obtains ps where
    "gaokun_ucsi_refresh env uec w = ((uec\<lparr>ports := ps\<rparr>, w'), Inr ((bytes ! 1) AND gaokun_ucsi_valid_port_mask uec))"
    "length ps = length (ports uec)"
    "\<And>i. i < length (ports uec) \<Longrightarrow>
      ps ! i = (if i \<in> set (named_ports uec bytes) then reported_port (hdr env) bytes i (ports uec ! i) else ports uec ! i)"
proof
  let ?m = "(bytes ! 1) AND gaokun_ucsi_valid_port_mask uec"
  let ?ps = "update_ports (num_ports uec) (bit ?m)
    (\<lambda>idx. gaokun_ucsi_port_update (hdr env) idx (port_data (ureg_of bytes))) (ports uec)"
  show "gaokun_ucsi_refresh env uec w = ((uec\<lparr>ports := ?ps\<rparr>, w'), Inr ?m)"
    using assms(3) by (simp add: gaokun_ucsi_refresh_def ureg_of_def Let_def)
  show "length ?ps = length (ports uec)" using assms(1) by (simp add: update_ports_nth)
  fix i assume i: "i < length (ports uec)"
  have "selected uec ?m = named_ports uec bytes" using assms(1,2) by (intro named_ports_mask(1)) simp
  then show "?ps ! i = (if i \<in> set (named_ports uec bytes) then reported_port (hdr env) bytes i (ports uec ! i) else ports uec ! i)"
    using i assms(1,2,4) unfolding selected_def
    by (simp add: update_ports_nth port_update_reported flip: \<open>selected uec ?m = named_ports uec bytes\<close>[unfolded selected_def])
qed

text \<open>C10: The protocol of a port update, with or without a USB event, on a driver with its one or two ports:
  one read of the controller's registers; when it fails nothing more is sent and the ports stay as they
  were; when it names no port in use the controller gets the empty acknowledgement; otherwise every
  named port takes exactly the fields the report has for it, every named port with a mux that the report
  puts in a DisplayPort mode has its mux set from these fields, every named port with a bridge has its
  hot-plug state forwarded, and after all of them every named port, and no other, is acknowledged once,
  in order.  Ports the report does not name keep their state.\<close>

theorem update_acknowledged:
  assumes "ucsi_registered uec" "\<not> (got \<and> defer_busy \<and> \<not> ppm_trylock env w)"
    "num_ports uec \<le> length (ports uec)" "length (ports uec) \<le> 2"
    "gaokun_ec_ucsi_get_reg (ec_bus env) w = (w', r)" "\<forall>bytes. r = Inr bytes \<longrightarrow> length bytes = 7"
    "gaokun_ucsi_altmode_notify_ind (traced env) got defer_busy uec (w, []) = (uec', v, trace)"
  shows "trace = Sent [0x03, 0xD3, 0] # (case r of Inl e \<Rightarrow> []
        | Inr bytes \<Rightarrow> if named_ports uec bytes = [] then [Sent [0x03, 0xD2, 1, 0]]
            else concat (map (\<lambda>i. port_events (hdr env) (reported_port (hdr env) bytes i (ports uec ! i)) i) (named_ports uec bytes))
              @ map (\<lambda>i. Sent [0x03, 0xD2, 1, push_bit i 1]) (named_ports uec bytes))
    \<and> length (ports uec') = length (ports uec)
    \<and> (\<forall>i < length (ports uec). ports uec' ! i = (case r of Inl e \<Rightarrow> ports uec ! i
        | Inr bytes \<Rightarrow> if i \<in> set (named_ports uec bytes) then reported_port (hdr env) bytes i (ports uec ! i) else ports uec ! i))"
proof (cases r)
  case (Inl e)
  then have "gaokun_ucsi_refresh env uec w = ((uec, w'), Inl e)"
    using assms(5) by (simp add: gaokun_ucsi_refresh_def)
  note notify = assms(7) [unfolded gaokun_ucsi_altmode_notify_ind_def traced_refresh [OF this, of "[]"]]
  show ?thesis using assms(1,2) notify Inl by (auto split: if_splits)
next
  case (Inr bytes)
  define m where "m = (bytes ! 1) AND gaokun_ucsi_valid_port_mask uec"
  let ?named = "named_ports uec bytes"
  let ?new = "\<lambda>i. reported_port (hdr env) bytes i (ports uec ! i)"
  have n: "num_ports uec \<le> 8" using assms(3,4) by simp
  obtain ps where refresh: "gaokun_ucsi_refresh env uec w = ((uec\<lparr>ports := ps\<rparr>, w'), Inr m)"
    and ps: "length ps = length (ports uec)"
      "\<And>i. i < length (ports uec) \<Longrightarrow> ps ! i = (if i \<in> set ?named then ?new i else ports uec ! i)"
    using refresh_stores [OF assms(3,4), of env w w' bytes] assms(5,6) Inr unfolding m_def by blast
  have sel: "selected (uec\<lparr>ports := ps\<rparr>) m = ?named"
    using named_ports_mask(1) [OF n, of bytes] unfolding m_def selected_def by simp
  have ev: "map (\<lambda>i. port_events (hdr env) (ps ! i) i) ?named = map (\<lambda>i. port_events (hdr env) (?new i) i) ?named"
    using ps(2) assms(3) by (intro map_cong) (auto simp: named_ports_def)
  have none: "m = 0 \<longleftrightarrow> ?named = []" using named_ports_mask(2) [OF n, of bytes] by (simp only: m_def)
  note notify = assms(7) [unfolded gaokun_ucsi_altmode_notify_ind_def traced_refresh [OF refresh, of "[]"]]
  have "ports uec' = ps \<and> trace = Sent [0x03, 0xD3, 0] # (if ?named = [] then [Sent [0x03, 0xD2, 1, 0]]
      else concat (map (\<lambda>i. port_events (hdr env) (?new i) i) ?named) @ map (\<lambda>i. Sent [0x03, 0xD2, 1, push_bit i 1]) ?named)"
  proof (cases "m = 0")
    case True
    then show ?thesis
      using assms(1,2) notify none traced_ack [of "ec_bus env" w' "[Sent [0x03, 0xD3, 0]]" "-1"]
      by (auto simp: gaokun_ucsi_ack_updates_def GAOKUN_UCSI_NO_PORT_UPDATE_def split: if_splits)
  next
    case False
    define u where "u = (if got then gaokun_ucsi_complete_usb_ack (uec\<lparr>ports := ps\<rparr>) m else uec\<lparr>ports := ps\<rparr>)"
    have "(u, handle_and_ack (traced env) u m (w', [Sent [0x03, 0xD3, 0]])) = (uec', v, trace)"
      using assms(1,2) notify False by (auto simp: u_def Let_def split: if_splits)
    moreover have "ports u = ps" "selected u m = ?named" using sel by (simp_all add: u_def)
    ultimately show ?thesis
      using False none ev traced_handle_and_ack [OF False, of env u w' "[Sent [0x03, 0xD3, 0]]"]
      by (auto cong: map_cong)
  qed
  then show ?thesis using Inr ps by simp
qed

text \<open>
  A display plugged into port 0, which has a mux and a bridge: four lanes, pins D, hot plug; the report
  also has a bit for a port that is not in use.
\<close>

definition display_in :: "byte list \<times> byte list" where
  "display_in = ([2, 5, 0x09, 0x14, 0, 0, 0], 2 # replicate 19 0)"

lemma display_report: "gaokun_ec_ucsi_get_reg (ec_bus sample_ucsi) display_in = (display_in, Inr (fst display_in))"
  by code_simp

theorem update_acknowledged_witness:
  "case gaokun_ucsi_altmode_notify_ind (traced sample_ucsi) True True sample_uec2 (display_in, []) of (uec', v, trace) \<Rightarrow>
    trace = [Sent [0x03, 0xD3, 0], MuxSet 0 \<lparr>state_mode = 5, dp_hpd = True, dp_irq = False, dp_pins = 3\<rparr>, Bridge 0 True,
      Sent [0x03, 0xD2, 1, 1]]
    \<and> svid (ports uec' ! 0) = 0xFF01 \<and> mode (ports uec' ! 0) = 3 \<and> ports uec' ! 1 = ports sample_uec2 ! 1"
proof -
  obtain uec' v trace where r:
    "gaokun_ucsi_altmode_notify_ind (traced sample_ucsi) True True sample_uec2 (display_in, []) = (uec', v, trace)"
    by (metis prod.exhaust)
  have "ucsi_registered sample_uec2" "ppm_trylock sample_ucsi display_in" "length (ports sample_uec2) = 2"
    "num_ports sample_uec2 \<le> length (ports sample_uec2)" "length (fst display_in) = 7"
    by code_simp+
  moreover have "named_ports sample_uec2 (fst display_in) = [0]"
    "port_events (hdr sample_ucsi) (reported_port (hdr sample_ucsi) (fst display_in) 0 (ports sample_uec2 ! 0)) 0
      = [MuxSet 0 \<lparr>state_mode = 5, dp_hpd = True, dp_irq = False, dp_pins = 3\<rparr>, Bridge 0 True]"
    "svid (reported_port (hdr sample_ucsi) (fst display_in) 0 (ports sample_uec2 ! 0)) = 0xFF01"
    "mode (reported_port (hdr sample_ucsi) (fst display_in) 0 (ports sample_uec2 ! 0)) = 3"
    by code_simp+
  ultimately show ?thesis
    using update_acknowledged [OF _ _ _ _ display_report _ r] r by simp
qed

section \<open>USB events that name no port\<close>

lemma infer_mask:
  assumes "num_ports uec \<le> 8"
  shows "\<exists>S. (\<forall>i. bit (gaokun_ucsi_infer_usb_complete_mask uec) i \<longleftrightarrow> i \<in> S) \<and> card S \<le> 1 \<and> finite S
    \<and> (\<forall>i \<in> S. bit (gaokun_ucsi_pending_usb_mask uec) i)"
proof -
  let ?p = "gaokun_ucsi_pending_usb_mask uec" and ?m = "gaokun_ucsi_infer_usb_complete_mask uec"
  consider "?m = 0" | "?m = ?p" "hweight8 ?p = 1"
    | i where "?m = push_bit i 1" "bit ?p i" "i < num_ports uec"
    using that unfolding gaokun_ucsi_infer_usb_complete_mask_def Let_def
    by (cases "?p = 0"; cases "hweight8 ?p = 1"; cases "0 \<le> last_connector_idx uec \<and>
      last_connector_idx uec < int (num_ports uec) \<and> bit ?p (nat (last_connector_idx uec))") auto
  then show ?thesis
  proof cases
    case 1
    then show ?thesis by (intro exI [of _ "{}"]) simp
  next
    case 2
    then obtain j where "filter (bit ?p) [0..<8] = [j]"
      by (auto simp: hweight8_def length_Suc_conv)
    then have "set (filter (bit ?p) [0..<8]) = {j}" by simp
    then have "\<And>i. i < 8 \<and> bit ?p i \<longleftrightarrow> i = j" by (simp add: set_eq_iff)
    moreover have "bit ?p i \<Longrightarrow> i < 8" for i using bit_imp_le_length [of ?p i] by simp
    ultimately have "\<And>i. bit ?p i \<longleftrightarrow> i = j" by blast
    then show ?thesis using 2(1) by (intro exI [of _ "{j}"]) simp
  next
    case (3 i)
    then show ?thesis using assms by (intro exI [of _ "{i}"]) (auto simp: bit_exp_iff)
  qed
qed

text \<open>A USB event that names no port, when the controller can be read, completes at most one pending
  follow-up: the others stay pending with their timers armed, so an ambiguous event never cancels
  them.\<close>

theorem bare_usb_event_completes_one:
  assumes "reachable (ucsi_start h) (ucsi_step env) (uec, w)" "notifier_registered uec"
    "gaokun_ucsi_refresh env uec w = ((uec1, w1), Inr 0)"
    "gaokun_ucsi_altmode_notify_ind env True False uec w = (uec', w')"
  shows "\<exists>S. finite S \<and> card S \<le> 1 \<and> (\<forall>i. bit (pending_usb_acks uec') i \<longleftrightarrow> bit (pending_usb_acks uec) i \<and> i \<notin> S)
    \<and> (\<forall>i. bit (pending_usb_acks uec') i \<longrightarrow> usb_work (ports uec' ! i))"
proof -
  have inv: "ucsi_inv uec" using ucsi_driver.reachable_inv [OF assms(1)] by simp
  note frame = refresh_frame [OF inv assms(3)]
  have n: "num_ports uec1 \<le> 8" using inv frame by (simp add: ucsi_inv_def)
  have u': "uec' = gaokun_ucsi_complete_usb_ack uec1 (gaokun_ucsi_infer_usb_complete_mask uec1)"
    using assms(2-4) registered_iff [OF inv] by (simp add: gaokun_ucsi_altmode_notify_ind_def Let_def)
  obtain S where "\<forall>i. bit (gaokun_ucsi_infer_usb_complete_mask uec1) i \<longleftrightarrow> i \<in> S" "card S \<le> 1" "finite S"
    "\<forall>i \<in> S. bit (gaokun_ucsi_pending_usb_mask uec1) i"
    using infer_mask [OF n] by blast
  moreover have "ucsi_inv uec'" using altmode_inv [OF inv, of env True False w] assms(4) by simp
  ultimately show ?thesis
    using frame pending_usb_mask_bit [OF n] complete_bit [of uec1] u'
    by (intro exI [of _ S]) (auto simp: ucsi_inv_def)
qed

section \<open>Registration ends\<close>

text \<open>How often the worker runs when the kernel and the controller answer as listed.\<close>

fun attempts :: "'w ucsi_env \<Rightarrow> (ucsi_calls \<times> int \<times> int \<times> 'w) list \<Rightarrow> gaokun_ucsi \<Rightarrow> nat \<times> gaokun_ucsi" where
  "attempts env [] uec = (0, uec)"
| "attempts env ((k, r1, r2, w) # rs) uec =
     (if work uec
      then let (n, uec) = attempts env rs (fst (gaokun_ucsi_register_worker env k r1 r2 (uec\<lparr>work := False\<rparr>) w)) in (Suc n, uec)
      else (0, uec))"

lemma attempts_bounded:
  assumes "work uec \<Longrightarrow> unregistered (uec\<lparr>work := False\<rparr>) \<and> register_retries uec \<le> 3"
    "attempts env rs uec = (n, uec')"
  shows "n \<le> (if work uec then 4 - register_retries uec else 0)
    \<and> (work uec \<and> length rs < 4 - register_retries uec \<or> \<not> work uec')"
  using assms
proof (induction rs arbitrary: uec n)
  case (Cons r rs)
  obtain k r1 r2 w where r: "r = (k, r1, r2, w)" by (metis prod.exhaust)
  show ?case
  proof (cases "work uec")
    case True
    define v where "v = fst (gaokun_ucsi_register_worker env k r1 r2 (uec\<lparr>work := False\<rparr>) w)"
    obtain m where m: "attempts env rs v = (m, uec')" "n = Suc m"
      using Cons.prems(2) True by (auto simp: r v_def split: prod.splits)
    obtain u w' where o: "unregistered u" "register_retries u = register_retries uec" "\<not> work u"
      "v = register_retry u \<or> v = u\<lparr>ucsi_registered := True, notifier_registered := True, init_sync_work := True\<rparr>"
      using worker_outcome [of "uec\<lparr>work := False\<rparr>" env k r1 r2 w] Cons.prems(1) [OF True] by (auto simp: v_def)
    have three: "register_retries u \<le> 3" using Cons.prems(1) [OF True] o(2) by simp
    note rt = retry_inv [OF o(1) three o(3)]
    have v: "work v \<Longrightarrow> unregistered (v\<lparr>work := False\<rparr>) \<and> register_retries v \<le> 3"
      using o(3,4) rt waiting_inv [OF rt(1)] by auto
    have "(\<not> work v) \<or> register_retries v = Suc (register_retries uec)"
      using o rt by auto
    then show ?thesis
      using Cons.IH [OF v m(1)] m(2) three o(2) True v by (cases "work v") auto
  next
    case False
    then show ?thesis using Cons.prems(2) by (simp add: r)
  qed
qed fastforce

text \<open>C23: Registration ends: after probing, whatever the kernel and the controller answer, the registration work
  runs at most four times, and after four runs it is no longer pending: the driver is registered or
  has given up.\<close>

theorem registration_ends:
  assumes "gaokun_ucsi_probe h k = Inr uec"
  shows "fst (attempts env rs uec) \<le> 4 \<and> (length rs < 4 \<or> \<not> work (snd (attempts env rs uec)))"
  using attempts_bounded [of uec env rs] probe_unregistered [OF assms]
  by (cases "attempts env rs uec") force

text \<open>A controller that reports no port exhausts the attempts.\<close>

theorem registration_ends_witness:
  "fst (attempts sample_ucsi (replicate 6 (sample_calls, 0, 0, (replicate 7 0, replicate 20 0))) sample_uec0) = 4
    \<and> \<not> work (snd (attempts sample_ucsi (replicate 6 (sample_calls, 0, 0, (replicate 7 0, replicate 20 0))) sample_uec0))"
proof -
  have "fst (attempts sample_ucsi (replicate 6 (sample_calls, 0, 0, (replicate 7 0, replicate 20 0))) sample_uec0) = 4"
    by code_simp
  then show ?thesis
    using registration_ends [OF sample_probe(1), of sample_ucsi "replicate 6 (sample_calls, 0, 0, (replicate 7 0, replicate 20 0))"]
    by simp
qed

theorem bare_usb_event_completes_one_witness:
  "\<exists>uec'. fst (gaokun_ucsi_altmode_notify_ind sample_ucsi True False sample_uec2 ([2, 0, 0, 0, 0, 0, 0], snd two_ports)) = uec'
    \<and> \<not> bit (pending_usb_acks uec') 0 \<and> (\<forall>i. bit (pending_usb_acks uec') i \<longrightarrow> usb_work (ports uec' ! i))"
proof -
  let ?w = "([2, 0, 0, 0, 0, 0, 0], snd two_ports)"
  from sample_reachable have r: "reachable (ucsi_start linux_hdr) (ucsi_step sample_ucsi) (sample_uec2, ?w)"
    by (rule reachable.more) (rule ucsi_step.controller)
  have "gaokun_ucsi_refresh sample_ucsi sample_uec2 ?w = ((sample_uec2, ?w), Inr 0)" "notifier_registered sample_uec2"
    "\<not> bit (pending_usb_acks (fst (gaokun_ucsi_altmode_notify_ind sample_ucsi True False sample_uec2 ?w))) 0"
    by code_simp+
  then show ?thesis
    using bare_usb_event_completes_one [OF r, of sample_uec2 ?w]
    by (cases "gaokun_ucsi_altmode_notify_ind sample_ucsi True False sample_uec2 ?w") auto
qed

section \<open>Removal\<close>

text \<open>C26: After removal nothing of the UCSI driver is left to run: no work and no timer of any port is pending,
  the notifier and the core are released.  But of the references to the Type-C muxes only those of the
  ports the controller reported are put: the muxes of the other devicetree connectors stay referenced.\<close>

theorem ucsi_removal_outcome:
  assumes "reachable (ucsi_start h) (ucsi_step env) (uec, w)"
  shows "(let uec' = gaokun_ucsi_remove uec in
    \<not> work uec' \<and> \<not> init_sync_work uec' \<and> \<not> usb_sync_work uec' \<and> \<not> (\<exists>p \<in> set (ports uec'). usb_work p)
    \<and> \<not> notifier_registered uec' \<and> \<not> ucsi_registered uec'
    \<and> map typec_mux (ports uec') = replicate (num_ports uec) False @ map typec_mux (drop (num_ports uec) (ports uec)))"
proof -
  have inv: "ucsi_inv uec" using ucsi_driver.reachable_inv [OF assms] by simp
  then have n: "num_ports uec \<le> length (ports uec)" "ports_initialized uec"
    and timers: "\<And>i. i < length (ports uec) \<Longrightarrow> usb_work (ports uec ! i) \<Longrightarrow> i < num_ports uec"
    by (simp_all add: ucsi_inv_def)
  let ?ps = "update_ports (num_ports uec) (\<lambda>_. True) (\<lambda>i port. port\<lparr>usb_work := False, typec_mux := False\<rparr>) (ports uec)"
  have "\<not> (\<exists>p \<in> set ?ps. usb_work p)"
    using timers by (auto simp: in_set_conv_nth update_ports_nth [OF n(1)] split: if_splits)
  moreover have "map typec_mux ?ps = replicate (num_ports uec) False @ map typec_mux (drop (num_ports uec) (ports uec))"
    using n(1) by (intro nth_equalityI) (auto simp: update_ports_nth nth_append)
  ultimately show ?thesis using n(2) by (simp add: gaokun_ucsi_remove_def)
qed

text \<open>Two connectors in the devicetree, one reported by the controller.\<close>

theorem ucsi_removal_outcome_witness:
  "map typec_mux (ports (gaokun_ucsi_remove (fst (gaokun_ucsi_register_worker sample_ucsi sample_calls 0 0
     (sample_uec0\<lparr>work := False\<rparr>) (1 # replicate 6 0, replicate 20 0))))) = [False, True]"
proof -
  let ?w = "(1 # replicate 6 0, replicate 20 0) :: byte list \<times> byte list"
  let ?s = "gaokun_ucsi_register_worker sample_ucsi sample_calls 0 0 (sample_uec0\<lparr>work := False\<rparr>) ?w"
  have "reachable (ucsi_start linux_hdr) (ucsi_step sample_ucsi) (sample_uec0, ?w)"
    using sample_probe(1) by (intro reachable.init) (auto simp: ucsi_start_def)
  then have "reachable (ucsi_start linux_hdr) (ucsi_step sample_ucsi) (fst ?s, snd ?s)"
    using ucsi_step.register [OF sample_probe(2)] by (metis prod.collapse reachable.more)
  moreover have "num_ports (fst ?s) = 1" "map typec_mux (drop 1 (ports (fst ?s))) = [True]" by code_simp+
  ultimately show ?thesis using ucsi_removal_outcome [of linux_hdr sample_ucsi "fst ?s" "snd ?s"] by (simp add: Let_def)
qed

section \<open>Pin assignments\<close>

text \<open>A pin assignment the driver does not know is not rejected: with the values of the kernel's header, a
  port in a DisplayPort configuration whose controller reports pin assignment B is given the mux state
  of assignment C.\<close>

theorem pin_assignment_b_taken_for_c:
  assumes "DP_PIN_ASSIGN_C h = 2" "data ! (2 * idx + 1) AND 15 = 2" "drop_bit 2 (data ! (2 * idx)) AND 3 \<in> {2, 3}"
  shows "svid (gaokun_ucsi_port_update h idx data p) = USB_SID_DISPLAYPORT h
    \<and> gaokun_ucsi_typec_mux_mode h (mode (gaokun_ucsi_port_update h idx data p)) = TYPEC_DP_STATE_C h"
proof -
  have m: "uint (drop_bit 2 (data ! (idx * 2)) AND 3) \<noteq> 0" "uint (drop_bit 2 (data ! (idx * 2)) AND 3) \<noteq> 1"
    using assms(3) by (auto simp: mult.commute)
  have d: "uint (data ! Suc (idx * 2) AND 15) = 2" using assms(2) by (simp add: mult.commute)
  show ?thesis
    using assms(1) m d
    by (simp add: gaokun_ucsi_port_update_def GAOKUN_UCSI_BYTES_PER_PORT_def USBC_MUX_NONE_def USBC_MUX_USB_2L_def
        gaokun_ucsi_typec_mux_mode_def Let_def)
qed

theorem pin_assignment_b_taken_for_c_witness:
  "gaokun_ucsi_typec_mux_mode linux_hdr (mode (gaokun_ucsi_port_update linux_hdr 1 [0, 0, 0x08, 0x12] new_port)) = 4"
  using pin_assignment_b_taken_for_c [of linux_hdr "[0, 0, 0x08, 0x12]" 1 new_port] by (simp add: linux_hdr_def)

end
