(* ===== verification/Panel_Himax.thy ===== *)
theory Panel_Himax
  imports Driver_Prelude Step_Systems
begin

text \<open>
  The panel driver (\<open>panel-himax-hx83121a.c\<close>): the four initialisation sequences as data, power
  sequencing, modes, backlight and probing.  The DSI helpers with an accumulated error (\<open>*_multi\<close>),
  the regulators and the backlight belong to the kernel: they are the parameter \<open>panel_env\<close>, and the DSI
  helpers act on the state of the link together with the accumulated error.  The kernel's constants for
  standard DCS commands, pixel formats and flags are constructors.
\<close>

section \<open>Commands and the initialisation sequences\<close>

datatype dcs_cmd =
    Write "byte list" | ControlDisplay byte | PowerSave byte | EnterSleep | ExitSleep | DisplayOn | Msleep nat
  | PictureParams | Compression bool

definition boe_ppc357db1_4_dsc_init_seq :: "dcs_cmd list" where
  "boe_ppc357db1_4_dsc_init_seq = [
     Write [0xb9, 0x83, 0x12, 0x1a, 0x55, 0x00], ControlDisplay 0x24, Write [0xe2, 0x00], Write [0xbd, 0x03],
     Write [0xe1, 0x01], Write [0xbd, 0x00], Write [0xe9, 0xc7], Write [0xb2, 0x98], Write [0xe9, 0x3f],
     Write [0xbd, 0x02],
     Write [0xe7, 0x01, 0x07, 0x01, 0x07, 0x01, 0x07, 0x06, 0x06, 0x06, 0x16, 0x00, 0x16, 0x81, 0x02, 0x40,
       0x00, 0x1a, 0x4a, 0x05, 0x04, 0x03, 0x02, 0x01],
     Write [0xbd, 0x01], Write [0xe9, 0xc6], Write [0xd2, 0x00, 0x30], Write [0xe9, 0x3f], Write [0xe9, 0xc9],
     Write [0xd3, 0x04], Write [0xe9, 0x3f], Write [0xe9, 0xc6], Write [0xe2, 0x42], Write [0xe9, 0x3f],
     Write [0xbd, 0x00], Write [0xe9, 0xd0], Write [0xb2, 0xf5], Write [0xe9, 0x3f],
     Write [0xcd, 0x81, 0x00, 0x80, 0x77, 0x00, 0x01, 0x00], Write [0xbd, 0x01],
     Write [0xe4, 0xe1, 0xe1, 0xe1, 0xe1, 0xe1, 0xe1, 0xe1, 0xe1, 0xc7, 0xb2, 0xa0, 0x90, 0x81, 0x75, 0x69,
       0x5f, 0x55, 0x4c, 0x44, 0x3d, 0x36, 0x2f, 0x2a, 0x24, 0x1e, 0x19, 0x14, 0x10, 0x09, 0x08, 0x07, 0x54,
       0x55, 0x55, 0x55, 0x55, 0x55, 0x55, 0x55],
     Write [0xbd, 0x03], Write [0xe4, 0xaa, 0xd4, 0xff, 0x2a, 0x55, 0x7f, 0xaa, 0xd4, 0xff, 0xea, 0xff, 0x03],
     Write [0xbd, 0x00], Write [0xe9, 0xc8], Write [0xb1, 0x25], Write [0xe9, 0x3f],
     Write [0xbe, 0x01, 0x35, 0x00], Write [0xd9, 0x5f], Write [0xb9, 0x00, 0x00, 0x00], ExitSleep,
     Msleep 140, DisplayOn, PowerSave 0x01, ControlDisplay 0x24, Msleep 20]"

definition boe_ppc357db1_4_init_seq :: "dcs_cmd list" where
  "boe_ppc357db1_4_init_seq = [
     Write [0xb9, 0x83, 0x12, 0x1a, 0x55, 0x00], ControlDisplay 0x24, Write [0xd1, 0x37, 0x03, 0x0c, 0xfd],
     Write [0xe2, 0x20], Write [0xbd, 0x03], Write [0xe1, 0x00], Write [0xbd, 0x00], Write [0xe9, 0xc7],
     Write [0xb2, 0xa6], Write [0xe9, 0x3f], Write [0xbd, 0x02],
     Write [0xe7, 0x01, 0x07, 0x01, 0x07, 0x01, 0x07, 0x06, 0x06, 0x06, 0x16, 0x00, 0x16, 0x81, 0x02, 0x40,
       0x00, 0x1a, 0x4a, 0x05, 0x04, 0x03, 0x02, 0x01],
     Write [0xe2, 0x02, 0x68, 0x02, 0x68, 0x02, 0x68, 0x02, 0x68, 0x02, 0x6f, 0x03, 0x04, 0x2d, 0x09, 0x09,
       0x00, 0x00, 0x0f, 0x0f, 0x0f, 0x0f, 0x00, 0x00, 0x00, 0x01, 0x10, 0x10, 0x1c, 0x25, 0x3c, 0x00, 0x23,
       0x5d, 0x02, 0x02, 0x00, 0x00, 0x58, 0x01, 0xac, 0x0f, 0xa9, 0x10, 0x00, 0x2d, 0x6f, 0x00, 0x70, 0x00,
       0x0a, 0xcb, 0x01],
     Write [0xbd, 0x01], Write [0xe9, 0xc6], Write [0xd2, 0x09, 0x85], Write [0xe9, 0x3f], Write [0xe9, 0xc9],
     Write [0xd3, 0x04], Write [0xe9, 0x3f], Write [0xbd, 0x00], Write [0xe9, 0xd0], Write [0xb2, 0xf5],
     Write [0xe9, 0x3f], Write [0xbd, 0x01],
     Write [0xe4, 0xe1, 0xe1, 0xe1, 0xe1, 0xe1, 0xe1, 0xe1, 0xe1, 0xc7, 0xb2, 0xa0, 0x90, 0x81, 0x75, 0x69,
       0x5f, 0x55, 0x4c, 0x44, 0x3d, 0x36, 0x2f, 0x2a, 0x24, 0x1e, 0x19, 0x14, 0x10, 0x09, 0x08, 0x07, 0x54,
       0x55, 0x55, 0x55, 0x55, 0x55, 0x55, 0x55],
     Write [0xbd, 0x03], Write [0xe4, 0xaa, 0xd4, 0xff, 0x2a, 0x55, 0x7f, 0xaa, 0xd4, 0xff, 0xea, 0xff, 0x03],
     Write [0xbd, 0x00], Write [0xe9, 0xc8], Write [0xb1, 0x25], Write [0xe9, 0x3f],
     Write [0xbe, 0x01, 0x35, 0x00], Write [0xd9, 0x5f], Write [0xb9, 0x00, 0x00, 0x00], ExitSleep,
     Msleep 140, DisplayOn, PowerSave 0x01, ControlDisplay 0x24, Msleep 31]"

definition csot_ppc357db1_4_dsc_init_seq :: "dcs_cmd list" where
  "csot_ppc357db1_4_dsc_init_seq = [
     Write [0xb9, 0x83, 0x12, 0x1a, 0x55, 0x00], Write [0xbd, 0x00], ControlDisplay 0x24,
     Write [0xb1, 0x1c, 0x6b, 0x6b, 0x27, 0xe7, 0x00, 0x1b, 0x25, 0x21, 0x21, 0x2d, 0x2d, 0x17, 0x33, 0x31,
       0x40, 0xcd, 0xff, 0x1a, 0x05, 0x15, 0x98, 0x00, 0x88, 0x7f, 0xff, 0xff, 0xcf, 0x1a, 0xcc, 0x02, 0x00],
     Write [0xd1, 0x37, 0x03, 0x0c, 0xfd],
     Write [0xb2, 0x00, 0x6a, 0x40, 0x00, 0x00, 0x14, 0x98, 0x60, 0x3c, 0x02, 0x80, 0x21, 0x21, 0x00, 0x00,
       0xf0, 0x27],
     Write [0xe2, 0x00], Write [0xc0, 0x23, 0x23, 0xcc, 0x22, 0x99, 0xd8],
     Write [0xb4, 0x46, 0x06, 0x0c, 0xbe, 0x0c, 0xbe, 0x09, 0x46, 0x0f, 0x57, 0x0f, 0x57, 0x03, 0x4a, 0x00,
       0x00, 0x04, 0x0c, 0x00, 0x18, 0x01, 0x06, 0x08, 0x00, 0x00, 0x00, 0x00, 0x00, 0x00, 0x00, 0x00, 0x00,
       0x00, 0x00, 0xff, 0x00, 0xff, 0x10, 0x00, 0x02, 0x14, 0x14, 0x14, 0x14],
     Write [0xbd, 0x03], Write [0xe1, 0x01, 0x3f], Write [0xbd, 0x00], Write [0xe9, 0xe2], Write [0xe7, 0x49],
     Write [0xe9, 0x3f],
     Write [0xd3, 0x00, 0xc0, 0x08, 0x08, 0x08, 0x04, 0x04, 0x04, 0x16, 0x02, 0x07, 0x07, 0x07, 0x31, 0x13,
       0x19, 0x12, 0x12, 0x03, 0x03, 0x03, 0x32, 0x10, 0x18, 0x00, 0x11, 0x32, 0x10, 0x03, 0x00, 0x03, 0x32,
       0x10, 0x03, 0x00, 0x03, 0x00, 0x00, 0xff, 0x00],
     Write [0xe1, 0x11, 0x00, 0x00, 0x89, 0x30, 0x80, 0x0a, 0x00, 0x03, 0x20, 0x00, 0x14, 0x03, 0x20, 0x03,
       0x20, 0x02, 0x00, 0x02, 0x91, 0x00, 0x20, 0x02, 0x47, 0x00, 0x0b, 0x00, 0x0c, 0x05, 0x0e, 0x03, 0x68,
       0x18, 0x00, 0x10, 0xe0, 0x03, 0x0c, 0x20, 0x00, 0x06, 0x0b, 0x0b, 0x33, 0x0e, 0x1c, 0x2a, 0x38, 0x46,
       0x54, 0x62, 0x69, 0x70, 0x77, 0x79, 0x7b, 0x7d, 0x7e, 0x01, 0x02, 0x01, 0x00, 0x09],
     Write [0xe7, 0x17, 0x08, 0x08, 0x2c, 0x46, 0x1e, 0x02, 0x23, 0x5d, 0x02, 0xc9, 0x00, 0x00, 0x00, 0x00,
       0x12, 0x05, 0x02, 0x02, 0x07, 0x10, 0x10, 0x00, 0x1d, 0xb9, 0x23, 0xb9, 0x00, 0x33, 0x02, 0x88],
     Write [0xbd, 0x01], Write [0xe7, 0x02, 0x00, 0xb2, 0x01, 0x56, 0x07, 0x56, 0x08, 0x48, 0x14, 0xfd, 0x26],
     Write [0xbd, 0x02],
     Write [0xe7, 0x08, 0x08, 0x01, 0x03, 0x01, 0x03, 0x07, 0x02, 0x02, 0x47, 0x00, 0x47, 0x81, 0x02, 0x40,
       0x00, 0x18, 0x4a, 0x06, 0x05, 0x04, 0x03, 0x02, 0x01, 0x00, 0x00, 0x03, 0x02, 0x01, 0x00, 0x00, 0x00,
       0x00, 0x00],
     Write [0xbd, 0x00], Write [0xbf, 0xfd, 0x00, 0x80, 0x9c, 0x36, 0x00, 0x81, 0x0c],
     Write [0xcd, 0x81, 0x00, 0x80, 0x77, 0x00, 0x01, 0x00], Write [0xbd, 0x01],
     Write [0xe4, 0xe1, 0xe1, 0xe1, 0xe1, 0xe1, 0xe1, 0xe1, 0xe1, 0xc7, 0xb2, 0xa0, 0x90, 0x81, 0x75, 0x69,
       0x5f, 0x55, 0x4c, 0x44, 0x3d, 0x36, 0x2f, 0x2a, 0x24, 0x1e, 0x19, 0x14, 0x10, 0x09, 0x08, 0x07, 0x54,
       0x55, 0x55, 0x55, 0x55, 0x55, 0x55, 0x55],
     Write [0xbd, 0x03], Write [0xe4, 0xaa, 0xd4, 0xff, 0x2a, 0x55, 0x7f, 0xaa, 0xd4, 0xff, 0xea, 0xff, 0x03],
     Write [0xbd, 0x00], Write [0xbe, 0x01, 0x35, 0x00], Write [0xd9, 0x5f], Write [0xb9, 0x00, 0x00, 0x00],
     ExitSleep, Msleep 140, DisplayOn, PowerSave 0x01, ControlDisplay 0x24, Msleep 20]"

definition csot_ppc357db1_4_init_seq :: "dcs_cmd list" where
  "csot_ppc357db1_4_init_seq = [
     Write [0xb9, 0x83, 0x12, 0x1a, 0x55, 0x00], ControlDisplay 0x24, Write [0xbd, 0x00],
     Write [0xb1, 0x1c, 0x6b, 0x6b, 0x27, 0xe7, 0x00, 0x1b, 0x11, 0x21, 0x21, 0x2d, 0x2d, 0x17, 0x33, 0x31,
       0x40, 0xcd, 0xff, 0x1a, 0x05, 0x15, 0x98, 0x00, 0x88, 0x7f, 0xff, 0xff, 0xcf, 0x1a, 0xcc, 0x02, 0x00],
     Write [0xd1, 0x37, 0x03, 0x0c, 0xfd], Write [0xe2, 0x20],
     Write [0xb2, 0x00, 0x6a, 0x40, 0x00, 0x00, 0x14, 0x98, 0x60, 0x3c, 0x02, 0x80, 0x21, 0x21, 0x00, 0x00,
       0x10, 0x27],
     Write [0xbd, 0x03], Write [0xe1, 0x00, 0x3f], Write [0xbd, 0x00], Write [0xe9, 0xe2], Write [0xe7, 0x49],
     Write [0xe9, 0x3f],
     Write [0xd3, 0x00, 0xc0, 0x08, 0x08, 0x08, 0x04, 0x04, 0x04, 0x16, 0x02, 0x07, 0x07, 0x07, 0x31, 0x13,
       0x16, 0x12, 0x12, 0x03, 0x03, 0x03, 0x32, 0x10, 0x15, 0x00, 0x11, 0x32, 0x10, 0x03, 0x00, 0x03, 0x32,
       0x10, 0x03, 0x00, 0x03, 0x00, 0x00, 0xff, 0x00],
     Write [0xbd, 0x02],
     Write [0xe2, 0x80, 0x05, 0x1c, 0xbe, 0x09, 0x8d, 0x0f, 0x57, 0x03, 0x87, 0x06, 0x10, 0x32, 0x06, 0x15,
       0x00, 0x00, 0x14, 0x14, 0x14, 0x14, 0x00, 0x00, 0x00, 0x01, 0x10, 0x10, 0x16, 0x28, 0x3c, 0x03, 0x23,
       0x5d, 0x02, 0x02, 0x00, 0x00, 0x48, 0x01, 0xac, 0x0f, 0xab, 0x10, 0x00, 0x32, 0x87, 0x00, 0xa1, 0x00,
       0x0a, 0xcb, 0x00],
     Write [0xbd, 0x01], Write [0xe7, 0x02, 0x00, 0xb2, 0x01, 0x56, 0x07, 0x56, 0x08, 0x48, 0x14, 0x00, 0x26],
     Write [0xbd, 0x02],
     Write [0xe7, 0x05, 0x05, 0x01, 0x05, 0x01, 0x05, 0x04, 0x04, 0x04, 0x24, 0x00, 0x24, 0x81, 0x02, 0x40,
       0x00, 0x32, 0x87, 0x03, 0x02, 0x01, 0x00, 0x00, 0x00, 0x00, 0x00, 0x00, 0x00, 0x00, 0x00, 0x00, 0x00,
       0x00, 0x00],
     Write [0xbd, 0x00], Write [0xe9, 0xd0], Write [0xb2, 0xf0], Write [0xe9, 0x3f],
     Write [0xbf, 0xfd, 0x00, 0x80, 0x9c, 0x10, 0x00, 0x81, 0x0c], Write [0xbd, 0x01],
     Write [0xe4, 0xe1, 0xe1, 0xe1, 0xe1, 0xe1, 0xe1, 0xe1, 0xe1, 0xc7, 0xb2, 0xa0, 0x90, 0x81, 0x75, 0x69,
       0x5f, 0x55, 0x4c, 0x44, 0x3d, 0x36, 0x2f, 0x2a, 0x24, 0x1e, 0x19, 0x14, 0x10, 0x09, 0x08, 0x07, 0x54,
       0x55, 0x55, 0x55, 0x55, 0x55, 0x55, 0x55],
     Write [0xbd, 0x03], Write [0xe4, 0xaa, 0xd4, 0xff, 0x2a, 0x55, 0x7f, 0xaa, 0xd4, 0xff, 0xea, 0xff, 0x03],
     Write [0xbd, 0x00], Write [0xe9, 0xc8], Write [0xb1, 0x25], Write [0xe9, 0x3f],
     Write [0xbe, 0x01, 0x35, 0x00], Write [0xd9, 0x5f], Write [0xb9, 0x00, 0x00, 0x00], ExitSleep,
     Msleep 140, DisplayOn, PowerSave 0x01, ControlDisplay 0x24, Msleep 31]"


section \<open>Modes and panels\<close>

record display_mode =
  clock :: int
  hdisplay :: int
  hsync_start :: int
  hsync_end :: int
  htotal :: int
  vdisplay :: int
  vsync_start :: int
  vsync_end :: int
  vtotal :: int

record dsc_config =
  dsc_version :: "int \<times> int"
  slice_height :: int
  slice_width :: int
  slice_count :: int
  bits_per_component :: int
  bits_per_pixel :: int
  block_pred_enable :: bool

datatype pixel_format = RGB888 | RGB666 | RGB666_PACKED | RGB565

datatype mode_flag =
    MODE_VIDEO | VIDEO_BURST | VIDEO_SYNC_PULSE | VIDEO_HSE | VIDEO_NO_HFP | VIDEO_NO_HBP | VIDEO_NO_HSA
  | NO_EOT_PACKET | CLOCK_NON_CONTINUOUS | MODE_LPM

record panel_desc =
  width_mm :: int
  height_mm :: int
  bpc :: int
  lanes :: int
  format :: pixel_format
  mode_flags :: "mode_flag list"
  dsc_cfg :: dsc_config
  dsc_modes :: "display_mode list"
  modes :: "display_mode list"
  init_sequence_dsc :: "dcs_cmd list option"
  init_sequence :: "dcs_cmd list option"
  is_dual_dsi :: bool
  has_dcs_backlight :: bool

definition ppc357db1_4_dsc_cfg :: dsc_config where
  "ppc357db1_4_dsc_cfg = \<lparr>dsc_version = (1, 1), slice_height = 20, slice_width = 800, slice_count = 1,
     bits_per_component = 8, bits_per_pixel = 8 * 16, block_pred_enable = True\<rparr>"

definition ppc357db1_4_dsc_modes :: "display_mode list" where
  "ppc357db1_4_dsc_modes = [
     \<lparr>clock = (800 + 60 + 40 + 40) * 2 * (2560 + 154 + 4 + 18) * 120 div 1000,
      hdisplay = 800 * 2, hsync_start = (800 + 60) * 2, hsync_end = (800 + 60 + 40) * 2, htotal = (800 + 60 + 40 + 40) * 2,
      vdisplay = 2560, vsync_start = 2560 + 154, vsync_end = 2560 + 154 + 4, vtotal = 2560 + 154 + 4 + 18\<rparr>,
     \<lparr>clock = (800 + 60 + 40 + 40) * 2 * (2560 + 2890 + 4 + 18) * 60 div 1000,
      hdisplay = 800 * 2, hsync_start = (800 + 60) * 2, hsync_end = (800 + 60 + 40) * 2, htotal = (800 + 60 + 40 + 40) * 2,
      vdisplay = 2560, vsync_start = 2560 + 2890, vsync_end = 2560 + 2890 + 4, vtotal = 2560 + 2890 + 4 + 18\<rparr>]"

definition ppc357db1_4_modes :: "display_mode list" where
  "ppc357db1_4_modes = [
     \<lparr>clock = (800 + 60 + 20 + 40) * 2 * (2560 + 154 + 4 + 18) * 60 div 1000,
      hdisplay = 800 * 2, hsync_start = (800 + 60) * 2, hsync_end = (800 + 60 + 20) * 2, htotal = (800 + 60 + 20 + 40) * 2,
      vdisplay = 2560, vsync_start = 2560 + 168, vsync_end = 2560 + 168 + 4, vtotal = 2560 + 168 + 4 + 18\<rparr>]"

text \<open>The bits per component are left out of both initialisers, hence zero.\<close>

definition boe_ppc357db1_4_desc :: panel_desc where
  "boe_ppc357db1_4_desc = \<lparr>width_mm = 266, height_mm = 166, bpc = 0, lanes = 4, format = RGB888,
     mode_flags = [MODE_VIDEO, CLOCK_NON_CONTINUOUS, MODE_LPM], dsc_cfg = ppc357db1_4_dsc_cfg,
     dsc_modes = ppc357db1_4_dsc_modes, modes = ppc357db1_4_modes,
     init_sequence_dsc = Some boe_ppc357db1_4_dsc_init_seq, init_sequence = Some boe_ppc357db1_4_init_seq,
     is_dual_dsi = True, has_dcs_backlight = True\<rparr>"

definition csot_ppc357db1_4_desc :: panel_desc where
  "csot_ppc357db1_4_desc = \<lparr>width_mm = 266, height_mm = 166, bpc = 0, lanes = 4, format = RGB888,
     mode_flags = [MODE_VIDEO, CLOCK_NON_CONTINUOUS, MODE_LPM], dsc_cfg = ppc357db1_4_dsc_cfg,
     dsc_modes = ppc357db1_4_dsc_modes, modes = ppc357db1_4_modes,
     init_sequence_dsc = Some csot_ppc357db1_4_dsc_init_seq, init_sequence = Some csot_ppc357db1_4_init_seq,
     is_dual_dsi = True, has_dcs_backlight = True\<rparr>"

section \<open>Power sequencing\<close>

record 'w panel_env =
  dsi_multi :: "dcs_cmd \<Rightarrow> 'w \<times> int \<Rightarrow> 'w \<times> int"
  bulk_enable :: "'w \<Rightarrow> int"
  backlight_enable :: "'w \<Rightarrow> int"
  set_brightness :: "int \<Rightarrow> 'w \<Rightarrow> 'w \<times> int"

text \<open>How often the supplies have been enabled and not disabled, and the values driven on the reset line.\<close>

record himax =
  supplies_on :: int
  reset_line :: "bool list"

definition in_reset :: "himax \<Rightarrow> bool" where
  "in_reset ctx \<longleftrightarrow> last (reset_line ctx)"

definition fresh_himax :: himax where
  "fresh_himax = \<lparr>supplies_on = 0, reset_line = [True]\<rparr>"

definition EOPNOTSUPP :: int where "EOPNOTSUPP = 95"

definition himax_reset :: "himax \<Rightarrow> himax" where
  "himax_reset ctx = ctx\<lparr>reset_line := reset_line ctx @ [True, False]\<rparr>"

definition power_off :: "himax \<Rightarrow> himax" where
  "power_off ctx = ctx\<lparr>reset_line := reset_line ctx @ [True], supplies_on := supplies_on ctx - 1\<rparr>"

definition init_choice :: "panel_desc \<Rightarrow> bool \<Rightarrow> dcs_cmd list option" where
  "init_choice desc enable_dsc =
     (if enable_dsc \<and> init_sequence_dsc desc \<noteq> None then init_sequence_dsc desc else init_sequence desc)"

definition himax_prepare ::
  "'w panel_env \<Rightarrow> panel_desc \<Rightarrow> bool \<Rightarrow> himax \<times> 'w \<Rightarrow> (himax \<times> 'w) \<times> int" where
  "himax_prepare env desc enable_dsc = (\<lambda>(ctx, w).
     let ret = bulk_enable env w in
     if ret < 0 then ((ctx, w), ret)
     else
       let ctx = himax_reset (ctx\<lparr>supplies_on := supplies_on ctx + 1\<rparr>);
           (w, ret) = (case init_choice desc enable_dsc of
               Some cmds \<Rightarrow> fold (dsi_multi env) cmds (w, 0) | None \<Rightarrow> (w, - EOPNOTSUPP)) in
       if ret < 0 then ((power_off ctx, w), ret)
       else
         let (w, err) = (if enable_dsc then fold (dsi_multi env) [PictureParams, Compression True] (w, ret) else (w, ret)) in
         ((ctx, w), backlight_enable env w))"

definition himax_off :: "'w panel_env \<Rightarrow> 'w \<Rightarrow> 'w \<times> int" where
  "himax_off env w = fold (dsi_multi env) [EnterSleep, Msleep 120] (w, 0)"

definition himax_unprepare :: "'w panel_env \<Rightarrow> himax \<times> 'w \<Rightarrow> (himax \<times> 'w) \<times> int" where
  "himax_unprepare env = (\<lambda>(ctx, w). let (w, ret) = himax_off env w in ((power_off ctx, w), 0))"

section \<open>Modes, backlight, probing\<close>

fun add_modes :: "(nat \<Rightarrow> bool) \<Rightarrow> nat \<Rightarrow> display_mode list \<Rightarrow> (display_mode \<times> bool) list \<times> bool" where
  "add_modes duplicated i [] = ([], True)"
| "add_modes duplicated i (m # ms) =
     (if \<not> duplicated i then ([], False)
      else let (added, ok) = add_modes duplicated (Suc i) ms in ((m, i = 0) # added, ok))"

text \<open>The modes added with their preferred flag, the display size, and the result.\<close>

definition himax_get_modes ::
  "(nat \<Rightarrow> bool) \<Rightarrow> panel_desc \<Rightarrow> bool \<Rightarrow> (display_mode \<times> bool) list \<times> (int \<times> int \<times> int) option \<times> int" where
  "himax_get_modes duplicated desc enable_dsc =
     (let ms = (if enable_dsc then dsc_modes desc else modes desc);
          (added, ok) = add_modes duplicated 0 ms in
      if \<not> ok then (added, None, - ENOMEM)
      else (added, Some (width_mm desc, height_mm desc, bpc desc), int (length ms)))"

definition himax_bl_update_status :: "'w panel_env \<Rightarrow> int \<Rightarrow> 'w \<Rightarrow> 'w \<times> int" where
  "himax_bl_update_status env brightness w = set_brightness env (u16 brightness) w"

text \<open>Type raw, brightness 512, at most 4095.\<close>

definition himax_backlight_props :: "int \<times> int" where
  "himax_backlight_props = (512, 4095)"

definition to_primary_dsi :: "panel_desc \<Rightarrow> nat" where
  "to_primary_dsi desc = (if is_dual_dsi desc then 1 else 0)"

record panel_calls =
  panel_alloc :: bool
  supplies_get_ret :: int
  reset_get_ret :: int
  match :: "panel_desc option"
  secondary_node :: bool
  secondary_host :: bool
  secondary_ret :: int
  backlight_ret :: int
  attach_ret :: "nat \<Rightarrow> int"

record dsi_config =
  dsi_lanes :: int
  dsi_format :: pixel_format
  dsi_flags :: "mode_flag list"
  dsi_dsc :: "dsc_config option"

definition EPROBE_DEFER :: int where "EPROBE_DEFER = 517"

definition dsi_config_of :: "panel_desc \<Rightarrow> bool \<Rightarrow> dsi_config" where
  "dsi_config_of desc enable_dsc = \<lparr>dsi_lanes = lanes desc, dsi_format = format desc, dsi_flags = mode_flags desc,
     dsi_dsc = (if enable_dsc then Some (dsc_cfg desc) else None)\<rparr>"

text \<open>The links configured and attached, until one fails.\<close>

fun attach_links :: "(nat \<Rightarrow> int) \<Rightarrow> dsi_config \<Rightarrow> nat list \<Rightarrow> (nat \<times> dsi_config) list \<times> int" where
  "attach_links attach cfg [] = ([], 0)"
| "attach_links attach cfg (i # is) =
     (if attach i < 0 then ([], attach i)
      else let (links, ret) = attach_links attach cfg is in ((i, cfg) # links, ret))"

text \<open>The result, whether the panel is registered at the end, and the attached links.\<close>

definition himax_probe :: "panel_calls \<Rightarrow> bool \<Rightarrow> int \<times> bool \<times> (nat \<times> dsi_config) list" where
  "himax_probe k enable_dsc =
     (if \<not> panel_alloc k then (- ENOMEM, False, [])
      else if supplies_get_ret k < 0 then (supplies_get_ret k, False, [])
      else if reset_get_ret k \<noteq> 0 then (reset_get_ret k, False, [])
      else case match k of None \<Rightarrow> (- ENODEV, False, [])
      | Some desc \<Rightarrow>
          if is_dual_dsi desc \<and> \<not> secondary_node k then (- ENODEV, False, [])
          else if is_dual_dsi desc \<and> \<not> secondary_host k then (- EPROBE_DEFER, False, [])
          else if is_dual_dsi desc \<and> secondary_ret k \<noteq> 0 then (secondary_ret k, False, [])
          else if backlight_ret k \<noteq> 0 then (backlight_ret k, False, [])
          else
            let (links, ret) = attach_links (attach_ret k) (dsi_config_of desc enable_dsc)
                  (if is_dual_dsi desc then [0, 1] else [0]) in
            if ret < 0 then (ret, False, links) else (0, True, links))"

text \<open>Removal unregisters the panel.\<close>

definition himax_remove :: "bool \<Rightarrow> bool" where
  "himax_remove panel_added = False"

section \<open>The sequences keep the command protocol\<close>

text \<open>
  What the sequences themselves assume of the controller: manufacturer registers (from \<open>0xB0\<close>) are
  written only between the unlocking and the locking \<open>0xB9\<close>; \<open>0xBD\<close> selects a bank and \<open>0xE9\<close> an offset
  (\<open>0x3F\<close> is none); the sleep-out command comes after locking, and the display is switched on at least 120 ms
  after it.  \<open>None\<close> is a violation.  \<open>mode_reg\<close> is the last value of \<open>0xE2\<close> in bank 0 without offset.
\<close>

record ctl =
  unlocked :: bool
  bank :: byte
  offset :: byte
  awake :: bool
  waited :: nat
  shown :: bool
  mode_reg :: "byte option"

definition ctl_reset :: ctl where
  "ctl_reset = \<lparr>unlocked = False, bank = 0, offset = 0x3f, awake = False, waited = 0, shown = False, mode_reg = None\<rparr>"

fun ctl_step :: "dcs_cmd \<Rightarrow> ctl \<Rightarrow> ctl option" where
  "ctl_step (Write []) c = None"
| "ctl_step (Write (r # args)) c =
     (if r = 0xb9 then Some (c\<lparr>unlocked := take 3 args = [0x83, 0x12, 0x1a]\<rparr>)
      else if 0xb0 \<le> r \<and> \<not> unlocked c then None
      else case args of [] \<Rightarrow> None
        | a # as \<Rightarrow> Some (if r = 0xbd then c\<lparr>bank := a\<rparr> else if r = 0xe9 then c\<lparr>offset := a\<rparr>
            else if r = 0xe2 \<and> bank c = 0 \<and> offset c = 0x3f then c\<lparr>mode_reg := Some a\<rparr> else c))"
| "ctl_step ExitSleep c = (if unlocked c then None else Some (c\<lparr>awake := True, waited := 0\<rparr>))"
| "ctl_step EnterSleep c = Some (c\<lparr>awake := False, shown := False\<rparr>)"
| "ctl_step (Msleep n) c = Some (c\<lparr>waited := waited c + n\<rparr>)"
| "ctl_step DisplayOn c = (if awake c \<and> 120 \<le> waited c then Some (c\<lparr>shown := True\<rparr>) else None)"
| "ctl_step cmd c = Some c"

fun ctl_run :: "dcs_cmd list \<Rightarrow> ctl \<Rightarrow> ctl option" where
  "ctl_run [] c = Some c"
| "ctl_run (cmd # cmds) c = (case ctl_step cmd c of None \<Rightarrow> None | Some c \<Rightarrow> ctl_run cmds c)"

definition ready :: "bool \<Rightarrow> ctl \<Rightarrow> bool" where
  "ready dsc c \<longleftrightarrow> \<not> unlocked c \<and> bank c = 0 \<and> offset c = 0x3f \<and> awake c \<and> shown c
     \<and> mode_reg c = Some (if dsc then 0x00 else 0x20)"

definition makes_ready :: "bool \<Rightarrow> dcs_cmd list \<Rightarrow> bool" where
  "makes_ready dsc cmds \<longleftrightarrow> (case ctl_run cmds ctl_reset of None \<Rightarrow> False | Some c \<Rightarrow> ready dsc c)"

lemma sequences_make_ready:
  "makes_ready True boe_ppc357db1_4_dsc_init_seq" "makes_ready False boe_ppc357db1_4_init_seq"
  "makes_ready True csot_ppc357db1_4_dsc_init_seq" "makes_ready False csot_ppc357db1_4_init_seq"
  by code_simp+

lemma ctl_run_append: "ctl_run (xs @ ys) c = (case ctl_run xs c of None \<Rightarrow> None | Some c \<Rightarrow> ctl_run ys c)"
  by (induction xs arbitrary: c) (auto split: option.split)

text \<open>A link that logs what it has transferred and stops at the first error, as the helpers with an
  accumulated error do.\<close>

definition logging :: "(dcs_cmd list \<Rightarrow> dcs_cmd \<Rightarrow> int) \<Rightarrow> dcs_cmd \<Rightarrow> dcs_cmd list \<times> int \<Rightarrow> dcs_cmd list \<times> int" where
  "logging fails c = (\<lambda>(l, err). if err \<noteq> 0 then (l, err) else if fails l c \<noteq> 0 then (l, fails l c) else (l @ [c], 0))"

lemma logging_app:
  "logging fails c (l, err) = (if err \<noteq> 0 then (l, err) else if fails l c \<noteq> 0 then (l, fails l c) else (l @ [c], 0))"
  by (simp add: logging_def)

lemma logging_stuck: "err \<noteq> 0 \<Longrightarrow> fold (logging fails) cmds (l, err) = (l, err)"
  by (induction cmds) (simp_all add: logging_app)

lemma logging_all: "fold (logging fails) cmds (l, 0) = (l', 0) \<Longrightarrow> l' = l @ cmds"
proof (induction cmds arbitrary: l)
  case (Cons c cmds)
  then show ?case using logging_stuck [of "fails l c" fails cmds l] Cons.IH [of "l @ [c]"] by (cases "fails l c = 0") (auto simp: logging_app)
qed simp

lemma logging_prefix: "\<exists>k. fst (fold (logging fails) cmds (l, 0)) = l @ take k cmds"
proof (induction cmds arbitrary: l)
  case (Cons c cmds)
  show ?case
  proof (cases "fails l c = 0")
    case True
    obtain k where "fst (fold (logging fails) cmds (l @ [c], 0)) = (l @ [c]) @ take k cmds" using Cons.IH by blast
    then show ?thesis using True by (intro exI [of _ "Suc k"]) (simp add: logging_app)
  next
    case False
    then show ?thesis by (intro exI [of _ 0]) (simp add: logging_app logging_stuck)
  qed
qed simp

lemma logging_errors:
  assumes "\<And>l c. fails l c \<le> 0" "e \<le> 0"
  shows "snd (fold (logging fails) cmds (l, e)) \<le> 0"
  using assms(2) by (induction cmds arbitrary: l e) (auto simp: logging_app assms(1))

definition known_panel :: "panel_desc \<Rightarrow> bool" where
  "known_panel desc \<longleftrightarrow> desc = boe_ppc357db1_4_desc \<or> desc = csot_ppc357db1_4_desc"

lemma known_sequences:
  assumes "known_panel desc"
  shows "\<exists>cmds. init_choice desc dsc = Some cmds \<and> makes_ready dsc cmds"
  using assms sequences_make_ready
  by (cases dsc) (auto simp: known_panel_def boe_ppc357db1_4_desc_def csot_ppc357db1_4_desc_def init_choice_def)

lemma compression_keeps_ready:
  assumes "makes_ready dsc cmds" "l = cmds @ take k [PictureParams, Compression True]"
  shows "\<exists>c. ctl_run l ctl_reset = Some c \<and> ready dsc c"
proof -
  obtain c where "ctl_run cmds ctl_reset = Some c" "ready dsc c"
    using assms(1) by (auto simp: makes_ready_def split: option.splits)
  then show ?thesis
    unfolding assms(2) ctl_run_append by (cases k; cases "k - 1") (auto simp: take_Cons' split: if_splits)
qed

text \<open>C11: A panel whose preparation succeeds has been powered, taken out of reset and completely initialised:
  for both known panels, with and without compression, and whatever transfers fail, the whole sequence
  has reached the controller in order; it follows the command protocol and leaves the controller
  locked, in bank 0 without offset, awake, switched on and in the display mode that goes with the
  compression; only the compression set-up after it may have been cut short.\<close>

theorem prepared_panel_is_ready:
  assumes "dsi_multi env = logging fails" "\<And>l c. fails l c \<le> 0" "known_panel desc"
    "himax_prepare env desc dsc (ctx, []) = ((ctx', l), ret)" "0 \<le> ret"
  shows "\<exists>cmds k c. init_choice desc dsc = Some cmds \<and> l = cmds @ take k [PictureParams, Compression True]
    \<and> ctl_run l ctl_reset = Some c \<and> ready dsc c \<and> supplies_on ctx' = supplies_on ctx + 1 \<and> \<not> in_reset ctx'"
proof -
  obtain cmds where cmds: "init_choice desc dsc = Some cmds" "makes_ready dsc cmds"
    using known_sequences [OF assms(3)] by blast
  obtain l1 e1 where f: "fold (logging fails) cmds ([], 0) = (l1, e1)" by fastforce
  have "e1 \<le> 0" using logging_errors [of fails 0 cmds "[]"] assms(2) f by simp
  moreover have "0 \<le> bulk_enable env []" "0 \<le> e1"
    using assms(1,4,5) cmds(1) f by (auto simp: himax_prepare_def Let_def split: if_splits)
  ultimately have ok: "\<not> bulk_enable env [] < 0" "e1 = 0" by simp_all
  have l1: "l1 = cmds" using logging_all f ok(2) by fastforce
  obtain k where k: "fst (fold (logging fails) [PictureParams, Compression True] (cmds, 0))
      = cmds @ take k [PictureParams, Compression True]"
    using logging_prefix by blast
  have done': "ctx' = himax_reset (ctx\<lparr>supplies_on := supplies_on ctx + 1\<rparr>)"
    "l = (if dsc then fst (fold (logging fails) [PictureParams, Compression True] (cmds, 0)) else cmds)"
    using assms(1,4) cmds(1) f ok l1 by (auto simp: himax_prepare_def Let_def split: prod.splits)
  define k' where "k' = (if dsc then k else 0)"
  have l: "l = cmds @ take k' [PictureParams, Compression True]" using done'(2) k by (simp add: k'_def)
  then show ?thesis
    using compression_keeps_ready [OF cmds(2) l] cmds(1) done'(1)
    by (intro exI [of _ cmds] exI [of _ k']) (auto simp: himax_reset_def in_reset_def)
qed

text \<open>A link without errors.\<close>

definition good_panel :: "dcs_cmd list panel_env" where
  "good_panel = \<lparr>dsi_multi = logging (\<lambda>_ _. 0), bulk_enable = \<lambda>_. 0, backlight_enable = \<lambda>_. 0, set_brightness = \<lambda>_ w. (w, 0)\<rparr>"

lemma logging_good: "fold (logging (\<lambda>_ _. 0)) cmds (l, 0) = (l @ cmds, 0)"
  by (induction cmds arbitrary: l) (simp_all add: logging_app)

theorem prepared_panel_is_ready_witness:
  "\<exists>ctx' l. himax_prepare good_panel boe_ppc357db1_4_desc True (fresh_himax, []) = ((ctx', l), 0)
    \<and> supplies_on ctx' = 1 \<and> (\<exists>c. ctl_run l ctl_reset = Some c \<and> shown c)"
proof -
  obtain ctx' l where p: "himax_prepare good_panel boe_ppc357db1_4_desc True (fresh_himax, []) = ((ctx', l), 0)"
    by (simp add: himax_prepare_def good_panel_def boe_ppc357db1_4_desc_def init_choice_def logging_good logging_app)
  have "known_panel boe_ppc357db1_4_desc" by (simp add: known_panel_def)
  then show ?thesis
    using prepared_panel_is_ready [of good_panel "\<lambda>_ _. 0", OF _ _ _ p] p
    by (auto simp: good_panel_def fresh_himax_def ready_def)
qed

text \<open>A panel whose compression parameters could not be sent is still reported as prepared: the error of
  that transfer is dropped, and the compression mode is not switched on either.\<close>

theorem lost_compression_parameters_unnoticed:
  assumes "dsi_multi env = logging fails" "known_panel desc" "init_choice desc True = Some cmds"
    "\<And>l c. fails l c = (if c = PictureParams then - ETIMEDOUT else 0)" "bulk_enable env [] = 0"
  shows "snd (himax_prepare env desc True (ctx, [])) = backlight_enable env cmds
    \<and> snd (fst (himax_prepare env desc True (ctx, []))) = cmds"
proof -
  have no: "PictureParams \<notin> set cmds"
    using assms(2,3)
    by (auto simp: known_panel_def boe_ppc357db1_4_desc_def csot_ppc357db1_4_desc_def init_choice_def
        boe_ppc357db1_4_dsc_init_seq_def csot_ppc357db1_4_dsc_init_seq_def)
  have "PictureParams \<notin> set cs \<Longrightarrow> fold (logging fails) cs (l, 0) = (l @ cs, 0)" for cs l
    by (induction cs arbitrary: l) (auto simp: logging_app assms(4))
  then show ?thesis
    using assms(1,3,5) no by (simp add: himax_prepare_def logging_app assms(4) ETIMEDOUT_def)
qed

theorem lost_compression_parameters_unnoticed_witness:
  "\<exists>fails. snd (himax_prepare (good_panel\<lparr>dsi_multi := logging fails\<rparr>) csot_ppc357db1_4_desc True (fresh_himax, [])) = 0
    \<and> snd (fst (himax_prepare (good_panel\<lparr>dsi_multi := logging fails\<rparr>) csot_ppc357db1_4_desc True (fresh_himax, [])))
      = csot_ppc357db1_4_dsc_init_seq"
proof -
  let ?f = "\<lambda>(l :: dcs_cmd list) c. if c = PictureParams then - ETIMEDOUT else 0"
  show ?thesis
    using lost_compression_parameters_unnoticed [of "good_panel\<lparr>dsi_multi := logging ?f\<rparr>" ?f csot_ppc357db1_4_desc
        csot_ppc357db1_4_dsc_init_seq fresh_himax]
    by (intro exI [of _ ?f]) (simp add: known_panel_def init_choice_def csot_ppc357db1_4_desc_def good_panel_def)
qed

section \<open>The supplies\<close>

text \<open>The DRM core prepares a panel that is not prepared and unprepares one that is; a preparation counts
  when its result is not negative.\<close>

inductive panel_step ::
  "'w panel_env \<Rightarrow> panel_desc \<Rightarrow> bool \<Rightarrow> (himax \<times> bool) \<times> 'w \<Rightarrow> (himax \<times> bool) \<times> 'w \<Rightarrow> bool" for env desc dsc where
  prepare: "himax_prepare env desc dsc (ctx, w) = ((ctx', w'), ret) \<Longrightarrow>
    panel_step env desc dsc ((ctx, False), w) ((ctx', 0 \<le> ret), w')"
| unprepare: "himax_unprepare env (ctx, w) = ((ctx', w'), ret) \<Longrightarrow>
    panel_step env desc dsc ((ctx, True), w) ((ctx', False), w')"

inductive_cases panel_step_cases: "panel_step env desc dsc s t"

definition panel_inv :: "(himax \<times> bool) \<times> 'w \<Rightarrow> bool" where
  "panel_inv = (\<lambda>((ctx, prepared), w). supplies_on ctx = of_bool prepared \<and> in_reset ctx = (\<not> prepared))"

definition backlight_works :: "'w panel_env \<Rightarrow> bool" where
  "backlight_works env \<longleftrightarrow> (\<forall>w. 0 \<le> backlight_enable env w)"

lemma prepare_power:
  assumes "himax_prepare env desc dsc (ctx, w) = ((ctx', w'), ret)" "backlight_works env" "supplies_on ctx = 0" "in_reset ctx"
  shows "supplies_on ctx' = of_bool (0 \<le> ret)" "in_reset ctx' = (\<not> 0 \<le> ret)"
  using assms
  by (auto simp: himax_prepare_def himax_reset_def power_off_def in_reset_def backlight_works_def Let_def
      split: if_splits prod.splits option.splits)

lemma panel_step_inv: "panel_step env desc dsc s t \<Longrightarrow> backlight_works env \<Longrightarrow> panel_inv s \<Longrightarrow> panel_inv t"
proof (induction rule: panel_step.induct)
  case (prepare ctx w ctx' w' ret)
  then show ?case using prepare_power [OF prepare(1)] by (simp add: panel_inv_def)
next
  case (unprepare ctx w ctx' w' ret)
  then show ?case by (auto simp: panel_inv_def himax_unprepare_def power_off_def in_reset_def split: prod.splits)
qed

abbreviation panel_start :: "(himax \<times> bool) \<times> 'w \<Rightarrow> bool" where
  "panel_start s \<equiv> fst s = (fresh_himax, False)"

interpretation panel: invariant_system panel_start "panel_step env desc dsc" "\<lambda>s. backlight_works env \<longrightarrow> panel_inv s"
  for env desc dsc
proof unfold_locales
  show "backlight_works env \<longrightarrow> panel_inv s" if "panel_start s" for s :: "(himax \<times> bool) \<times> 'a"
    using that by (cases s) (simp add: panel_inv_def fresh_himax_def in_reset_def)
qed (use panel_step_inv in blast)

text \<open>C24: The supplies are balanced: as long as switching on the backlight does not fail, over all
  preparations, failed preparations and their undoing, the supplies are enabled exactly once while the panel
  is prepared and not at all otherwise, and the panel is in reset exactly when it is not prepared.\<close>

theorem panel_power_balanced:
  assumes "reachable panel_start (panel_step env desc dsc) ((ctx, prepared), w)" "backlight_works env"
  shows "supplies_on ctx = of_bool prepared \<and> in_reset ctx = (\<not> prepared)"
  using panel.reachable_inv [OF assms(1)] assms(2) by (simp add: panel_inv_def)

theorem panel_power_balanced_witness:
  "\<exists>ctx l. reachable panel_start (panel_step good_panel boe_ppc357db1_4_desc False) ((ctx, True), l) \<and> supplies_on ctx = 1"
proof -
  obtain ctx' l where p: "himax_prepare good_panel boe_ppc357db1_4_desc False (fresh_himax, []) = ((ctx', l), 0)"
    by (simp add: himax_prepare_def good_panel_def boe_ppc357db1_4_desc_def init_choice_def logging_good)
  have "reachable panel_start (panel_step good_panel boe_ppc357db1_4_desc False) ((fresh_himax, False), [])"
    by (rule reachable.init) simp
  then have r: "reachable panel_start (panel_step good_panel boe_ppc357db1_4_desc False) ((ctx', True), l)"
    using panel_step.prepare [OF p] by (auto intro: reachable.more)
  then show ?thesis using panel_power_balanced [OF r] by (auto simp: backlight_works_def good_panel_def)
qed

text \<open>A failing backlight leaks the supplies: when everything but switching on the backlight works, the
  preparation reports the failure but leaves the supplies enabled and the panel out of reset, although a
  panel that is not prepared is never unprepared.\<close>

theorem failed_backlight_leaves_power:
  assumes "bulk_enable env w = 0" "init_choice desc dsc = Some cmds" "snd (fold (dsi_multi env) cmds (w, 0)) = 0"
    "\<And>w. backlight_enable env w = e" "e < 0"
  shows "snd (himax_prepare env desc dsc (ctx, w)) < 0
    \<and> supplies_on (fst (fst (himax_prepare env desc dsc (ctx, w)))) = supplies_on ctx + 1
    \<and> \<not> in_reset (fst (fst (himax_prepare env desc dsc (ctx, w))))"
  using assms by (auto simp: himax_prepare_def himax_reset_def in_reset_def Let_def split: prod.split)

theorem failed_backlight_leaves_power_witness:
  "supplies_on (fst (fst (himax_prepare (good_panel\<lparr>backlight_enable := \<lambda>_. -5\<rparr>) boe_ppc357db1_4_desc False (fresh_himax, [])))) = 1"
  using failed_backlight_leaves_power [of "good_panel\<lparr>backlight_enable := \<lambda>_. -5\<rparr>" "[]" boe_ppc357db1_4_desc False
      boe_ppc357db1_4_init_seq "-5" fresh_himax]
  by (simp add: good_panel_def init_choice_def boe_ppc357db1_4_desc_def logging_good fresh_himax_def)

section \<open>Modes\<close>

definition refresh_rate :: "display_mode \<Rightarrow> int" where
  "refresh_rate m = (clock m * 1000 + htotal m * vtotal m div 2) div (htotal m * vtotal m)"

definition well_timed :: "display_mode \<Rightarrow> bool" where
  "well_timed m \<longleftrightarrow> 0 < hdisplay m \<and> hdisplay m < hsync_start m \<and> hsync_start m < hsync_end m \<and> hsync_end m < htotal m
     \<and> 0 < vdisplay m \<and> vdisplay m < vsync_start m \<and> vsync_start m < vsync_end m \<and> vsync_end m < vtotal m
     \<and> clock m < 2 ^ 31"

text \<open>The mode tables are consistent: every mode's blanking is in order and its clock fits its type; the two
  compressed modes run at 120 and 60 Hz with the same clock, the uncompressed one at 60 Hz; and the
  compression slices of the two links tile the picture exactly.\<close>

theorem modes_consistent:
  "list_all well_timed (ppc357db1_4_dsc_modes @ ppc357db1_4_modes)
   \<and> map refresh_rate ppc357db1_4_dsc_modes = [120, 60] \<and> map refresh_rate ppc357db1_4_modes = [60]
   \<and> list_all (\<lambda>m. clock m = clock (hd ppc357db1_4_dsc_modes)
       \<and> 2 * slice_width ppc357db1_4_dsc_cfg * slice_count ppc357db1_4_dsc_cfg = hdisplay m
       \<and> vdisplay m mod slice_height ppc357db1_4_dsc_cfg = 0) ppc357db1_4_dsc_modes"
  by code_simp

text \<open>The clock of the uncompressed mode is computed for a front porch of 154 lines, but the mode has 168: it
  runs about half a percent below the 60 Hz the other modes meet exactly.\<close>

lemma uncompressed_clock:
  "map (\<lambda>m. clock m = htotal m * vtotal m * refresh_rate m div 1000) (ppc357db1_4_dsc_modes @ ppc357db1_4_modes)
    = [True, True, False]"
  by code_simp

text \<open>Probing leaves the panel registered exactly when it succeeds.\<close>

lemma attach_links_ret: "snd (attach_links attach cfg is) \<le> 0"
  by (induction "is") (auto split: prod.split)

lemma probe_registers: "fst (himax_probe k dsc) = 0 \<longleftrightarrow> fst (snd (himax_probe k dsc))"
  using attach_links_ret [of "attach_ret k"]
  by (auto simp: himax_probe_def errno_defs EPROBE_DEFER_def split: option.split prod.split)

end
