(* ===== verification/Dsi_State.thy ===== *)
theory Dsi_State
  imports Panel_Himax
begin

text \<open>
  The DSI host driver (\<open>dsi_host.c\<close>): its state, register access, the link clocks and the references it
  holds.  The file is part of the kernel's MSM display driver with a local change; the headers that
  name registers and fields are not in the repository.  A register and a field macro are therefore named
  by the string of their C name: reading and writing a register, the bits of a field and its value are parameters
  (\<open>rd\<close>, \<open>rdbk\<close> for the read-back registers, \<open>wr\<close>, \<open>fld\<close>, \<open>fget\<close>), and so are the kernel's services (\<open>kcall\<close>), its
  DSC and MIPI libraries (\<open>dsi_lib\<close>) and what an uninitialised stack array holds (\<open>uninit\<close>).  A transfer
  carries the bytes the controller fetches by DMA.  The
  references to clocks, runtime power management and regulators that the driver has taken and not given
  back are counted in the field \<open>held\<close>.
\<close>

unbundle bit_operations_syntax

section \<open>The environment\<close>

datatype dsi_clk = ESC_CLK | BYTE_CLK | PIXEL_CLK | BYTE_INTF_CLK | SRC_CLK

datatype kcall =
    OppSetRate int | ClkSetRate dsi_clk int | ClkSetParent dsi_clk | ClkEnable dsi_clk | RegulatorEnable
  | PinctrlDefault | PinctrlSleep | SfpbPort bool | PhyContinuousClock
  | TxBufAlloc nat | TxBufGet | DmaBaseGet | TriggerXfer int "byte list" | ReinitVideo | ReinitDma | WaitVideoDone | WaitDmaDone
  | HostRegister | HostUnregister | DevAttach | DevDetach | CmdXfer | CompleteVideo | CompleteDma | IfaceEnable | BusClocksEnable
  | Acquire string

record drm_dsc = dsc_config +
  pic_width :: int
  pic_height :: int
  simple_422 :: bool
  convert_rgb :: bool
  vbr_enable :: bool
  initial_scale_value :: int
  line_buf_depth :: int
  slice_chunk_size :: int

text \<open>A message to the panel, and the packet the kernel makes of it.  A receive buffer is there or not; what is
  received is a result.\<close>

record mipi_dsi_msg =
  msg_type :: int
  use_lpm :: bool
  msg_tx :: "byte list"
  msg_rx_len :: nat
  has_rx_buf :: bool

record mipi_dsi_packet =
  packet_size :: nat
  packet_header :: "byte list"
  packet_payload :: "byte list"

record dsi_lib =
  hdr :: "string \<Rightarrow> int"
  format_bpp :: "pixel_format \<Rightarrow> int"
  dsc_get_bpp_int :: "drm_dsc \<Rightarrow> int"
  dsc_get_bytes_per_line :: "drm_dsc \<Rightarrow> int"
  dsc_set_const_params :: "drm_dsc \<Rightarrow> drm_dsc"
  dsc_setup_rc_params :: "drm_dsc \<Rightarrow> drm_dsc \<times> int"
  dsc_initial_scale_value :: "drm_dsc \<Rightarrow> int"
  dsc_compute_rc_parameters :: "drm_dsc \<Rightarrow> drm_dsc \<times> int"
  create_packet :: "mipi_dsi_msg \<Rightarrow> mipi_dsi_packet \<times> int"
  format_is_long :: "int \<Rightarrow> bool"

record 'w dsi_env =
  rd :: "string \<Rightarrow> 'w \<Rightarrow> 32 word"
  rdbk :: "nat \<Rightarrow> 'w \<Rightarrow> 32 word"
  wr :: "string \<Rightarrow> 32 word \<Rightarrow> 'w \<Rightarrow> 'w"
  fld :: "string \<Rightarrow> int \<Rightarrow> 32 word"
  fget :: "string \<Rightarrow> 32 word \<Rightarrow> int"
  kcall :: "kcall \<Rightarrow> 'w \<Rightarrow> 'w \<times> int"
  uninit :: "nat \<Rightarrow> byte"
  lib :: dsi_lib

abbreviation BIT_OF :: "'w dsi_env \<Rightarrow> string \<Rightarrow> 32 word" where
  "BIT_OF env name \<equiv> fld env name 1"

section \<open>The host\<close>

text \<open>The operations of the hardware generation, chosen by the configuration of the SoC.\<close>

datatype dsi_ops = OPS_V2 | OPS_6G | OPS_6G_V2_9

datatype resource = Clock dsi_clk | RuntimePm | Regulators | IfaceClock | BusClocks

record msm_dsi_host =
  host_mode :: "display_mode option"
  host_dsc :: "drm_dsc option"
  host_channel :: int
  host_lanes :: int
  host_format :: pixel_format
  host_flags :: "mode_flag list"
  dlane_swap :: nat
  num_data_lanes :: int
  cphy_mode :: bool
  byte_clk_rate :: int
  byte_intf_clk_rate :: int
  pixel_clk_rate :: int
  esc_clk_rate :: int
  src_clk_rate :: int
  has_byte_intf_clk :: bool
  has_sfpb :: bool
  cfg_major :: int
  cfg_minor :: int
  cfg_ops :: dsi_ops
  err_work_state :: "32 word"
  err_work :: bool
  dma_cmd_ctrl_restore :: "32 word"
  tx_size :: nat
  tx_buf :: "byte list"
  tx_buf_paddr :: int
  rx_buf :: "byte list"
  ctrl_mapped :: bool
  pm_enabled :: bool
  has_cfg :: bool
  host_id :: int
  has_workqueue :: bool
  registered :: bool
  power_on :: bool
  enabled :: bool
  irq_enabled :: bool
  held :: "resource \<Rightarrow> int"

definition hold :: "resource \<Rightarrow> msm_dsi_host \<Rightarrow> msm_dsi_host" where
  "hold r h = h\<lparr>held := (held h)(r := held h r + 1)\<rparr>"

definition drop_ref :: "resource \<Rightarrow> msm_dsi_host \<Rightarrow> msm_dsi_host" where
  "drop_ref r h = h\<lparr>held := (held h)(r := held h r - 1)\<rparr>"

text \<open>At least (or above) a version of the generation 6G.\<close>

definition is_6g :: "'w dsi_env \<Rightarrow> msm_dsi_host \<Rightarrow> bool" where
  "is_6g env h \<longleftrightarrow> cfg_major h = hdr (lib env) ''MSM_DSI_VER_MAJOR_6G''"

section \<open>Register access\<close>

definition dsi_intr_ctrl :: "'w dsi_env \<Rightarrow> 32 word \<Rightarrow> bool \<Rightarrow> 'w \<Rightarrow> 'w" where
  "dsi_intr_ctrl env m on w =
     (let intr = rd env ''DSI_INTR_CTRL'' w;
          intr = (if on then intr OR m else intr AND NOT m) in
      wr env ''DSI_INTR_CTRL'' intr w)"

definition dsi_ctrl_disable :: "'w dsi_env \<Rightarrow> 'w \<Rightarrow> 'w" where
  "dsi_ctrl_disable env w = wr env ''DSI_CTRL'' 0 w"

definition DSI_CLK_CTRL_ENABLE_CLKS :: "'w dsi_env \<Rightarrow> 32 word" where
  "DSI_CLK_CTRL_ENABLE_CLKS env = BIT_OF env ''DSI_CLK_CTRL_AHBS_HCLK_ON'' OR BIT_OF env ''DSI_CLK_CTRL_AHBM_SCLK_ON''
     OR BIT_OF env ''DSI_CLK_CTRL_PCLK_ON'' OR BIT_OF env ''DSI_CLK_CTRL_DSICLK_ON''
     OR BIT_OF env ''DSI_CLK_CTRL_BYTECLK_ON'' OR BIT_OF env ''DSI_CLK_CTRL_ESCCLK_ON''
     OR BIT_OF env ''DSI_CLK_CTRL_FORCE_ON_DYN_AHBM_HCLK''"

definition dsi_sw_reset :: "'w dsi_env \<Rightarrow> 'w \<Rightarrow> 'w" where
  "dsi_sw_reset env w =
     (let ctrl = rd env ''DSI_CTRL'' w;
          on = ctrl AND BIT_OF env ''DSI_CTRL_ENABLE'' \<noteq> 0;
          w = (if on then wr env ''DSI_CTRL'' (ctrl AND NOT (BIT_OF env ''DSI_CTRL_ENABLE'')) w else w);
          w = wr env ''DSI_CLK_CTRL'' (DSI_CLK_CTRL_ENABLE_CLKS env) w;
          w = wr env ''DSI_RESET'' 1 w;
          w = wr env ''DSI_RESET'' 0 w in
      if on then wr env ''DSI_CTRL'' ctrl w else w)"

definition dsi_op_mode_config :: "'w dsi_env \<Rightarrow> bool \<Rightarrow> bool \<Rightarrow> 'w \<Rightarrow> 'w" where
  "dsi_op_mode_config env video_mode enable w =
     (let ctrl = rd env ''DSI_CTRL'' w;
          (ctrl, w) =
            (if \<not> enable then
               (ctrl AND NOT (BIT_OF env ''DSI_CTRL_ENABLE'' OR BIT_OF env ''DSI_CTRL_VID_MODE_EN''
                  OR BIT_OF env ''DSI_CTRL_CMD_MODE_EN''),
                dsi_intr_ctrl env (BIT_OF env ''DSI_IRQ_MASK_CMD_MDP_DONE'' OR BIT_OF env ''DSI_IRQ_MASK_VIDEO_DONE'') False w)
             else if video_mode then
               (ctrl OR BIT_OF env ''DSI_CTRL_VID_MODE_EN'' OR BIT_OF env ''DSI_CTRL_ENABLE'', w)
             else
               (ctrl OR BIT_OF env ''DSI_CTRL_CMD_MODE_EN'' OR BIT_OF env ''DSI_CTRL_ENABLE'',
                dsi_intr_ctrl env (BIT_OF env ''DSI_IRQ_MASK_CMD_MDP_DONE'') True w)) in
      wr env ''DSI_CTRL'' ctrl w)"

definition dsi_set_tx_power_mode :: "'w dsi_env \<Rightarrow> bool \<Rightarrow> 'w \<Rightarrow> 'w" where
  "dsi_set_tx_power_mode env lp w =
     (let data = rd env ''DSI_CMD_DMA_CTRL'' w;
          data = (if \<not> lp then data AND NOT (BIT_OF env ''DSI_CMD_DMA_CTRL_LOW_POWER'')
                  else data OR BIT_OF env ''DSI_CMD_DMA_CTRL_LOW_POWER'') in
      wr env ''DSI_CMD_DMA_CTRL'' data w)"

definition msm_dsi_host_reset_phy :: "'w dsi_env \<Rightarrow> 'w \<Rightarrow> 'w" where
  "msm_dsi_host_reset_phy env w = wr env ''DSI_PHY_RESET'' 0 (wr env ''DSI_PHY_RESET'' (BIT_OF env ''DSI_PHY_RESET_RESET'') w)"

definition msm_dsi_host_cmd_xfer_commit :: "'w dsi_env \<Rightarrow> 32 word \<Rightarrow> 32 word \<Rightarrow> 'w \<Rightarrow> 'w" where
  "msm_dsi_host_cmd_xfer_commit env dma_base len w =
     wr env ''DSI_TRIG_DMA'' 1 (wr env ''DSI_DMA_LEN'' len (wr env ''DSI_DMA_BASE'' dma_base w))"

section \<open>Link clocks\<close>

text \<open>A kernel call whose failure ends the sequence.\<close>

fun calls_until_error :: "'w dsi_env \<Rightarrow> kcall list \<Rightarrow> 'w \<Rightarrow> 'w \<times> int" where
  "calls_until_error env [] w = (w, 0)"
| "calls_until_error env (c # cs) w =
     (let (w, ret) = kcall env c w in if ret \<noteq> 0 then (w, ret) else calls_until_error env cs w)"

definition dsi_link_clk_set_rate_6g :: "'w dsi_env \<Rightarrow> msm_dsi_host \<Rightarrow> 'w \<Rightarrow> 'w \<times> int" where
  "dsi_link_clk_set_rate_6g env h w =
     calls_until_error env
       ([OppSetRate (byte_clk_rate h), ClkSetRate PIXEL_CLK (pixel_clk_rate h)]
        @ (if has_byte_intf_clk h then [ClkSetRate BYTE_INTF_CLK (byte_intf_clk_rate h)] else [])) w"

definition dsi_link_clk_set_rate_6g_v2_9 :: "'w dsi_env \<Rightarrow> msm_dsi_host \<Rightarrow> 'w \<Rightarrow> 'w \<times> int" where
  "dsi_link_clk_set_rate_6g_v2_9 env h w =
     (let w = fst (kcall env (ClkSetParent BYTE_CLK) w);
          w = fst (kcall env (ClkSetParent PIXEL_CLK) w) in
      dsi_link_clk_set_rate_6g env h w)"

definition dsi_link_clk_set_rate_v2 :: "'w dsi_env \<Rightarrow> msm_dsi_host \<Rightarrow> 'w \<Rightarrow> 'w \<times> int" where
  "dsi_link_clk_set_rate_v2 env h w =
     calls_until_error env [ClkSetRate BYTE_CLK (byte_clk_rate h), ClkSetRate ESC_CLK (esc_clk_rate h),
       ClkSetRate SRC_CLK (src_clk_rate h), ClkSetRate PIXEL_CLK (pixel_clk_rate h)] w"

text \<open>The enabling with its unwinding: the clocks in order; when one fails those before it are disabled,
  last first.\<close>

fun enable_clocks :: "'w dsi_env \<Rightarrow> dsi_clk list \<Rightarrow> msm_dsi_host \<times> 'w \<Rightarrow> (msm_dsi_host \<times> 'w) \<times> int" where
  "enable_clocks env [] s = (s, 0)"
| "enable_clocks env (c # cs) (h, w) =
     (let (w, ret) = kcall env (ClkEnable c) w in
      if ret \<noteq> 0 then ((h, w), ret)
      else
        let ((h, w), ret) = enable_clocks env cs (hold (Clock c) h, w) in
        if ret \<noteq> 0 then ((drop_ref (Clock c) h, w), ret) else ((h, w), 0))"

definition clocks_6g :: "dsi_clk list" where
  "clocks_6g = [ESC_CLK, BYTE_CLK, PIXEL_CLK, BYTE_INTF_CLK]"

definition clocks_v2 :: "dsi_clk list" where
  "clocks_v2 = [BYTE_CLK, ESC_CLK, SRC_CLK, PIXEL_CLK]"

definition dsi_link_clk_enable_6g :: "'w dsi_env \<Rightarrow> msm_dsi_host \<times> 'w \<Rightarrow> (msm_dsi_host \<times> 'w) \<times> int" where
  "dsi_link_clk_enable_6g env s = enable_clocks env clocks_6g s"

definition dsi_link_clk_enable_v2 :: "'w dsi_env \<Rightarrow> msm_dsi_host \<times> 'w \<Rightarrow> (msm_dsi_host \<times> 'w) \<times> int" where
  "dsi_link_clk_enable_v2 env s = enable_clocks env clocks_v2 s"

definition dsi_link_clk_disable_6g :: "'w dsi_env \<Rightarrow> msm_dsi_host \<times> 'w \<Rightarrow> msm_dsi_host \<times> 'w" where
  "dsi_link_clk_disable_6g env = (\<lambda>(h, w).
     (fold (\<lambda>c. drop_ref (Clock c)) [ESC_CLK, PIXEL_CLK, BYTE_INTF_CLK, BYTE_CLK] h, fst (kcall env (OppSetRate 0) w)))"

definition dsi_link_clk_disable_v2 :: "'w dsi_env \<Rightarrow> msm_dsi_host \<times> 'w \<Rightarrow> msm_dsi_host \<times> 'w" where
  "dsi_link_clk_disable_v2 env = (\<lambda>(h, w).
     (fold (\<lambda>c. drop_ref (Clock c)) [PIXEL_CLK, SRC_CLK, ESC_CLK, BYTE_CLK] h, w))"

text \<open>The calls through the table of operations.\<close>

definition link_clk_set_rate :: "'w dsi_env \<Rightarrow> msm_dsi_host \<times> 'w \<Rightarrow> (msm_dsi_host \<times> 'w) \<times> int" where
  "link_clk_set_rate env = (\<lambda>(h, w).
     let (w, ret) = (case cfg_ops h of OPS_V2 \<Rightarrow> dsi_link_clk_set_rate_v2 env h w
         | OPS_6G \<Rightarrow> dsi_link_clk_set_rate_6g env h w | OPS_6G_V2_9 \<Rightarrow> dsi_link_clk_set_rate_6g_v2_9 env h w) in
     ((h, w), ret))"

definition link_clk_enable :: "'w dsi_env \<Rightarrow> msm_dsi_host \<times> 'w \<Rightarrow> (msm_dsi_host \<times> 'w) \<times> int" where
  "link_clk_enable env s =
     (if cfg_ops (fst s) = OPS_V2 then dsi_link_clk_enable_v2 env s else dsi_link_clk_enable_6g env s)"

definition link_clk_disable :: "'w dsi_env \<Rightarrow> msm_dsi_host \<times> 'w \<Rightarrow> msm_dsi_host \<times> 'w" where
  "link_clk_disable env s =
     (if cfg_ops (fst s) = OPS_V2 then dsi_link_clk_disable_v2 env s else dsi_link_clk_disable_6g env s)"

definition link_clocks :: "msm_dsi_host \<Rightarrow> resource set" where
  "link_clocks h = Clock ` (if cfg_ops h = OPS_V2 then set clocks_v2 else set clocks_6g)"

lemma fold_drop_held:
  "distinct cs \<Longrightarrow> fold (\<lambda>c. drop_ref (Clock c)) cs h
    = h\<lparr>held := \<lambda>r. if r \<in> Clock ` set cs then held h r - 1 else held h r\<rparr>"
proof (induction cs arbitrary: h)
  case (Cons c cs)
  then show ?case by (auto simp: drop_ref_def image_iff intro!: arg_cong [where f = "\<lambda>f. h\<lparr>held := f\<rparr>"])
qed simp

text \<open>Enabling either takes one reference to every clock of the generation, or none.\<close>

lemma enable_clocks_held:
  assumes "distinct cs" "enable_clocks env cs (h, w) = ((h', w'), ret)"
  shows "h' = (if ret = 0 then h\<lparr>held := \<lambda>r. if r \<in> Clock ` set cs then held h r + 1 else held h r\<rparr> else h)"
  using assms
proof (induction cs arbitrary: h w h' w' ret)
  case (Cons c cs)
  obtain w1 r1 where k: "kcall env (ClkEnable c) w = (w1, r1)" by fastforce
  show ?case
  proof (cases "r1 = 0")
    case True
    obtain h2 w2 r2 where e: "enable_clocks env cs (hold (Clock c) h, w1) = ((h2, w2), r2)" by (metis prod.exhaust)
    have d: "distinct cs" "c \<notin> set cs" using Cons.prems(1) by auto
    note ih = Cons.IH [OF d(1) e]
    show ?thesis
      using Cons.prems(2) k True e ih d(2)
      by (auto simp: hold_def drop_ref_def fun_eq_iff split: if_splits intro!: arg_cong [where f = "\<lambda>f. h\<lparr>held := f\<rparr>"])
  next
    case False
    then show ?thesis using Cons.prems(2) k by simp
  qed
qed simp

lemma clocks_distinct: "distinct clocks_6g" "distinct clocks_v2"
  by (simp_all add: clocks_6g_def clocks_v2_def)

lemma link_clk_enable_held:
  assumes "link_clk_enable env (h, w) = ((h', w'), ret)"
  shows "h' = (if ret = 0 then h\<lparr>held := \<lambda>r. if r \<in> link_clocks h then held h r + 1 else held h r\<rparr> else h)"
proof (cases "cfg_ops h = OPS_V2")
  case True
  then show ?thesis
    using assms enable_clocks_held [OF clocks_distinct(2), of env h w h' w' ret]
    by (simp add: link_clk_enable_def dsi_link_clk_enable_v2_def link_clocks_def)
next
  case False
  then show ?thesis
    using assms enable_clocks_held [OF clocks_distinct(1), of env h w h' w' ret]
    by (simp add: link_clk_enable_def dsi_link_clk_enable_6g_def link_clocks_def)
qed

lemma link_clk_disable_held:
  "fst (link_clk_disable env (h, w)) = h\<lparr>held := \<lambda>r. if r \<in> link_clocks h then held h r - 1 else held h r\<rparr>"
proof -
  have sets: "set clocks_6g = set [ESC_CLK, PIXEL_CLK, BYTE_INTF_CLK, BYTE_CLK]"
    "set clocks_v2 = set [PIXEL_CLK, SRC_CLK, ESC_CLK, BYTE_CLK]"
    by (auto simp: clocks_6g_def clocks_v2_def)
  have d: "distinct [ESC_CLK, PIXEL_CLK, BYTE_INTF_CLK, BYTE_CLK]" "distinct [PIXEL_CLK, SRC_CLK, ESC_CLK, BYTE_CLK]"
    by simp_all
  show ?thesis
    unfolding link_clk_disable_def dsi_link_clk_disable_v2_def dsi_link_clk_disable_6g_def link_clocks_def sets
    by (simp only: fold_drop_held [OF d(1)] fold_drop_held [OF d(2)] fst_conv prod.case split: if_split) simp
qed

lemma link_clk_set_rate_held: "fst (fst (link_clk_set_rate env (h, w))) = h"
  by (simp add: link_clk_set_rate_def split: prod.split)

end
