(* ===== verification/Dsi_Calc.thy ===== *)
theory Dsi_Calc
  imports Dsi_State
begin

text \<open>
  The calculations of the DSI host (\<open>dsi_host.c\<close>): pixel and byte clock with and without compression, the
  escape clock of the old generation, the horizontal and vertical timing, the compression registers, and
  the programming of the controller from them.
\<close>

section \<open>Clock rates\<close>

text \<open>The kernel's macro computes in the type of its first argument, to which \<open>wrap\<close> reduces.\<close>

definition mult_frac :: "(int \<Rightarrow> int) \<Rightarrow> int \<Rightarrow> int \<Rightarrow> int \<Rightarrow> int" where
  "mult_frac wrap x n d = wrap (wrap (x div d * n) + wrap (x mod d * n) div d)"

definition ulong :: "int \<Rightarrow> int" where
  "ulong x = take_bit 64 x"

definition DIV_ROUND_UP :: "int \<Rightarrow> int \<Rightarrow> int" where
  "DIV_ROUND_UP n d = (n + d - 1) div d"

definition dsi_adjust_pclk_for_compression :: "dsi_lib \<Rightarrow> display_mode \<Rightarrow> drm_dsc \<Rightarrow> bool \<Rightarrow> int" where
  "dsi_adjust_pclk_for_compression l m dsc is_bonded_dsi =
     (let hdisp = (if is_bonded_dsi then hdisplay m div 2 else hdisplay m);
          new_hdisplay = DIV_ROUND_UP (hdisp * dsc_get_bpp_int l dsc) (bits_per_component dsc * 3);
          new_hdisplay = (if is_bonded_dsi then new_hdisplay * 2 else new_hdisplay);
          new_htotal = htotal m - hdisplay m + new_hdisplay in
      mult_frac u32 (u32 (clock m * 1000)) new_htotal (htotal m))"

definition dsi_get_pclk_rate :: "dsi_lib \<Rightarrow> display_mode \<Rightarrow> drm_dsc option \<Rightarrow> bool \<Rightarrow> int" where
  "dsi_get_pclk_rate l m dsc is_bonded_dsi =
     (let pclk_rate = (case dsc of None \<Rightarrow> u32 (clock m * 1000)
            | Some dsc \<Rightarrow> dsi_adjust_pclk_for_compression l m dsc is_bonded_dsi) in
      if is_bonded_dsi then pclk_rate div 2 else pclk_rate)"

definition dsi_byte_clk_get_rate :: "dsi_lib \<Rightarrow> msm_dsi_host \<Rightarrow> bool \<Rightarrow> display_mode \<Rightarrow> int" where
  "dsi_byte_clk_get_rate l h is_bonded_dsi m =
     (let n = u8 (host_lanes h);
          n = (if n = 0 then 1 else n);
          bpp = format_bpp l (host_format h);
          pclk_rate = dsi_get_pclk_rate l m (host_dsc h) is_bonded_dsi in
      if cphy_mode h then mult_frac ulong pclk_rate bpp (16 * n) else mult_frac ulong pclk_rate bpp (8 * n))"

definition dsi_calc_pclk :: "dsi_lib \<Rightarrow> msm_dsi_host \<Rightarrow> display_mode \<Rightarrow> bool \<Rightarrow> msm_dsi_host" where
  "dsi_calc_pclk l h m is_bonded_dsi =
     h\<lparr>pixel_clk_rate := dsi_get_pclk_rate l m (host_dsc h) is_bonded_dsi,
       byte_clk_rate := dsi_byte_clk_get_rate l h is_bonded_dsi m\<rparr>"

text \<open>The argument is the present rate of the escape clock.\<close>

definition dsi_calc_clk_rate_6g :: "dsi_lib \<Rightarrow> int \<Rightarrow> msm_dsi_host \<Rightarrow> bool \<Rightarrow> msm_dsi_host \<times> int" where
  "dsi_calc_clk_rate_6g l esc_rate h is_bonded_dsi =
     (case host_mode h of None \<Rightarrow> (h, - EINVAL)
      | Some m \<Rightarrow> ((dsi_calc_pclk l h m is_bonded_dsi)\<lparr>esc_clk_rate := esc_rate\<rparr>, 0))"

text \<open>The first frequency from the given one down to 5 MHz that the four-bit divider can make.\<close>

fun esc_divider :: "int \<Rightarrow> nat \<Rightarrow> int option" where
  "esc_divider byte_mhz 0 = None"
| "esc_divider byte_mhz (Suc n) =
     (let esc_mhz = int (Suc n); esc_div = DIV_ROUND_UP byte_mhz esc_mhz in
      if esc_mhz < 5 then None
      else if 1 \<le> esc_div \<and> esc_div \<le> 16 then Some esc_div
      else esc_divider byte_mhz n)"

definition dsi_calc_clk_rate_v2 :: "dsi_lib \<Rightarrow> msm_dsi_host \<Rightarrow> display_mode \<Rightarrow> bool \<Rightarrow> msm_dsi_host \<times> int" where
  "dsi_calc_clk_rate_v2 l h m is_bonded_dsi =
     (let h = dsi_calc_pclk l h m is_bonded_dsi;
          h = h\<lparr>src_clk_rate := mult_frac ulong (pixel_clk_rate h) (format_bpp l (host_format h)) 8\<rparr> in
      case esc_divider (byte_clk_rate h div 1000000) 20 of
        None \<Rightarrow> (h, - EINVAL)
      | Some esc_div \<Rightarrow> (h\<lparr>esc_clk_rate := byte_clk_rate h div esc_div\<rparr>, 0))"

text \<open>The bit clock and the escape clock asked of the PHY; nothing when the rates cannot be computed.  (Without a
  mode the old generation dereferences a null pointer, which has no counterpart here.)\<close>

definition msm_dsi_host_get_phy_clk_req :: "dsi_lib \<Rightarrow> int \<Rightarrow> msm_dsi_host \<Rightarrow> bool \<Rightarrow> msm_dsi_host \<times> (int \<times> int) option" where
  "msm_dsi_host_get_phy_clk_req l esc_rate h is_bonded_dsi =
     (let (h, ret) = (if cfg_ops h = OPS_V2
            then (case host_mode h of None \<Rightarrow> (h, - EINVAL) | Some m \<Rightarrow> dsi_calc_clk_rate_v2 l h m is_bonded_dsi)
            else dsi_calc_clk_rate_6g l esc_rate h is_bonded_dsi) in
      (h, if ret \<noteq> 0 then None
          else Some (if cphy_mode h then byte_clk_rate h * 7 else byte_clk_rate h * 8, esc_clk_rate h)))"

section \<open>Compression parameters\<close>

definition EOPNOTSUPP_DSC :: int where "EOPNOTSUPP_DSC = 95"

definition dsi_populate_dsc_params :: "dsi_lib \<Rightarrow> drm_dsc \<Rightarrow> drm_dsc \<times> int" where
  "dsi_populate_dsc_params l dsc =
     (if bits_per_pixel dsc mod 16 \<noteq> 0 then (dsc, - EINVAL)
      else if bits_per_component dsc \<notin> {8, 10, 12} then (dsc, - EOPNOTSUPP_DSC)
      else
        let dsc = dsc_set_const_params l (dsc\<lparr>simple_422 := False, convert_rgb := True, vbr_enable := False\<rparr>);
            (dsc, ret) = dsc_setup_rc_params l dsc in
        if ret \<noteq> 0 then (dsc, ret)
        else
          let dsc = dsc\<lparr>initial_scale_value := dsc_initial_scale_value l dsc, line_buf_depth := bits_per_component dsc + 1\<rparr> in
          dsc_compute_rc_parameters l dsc)"

datatype mode_status = MODE_OK | MODE_H_ILLEGAL | MODE_V_ILLEGAL

definition msm_dsi_host_check_dsc :: "msm_dsi_host \<Rightarrow> display_mode \<Rightarrow> mode_status" where
  "msm_dsi_host_check_dsc h m =
     (case host_dsc h of None \<Rightarrow> MODE_OK
      | Some dsc \<Rightarrow> if hdisplay m mod slice_width dsc \<noteq> 0 then MODE_H_ILLEGAL
          else if vdisplay m mod slice_height dsc \<noteq> 0 then MODE_V_ILLEGAL else MODE_OK)"

definition msm_dsi_host_is_wide_bus_enabled :: "'w dsi_env \<Rightarrow> msm_dsi_host \<Rightarrow> bool" where
  "msm_dsi_host_is_wide_bus_enabled env h \<longleftrightarrow>
     host_dsc h \<noteq> None \<and> is_6g env h \<and> cfg_minor h \<ge> hdr (lib env) ''MSM_DSI_6G_VER_MINOR_V2_5_0''"

definition dsi_update_dsc_timing :: "'w dsi_env \<Rightarrow> drm_dsc \<Rightarrow> bool \<Rightarrow> 'w \<Rightarrow> 'w" where
  "dsi_update_dsc_timing env dsc is_cmd_mode w =
     (let slice_per_intf = slice_count dsc;
          total_bytes_per_intf = slice_chunk_size dsc * slice_per_intf;
          bytes_per_pkt = slice_chunk_size dsc;
          eol_byte_num = total_bytes_per_intf mod 3;
          pkt_per_line = slice_per_intf;
          reg = (if is_cmd_mode
              then fld env ''DSI_COMMAND_COMPRESSION_MODE_CTRL_STREAM0_DATATYPE'' (hdr (lib env) ''MIPI_DSI_DCS_LONG_WRITE'')
              else fld env ''DSI_VIDEO_COMPRESSION_MODE_CTRL_DATATYPE'' (hdr (lib env) ''MIPI_DSI_COMPRESSED_PIXEL_STREAM''))
            OR fld env ''DSI_VIDEO_COMPRESSION_MODE_CTRL_PKT_PER_LINE'' (pkt_per_line div 2)
            OR fld env ''DSI_VIDEO_COMPRESSION_MODE_CTRL_EOL_BYTE_NUM'' eol_byte_num
            OR BIT_OF env ''DSI_VIDEO_COMPRESSION_MODE_CTRL_EN'' in
      if is_cmd_mode then
        let reg_ctrl = rd env ''DSI_COMMAND_COMPRESSION_MODE_CTRL'' w;
            reg_ctrl2 = rd env ''DSI_COMMAND_COMPRESSION_MODE_CTRL2'' w;
            reg_ctrl = (reg_ctrl AND NOT 0xffff) OR reg;
            reg_ctrl2 = (reg_ctrl2 AND NOT (BIT_OF env ''DSI_COMMAND_COMPRESSION_MODE_CTRL2_STREAM0_SLICE_WIDTH__MASK''))
              OR fld env ''DSI_COMMAND_COMPRESSION_MODE_CTRL2_STREAM0_SLICE_WIDTH'' (slice_chunk_size dsc);
            w = wr env ''DSI_COMMAND_COMPRESSION_MODE_CTRL'' reg_ctrl w in
        wr env ''DSI_COMMAND_COMPRESSION_MODE_CTRL2'' reg_ctrl2 w
      else
        wr env ''DSI_VIDEO_COMPRESSION_MODE_CTRL''
          (reg OR fld env ''DSI_VIDEO_COMPRESSION_MODE_CTRL_WC'' bytes_per_pkt) w)"

section \<open>Timing\<close>

record timing =
  hs_end :: int
  vs_end :: int
  h_total :: int
  v_total :: int
  ha_start :: int
  ha_end :: int
  va_start :: int
  va_end :: int
  h_active :: int

text \<open>The timing of the full mode, then split between two bonded controllers.\<close>

definition mode_timing :: "display_mode \<Rightarrow> bool \<Rightarrow> timing" where
  "mode_timing m is_bonded_dsi =
     (let hs_end = u32 (hsync_end m - hsync_start m); vs_end = u32 (vsync_end m - vsync_start m);
          ha_start = u32 (htotal m - hsync_start m); ha_end = u32 (ha_start + hdisplay m);
          va_start = u32 (vtotal m - vsync_start m); va_end = u32 (va_start + vdisplay m);
          half = (\<lambda>x. if is_bonded_dsi then x div 2 else x) in
      \<lparr>hs_end = half hs_end, vs_end = vs_end, h_total = half (htotal m), v_total = vtotal m,
       ha_start = half ha_start, ha_end = half ha_end, va_start = va_start, va_end = va_end,
       h_active = half (hdisplay m)\<rparr>)"

text \<open>The active part replaced by what the compressed line takes.\<close>

definition compress_timing :: "dsi_lib \<Rightarrow> bool \<Rightarrow> pixel_format \<Rightarrow> drm_dsc \<Rightarrow> timing \<Rightarrow> timing" where
  "compress_timing l wide fmt dsc t =
     (let bits_per_pclk = (if wide then format_bpp l fmt else 24);
          h_total0 = u32 (h_total t - h_active t);
          hdisp = DIV_ROUND_UP (dsc_get_bytes_per_line l dsc * 8) bits_per_pclk in
      t\<lparr>h_active := hdisp, h_total := u32 (h_total0 + hdisp), ha_end := u32 (ha_start t + hdisp)\<rparr>)"

definition program_video :: "'w dsi_env \<Rightarrow> timing \<Rightarrow> 'w \<Rightarrow> 'w" where
  "program_video env t w =
     (let w = wr env ''DSI_ACTIVE_H'' (fld env ''DSI_ACTIVE_H_START'' (ha_start t) OR fld env ''DSI_ACTIVE_H_END'' (ha_end t)) w;
          w = wr env ''DSI_ACTIVE_V'' (fld env ''DSI_ACTIVE_V_START'' (va_start t) OR fld env ''DSI_ACTIVE_V_END'' (va_end t)) w;
          w = wr env ''DSI_TOTAL'' (fld env ''DSI_TOTAL_H_TOTAL'' (u32 (h_total t - 1)) OR fld env ''DSI_TOTAL_V_TOTAL'' (u32 (v_total t - 1))) w;
          w = wr env ''DSI_ACTIVE_HSYNC'' (fld env ''DSI_ACTIVE_HSYNC_START'' 0 OR fld env ''DSI_ACTIVE_HSYNC_END'' (hs_end t)) w;
          w = wr env ''DSI_ACTIVE_VSYNC_HPOS'' 0 w in
      wr env ''DSI_ACTIVE_VSYNC_VPOS'' (fld env ''DSI_ACTIVE_VSYNC_VPOS_START'' 0 OR fld env ''DSI_ACTIVE_VSYNC_VPOS_END'' (vs_end t)) w)"

definition program_command :: "'w dsi_env \<Rightarrow> msm_dsi_host \<Rightarrow> display_mode \<Rightarrow> timing \<Rightarrow> 'w \<Rightarrow> 'w" where
  "program_command env h m t w =
     (let wc = (case host_dsc h of None \<Rightarrow> h_active t * format_bpp (lib env) (host_format h) div 8 + 1
            | Some dsc \<Rightarrow> slice_chunk_size dsc + 1);
          w = wr env ''DSI_CMD_MDP_STREAM0_CTRL''
            (fld env ''DSI_CMD_MDP_STREAM0_CTRL_WORD_COUNT'' wc
             OR fld env ''DSI_CMD_MDP_STREAM0_CTRL_VIRTUAL_CHANNEL'' (host_channel h)
             OR fld env ''DSI_CMD_MDP_STREAM0_CTRL_DATA_TYPE'' (hdr (lib env) ''MIPI_DSI_DCS_LONG_WRITE'')) w in
      wr env ''DSI_CMD_MDP_STREAM0_TOTAL''
        (fld env ''DSI_CMD_MDP_STREAM0_TOTAL_H_TOTAL'' (h_active t)
         OR fld env ''DSI_CMD_MDP_STREAM0_TOTAL_V_TOTAL'' (vdisplay m)) w)"

text \<open>The compression parameters of a mode, and whether the timing can be set up with them.\<close>

definition prepare_dsc :: "dsi_lib \<Rightarrow> display_mode \<Rightarrow> drm_dsc \<Rightarrow> drm_dsc \<times> bool" where
  "prepare_dsc l m dsc =
     (if hdisplay m = 0 \<or> vdisplay m = 0 then (dsc, False)
      else let (dsc, ret) = dsi_populate_dsc_params l (dsc\<lparr>pic_width := hdisplay m, pic_height := vdisplay m\<rparr>) in (dsc, ret = 0))"

definition dsi_timing_setup :: "'w dsi_env \<Rightarrow> display_mode \<Rightarrow> bool \<Rightarrow> msm_dsi_host \<times> 'w \<Rightarrow> msm_dsi_host \<times> 'w" where
  "dsi_timing_setup env m is_bonded_dsi = (\<lambda>(h, w).
     let t = mode_timing m is_bonded_dsi; video = MODE_VIDEO \<in> set (host_flags h) in
     case host_dsc h of
       None \<Rightarrow> (h, if video then program_video env t w else program_command env h m t w)
     | Some dsc \<Rightarrow>
         let wide = msm_dsi_host_is_wide_bus_enabled env h;
             (dsc, ok) = prepare_dsc (lib env) m dsc;
             h = h\<lparr>host_dsc := Some dsc\<rparr> in
         if \<not> ok then (h, w)
         else
           let t = compress_timing (lib env) wide (host_format h) dsc t;
               w = dsi_update_dsc_timing env dsc (\<not> video) w in
           (h, if video then program_video env t w else program_command env h m t w))"

section \<open>Enabling the controller\<close>

definition dsi_get_traffic_mode :: "mode_flag list \<Rightarrow> string" where
  "dsi_get_traffic_mode flags =
     (if VIDEO_BURST \<in> set flags then ''BURST_MODE''
      else if VIDEO_SYNC_PULSE \<in> set flags then ''NON_BURST_SYNCH_PULSE'' else ''NON_BURST_SYNCH_EVENT'')"

definition dsi_get_vid_fmt :: "pixel_format \<Rightarrow> string" where
  "dsi_get_vid_fmt fmt = (case fmt of RGB888 \<Rightarrow> ''VID_DST_FORMAT_RGB888'' | RGB666 \<Rightarrow> ''VID_DST_FORMAT_RGB666_LOOSE''
     | RGB666_PACKED \<Rightarrow> ''VID_DST_FORMAT_RGB666'' | RGB565 \<Rightarrow> ''VID_DST_FORMAT_RGB565'')"

definition dsi_get_cmd_fmt :: "pixel_format \<Rightarrow> string" where
  "dsi_get_cmd_fmt fmt = (case fmt of RGB888 \<Rightarrow> ''CMD_DST_FORMAT_RGB888'' | RGB565 \<Rightarrow> ''CMD_DST_FORMAT_RGB565''
     | _ \<Rightarrow> ''CMD_DST_FORMAT_RGB666'')"

text \<open>A bit that is set when its condition holds.\<close>

definition when_bit :: "'w dsi_env \<Rightarrow> bool \<Rightarrow> string \<Rightarrow> 32 word" where
  "when_bit env b name = (if b then BIT_OF env name else 0)"

definition video_config :: "'w dsi_env \<Rightarrow> msm_dsi_host \<Rightarrow> 'w \<Rightarrow> 'w" where
  "video_config env h w =
     (let flags = set (host_flags h); k = hdr (lib env);
          data = when_bit env (VIDEO_HSE \<in> flags) ''DSI_VID_CFG0_PULSE_MODE_HSA_HE''
            OR when_bit env (VIDEO_NO_HFP \<in> flags) ''DSI_VID_CFG0_HFP_POWER_STOP''
            OR when_bit env (VIDEO_NO_HBP \<in> flags) ''DSI_VID_CFG0_HBP_POWER_STOP''
            OR when_bit env (VIDEO_NO_HSA \<in> flags) ''DSI_VID_CFG0_HSA_POWER_STOP''
            OR BIT_OF env ''DSI_VID_CFG0_EOF_BLLP_POWER_STOP'' OR BIT_OF env ''DSI_VID_CFG0_BLLP_POWER_STOP''
            OR fld env ''DSI_VID_CFG0_TRAFFIC_MODE'' (k (dsi_get_traffic_mode (host_flags h)))
            OR fld env ''DSI_VID_CFG0_DST_FORMAT'' (k (dsi_get_vid_fmt (host_format h)))
            OR fld env ''DSI_VID_CFG0_VIRT_CHANNEL'' (host_channel h)
            OR when_bit env (msm_dsi_host_is_wide_bus_enabled env h) ''DSI_VID_CFG0_DATABUS_WIDEN'' in
      wr env ''DSI_VID_CFG1'' 0 (wr env ''DSI_VID_CFG0'' data w))"

definition command_config :: "'w dsi_env \<Rightarrow> msm_dsi_host \<Rightarrow> 'w \<Rightarrow> 'w" where
  "command_config env h w =
     (let k = hdr (lib env);
          w = wr env ''DSI_CMD_CFG0'' (fld env ''DSI_CMD_CFG0_RGB_SWAP'' (k ''SWAP_RGB'')
            OR fld env ''DSI_CMD_CFG0_DST_FORMAT'' (k (dsi_get_cmd_fmt (host_format h)))) w;
          w = wr env ''DSI_CMD_CFG1'' (fld env ''DSI_CMD_CFG1_WR_MEM_START'' (k ''MIPI_DCS_WRITE_MEMORY_START'')
            OR fld env ''DSI_CMD_CFG1_WR_MEM_CONTINUE'' (k ''MIPI_DCS_WRITE_MEMORY_CONTINUE'')
            OR BIT_OF env ''DSI_CMD_CFG1_INSERT_DCS_COMMAND'') w in
      if is_6g env h then
        let data = rd env ''DSI_CMD_MODE_MDP_CTRL2'' w
            OR when_bit env (cfg_minor h \<ge> k ''MSM_DSI_6G_VER_MINOR_V1_3'') ''DSI_CMD_MODE_MDP_CTRL2_BURST_MODE''
            OR when_bit env (msm_dsi_host_is_wide_bus_enabled env h) ''DSI_CMD_MODE_MDP_CTRL2_DATABUS_WIDEN'' in
        wr env ''DSI_CMD_MODE_MDP_CTRL2'' data w
      else w)"

record shared_timings =
  clk_post :: int
  clk_pre :: int
  clk_pre_inc_by_2 :: bool
  byte_intf_clk_div_2 :: bool

definition dsi_ctrl_enable :: "'w dsi_env \<Rightarrow> shared_timings \<Rightarrow> msm_dsi_host \<Rightarrow> 'w \<Rightarrow> 'w" where
  "dsi_ctrl_enable env pt h w =
     (let flags = set (host_flags h); k = hdr (lib env);
          w = (if MODE_VIDEO \<in> flags then video_config env h w else command_config env h w);
          w = wr env ''DSI_CMD_DMA_CTRL'' (BIT_OF env ''DSI_CMD_DMA_CTRL_FROM_FRAME_BUFFER''
            OR BIT_OF env ''DSI_CMD_DMA_CTRL_LOW_POWER'') w;
          w = wr env ''DSI_TRIG_CTRL'' (BIT_OF env ''DSI_TRIG_CTRL_TE''
            OR fld env ''DSI_TRIG_CTRL_MDP_TRIGGER'' (k ''TRIGGER_NONE'')
            OR fld env ''DSI_TRIG_CTRL_DMA_TRIGGER'' (k ''TRIGGER_SW'')
            OR fld env ''DSI_TRIG_CTRL_STREAM'' (host_channel h)
            OR when_bit env (is_6g env h \<and> cfg_minor h \<ge> k ''MSM_DSI_6G_VER_MINOR_V1_2'') ''DSI_TRIG_CTRL_BLOCK_DMA_WITHIN_FRAME'') w;
          w = wr env ''DSI_CLKOUT_TIMING_CTRL'' (fld env ''DSI_CLKOUT_TIMING_CTRL_T_CLK_POST'' (clk_post pt)
            OR fld env ''DSI_CLKOUT_TIMING_CTRL_T_CLK_PRE'' (clk_pre pt)) w;
          w = (if is_6g env h \<and> cfg_minor h > k ''MSM_DSI_6G_VER_MINOR_V1_0'' \<and> clk_pre_inc_by_2 pt
            then wr env ''DSI_T_CLK_PRE_EXTEND'' (BIT_OF env ''DSI_T_CLK_PRE_EXTEND_INC_BY_2_BYTECLK'') w else w);
          w = wr env ''DSI_EOT_PACKET_CTRL'' (when_bit env (NO_EOT_PACKET \<notin> flags) ''DSI_EOT_PACKET_CTRL_TX_EOT_APPEND'') w;
          w = wr env ''DSI_ERR_INT_MASK0'' 0x13ff3fe0 w;
          w = dsi_intr_ctrl env (BIT_OF env ''DSI_IRQ_MASK_ERROR'') True w;
          w = wr env ''DSI_CLK_CTRL'' (DSI_CLK_CTRL_ENABLE_CLKS env) w;
          data = BIT_OF env ''DSI_CTRL_CLK_EN''
            OR (push_bit (nat (host_lanes h)) (BIT_OF env ''DSI_CTRL_LANE0'') - BIT_OF env ''DSI_CTRL_LANE0'');
          w = wr env ''DSI_LANE_SWAP_CTRL'' (fld env ''DSI_LANE_SWAP_CTRL_DLN_SWAP_SEL'' (int (dlane_swap h))) w;
          w = (if CLOCK_NON_CONTINUOUS \<notin> flags then
              let lane_ctrl = rd env ''DSI_LANE_CTRL'' w;
                  (w, phy) = kcall env PhyContinuousClock w;
                  lane_ctrl = (if phy \<noteq> 0 then lane_ctrl AND NOT (BIT_OF env ''DSI_LANE_CTRL_HS_REQ_SEL_PHY'') else lane_ctrl) in
              wr env ''DSI_LANE_CTRL'' (lane_ctrl OR BIT_OF env ''DSI_LANE_CTRL_CLKLN_HS_FORCE_REQUEST'') w
            else w);
          w = wr env ''DSI_CTRL'' (data OR BIT_OF env ''DSI_CTRL_ENABLE'') w in
      if cphy_mode h then wr env ''DSI_CPHY_MODE_CTRL'' 1 w else w)"

section \<open>The rates and the timing agree\<close>

lemma DIV_ROUND_UP_le:
  assumes d: "0 < d"
  shows "DIV_ROUND_UP n d \<le> k \<longleftrightarrow> n \<le> k * d"
proof -
  define q r where "q = (n + d - 1) div d" and "r = (n + d - 1) mod d"
  have e: "n + d - 1 = q * d + r" "0 \<le> r" "r < d" using d by (simp_all add: q_def r_def)
  show ?thesis
  proof
    assume "DIV_ROUND_UP n d \<le> k"
    then have "q * d \<le> k * d" using d by (simp add: DIV_ROUND_UP_def q_def)
    then show "n \<le> k * d" using e by linarith
  next
    assume n: "n \<le> k * d"
    show "DIV_ROUND_UP n d \<le> k"
    proof (rule ccontr)
      assume "\<not> DIV_ROUND_UP n d \<le> k"
      then have "(k + 1) * d \<le> q * d" using d by (intro mult_right_mono) (simp_all add: DIV_ROUND_UP_def q_def)
      then show False using e n by (simp add: distrib_right)
    qed
  qed
qed

lemma DIV_ROUND_UP_nonneg: "0 < d \<Longrightarrow> 0 \<le> n \<Longrightarrow> 0 \<le> DIV_ROUND_UP n d"
  by (simp add: DIV_ROUND_UP_def pos_imp_zdiv_nonneg_iff)

text \<open>Rounding up to whole bytes first does not change the number of pixel clocks.\<close>

lemma DIV_ROUND_UP_twice:
  assumes "0 < a" "0 < b"
  shows "DIV_ROUND_UP (DIV_ROUND_UP n a * a) (a * b) = DIV_ROUND_UP n (a * b)"
proof (rule antisym)
  have ab: "0 < a * b" using assms by simp
  have n: "n \<le> DIV_ROUND_UP n (a * b) * (a * b)" using DIV_ROUND_UP_le [OF ab, of n "DIV_ROUND_UP n (a * b)"] by simp
  then have "DIV_ROUND_UP n a \<le> DIV_ROUND_UP n (a * b) * b" using assms(1) by (simp add: DIV_ROUND_UP_le algebra_simps)
  then have "DIV_ROUND_UP n a * a \<le> DIV_ROUND_UP n (a * b) * b * a" using assms(1) by (intro mult_right_mono) simp_all
  then show "DIV_ROUND_UP (DIV_ROUND_UP n a * a) (a * b) \<le> DIV_ROUND_UP n (a * b)"
    using DIV_ROUND_UP_le [OF ab] by (simp add: algebra_simps)
  have "n \<le> DIV_ROUND_UP n a * a" using DIV_ROUND_UP_le [OF assms(1), of n "DIV_ROUND_UP n a"] by simp
  also have "\<dots> \<le> DIV_ROUND_UP (DIV_ROUND_UP n a * a) (a * b) * (a * b)"
    using DIV_ROUND_UP_le [OF ab, of "DIV_ROUND_UP n a * a" "DIV_ROUND_UP (DIV_ROUND_UP n a * a) (a * b)"] by simp
  finally show "DIV_ROUND_UP n (a * b) \<le> DIV_ROUND_UP (DIV_ROUND_UP n a * a) (a * b)"
    using DIV_ROUND_UP_le [OF ab] by simp
qed

text \<open>A mode whose horizontal values can be split evenly and whose sums fit their types.\<close>

definition splittable :: "bool \<Rightarrow> display_mode \<Rightarrow> bool" where
  "splittable is_bonded_dsi m \<longleftrightarrow> well_timed m \<and> htotal m < 2 ^ 15 \<and> vtotal m < 2 ^ 15
     \<and> (is_bonded_dsi \<longrightarrow> even (htotal m) \<and> even (hdisplay m) \<and> even (hsync_start m) \<and> even (hsync_end m))"

definition links :: "bool \<Rightarrow> int" where
  "links is_bonded_dsi = (if is_bonded_dsi then 2 else 1)"

lemma u32_small [simp]: "0 \<le> x \<Longrightarrow> x < 2 ^ 32 \<Longrightarrow> u32 x = x"
  by (simp add: u32_def take_bit_int_eq_self)

text \<open>The programmed timing, per link, is the mode's: sync width, sync with back porch, active part and front
  porch add up as the mode says.\<close>

lemma mode_timing_faithful:
  assumes "splittable b m"
  defines "t \<equiv> mode_timing m b"
  shows "links b * hs_end t = hsync_end m - hsync_start m" "links b * ha_start t = htotal m - hsync_start m"
    "links b * (ha_end t - ha_start t) = hdisplay m" "links b * h_total t = htotal m" "links b * h_active t = hdisplay m"
    "vs_end t = vsync_end m - vsync_start m" "va_start t = vtotal m - vsync_start m" "va_end t - va_start t = vdisplay m"
    "v_total t = vtotal m"
  using assms(1) unfolding t_def
  by (auto simp: splittable_def well_timed_def mode_timing_def links_def Let_def elim!: evenE)

text \<open>What a line of the link takes in compressed form: one slice per link, in whole bytes.\<close>

definition line_in_bytes :: "dsi_lib \<Rightarrow> drm_dsc \<Rightarrow> int \<Rightarrow> bool" where
  "line_in_bytes l dsc width \<longleftrightarrow> dsc_get_bytes_per_line l dsc = DIV_ROUND_UP (width * dsc_get_bpp_int l dsc) 8
     \<and> 0 \<le> dsc_get_bpp_int l dsc \<and> dsc_get_bpp_int l dsc < 2 ^ 10"

lemma mult_frac_exact:
  assumes "0 \<le> x" "x < 2 ^ 32" "0 \<le> n" "n \<le> d" "0 < d" "d < 2 ^ 15"
  shows "mult_frac u32 x n d = x * n div d"
proof -
  define q r where "q = x div d" and "r = x mod d"
  have x: "x = d * q + r" "0 \<le> r" "r < d" "0 \<le> q" using assms by (simp_all add: q_def r_def pos_imp_zdiv_nonneg_iff)
  have rn: "0 \<le> r * n" "r * n \<le> r * d" using x assms by (auto intro: mult_left_mono)
  have rn2: "r * n \<le> 2 ^ 15 * 2 ^ 15" using x assms by (intro mult_mono) simp_all
  have qn: "0 \<le> q * n" "q * n \<le> q * d" using x assms by (auto intro: mult_left_mono)
  have "r * n div d \<le> r" using zdiv_mono1 [OF rn(2) assms(5)] assms(5) by simp
  moreover have "0 \<le> r * n div d" using rn(1) assms(5) by (simp add: pos_imp_zdiv_nonneg_iff)
  ultimately have "u32 (q * n) = q * n" "u32 (r * n) = r * n" "u32 (q * n + r * n div d) = q * n + r * n div d"
    using x qn rn rn2 assms(2) by (auto intro!: u32_small simp: mult.commute)
  moreover have "x * n div d = q * n + r * n div d"
    using assms(5) by (simp add: x(1) distrib_right mult.assoc)
  ultimately show ?thesis by (simp add: mult_frac_def q_def r_def)
qed

text \<open>The active part of the link's line in pixel clocks, from its compressed bits and from its whole bytes.\<close>

lemma byte_clocks:
  assumes "0 \<le> x" "x \<le> 2 ^ 25" "8 \<le> p"
  shows "0 \<le> DIV_ROUND_UP (DIV_ROUND_UP x 8 * 8) p" "DIV_ROUND_UP (DIV_ROUND_UP x 8 * 8) p \<le> 2 ^ 25"
    "x \<le> DIV_ROUND_UP (DIV_ROUND_UP x 8 * 8) p * p"
    "8 dvd p \<or> 8 dvd x \<Longrightarrow> DIV_ROUND_UP (DIV_ROUND_UP x 8 * 8) p = DIV_ROUND_UP x p"
proof -
  define y where "y = DIV_ROUND_UP x 8"
  have y: "0 \<le> y" "y \<le> 2 ^ 25" "x \<le> y * 8"
    using assms DIV_ROUND_UP_le [of 8 x y] by (simp_all add: y_def DIV_ROUND_UP_nonneg DIV_ROUND_UP_le)
  show "0 \<le> DIV_ROUND_UP (DIV_ROUND_UP x 8 * 8) p"
    using y(1) assms(3) by (simp add: y_def [symmetric] DIV_ROUND_UP_nonneg)
  have "y * 8 \<le> y * p" using y(1) assms(3) by (rule mult_left_mono [rotated])
  then have "DIV_ROUND_UP (y * 8) p \<le> y" using assms(3) by (simp add: DIV_ROUND_UP_le)
  then show "DIV_ROUND_UP (DIV_ROUND_UP x 8 * 8) p \<le> 2 ^ 25" using y(2) by (simp add: y_def)
  have "y * 8 \<le> DIV_ROUND_UP (y * 8) p * p" using DIV_ROUND_UP_le [of p "y * 8" "DIV_ROUND_UP (y * 8) p"] assms(3) by simp
  then show "x \<le> DIV_ROUND_UP (DIV_ROUND_UP x 8 * 8) p * p" using y(3) by (simp add: y_def)
  assume "8 dvd p \<or> 8 dvd x"
  then show "DIV_ROUND_UP (DIV_ROUND_UP x 8 * 8) p = DIV_ROUND_UP x p"
  proof
    assume "8 dvd p"
    then obtain k where "p = 8 * k" by blast
    then show ?thesis using DIV_ROUND_UP_twice [of 8 k x] assms(3) by simp
  next
    assume "8 dvd x"
    then have "(7 + x) div 8 * 8 = x" by presburger
    then show ?thesis by (simp add: DIV_ROUND_UP_def add.commute)
  qed
qed

lemma compress_timing_small:
  assumes act: "DIV_ROUND_UP (dsc_get_bytes_per_line l dsc * 8) (if wide then format_bpp l fmt else 24) = n"
    and "0 \<le> h_total t - h_active t" "h_total t - h_active t < 2 ^ 15" "0 \<le> n" "n \<le> 2 ^ 25" "0 \<le> ha_start t" "ha_start t < 2 ^ 15"
  shows "compress_timing l wide fmt dsc t = t\<lparr>h_active := n, h_total := h_total t - h_active t + n, ha_end := ha_start t + n\<rparr>"
  using assms by (simp add: compress_timing_def Let_def)

lemma pclk_rate_compressed:
  assumes "splittable b m" "0 \<le> dsc_get_bpp_int l dsc" "dsc_get_bpp_int l dsc \<le> bits_per_component dsc * 3"
  defines "n \<equiv> DIV_ROUND_UP (hdisplay m div links b * dsc_get_bpp_int l dsc) (bits_per_component dsc * 3)"
  shows "dsi_get_pclk_rate l m (Some dsc) b = u32 (clock m * 1000) * (htotal m - hdisplay m + links b * n) div htotal m div links b"
proof -
  have m: "0 < hdisplay m" "hdisplay m < htotal m" "htotal m < 2 ^ 15" using assms(1) by (auto simp: splittable_def well_timed_def)
  define w where "w = hdisplay m div links b"
  have w: "0 \<le> w" "links b * w = hdisplay m"
    using assms(1) m(1) by (auto simp: w_def links_def splittable_def)
  have n: "0 \<le> n \<and> n \<le> w"
  proof (cases "bits_per_component dsc * 3 = 0")
    case True
    then show ?thesis using w(1) by (simp add: n_def DIV_ROUND_UP_def)
  next
    case False
    then have "0 < bits_per_component dsc * 3" using assms(2,3) by linarith
    then show ?thesis using w(1) assms(2,3) by (simp add: n_def w_def [symmetric] DIV_ROUND_UP_le DIV_ROUND_UP_nonneg mult_left_mono)
  qed
  have "links b * n \<le> links b * w" "0 \<le> links b * n" using n by (simp_all add: links_def)
  then have nt: "0 \<le> htotal m - hdisplay m + links b * n" "htotal m - hdisplay m + links b * n \<le> htotal m" using m w(2) by simp_all
  have "dsi_adjust_pclk_for_compression l m dsc b = mult_frac u32 (u32 (clock m * 1000)) (htotal m - hdisplay m + links b * n) (htotal m)"
    by (cases b) (simp_all add: dsi_adjust_pclk_for_compression_def links_def n_def mult.commute [of _ 2])
  also have "\<dots> = u32 (clock m * 1000) * (htotal m - hdisplay m + links b * n) div htotal m"
    using nt m take_bit_int_less_exp [of 32 "clock m * 1000"] by (intro mult_frac_exact) (simp_all add: u32_def)
  finally show ?thesis by (simp add: dsi_get_pclk_rate_def links_def)
qed

text \<open>C22: With compression, how the pixel clock and the programmed timing fit together, for one or two links, one
  slice per link in whole bytes and a compressed size of at most three components.  The clock is computed
  for a line in which every pixel clock carries three components of the compressed stream's depth; each
  link is programmed with its share of a line in which it carries the format's size on a wide bus and 24
  bits otherwise.  Where these are the same, 24 bits for 8 bits per component, the programmed line is
  the one the clock was computed for.  Where a component is deeper than that (10 or 12 bits on a 24-bit
  bus) the programmed line is strictly longer, as soon as the line has enough bits for the quotients to
  differ: the clock is then too slow for it.  In all cases the front porch, the sync width and the
  vertical timing stay those of the mode, and the active part ends within the line.\<close>

theorem compressed_clock_and_timing:
  assumes "splittable b m" "line_in_bytes l dsc (hdisplay m div links b)" "dsc_get_bpp_int l dsc \<le> bits_per_component dsc * 3"
    "p = (if wide then format_bpp l fmt else 24)" "8 \<le> p"
  shows "let t = compress_timing l wide fmt dsc (mode_timing m b); line = links b * h_total t;
      bits = hdisplay m div links b * dsc_get_bpp_int l dsc; depth = bits_per_component dsc * 3;
      clocked = htotal m - hdisplay m + links b * DIV_ROUND_UP bits depth in
    dsi_get_pclk_rate l m (Some dsc) b = u32 (clock m * 1000) * clocked div htotal m div links b
    \<and> line = htotal m - hdisplay m + links b * DIV_ROUND_UP (DIV_ROUND_UP bits 8 * 8) p
    \<and> (p = depth \<and> (8 dvd p \<or> 8 dvd bits) \<longrightarrow> line = clocked)
    \<and> (p < depth \<and> depth * p \<le> bits * (depth - p) \<longrightarrow> clocked < line)
    \<and> links b * (h_total t - ha_end t) = hsync_start m - hdisplay m
    \<and> links b * hs_end t = hsync_end m - hsync_start m \<and> links b * ha_start t = htotal m - hsync_start m
    \<and> ha_start t \<le> ha_end t \<and> ha_end t < h_total t
    \<and> va_end t - va_start t = vdisplay m \<and> v_total t = vtotal m"
proof -
  define w x c t where "w = hdisplay m div links b" and "x = w * dsc_get_bpp_int l dsc"
    and "c = bits_per_component dsc * 3" and "t = mode_timing m b"
  define n where "n = DIV_ROUND_UP (DIV_ROUND_UP x 8 * 8) p"
  note f = mode_timing_faithful [OF assms(1), folded t_def]
  have s: "0 < hdisplay m" "hdisplay m < hsync_start m" "hsync_start m < htotal m" "htotal m < 2 ^ 15"
    using assms(1) by (auto simp: splittable_def well_timed_def)
  have w: "links b * w = hdisplay m" "h_active t = w"
    using assms(1) f(5) by (auto simp: w_def links_def splittable_def)
  have k: "links b = 1 \<or> links b = 2" by (simp add: links_def)
  have w2: "0 \<le> w" "w \<le> 2 ^ 15" using w(1) s k by (elim disjE; simp)+
  have lib: "dsc_get_bytes_per_line l dsc = DIV_ROUND_UP x 8" "0 \<le> dsc_get_bpp_int l dsc" "dsc_get_bpp_int l dsc \<le> 2 ^ 10"
    using assms(2) by (simp_all add: line_in_bytes_def w_def x_def)
  have "x \<le> 2 ^ 15 * 2 ^ 10" unfolding x_def using w2 lib by (intro mult_mono) simp_all
  then have x: "0 \<le> x" "x \<le> 2 ^ 25" using w2 lib(2) by (simp_all add: x_def)
  note n = byte_clocks [OF x assms(5), folded n_def]
  have act: "DIV_ROUND_UP (dsc_get_bytes_per_line l dsc * 8) (if wide then format_bpp l fmt else 24) = n"
    using assms(4) lib(1) by (simp add: n_def)
  have pos: "0 \<le> ha_start t" "ha_start t < 2 ^ 15" "0 \<le> h_total t - h_active t" "h_total t - h_active t < 2 ^ 15"
    "0 < h_total t - w - ha_start t"
    using f(2,4) s w k by (elim disjE; simp)+
  note ct = compress_timing_small [OF act pos(3,4) n(1,2) pos(1,2)]
  have line: "links b * (h_total t - w + n) = htotal m - hdisplay m + links b * n"
    "links b * (h_total t - w - ha_start t) = hsync_start m - hdisplay m"
    using f(2,4) w(1) by (simp_all add: right_diff_distrib distrib_left)
  have longer: "links b * DIV_ROUND_UP x c < links b * n" if "p < c" "c * p \<le> x * (c - p)"
  proof -
    have c: "0 < c" "0 < p" using that(1) assms(5) by simp_all
    have "x * c \<le> n * p * c" using n(3) c(1) by (simp add: mult_right_mono)
    then have "p * (c + x) \<le> p * (n * c)" using that(2) by (simp add: algebra_simps)
    then have "c + x \<le> n * c" using c(2) by (simp only: mult_le_cancel_left_pos)
    then have "x \<le> (n - 1) * c" by (simp add: left_diff_distrib)
    then have "DIV_ROUND_UP x c \<le> n - 1" by (simp only: DIV_ROUND_UP_le [OF c(1)])
    then show ?thesis using k by auto
  qed
  have fp: "h_total t - w + n - (ha_start t + n) = h_total t - w - ha_start t" by simp
  have same: "p = c \<and> (8 dvd p \<or> 8 dvd x) \<longrightarrow> n = DIV_ROUND_UP x c" using n(4) by blast
  note rate = pclk_rate_compressed [OF assms(1) lib(2) assms(3), folded w_def x_def c_def]
  show ?thesis
    unfolding Let_def t_def [symmetric] w_def [symmetric] x_def [symmetric] c_def [symmetric] n_def [symmetric] ct
    using rate line longer same n(1) f(1,2,8,9) pos(5) by (auto simp: w(2) fp)
qed

text \<open>The search for an escape clock never gets past its first frequency: a divider that is too small or too
  large at 20 MHz is so at all lower ones, so the rates can be computed exactly when the byte clock is
  between 1 and 320 MHz, and then the divider is that for 20 MHz.\<close>

theorem escape_clock_search:
  "esc_divider byte_mhz 20 = (if 1 \<le> byte_mhz \<and> byte_mhz \<le> 320 then Some (DIV_ROUND_UP byte_mhz 20) else None)"
proof -
  have none: "esc_divider byte_mhz n = None" if "byte_mhz \<le> 0 \<or> 320 < byte_mhz" "n \<le> 20" for n
    using that
  proof (induction n)
    case (Suc n)
    have d: "0 < int (Suc n)" by simp
    have "16 * int (Suc n) \<le> 16 * 20" using Suc.prems(2) by (intro mult_left_mono) simp_all
    then have "DIV_ROUND_UP byte_mhz (int (Suc n)) \<le> 0 \<or> \<not> DIV_ROUND_UP byte_mhz (int (Suc n)) \<le> 16"
      using Suc.prems(1) unfolding DIV_ROUND_UP_le [OF d] by auto
    then have "\<not> (1 \<le> DIV_ROUND_UP byte_mhz (int (Suc n)) \<and> DIV_ROUND_UP byte_mhz (int (Suc n)) \<le> 16)" by linarith
    moreover have "esc_divider byte_mhz n = None" using Suc by simp
    ultimately show ?case by (simp only: esc_divider.simps Let_def if_False if_cancel)
  qed simp
  have twenty: "20 = Suc 19" by simp
  show ?thesis
  proof (cases "1 \<le> byte_mhz \<and> byte_mhz \<le> 320")
    case True
    then have "DIV_ROUND_UP byte_mhz 20 \<le> 16" "\<not> DIV_ROUND_UP byte_mhz 20 \<le> 0" by (simp_all add: DIV_ROUND_UP_le)
    then show ?thesis using True unfolding twenty esc_divider.simps by (simp add: Let_def)
  next
    case False
    then show ?thesis using none [of 20] by auto
  qed
qed

text \<open>The kernel's library for one slice per link, and the panel's compressed modes on two links.\<close>

definition sample_lib :: dsi_lib where
  "sample_lib = \<lparr>hdr = \<lambda>_. 0, format_bpp = \<lambda>_. 24, dsc_get_bpp_int = \<lambda>dsc. bits_per_pixel dsc div 16,
     dsc_get_bytes_per_line = \<lambda>dsc. slice_count dsc * slice_chunk_size dsc, dsc_set_const_params = \<lambda>dsc. dsc,
     dsc_setup_rc_params = \<lambda>dsc. (dsc, 0), dsc_initial_scale_value = \<lambda>_. 32,
     dsc_compute_rc_parameters = \<lambda>dsc. (dsc\<lparr>slice_chunk_size := DIV_ROUND_UP (slice_width dsc * (bits_per_pixel dsc div 16)) 8\<rparr>, 0),
     create_packet = \<lambda>_. (\<lparr>packet_size = 0, packet_header = [], packet_payload = []\<rparr>, - EINVAL), format_is_long = \<lambda>_. False\<rparr>"

definition drm_dsc_of :: "dsc_config \<Rightarrow> drm_dsc" where
  "drm_dsc_of cfg = dsc_config.extend cfg \<lparr>pic_width = 0, pic_height = 0, simple_422 = False, convert_rgb = False,
     vbr_enable = False, initial_scale_value = 0, line_buf_depth = 0, slice_chunk_size = 0\<rparr>"

definition panel_dsc :: drm_dsc where
  "panel_dsc = fst (dsi_populate_dsc_params sample_lib (drm_dsc_of ppc357db1_4_dsc_cfg))"

text \<open>The panel's own compression fits; with ten bits per component its clock is too slow for its line.\<close>

theorem compressed_clock_and_timing_witness:
  "(let m = hd ppc357db1_4_dsc_modes; t = compress_timing sample_lib True RGB888 panel_dsc (mode_timing m True) in
      dsi_get_pclk_rate sample_lib m (Some panel_dsc) True = u32 (clock m * 1000) * (2 * h_total t) div htotal m div 2
      \<and> h_total t = 407)
    \<and> (let m = hd ppc357db1_4_dsc_modes; dsc = panel_dsc\<lparr>bits_per_component := 10\<rparr> in
      dsi_get_pclk_rate sample_lib m (Some dsc) True
        < u32 (clock m * 1000) * (2 * h_total (compress_timing sample_lib True RGB888 dsc (mode_timing m True))) div htotal m div 2)"
proof -
  let ?m = "hd ppc357db1_4_dsc_modes" and ?ten = "panel_dsc\<lparr>bits_per_component := 10\<rparr>"
  have "splittable True ?m" by code_simp
  moreover have "line_in_bytes sample_lib panel_dsc (hdisplay ?m div links True)" "line_in_bytes sample_lib ?ten (hdisplay ?m div links True)"
    "bits_per_component panel_dsc = 8" "bits_per_component ?ten = 10" "format_bpp sample_lib RGB888 = 24" "hdisplay ?m div links True = 800"
    "dsc_get_bpp_int sample_lib panel_dsc = 8" "dsc_get_bpp_int sample_lib ?ten = 8"
    by code_simp+
  moreover have "h_total (compress_timing sample_lib True RGB888 panel_dsc (mode_timing ?m True)) = 407"
    "h_total (compress_timing sample_lib True RGB888 ?ten (mode_timing ?m True)) = 407"
    "DIV_ROUND_UP 6400 30 = 214" "links True = 2" "htotal ?m - hdisplay ?m = 280" "htotal ?m = 1880" "u32 (clock ?m * 1000) = 617241000"
    by code_simp+
  ultimately show ?thesis
    using compressed_clock_and_timing [of True ?m sample_lib panel_dsc 24 True RGB888]
      compressed_clock_and_timing [of True ?m sample_lib ?ten 24 True RGB888]
    by (simp add: Let_def)
qed

end
