(* ===== verification/Dsi_Transfer.thy ===== *)
theory Dsi_Transfer
  imports Dsi_State
begin

text \<open>
  Commands to the panel and answers from it (\<open>dsi_host.c\<close>): the DMA image of a packet, waiting for the video
  engine, the transfer and its completion, the reading of long answers in several passes through the
  sixteen bytes of the read-back registers, and the preparation of the controller for a transfer.
  Results are negative error codes or lengths, as in C; what a read delivers is a list of bytes.  Writing
  past the end of a list extends it, where C would overrun the buffer; the theorems assume that this
  does not happen.
\<close>

unbundle bit_operations_syntax

definition ECOMM :: int where "ECOMM = 70"

definition put_bytes :: "nat \<Rightarrow> byte list \<Rightarrow> byte list \<Rightarrow> byte list" where
  "put_bytes off bs buf = take off buf @ bs @ drop (off + length bs) buf"

section \<open>Sending\<close>

definition dsi_wait4video_done :: "'w dsi_env \<Rightarrow> 'w \<Rightarrow> 'w" where
  "dsi_wait4video_done env w =
     (let w = dsi_intr_ctrl env (BIT_OF env ''DSI_IRQ_MASK_VIDEO_DONE'') True w;
          w = fst (kcall env ReinitVideo w);
          w = fst (kcall env WaitVideoDone w) in
      dsi_intr_ctrl env (BIT_OF env ''DSI_IRQ_MASK_VIDEO_DONE'') False w)"

definition dsi_wait4video_eng_busy :: "'w dsi_env \<Rightarrow> msm_dsi_host \<Rightarrow> 'w \<Rightarrow> 'w" where
  "dsi_wait4video_eng_busy env h w =
     (if MODE_VIDEO \<notin> set (host_flags h) then w
      else if rd env ''DSI_STATUS0'' w AND BIT_OF env ''DSI_STATUS0_VIDEO_MODE_ENGINE_BUSY'' = 0 then w
      else if power_on h \<and> enabled h then dsi_wait4video_done env w else w)"

text \<open>The buffer is mapped, and its address got, by the operations of the generation: zero or a negative error
  for the one, the address or a negative error for the other.\<close>

definition tx_buf_get :: "'w dsi_env \<Rightarrow> msm_dsi_host \<Rightarrow> 'w \<Rightarrow> 'w \<times> int" where
  "tx_buf_get env h w = (if cfg_ops h = OPS_V2 then (w, 0) else kcall env TxBufGet w)"

definition dma_base_get :: "'w dsi_env \<Rightarrow> msm_dsi_host \<Rightarrow> 'w \<Rightarrow> 'w \<times> int" where
  "dma_base_get env h w = (if cfg_ops h = OPS_V2 then (w, tx_buf_paddr h) else kcall env DmaBaseGet w)"

definition command_flags :: "dsi_lib \<Rightarrow> mipi_dsi_msg \<Rightarrow> byte" where
  "command_flags l msg = 0x80 OR (if format_is_long l (msg_type msg) then 0x40 else 0)
     OR (if has_rx_buf msg \<and> msg_rx_len msg \<noteq> 0 then 0x20 else 0)"

definition dsi_cmd_dma_add :: "'w dsi_env \<Rightarrow> mipi_dsi_msg \<Rightarrow> msm_dsi_host \<times> 'w \<Rightarrow> (msm_dsi_host \<times> 'w) \<times> int" where
  "dsi_cmd_dma_add env msg = (\<lambda>(h, w).
     let (packet, ret) = create_packet (lib env) msg in
     if ret \<noteq> 0 then ((h, w), ret)
     else
       let len = (packet_size packet + 3) div 4 * 4 in
       if len > tx_size h then ((h, w), - EINVAL)
       else
         let (w, ret) = tx_buf_get env h w in
         if ret < 0 then ((h, w), ret)
         else
           let hd = packet_header packet;
               data = put_bytes 0 [hd ! 1, hd ! 2, hd ! 0, command_flags (lib env) msg] (tx_buf h);
               data = put_bytes 4 (packet_payload packet) data;
               data = put_bytes (packet_size packet) (replicate (len - packet_size packet) 0xff) data in
           ((h\<lparr>tx_buf := data\<rparr>, w), int len))"

definition dsi_cmd_dma_tx :: "'w dsi_env \<Rightarrow> nat \<Rightarrow> msm_dsi_host \<Rightarrow> 'w \<Rightarrow> 'w \<times> int" where
  "dsi_cmd_dma_tx env len h w =
     (let (w, base) = dma_base_get env h w in
      if base < 0 then (w, base)
      else
        let w = fst (kcall env ReinitDma w);
            w = dsi_wait4video_eng_busy env h w;
            (w, triggered) = kcall env (TriggerXfer base (take len (tx_buf h))) w in
        if triggered \<noteq> 0 then
          let (w, ret) = kcall env WaitDmaDone w in
          (w, if ret = 0 then - ETIMEDOUT else int len)
        else (w, int len))"

text \<open>What fits into the blanking of one line.  (The mode is set before the host is powered; without one C would
  dereference a null pointer.)\<close>

definition bllp_len :: "dsi_lib \<Rightarrow> msm_dsi_host \<Rightarrow> int" where
  "bllp_len l h = (case host_mode h of None \<Rightarrow> 0 | Some m \<Rightarrow> hdisplay m * format_bpp l (host_format h) div 8)"

definition dsi_cmds2buf_tx :: "'w dsi_env \<Rightarrow> mipi_dsi_msg \<Rightarrow> msm_dsi_host \<times> 'w \<Rightarrow> (msm_dsi_host \<times> 'w) \<times> int" where
  "dsi_cmds2buf_tx env msg s =
     (let ((h, w), len) = dsi_cmd_dma_add env msg s in
      if len < 0 then ((h, w), len)
      else if MODE_VIDEO \<in> set (host_flags h) \<and> len > bllp_len (lib env) h then ((h, w), - EINVAL)
      else
        let (w, ret) = dsi_cmd_dma_tx env (nat len) h w in
        if ret < 0 then ((h, w), ret)
        else if ret < len then ((h, w), - EIO)
        else ((h, w), len))"

definition msm_dsi_host_cmd_tx :: "'w dsi_env \<Rightarrow> mipi_dsi_msg \<Rightarrow> msm_dsi_host \<times> 'w \<Rightarrow> (msm_dsi_host \<times> 'w) \<times> int" where
  "msm_dsi_host_cmd_tx env msg s = dsi_cmds2buf_tx env msg s"

section \<open>Receiving\<close>

text \<open>A register in memory after the conversion to network order: the most significant byte first.\<close>

definition be_bytes :: "32 word \<Rightarrow> byte list" where
  "be_bytes x = [ucast (drop_bit 24 x), ucast (drop_bit 16 x), ucast (drop_bit 8 x), ucast x]"

text \<open>The array of sixteen bytes after \<open>cnt\<close> registers, the highest first, have been read into it.\<close>

definition rdbk_image :: "'w dsi_env \<Rightarrow> nat \<Rightarrow> 'w \<Rightarrow> byte list" where
  "rdbk_image env cnt w = concat (map (\<lambda>i. be_bytes (rdbk env i w)) (rev [0..<cnt])) @ map (uninit env) [4 * cnt..<16]"

text \<open>
  One pass.  The index of the first new byte is not negative in any pass of \<open>msm_dsi_host_cmd_rx\<close> with a
  response of the length asked for (\<open>long_read_reassembled\<close>); for a negative one, where the C code would
  read below its array, the whole array is taken.
\<close>

definition dsi_cmd_dma_rx :: "'w dsi_env \<Rightarrow> nat \<Rightarrow> nat \<Rightarrow> nat \<Rightarrow> msm_dsi_host \<times> 'w \<Rightarrow> (msm_dsi_host \<times> 'w) \<times> nat" where
  "dsi_cmd_dma_rx env buf_offset rx_byte pkt_size = (\<lambda>(h, w).
     let cnt = min 4 ((rx_byte + 3) div 4);
         read_cnt = (if rx_byte = 4 then 4 else pkt_size + 6);
         repeated_bytes = (if read_cnt > 16 then int buf_offset - (int read_cnt - 16) else 0);
         fresh = drop (nat repeated_bytes) (rdbk_image env cnt w) in
     ((h\<lparr>rx_buf := put_bytes buf_offset fresh (rx_buf h)\<rparr>, w), length fresh))"

definition dsi_short_read1_resp :: "byte list \<Rightarrow> mipi_dsi_msg \<Rightarrow> int \<times> byte list" where
  "dsi_short_read1_resp buf msg =
     (if has_rx_buf msg \<and> msg_rx_len msg \<ge> 1 then (1, [buf ! 1]) else (- EINVAL, []))"

definition dsi_short_read2_resp :: "byte list \<Rightarrow> mipi_dsi_msg \<Rightarrow> int \<times> byte list" where
  "dsi_short_read2_resp buf msg =
     (if has_rx_buf msg \<and> msg_rx_len msg \<ge> 2 then (2, [buf ! 1, buf ! 2]) else (- EINVAL, []))"

definition dsi_long_read_resp :: "byte list \<Rightarrow> mipi_dsi_msg \<Rightarrow> int \<times> byte list" where
  "dsi_long_read_resp buf msg =
     (int (msg_rx_len msg), if has_rx_buf msg \<and> msg_rx_len msg \<noteq> 0 then take (msg_rx_len msg) (drop 4 buf) else [])"

definition max_pkt_size_msg :: "dsi_lib \<Rightarrow> nat \<Rightarrow> mipi_dsi_msg" where
  "max_pkt_size_msg l pkt_size = \<lparr>msg_type = hdr l ''MIPI_DSI_SET_MAXIMUM_RETURN_PACKET_SIZE'', use_lpm = False,
     msg_tx = le16_bytes (int pkt_size), msg_rx_len = 0, has_rx_buf = False\<rparr>"

definition clear_rdbk :: "'w dsi_env \<Rightarrow> msm_dsi_host \<Rightarrow> 'w \<Rightarrow> 'w" where
  "clear_rdbk env h w =
     (if is_6g env h \<and> cfg_minor h \<ge> hdr (lib env) ''MSM_DSI_6G_VER_MINOR_V1_1''
      then wr env ''DSI_RDBK_DATA_CTRL'' 0 (wr env ''DSI_RDBK_DATA_CTRL'' (BIT_OF env ''DSI_RDBK_DATA_CTRL_CLR'') w) else w)"

text \<open>One pass: the size is set, the command sent and the registers read; a result that ends the transfer, or the
  number of bytes read.\<close>

definition rx_pass :: "'w dsi_env \<Rightarrow> mipi_dsi_msg \<Rightarrow> nat \<Rightarrow> nat \<Rightarrow> nat \<Rightarrow> msm_dsi_host \<times> 'w \<Rightarrow> (msm_dsi_host \<times> 'w) \<times> (int + nat)" where
  "rx_pass env msg pkt_size rx_byte buf s =
     (let (s, ret) = dsi_cmds2buf_tx env (max_pkt_size_msg (lib env) pkt_size) s in
      if ret < 2 then (s, Inl (- EINVAL))
      else
        let s = (fst s, clear_rdbk env (fst s) (snd s));
            (s, ret) = dsi_cmds2buf_tx env msg s in
        if ret < 0 then (s, Inl ret)
        else if ret < int (length (msg_tx msg)) then (s, Inl (- ECOMM))
        else
          let (s, dlen) = dsi_cmd_dma_rx env buf rx_byte pkt_size s in
          (s, if dlen = 0 then Inl 0 else Inr dlen))"

text \<open>The passes.  The last argument of the result is the packet size and the remaining length at the end.\<close>

function rx_loop :: "'w dsi_env \<Rightarrow> mipi_dsi_msg \<Rightarrow> bool \<Rightarrow> nat \<Rightarrow> nat \<Rightarrow> nat \<Rightarrow> nat \<Rightarrow> nat \<Rightarrow> msm_dsi_host \<times> 'w
    \<Rightarrow> (msm_dsi_host \<times> 'w) \<times> (int + nat \<times> nat)" where
  "rx_loop env msg short_response rlen pkt_size rx_byte data_byte buf s =
     (case rx_pass env msg pkt_size rx_byte buf s of
        (s, Inl ret) \<Rightarrow> (s, Inl ret)
      | (s, Inr dlen) \<Rightarrow>
          if short_response \<or> rlen \<le> data_byte then (s, Inr (pkt_size, rlen))
          else rx_loop env msg short_response (rlen - data_byte) (pkt_size + min (rlen - data_byte) 14) rx_byte 14
            (buf + (dlen - 2)) s)"
  by pat_completeness auto

termination
  by (relation "measure (\<lambda>(env, msg, sr, rlen, pkt, rxb, data_byte, buf, s). 2 * rlen + (if data_byte = 0 then 1 else 0))") auto

declare rx_loop.simps [simp del]

definition read_response :: "dsi_lib \<Rightarrow> byte list \<Rightarrow> mipi_dsi_msg \<Rightarrow> int \<times> byte list" where
  "read_response l buf msg =
     (let cmd = uint (buf ! 0); k = hdr l in
      if cmd = k ''MIPI_DSI_RX_ACKNOWLEDGE_AND_ERROR_REPORT'' then (0, [])
      else if cmd \<in> {k ''MIPI_DSI_RX_GENERIC_SHORT_READ_RESPONSE_1BYTE'', k ''MIPI_DSI_RX_DCS_SHORT_READ_RESPONSE_1BYTE''}
        then dsi_short_read1_resp buf msg
      else if cmd \<in> {k ''MIPI_DSI_RX_GENERIC_SHORT_READ_RESPONSE_2BYTE'', k ''MIPI_DSI_RX_DCS_SHORT_READ_RESPONSE_2BYTE''}
        then dsi_short_read2_resp buf msg
      else if cmd \<in> {k ''MIPI_DSI_RX_GENERIC_LONG_READ_RESPONSE'', k ''MIPI_DSI_RX_DCS_LONG_READ_RESPONSE''}
        then dsi_long_read_resp buf msg
      else (0, []))"

definition msm_dsi_host_cmd_rx :: "'w dsi_env \<Rightarrow> mipi_dsi_msg \<Rightarrow> msm_dsi_host \<times> 'w \<Rightarrow> (msm_dsi_host \<times> 'w) \<times> int \<times> byte list" where
  "msm_dsi_host_cmd_rx env msg s =
     (let rlen = msg_rx_len msg; short_response = (rlen \<le> 2) in
      case (if short_response then rx_loop env msg True rlen rlen 4 0 0 s
            else rx_loop env msg False rlen (min rlen 10) 16 10 0 s) of
        (s, Inl ret) \<Rightarrow> (s, ret, [])
      | (s, Inr (pkt_size, rlen)) \<Rightarrow>
          let off = (if pkt_size < 10 \<and> \<not> short_response then 10 - rlen else 0) in
          (s, read_response (lib env) (drop off (rx_buf (fst s))) msg))"

section \<open>Preparing the controller\<close>

definition msm_dsi_host_xfer_prepare :: "'w dsi_env \<Rightarrow> mipi_dsi_msg \<Rightarrow> msm_dsi_host \<times> 'w \<Rightarrow> msm_dsi_host \<times> 'w" where
  "msm_dsi_host_xfer_prepare env msg = (\<lambda>(h, w).
     let (h, w) = (if \<not> (power_on h \<and> enabled h)
           then fst (link_clk_enable env (fst (link_clk_set_rate env (hold RuntimePm h, w)))) else (h, w));
         w = (if \<not> use_lpm msg then dsi_set_tx_power_mode env False w else w);
         ctrl = rd env ''DSI_CTRL'' w;
         h = h\<lparr>dma_cmd_ctrl_restore := ctrl\<rparr>;
         w = wr env ''DSI_CTRL'' (ctrl OR BIT_OF env ''DSI_CTRL_CMD_MODE_EN'' OR BIT_OF env ''DSI_CTRL_ENABLE'') w in
     (h, dsi_intr_ctrl env (BIT_OF env ''DSI_IRQ_MASK_CMD_DMA_DONE'') True w))"

definition msm_dsi_host_xfer_restore :: "'w dsi_env \<Rightarrow> mipi_dsi_msg \<Rightarrow> msm_dsi_host \<times> 'w \<Rightarrow> msm_dsi_host \<times> 'w" where
  "msm_dsi_host_xfer_restore env msg = (\<lambda>(h, w).
     let w = dsi_intr_ctrl env (BIT_OF env ''DSI_IRQ_MASK_CMD_DMA_DONE'') False w;
         w = wr env ''DSI_CTRL'' (dma_cmd_ctrl_restore h) w;
         w = (if \<not> use_lpm msg then dsi_set_tx_power_mode env True w else w) in
     if \<not> (power_on h \<and> enabled h)
     then (let (h, w) = link_clk_disable env (h, w) in (drop_ref RuntimePm h, w)) else (h, w))"

text \<open>The entry point of the MIPI layer; the transfer itself goes through the manager of the two controllers.\<close>

definition dsi_host_transfer :: "'w dsi_env \<Rightarrow> bool \<Rightarrow> msm_dsi_host \<times> 'w \<Rightarrow> (msm_dsi_host \<times> 'w) \<times> int" where
  "dsi_host_transfer env has_msg = (\<lambda>(h, w).
     if \<not> has_msg \<or> \<not> power_on h then ((h, w), - EINVAL)
     else let (w, ret) = kcall env CmdXfer w in ((h, w), ret))"


section \<open>The image of a command\<close>

definition packet_well_formed :: "dsi_lib \<Rightarrow> mipi_dsi_msg \<Rightarrow> bool" where
  "packet_well_formed l msg \<longleftrightarrow> snd (create_packet l msg) = 0
     \<and> packet_size (fst (create_packet l msg)) = 4 + length (packet_payload (fst (create_packet l msg)))
     \<and> length (msg_tx msg) \<le> packet_size (fst (create_packet l msg))"

definition padding :: "nat \<Rightarrow> nat" where
  "padding n = (n + 3) div 4 * 4 - n"

text \<open>The header without its error correction byte, in the controller's order, the flags, the payload and bytes
  of ones up to a multiple of four.\<close>

definition command_image :: "dsi_lib \<Rightarrow> mipi_dsi_msg \<Rightarrow> byte list" where
  "command_image l msg =
     (let p = fst (create_packet l msg); hd = packet_header p in
      [hd ! 1, hd ! 2, hd ! 0, command_flags l msg] @ packet_payload p @ replicate (padding (packet_size p)) 0xff)"

lemma padded: "n \<le> (n + 3) div 4 * 4" for n :: nat
  by linarith

lemma length_command_image:
  "packet_well_formed l msg \<Longrightarrow> length (command_image l msg) = (packet_size (fst (create_packet l msg)) + 3) div 4 * 4"
  using padded [of "packet_size (fst (create_packet l msg))"]
  by (simp add: command_image_def packet_well_formed_def Let_def padding_def)

lemma put_bytes_after: "off = length a \<Longrightarrow> put_bytes off bs (a @ r) = a @ bs @ drop (length bs) r"
  by (simp add: put_bytes_def)

lemma length_put_bytes: "off + length bs \<le> length buf \<Longrightarrow> length (put_bytes off bs buf) = length buf"
  by (simp add: put_bytes_def)

lemma take_put_bytes: "off \<le> length buf \<Longrightarrow> take (off + length bs) (put_bytes off bs buf) = take off buf @ bs"
  by (simp add: put_bytes_def)

lemma dsi_cmd_dma_add_image:
  assumes "packet_well_formed (lib env) msg" "tx_buf_get env h w = (w', ret)"
  defines "im \<equiv> command_image (lib env) msg"
  shows "dsi_cmd_dma_add env msg (h, w) =
    (if tx_size h < length im then ((h, w), - EINVAL) else if ret < 0 then ((h, w'), ret)
     else ((h\<lparr>tx_buf := im @ drop (length im) (tx_buf h)\<rparr>, w'), int (length im)))"
proof -
  obtain p where p: "create_packet (lib env) msg = (p, 0)" and size: "packet_size p = 4 + length (packet_payload p)"
    using assms(1) by (metis packet_well_formed_def prod.collapse)
  define n where "n = packet_size p"
  define head where "head = [packet_header p ! 1, packet_header p ! 2, packet_header p ! 0, command_flags (lib env) msg]"
  have len: "length im = (n + 3) div 4 * 4" using length_command_image [OF assms(1)] p by (simp add: im_def n_def)
  have im: "im = head @ packet_payload p @ replicate (padding n) 0xff"
    by (simp add: im_def command_image_def p Let_def head_def n_def)
  have h4: "length head = 4" by (simp add: head_def)
  have "put_bytes n (replicate (padding n) 0xff) (put_bytes 4 (packet_payload p) (put_bytes 0 head (tx_buf h)))
      = put_bytes n (replicate (padding n) 0xff) ((head @ packet_payload p) @ drop n (tx_buf h))"
    using h4 put_bytes_after [of 0 "[]" head "tx_buf h"] put_bytes_after [of 4 head "packet_payload p" "drop 4 (tx_buf h)"]
    by (simp add: n_def size add.commute)
  also have "\<dots> = im @ drop (padding n) (drop n (tx_buf h))"
    using h4 put_bytes_after [of n "head @ packet_payload p" "replicate (padding n) 0xff" "drop n (tx_buf h)"]
    by (simp add: n_def size im)
  also have "\<dots> = im @ drop (length im) (tx_buf h)" using padded [of n] by (simp add: len padding_def)
  finally show ?thesis
    using assms(2) p len by (simp add: dsi_cmd_dma_add_def Let_def n_def padding_def head_def)
qed

text \<open>A command is laid out for the controller's DMA as the hardware wants it: the three header bytes in its
  order, the flags, the payload, padded with ones to a multiple of four bytes; a command longer than the
  buffer is refused before the buffer is touched, the rest of the buffer and of the host stays as it was, and
  what is sent is the multiple of four bytes just laid out.\<close>

theorem command_layout:
  assumes "packet_well_formed (lib env) msg" "tx_buf_get env h w = (w', 0)"
  shows "let im = command_image (lib env) msg; n = packet_size (fst (create_packet (lib env) msg)) in
    length im mod 4 = 0 \<and> n \<le> length im \<and> length im < n + 4
    \<and> dsi_cmd_dma_add env msg (h, w) =
      (if tx_size h < length im then ((h, w), - EINVAL)
       else ((h\<lparr>tx_buf := im @ drop (length im) (tx_buf h)\<rparr>, w'), int (length im)))"
proof -
  define n where "n = packet_size (fst (create_packet (lib env) msg))"
  have "(n + 3) div 4 * 4 mod 4 = 0" "n \<le> (n + 3) div 4 * 4" "(n + 3) div 4 * 4 < n + 4" by simp linarith+
  then show ?thesis
    using length_command_image [OF assms(1)] dsi_cmd_dma_add_image [OF assms] by (simp add: Let_def n_def)
qed

section \<open>A device that answers\<close>

text \<open>What the theorem on reading asks of the devices: the calls that map the buffer succeed; neither register
  writes nor calls other than transfers change the panel's maximum return size (\<open>limit\<close>); a transfer of
  the command that sets it does so; after a transfer of the read command the last bytes of the answer for the
  present size, as many as fit, are in the read-back registers, and waiting for the completion succeeds and
  leaves them.\<close>

definition reading_device :: "'w dsi_env \<Rightarrow> mipi_dsi_msg \<Rightarrow> nat \<Rightarrow> (nat \<Rightarrow> byte list) \<Rightarrow> ('w \<Rightarrow> nat) \<Rightarrow> bool" where
  "reading_device env msg most answer limit \<longleftrightarrow>
     (\<forall>name v w. limit (wr env name v w) = limit w)
     \<and> (\<forall>c w. (\<forall>base bs. c \<noteq> TriggerXfer base bs) \<longrightarrow> limit (fst (kcall env c w)) = limit w)
     \<and> (\<forall>w. 0 \<le> snd (kcall env TxBufGet w) \<and> 0 \<le> snd (kcall env DmaBaseGet w) \<and> snd (kcall env WaitDmaDone w) \<noteq> 0)
     \<and> (\<forall>w i. rdbk env i (fst (kcall env WaitDmaDone w)) = rdbk env i w)
     \<and> (\<forall>n\<le>most. \<forall>base w. limit (fst (kcall env (TriggerXfer base (command_image (lib env) (max_pkt_size_msg (lib env) n))) w)) = n)
     \<and> (\<forall>base w. limit w \<le> most \<longrightarrow>
          drop (16 - (limit w + 6)) (rdbk_image env 4 (fst (kcall env (TriggerXfer base (command_image (lib env) msg)) w)))
            = drop (limit w + 6 - 16) (answer (limit w)))"

text \<open>A command the host can send in its state.\<close>

definition sendable :: "dsi_lib \<Rightarrow> msm_dsi_host \<Rightarrow> mipi_dsi_msg \<Rightarrow> bool" where
  "sendable l h msg \<longleftrightarrow> packet_well_formed l msg \<and> length (command_image l msg) \<le> tx_size h
     \<and> (MODE_VIDEO \<in> set (host_flags h) \<longrightarrow> int (length (command_image l msg)) \<le> bllp_len l h)
     \<and> (cfg_ops h = OPS_V2 \<longrightarrow> 0 \<le> tx_buf_paddr h)"

definition buffers :: "byte list \<Rightarrow> byte list \<Rightarrow> msm_dsi_host \<Rightarrow> msm_dsi_host" where
  "buffers t r h = h\<lparr>tx_buf := t, rx_buf := r\<rparr>"

lemma sendable_buffers [simp]: "sendable l (buffers t r h) msg = sendable l h msg"
  by (simp add: sendable_def buffers_def bllp_len_def split: option.split)

lemma buffers_fields [simp]: "tx_buf (buffers t r h) = t" "rx_buf (buffers t r h) = r" "tx_size (buffers t r h) = tx_size h"
  "(buffers t r h)\<lparr>tx_buf := t'\<rparr> = buffers t' r h" "(buffers t r h)\<lparr>rx_buf := r'\<rparr> = buffers t r' h"
  by (simp_all add: buffers_def)

lemma limit_wait:
  assumes "reading_device env msg most answer limit"
  shows "limit (dsi_wait4video_eng_busy env h w) = limit w"
  using assms by (simp add: reading_device_def dsi_wait4video_eng_busy_def dsi_wait4video_done_def dsi_intr_ctrl_def Let_def)

lemma limit_clear:
  assumes "reading_device env msg most answer limit"
  shows "limit (clear_rdbk env h w) = limit w"
  using assms by (simp add: reading_device_def clear_rdbk_def)

text \<open>A sendable command is sent: its image goes out once, in a state with the panel's limit unchanged, and only
  a wait for the completion may follow.\<close>

lemma reading_deviceD:
  assumes "reading_device env msg most answer limit"
  shows "0 \<le> snd (kcall env TxBufGet w)" "0 \<le> snd (kcall env DmaBaseGet w)" "snd (kcall env WaitDmaDone w) \<noteq> 0"
    "rdbk env i (fst (kcall env WaitDmaDone w)) = rdbk env i w" "limit (fst (kcall env TxBufGet w)) = limit w"
    "limit (fst (kcall env DmaBaseGet w)) = limit w" "limit (fst (kcall env WaitDmaDone w)) = limit w"
  using assms by (simp_all add: reading_device_def)

lemma dma_base_get_ok:
  assumes "reading_device env msg0 most answer limit" "sendable (lib env) h msg" "dma_base_get env h w = (w', base)"
  shows "0 \<le> base \<and> limit w' = limit w"
proof (cases "cfg_ops h = OPS_V2")
  case True
  then show ?thesis using assms(2,3) by (auto simp: dma_base_get_def sendable_def)
next
  case False
  then have "kcall env DmaBaseGet w = (w', base)" using assms(3) by (simp add: dma_base_get_def)
  then show ?thesis using reading_deviceD(2,6) [OF assms(1), where w = w] by simp
qed

lemma tx_buf_get_ok:
  assumes "reading_device env msg0 most answer limit" "tx_buf_get env h w = (w', ret)"
  shows "0 \<le> ret \<and> limit w' = limit w"
proof (cases "cfg_ops h = OPS_V2")
  case True
  then show ?thesis using assms(2) by (auto simp: tx_buf_get_def)
next
  case False
  then have "kcall env TxBufGet w = (w', ret)" using assms(2) by (simp add: tx_buf_get_def)
  then show ?thesis using reading_deviceD(1,5) [OF assms(1), where w = w] by simp
qed

lemma wait_dma_done_ok:
  assumes "reading_device env msg0 most answer limit"
  obtains w' ret where "kcall env WaitDmaDone w = (w', ret)" "ret \<noteq> 0" "limit w' = limit w" "\<And>i. rdbk env i w' = rdbk env i w"
proof -
  obtain w1 r1 where k: "kcall env WaitDmaDone w = (w1, r1)" by fastforce
  then have "r1 \<noteq> 0" "limit w1 = limit w" "\<And>i. rdbk env i w1 = rdbk env i w"
    using reading_deviceD [OF assms(1), where w = w] by simp_all
  then show ?thesis using that k by blast
qed

lemma dsi_cmd_dma_tx_ok:
  assumes "reading_device env msg0 most answer limit" "sendable (lib env) h msg"
  obtains w' w1 base where "dsi_cmd_dma_tx env len h w = (w', int len)" "limit w1 = limit w"
    "limit w' = limit (fst (kcall env (TriggerXfer base (take len (tx_buf h))) w1))"
    "\<And>i. rdbk env i w' = rdbk env i (fst (kcall env (TriggerXfer base (take len (tx_buf h))) w1))"
proof -
  obtain wa base where b: "dma_base_get env h w = (wa, base)" "0 \<le> base" "limit wa = limit w"
    using dma_base_get_ok [OF assms] by (metis prod.exhaust)
  define w1 where "w1 = dsi_wait4video_eng_busy env h (fst (kcall env ReinitDma wa))"
  have "limit (fst (kcall env ReinitDma wa)) = limit wa" using assms(1) by (simp add: reading_device_def)
  then have w1: "limit w1 = limit w" using limit_wait [OF assms(1)] b(3) by (simp add: w1_def)
  obtain w2 trig where t: "kcall env (TriggerXfer base (take len (tx_buf h))) w1 = (w2, trig)" by fastforce
  obtain w3 r where d: "kcall env WaitDmaDone w2 = (w3, r)" "r \<noteq> 0" "limit w3 = limit w2" "\<And>i. rdbk env i w3 = rdbk env i w2"
    using wait_dma_done_ok [OF assms(1), where w = w2] by blast
  have "dsi_cmd_dma_tx env len h w = (if trig \<noteq> 0 then w3 else w2, int len)"
    using b(1,2) t d(1,2) by (simp add: dsi_cmd_dma_tx_def w1_def [symmetric])
  then show ?thesis using that [OF _ w1, of "if trig \<noteq> 0 then w3 else w2" base] t d(3,4) by simp
qed

lemma dsi_cmds2buf_tx_ok:
  assumes "reading_device env msg0 most answer limit" "sendable (lib env) h msg" "length t = tx_size h"
  obtains w' w1 base t' where
    "dsi_cmds2buf_tx env msg (buffers t r h, w) = ((buffers t' r h, w'), int (length (command_image (lib env) msg)))"
    "length t' = tx_size h" "limit w1 = limit w"
    "limit w' = limit (fst (kcall env (TriggerXfer base (command_image (lib env) msg)) w1))"
    "\<And>i. rdbk env i w' = rdbk env i (fst (kcall env (TriggerXfer base (command_image (lib env) msg)) w1))"
proof -
  define im where "im = command_image (lib env) msg"
  define t' where "t' = im @ drop (length im) t"
  have wf: "packet_well_formed (lib env) msg" and len: "length im \<le> tx_size h" using assms(2) by (simp_all add: sendable_def im_def)
  have t': "length t' = tx_size h" "take (length im) t' = im" using len assms(3) by (simp_all add: t'_def)
  obtain wa ret where g: "tx_buf_get env (buffers t r h) w = (wa, ret)" "0 \<le> ret" "limit wa = limit w"
    using tx_buf_get_ok [OF assms(1)] by (metis prod.exhaust)
  have add: "dsi_cmd_dma_add env msg (buffers t r h, w) = ((buffers t' r h, wa), int (length im))"
    using dsi_cmd_dma_add_image [OF wf g(1)] len g(2) by (simp add: im_def [symmetric] t'_def)
  have s: "sendable (lib env) (buffers t' r h) msg" using assms(2) by simp
  then have bl: "\<not> (MODE_VIDEO \<in> set (host_flags (buffers t' r h)) \<and> int (length im) > bllp_len (lib env) (buffers t' r h))"
    by (auto simp: sendable_def im_def)
  obtain w' w1 base where tx: "dsi_cmd_dma_tx env (length im) (buffers t' r h) wa = (w', int (length im))" "limit w1 = limit wa"
    "limit w' = limit (fst (kcall env (TriggerXfer base im) w1))"
    "\<And>i. rdbk env i w' = rdbk env i (fst (kcall env (TriggerXfer base im) w1))"
    using dsi_cmd_dma_tx_ok [OF assms(1) s, of "length im" wa] by (metis buffers_fields(1) t'(2))
  have "dsi_cmds2buf_tx env msg (buffers t r h, w) = ((buffers t' r h, w'), int (length im))"
    using add bl tx(1) by (auto simp: dsi_cmds2buf_tx_def)
  then show ?thesis using that t'(1) tx g(3) by (simp add: im_def)
qed

text \<open>One pass of the loop, then: the last bytes of the answer are appended.\<close>

lemma rdbk_image_cong: "(\<And>i. rdbk env i w = rdbk env i w') \<Longrightarrow> rdbk_image env n w = rdbk_image env n w'"
  by (simp add: rdbk_image_def)

lemma length_rdbk_image [simp]: "n \<le> 4 \<Longrightarrow> length (rdbk_image env n w) = 16"
  by (simp add: rdbk_image_def length_concat comp_def be_bytes_def sum_list_triv)

lemma rx_pass_ok:
  assumes dev: "reading_device env msg most answer limit" and msg: "sendable (lib env) h msg"
    and size: "sendable (lib env) h (max_pkt_size_msg (lib env) n)" and t: "length t = tx_size h" and n: "n \<le> most"
    and rep: "buf + 10 < n + 16"
  obtains t' w' im where
    "rx_pass env msg n 16 buf (buffers t r h, w)
      = ((buffers t' (put_bytes buf (drop (if n > 10 then buf + 10 - n else 0) im) r) h, w'),
         Inr (16 - (if n > 10 then buf + 10 - n else 0)))"
    "length t' = tx_size h" "length im = 16" "drop (16 - (n + 6)) im = drop (n + 6 - 16) (answer n)"
proof -
  let ?m = "max_pkt_size_msg (lib env) n"
  obtain wa w1 ba ta where a: "dsi_cmds2buf_tx env ?m (buffers t r h, w) = ((buffers ta r h, wa), int (length (command_image (lib env) ?m)))"
    "length ta = tx_size h" "limit wa = limit (fst (kcall env (TriggerXfer ba (command_image (lib env) ?m)) w1))"
    using dsi_cmds2buf_tx_ok [OF dev size t, of r w] by metis
  have wa: "limit wa = n" using dev n a(3) by (simp add: reading_device_def)
  define wb where "wb = clear_rdbk env (buffers ta r h) wa"
  obtain wc w2 bc tc where c: "dsi_cmds2buf_tx env msg (buffers ta r h, wb) = ((buffers tc r h, wc), int (length (command_image (lib env) msg)))"
    "length tc = tx_size h" "limit w2 = limit wb"
    "\<And>i. rdbk env i wc = rdbk env i (fst (kcall env (TriggerXfer bc (command_image (lib env) msg)) w2))"
    using dsi_cmds2buf_tx_ok [OF dev msg a(2), of r wb] by metis
  define im where "im = rdbk_image env 4 wc"
  have "limit w2 = n" using limit_clear [OF dev] wa c(3) by (simp add: wb_def)
  then have im: "drop (16 - (n + 6)) im = drop (n + 6 - 16) (answer n)"
    using dev n unfolding reading_device_def im_def rdbk_image_cong [of env wc, OF c(4)] by metis
  have ge: "4 \<le> length (command_image (lib env) ?m)" by (simp add: command_image_def Let_def)
  have tx: "length (msg_tx msg) \<le> length (command_image (lib env) msg)"
    using msg length_command_image [of "lib env" msg] padded [of "packet_size (fst (create_packet (lib env) msg))"]
    by (simp add: sendable_def packet_well_formed_def)
  have rx: "dsi_cmd_dma_rx env buf 16 n (buffers tc r h, wc)
      = ((buffers tc (put_bytes buf (drop (if n > 10 then buf + 10 - n else 0) im) r) h, wc), 16 - (if n > 10 then buf + 10 - n else 0))"
  proof -
    have rb: "nat (if n + 6 > 16 then int buf - (int (n + 6) - 16) else 0) = (if n > 10 then buf + 10 - n else 0)" by auto
    have rd: "(if (16::nat) = 4 then 4 else n + 6) = n + 6" "min 4 ((16 + 3) div 4) = (4::nat)" by simp_all
    show ?thesis
      by (simp only: dsi_cmd_dma_rx_def prod.case Let_def rd rb im_def [symmetric] buffers_fields length_drop)
        (simp add: im_def)
  qed
  have "rx_pass env msg n 16 buf (buffers t r h, w)
      = ((buffers tc (put_bytes buf (drop (if n > 10 then buf + 10 - n else 0) im) r) h, wc), Inr (16 - (if n > 10 then buf + 10 - n else 0)))"
    using a(1) c(1) ge tx rx rep by (auto simp: rx_pass_def wb_def [symmetric])
  then show ?thesis using that c(2) im by (simp add: im_def)
qed


section \<open>A long answer is put together again\<close>

text \<open>The types of the answers, as the MIPI standard numbers them.\<close>

definition mipi_types :: "dsi_lib \<Rightarrow> bool" where
  "mipi_types l \<longleftrightarrow> hdr l ''MIPI_DSI_RX_ACKNOWLEDGE_AND_ERROR_REPORT'' = 0x02
     \<and> hdr l ''MIPI_DSI_RX_GENERIC_SHORT_READ_RESPONSE_1BYTE'' = 0x11 \<and> hdr l ''MIPI_DSI_RX_GENERIC_SHORT_READ_RESPONSE_2BYTE'' = 0x12
     \<and> hdr l ''MIPI_DSI_RX_GENERIC_LONG_READ_RESPONSE'' = 0x1a \<and> hdr l ''MIPI_DSI_RX_DCS_LONG_READ_RESPONSE'' = 0x1c
     \<and> hdr l ''MIPI_DSI_RX_DCS_SHORT_READ_RESPONSE_1BYTE'' = 0x21 \<and> hdr l ''MIPI_DSI_RX_DCS_SHORT_READ_RESPONSE_2BYTE'' = 0x22"

definition long_answer :: "(nat \<Rightarrow> byte list) \<Rightarrow> byte list \<Rightarrow> (nat \<Rightarrow> byte list) \<Rightarrow> nat \<Rightarrow> byte list" where
  "long_answer hdr4 payload crc n = hdr4 n @ take n payload @ crc n"

definition framed :: "(nat \<Rightarrow> byte list) \<Rightarrow> (nat \<Rightarrow> byte list) \<Rightarrow> bool" where
  "framed hdr4 crc \<longleftrightarrow> (\<forall>n. length (hdr4 n) = 4 \<and> length (crc n) = 2)"

lemma drop_long_answer:
  "framed hdr4 crc \<Longrightarrow> d \<le> n \<Longrightarrow> n \<le> length payload \<Longrightarrow>
    drop (4 + d) (long_answer hdr4 payload crc n) = drop d (take n payload) @ crc n"
  by (simp add: framed_def long_answer_def)

text \<open>The bytes of one later pass.\<close>

lemma later_pass_bytes:
  assumes "framed hdr4 crc" "10 \<le> d" "m \<le> 14" "d + m \<le> length payload"
    and im: "drop (16 - (d + m + 6)) im = drop (d + m + 6 - 16) (long_answer hdr4 payload crc (d + m))"
  shows "drop (14 - m) im = take m (drop d payload) @ crc (d + m)"
proof -
  have "im = drop (d + m - 10) (long_answer hdr4 payload crc (d + m))" using im assms(2) by simp
  then have "drop (14 - m) im = drop (4 + d) (long_answer hdr4 payload crc (d + m))"
    using assms(2,3) by (simp add: add.commute)
  then show ?thesis using drop_long_answer [OF assms(1), of d "d + m" payload] assms(4) by (simp add: drop_take)
qed

lemma append_pass:
  assumes "take (4 + d) r = x @ take d payload" "length b = m" "length c = 2" "4 + d + m + 2 \<le> length r" "b = take m (drop d payload)"
  shows "take (4 + (d + m)) (put_bytes (4 + d) (b @ c) r) = x @ take (d + m) payload"
    "length (put_bytes (4 + d) (b @ c) r) = length r"
proof -
  have split: "put_bytes (4 + d) (b @ c) r = (take (4 + d) r @ b) @ c @ drop (4 + d + length (b @ c)) r" by (simp add: put_bytes_def)
  have "length (take (4 + d) r @ b) = 4 + (d + m)" using assms(2,4) by simp
  then have "take (4 + (d + m)) (put_bytes (4 + d) (b @ c) r) = take (4 + d) r @ b"
    unfolding split by (simp only: take_append) simp
  then show "take (4 + (d + m)) (put_bytes (4 + d) (b @ c) r) = x @ take (d + m) payload"
    using assms(1,5) by (simp add: take_add)
  show "length (put_bytes (4 + d) (b @ c) r) = length r" using assms(2-4) by (intro length_put_bytes) simp
qed

lemma rx_loop_later:
  assumes dev: "reading_device env msg most (long_answer hdr4 payload crc) limit" and fr: "framed hdr4 crc"
    and msg: "sendable (lib env) h msg" and size: "\<forall>n\<le>most. sendable (lib env) h (max_pkt_size_msg (lib env) n)"
    and whole: "whole \<le> most" "whole \<le> length payload"
  shows "10 \<le> d \<Longrightarrow> 0 < left \<Longrightarrow> d + left = whole \<Longrightarrow> length t = tx_size h \<Longrightarrow> 6 + whole \<le> length r
    \<Longrightarrow> take (4 + d) r = hdr4 10 @ take d payload
    \<Longrightarrow> \<exists>t' r' w' rl. rx_loop env msg False left (d + min left 14) 16 14 (4 + d) (buffers t r h, w) = ((buffers t' r' h, w'), Inr (whole, rl))
      \<and> take (4 + whole) r' = hdr4 10 @ take whole payload \<and> length r' = length r"
proof (induction left arbitrary: d t r w rule: less_induct)
  case (less left)
  define m n where "m = min left 14" and "n = d + m"
  have mn: "0 < m" "m \<le> 14" "10 < n" "n \<le> whole" "m \<le> left" using less.prems by (auto simp: m_def n_def)
  have rep: "(if n > 10 then 4 + d + 10 - n else 0) = 14 - m" "16 - (14 - m) = m + 2" using mn by (auto simp: n_def)
  have room: "4 + d + 10 < n + 16" using mn(1) by (simp add: n_def)
  have nm: "n \<le> most" "sendable (lib env) h (max_pkt_size_msg (lib env) n)" using mn(4) whole(1) size by auto
  obtain t1 w1 im where pass: "rx_pass env msg n 16 (4 + d) (buffers t r h, w)
        = ((buffers t1 (put_bytes (4 + d) (drop (14 - m) im) r) h, w1), Inr (m + 2))"
      "length t1 = tx_size h" "length im = 16" "drop (16 - (n + 6)) im = drop (n + 6 - 16) (long_answer hdr4 payload crc n)"
    using rx_pass_ok [OF dev msg nm(2) less.prems(4) nm(1) room, where r = r and w = w] unfolding rep by blast
  have im: "drop (14 - m) im = take m (drop d payload) @ crc n"
    using later_pass_bytes [OF fr less.prems(1) mn(2), of payload im] pass(4) mn(4) whole(2) by (simp add: n_def)
  define r1 where "r1 = put_bytes (4 + d) (take m (drop d payload) @ crc n) r"
  have len: "length (take m (drop d payload)) = m" "length (crc n) = 2" "4 + d + m + 2 \<le> length r"
    using fr mn(4) whole(2) less.prems(5) by (simp_all add: framed_def n_def)
  have r1: "take (4 + n) r1 = hdr4 10 @ take n payload" "length r1 = length r"
    using append_pass [OF less.prems(6) len refl] by (simp_all add: r1_def n_def)
  note step = rx_loop.simps [of env msg False left n 16 14 "4 + d" "(buffers t r h, w)", unfolded pass(1) im r1_def [symmetric]]
  show ?case
  proof (cases "left \<le> 14")
    case True
    then have "n = whole" using less.prems(3) by (simp add: n_def m_def)
    then show ?thesis using step True r1 by (auto simp: n_def m_def)
  next
    case False
    then have m14: "m = 14" by (simp add: m_def)
    have "left - 14 < left" "10 \<le> n" "0 < left - 14" "n + (left - 14) = whole" using False m14 less.prems by (auto simp: n_def)
    then have "\<exists>t' r' w' rl. rx_loop env msg False (left - 14) (n + min (left - 14) 14) 16 14 (4 + n) (buffers t1 r1 h, w1)
        = ((buffers t' r' h, w'), Inr (whole, rl)) \<and> take (4 + whole) r' = hdr4 10 @ take whole payload \<and> length r' = length r1"
      using less.IH [of "left - 14" n t1 r1 w1] pass(2) r1 less.prems(5) by simp
    then show ?thesis using step False m14 r1(2) by (simp add: n_def m_def add.assoc)
  qed
qed

lemma long_response:
  assumes "mipi_types l" "uint (buf ! 0) \<in> {0x1a, 0x1c}" "has_rx_buf msg" "msg_rx_len msg \<noteq> 0"
  shows "read_response l buf msg = (int (msg_rx_len msg), take (msg_rx_len msg) (drop 4 buf))"
  using assms by (auto simp: read_response_def mipi_types_def dsi_long_read_resp_def Let_def)

text \<open>The end of a read: from the contents of the buffer to what is delivered.\<close>

lemma cmd_rx_of_loop:
  assumes "mipi_types (lib env)" "framed hdr4 crc" "\<forall>n. uint (hdr4 n ! 0) \<in> {0x1a, 0x1c}" "has_rx_buf msg"
    and "2 < msg_rx_len msg" "length payload = msg_rx_len msg"
    and loop: "rx_loop env msg False (msg_rx_len msg) (min (msg_rx_len msg) 10) 16 10 0 s = ((h', w'), Inr (p, rl))"
    and off: "drop (if p < 10 then 10 - rl else 0) (rx_buf h') = hdr4 m @ payload @ rest"
  shows "msm_dsi_host_cmd_rx env msg s = ((h', w'), int (msg_rx_len msg), payload)"
proof -
  have "read_response (lib env) (hdr4 m @ payload @ rest) msg = (int (msg_rx_len msg), payload)"
  proof -
    have four: "length (hdr4 m) = 4" using assms(2) by (simp add: framed_def)
    then have "(hdr4 m @ payload @ rest) ! 0 = hdr4 m ! 0" by (simp add: nth_append)
    then have type: "uint ((hdr4 m @ payload @ rest) ! 0) \<in> {0x1a, 0x1c}" using assms(3) by (simp only:)
    have "msg_rx_len msg \<noteq> 0" using assms(5) by simp
    then show ?thesis using long_response [OF assms(1) type assms(4)] four assms(6) by simp
  qed
  then show ?thesis using loop off assms(5) by (simp add: msm_dsi_host_cmd_rx_def)
qed

text \<open>C21: A long answer of any length is put together correctly although only sixteen bytes of it can be read at a
  time: with a panel that answers each pass with the first bytes of the payload, as many as it has been
  allowed, the host delivers exactly the payload, in order and without repetition, and never writes past
  the receive buffer as long as the answer with its header and checksum fits into it.\<close>

theorem long_read_reassembled:
  assumes "mipi_types (lib env)" "framed hdr4 crc" "\<forall>n. uint (hdr4 n ! 0) \<in> {0x1a, 0x1c}"
    and "reading_device env msg (msg_rx_len msg) (long_answer hdr4 payload crc) limit"
    and "sendable (lib env) h msg" "\<forall>n\<le>msg_rx_len msg. sendable (lib env) h (max_pkt_size_msg (lib env) n)"
    and "length (tx_buf h) = tx_size h" "has_rx_buf msg" "2 < msg_rx_len msg" "length payload = msg_rx_len msg"
    and "16 \<le> length (rx_buf h)" "msg_rx_len msg + 6 \<le> length (rx_buf h)"
  shows "\<exists>t r w'. msm_dsi_host_cmd_rx env msg (h, w) = ((h\<lparr>tx_buf := t, rx_buf := r\<rparr>, w'), int (msg_rx_len msg), payload)
    \<and> length r = length (rx_buf h)"
proof -
  define k n where "k = msg_rx_len msg" and "n = min k 10"
  have h: "h = buffers (tx_buf h) (rx_buf h) h" by (simp add: buffers_def)
  have kn: "2 < k" "n \<le> k" "0 < n" "n \<le> 10" "n \<le> length payload" using assms(9,10) by (simp_all add: k_def n_def)
  have size: "\<forall>n\<le>k. sendable (lib env) h (max_pkt_size_msg (lib env) n)" using assms(6) by (simp add: k_def)
  have nm: "sendable (lib env) h (max_pkt_size_msg (lib env) n)" using size kn(2) by blast
  note dev = assms(4) [folded k_def]
  have room: "0 + 10 < n + 16" by simp
  have rep: "(if n > 10 then 0 + 10 - n else 0) = 0" by simp
  obtain t1 w1 im where pass: "rx_pass env msg n 16 0 (h, w) = ((buffers t1 (put_bytes 0 im (rx_buf h)) h, w1), Inr 16)"
      "length t1 = tx_size h" "length im = 16" "drop (16 - (n + 6)) im = drop (n + 6 - 16) (long_answer hdr4 payload crc n)"
    using rx_pass_ok [OF dev assms(5) nm assms(7) kn(2) room, where r = "rx_buf h" and w = w] unfolding rep drop_0 diff_zero h [symmetric] by blast
  define r1 where "r1 = put_bytes 0 im (rx_buf h)"
  have answer: "drop (10 - n) im = long_answer hdr4 payload crc n" using pass(4) kn(4) by simp
  have r1: "length r1 = length (rx_buf h)" "r1 = im @ drop 16 (rx_buf h)" using pass(3) assms(11) by (simp_all add: r1_def put_bytes_def)
  have len4: "length (hdr4 m) = 4" for m using assms(2) by (simp add: framed_def)
  note final = cmd_rx_of_loop [OF assms(1-3,8-10), of "(h, w)", folded k_def n_def]
  note step = rx_loop.simps [of env msg False k n 16 10 0 "(h, w)", unfolded pass(1) r1_def [symmetric]]
  show ?thesis
  proof (cases "k \<le> 10")
    case True
    then have nk: "n = k" by (simp add: n_def)
    have "drop (if k < 10 then 10 - k else 0) r1 = drop (10 - n) im @ drop 16 (rx_buf h)"
      using r1(2) pass(3) nk True by simp
    then have "drop (if k < 10 then 10 - k else 0) r1 = hdr4 k @ payload @ crc k @ drop 16 (rx_buf h)"
      using answer [unfolded nk] kn(5) assms(10) [folded k_def] by (simp add: nk long_answer_def)
    then have e: "msm_dsi_host_cmd_rx env msg (h, w) = ((h\<lparr>tx_buf := t1, rx_buf := r1\<rparr>, w1), int k, payload)"
      using final [of "buffers t1 r1 h" w1 k k k "crc k @ drop 16 (rx_buf h)"] step True nk by (simp add: buffers_def)
    show ?thesis by (intro exI conjI, rule e [unfolded k_def], rule r1(1))
  next
    case False
    then have n10: "n = 10" by (simp add: n_def)
    have "im = hdr4 10 @ take 10 payload @ crc 10" using answer by (simp add: n10 long_answer_def)
    then have start: "take (4 + 10) r1 = hdr4 10 @ take 10 payload"
      using r1(2) len4 [of 10] False assms(10) by (simp add: k_def)
    have "(10::nat) \<le> 10" "0 < k - 10" "10 + (k - 10) = k" "k \<le> length payload" "6 + k \<le> length r1"
      using False assms(10,12) r1(1) by (simp_all add: k_def)
    then obtain t' r' w' rl where later: "rx_loop env msg False (k - 10) (10 + min (k - 10) 14) 16 14 (4 + 10) (buffers t1 r1 h, w1)
        = ((buffers t' r' h, w'), Inr (k, rl))" "take (4 + k) r' = hdr4 10 @ take k payload" "length r' = length r1"
      using rx_loop_later [OF dev assms(2,5) size order.refl, where d = 10 and left = "k - 10" and t = t1 and r = r1 and w = w1]
        pass(2) start by blast
    have "take (4 + k) r' = hdr4 10 @ payload" using later(2) assms(10) by (simp add: k_def)
    then have "r' = hdr4 10 @ payload @ drop (4 + k) r'" by (metis append.assoc append_take_drop_id)
    then have e: "msm_dsi_host_cmd_rx env msg (h, w) = ((h\<lparr>tx_buf := t', rx_buf := r'\<rparr>, w'), int k, payload)"
      using final [of "buffers t' r' h" w' k rl 10 "drop (4 + k) r'"] step later(1) False n10 by (simp add: buffers_def)
    show ?thesis by (intro exI conjI, rule e [unfolded k_def], simp only: later(3) r1(1))
  qed
qed

text \<open>A panel that answers with forty bytes: it keeps its limit and what the read-back registers hold.\<close>

definition word_of_bytes :: "byte \<Rightarrow> byte \<Rightarrow> byte \<Rightarrow> byte \<Rightarrow> 32 word" where
  "word_of_bytes a b c d = push_bit 24 (ucast a) OR push_bit 16 (ucast b) OR push_bit 8 (ucast c) OR ucast d"

lemma no_high_bit: "bit (b :: byte) (8 + n) = False" "bit (b :: byte) (16 + n) = False" "bit (b :: byte) (24 + n) = False"
  using bit_imp_le_length [of b "8 + n"] bit_imp_le_length [of b "16 + n"] bit_imp_le_length [of b "24 + n"] by auto

lemma be_bytes_word_of_bytes: "be_bytes (word_of_bytes a b c d) = [a, b, c, d]"
  by (auto simp: be_bytes_def word_of_bytes_def bit_simps no_high_bit intro!: bit_word_eqI)

definition sim_payload :: "byte list" where
  "sim_payload = map word_of_nat [100..<140]"

definition sim_header :: "nat \<Rightarrow> byte list" where
  "sim_header n = [0x1c, word_of_nat n, 0, 0x5a]"

definition sim_answer :: "nat \<Rightarrow> byte list" where
  "sim_answer n = long_answer sim_header sim_payload (\<lambda>_. [0xcc, 0xdd]) n"

definition sim_dev :: "byte list \<Rightarrow> nat \<times> byte list \<Rightarrow> nat \<times> byte list" where
  "sim_dev bs = (\<lambda>(limit, regs).
     if bs ! 2 = 0x37 then (nat (le16 bs), regs)
     else (let a = replicate 16 0 @ sim_answer limit in (limit, drop (length a - 16) a)))"

definition sim_lib :: "dsi_lib" where
  "sim_lib = \<lparr>hdr = (\<lambda>name. if name = ''MIPI_DSI_SET_MAXIMUM_RETURN_PACKET_SIZE'' then 0x37
       else if name = ''MIPI_DSI_RX_ACKNOWLEDGE_AND_ERROR_REPORT'' then 0x02
       else if name = ''MIPI_DSI_RX_GENERIC_SHORT_READ_RESPONSE_1BYTE'' then 0x11
       else if name = ''MIPI_DSI_RX_GENERIC_SHORT_READ_RESPONSE_2BYTE'' then 0x12
       else if name = ''MIPI_DSI_RX_GENERIC_LONG_READ_RESPONSE'' then 0x1a
       else if name = ''MIPI_DSI_RX_DCS_LONG_READ_RESPONSE'' then 0x1c
       else if name = ''MIPI_DSI_RX_DCS_SHORT_READ_RESPONSE_1BYTE'' then 0x21
       else if name = ''MIPI_DSI_RX_DCS_SHORT_READ_RESPONSE_2BYTE'' then 0x22 else 0),
     format_bpp = (\<lambda>_. 24), dsc_get_bpp_int = (\<lambda>_. 8), dsc_get_bytes_per_line = (\<lambda>_. 0), dsc_set_const_params = (\<lambda>dsc. dsc),
     dsc_setup_rc_params = (\<lambda>dsc. (dsc, 0)), dsc_initial_scale_value = (\<lambda>_. 32), dsc_compute_rc_parameters = (\<lambda>dsc. (dsc, 0)),
     create_packet = (\<lambda>msg. (\<lparr>packet_size = 4,
       packet_header = [word_of_int (msg_type msg), msg_tx msg ! 0, if length (msg_tx msg) = 2 then msg_tx msg ! 1 else 0, 0],
       packet_payload = []\<rparr>, if length (msg_tx msg) \<in> {1, 2} then 0 else - EINVAL)),
     format_is_long = (\<lambda>_. False)\<rparr>"

definition sim_env :: "(nat \<times> byte list) dsi_env" where
  "sim_env = \<lparr>rd = (\<lambda>_ _. 0),
     rdbk = (\<lambda>i (_, regs). let k = 4 * (3 - i) in word_of_bytes (regs ! k) (regs ! (k + 1)) (regs ! (k + 2)) (regs ! (k + 3))),
     wr = (\<lambda>_ _ w. w), fld = (\<lambda>_ _. 0), fget = (\<lambda>_ _. 0),
     kcall = (\<lambda>c w. case c of TriggerXfer base bs \<Rightarrow> (sim_dev bs w, 1) | _ \<Rightarrow> (w, 1)),
     uninit = (\<lambda>_. 0), lib = sim_lib\<rparr>"

definition sim_msg :: mipi_dsi_msg where
  "sim_msg = \<lparr>msg_type = 0x06, use_lpm = True, msg_tx = [0x0a], msg_rx_len = 40, has_rx_buf = True\<rparr>"

definition sim_host :: msm_dsi_host where
  "sim_host = \<lparr>host_mode = None, host_dsc = None, host_channel = 0, host_lanes = 4, host_format = RGB888, host_flags = [],
     dlane_swap = 0, num_data_lanes = 4, cphy_mode = False, byte_clk_rate = 0, byte_intf_clk_rate = 0, pixel_clk_rate = 0,
     esc_clk_rate = 0, src_clk_rate = 0, has_byte_intf_clk = False, has_sfpb = False, cfg_major = 3, cfg_minor = 0, cfg_ops = OPS_6G,
     err_work_state = 0, err_work = False, dma_cmd_ctrl_restore = 0, tx_size = 64, tx_buf = replicate 64 0, tx_buf_paddr = 0,
     rx_buf = replicate 64 0, ctrl_mapped = True, pm_enabled = True, has_cfg = True, host_id = 0, has_workqueue = True, registered = True, power_on = True, enabled = False, irq_enabled = True, held = (\<lambda>_. 0)\<rparr>"

lemma sixteen: "length xs = 16 \<Longrightarrow> map ((!) xs) [0..<16] = xs"
  by (metis map_nth)

lemma sim_image:
  assumes "length regs = 16"
  shows "rdbk_image sim_env 4 (l, regs) = regs"
proof -
  have "rdbk_image sim_env 4 (l, regs) = map ((!) regs) [0..<16]"
    by (simp add: rdbk_image_def sim_env_def be_bytes_word_of_bytes upt_rec) (simp add: numeral_eq_Suc)
  then show ?thesis using sixteen [OF assms] by simp
qed

lemma sim_command_images:
  "command_image sim_lib (max_pkt_size_msg sim_lib n) = le16_bytes (int n) @ [0x37, 0x80]"
  "command_image sim_lib sim_msg ! 2 = 6"
  by (simp_all add: command_image_def max_pkt_size_msg_def sim_lib_def sim_msg_def command_flags_def padding_def le16_bytes_def)

lemma sim_max_size: "n \<le> 40 \<Longrightarrow> sim_dev (le16_bytes (int n) @ [0x37, 0x80]) w = (n, snd w)"
  using le16_le16_bytes [of "int n"] by (cases w) (simp add: sim_dev_def le16_def le16_bytes_def)

lemma sim_reads:
  assumes "limit \<le> 40" "bs ! 2 = 6"
  shows "drop (16 - (limit + 6)) (rdbk_image sim_env 4 (sim_dev bs (limit, regs))) = drop (limit + 6 - 16) (sim_answer limit)"
proof -
  define a where "a = replicate 16 0 @ sim_answer limit"
  have len: "length (sim_answer limit) = limit + 6" using assms(1) by (simp add: sim_answer_def long_answer_def sim_header_def sim_payload_def)
  have "sim_dev bs (limit, regs) = (limit, drop (length a - 16) a)" using assms(2) by (simp add: sim_dev_def a_def Let_def)
  moreover have "length (drop (length a - 16) a) = 16" using len by (simp add: a_def)
  ultimately have "rdbk_image sim_env 4 (sim_dev bs (limit, regs)) = drop (limit + 6) a"
    using sim_image [of "drop (length a - 16) a"] len by (simp add: a_def)
  then show ?thesis using len by (cases "limit \<le> 10") (simp_all add: a_def)
qed

lemma sim_reading: "reading_device sim_env sim_msg 40 sim_answer fst"
proof -
  have k: "kcall sim_env (TriggerXfer base bs) w = (sim_dev bs w, 1)" for base bs w by (simp add: sim_env_def)
  have l: "lib sim_env = sim_lib" by (simp add: sim_env_def)
  have other: "fst (kcall sim_env c w) = w" if "\<forall>base bs. c \<noteq> TriggerXfer base bs" for c w
    using that by (cases c) (simp_all add: sim_env_def)
  have rest: "wr sim_env name v w = w" "snd (kcall sim_env TxBufGet w) = 1" "snd (kcall sim_env DmaBaseGet w) = 1"
    "snd (kcall sim_env WaitDmaDone w) = 1" for name v w by (simp_all add: sim_env_def)
  have "fst w \<le> 40 \<Longrightarrow> drop (16 - (fst w + 6)) (rdbk_image sim_env 4 (sim_dev (command_image sim_lib sim_msg) w))
      = drop (fst w + 6 - 16) (sim_answer (fst w))" for w
    using sim_reads [OF _ sim_command_images(2), of "fst w" "snd w"] by simp
  then show ?thesis
    unfolding reading_device_def l k fst_conv sim_command_images(1) by (simp add: other rest sim_max_size)
qed

theorem long_read_reassembled_witness:
  "\<exists>t r w'. msm_dsi_host_cmd_rx sim_env sim_msg (sim_host, (0, [])) = ((sim_host\<lparr>tx_buf := t, rx_buf := r\<rparr>, w'), 40, sim_payload)
    \<and> length r = 64"
proof -
  have l: "lib sim_env = sim_lib" by (simp add: sim_env_def)
  have size: "sendable sim_lib sim_host (max_pkt_size_msg sim_lib n)" for n
    unfolding sendable_def sim_command_images(1)
    by (simp add: sim_host_def packet_well_formed_def max_pkt_size_msg_def sim_lib_def)
  have read: "sendable sim_lib sim_host sim_msg" by code_simp
  have types: "mipi_types sim_lib" by code_simp
  have "framed sim_header (\<lambda>_. [0xcc, 0xdd])" "\<forall>n. uint (sim_header n ! 0) \<in> {0x1a, 0x1c}"
    by (simp_all add: framed_def sim_header_def)
  moreover have "reading_device sim_env sim_msg (msg_rx_len sim_msg) (long_answer sim_header sim_payload (\<lambda>_. [0xcc, 0xdd])) fst"
    using sim_reading by (simp add: sim_msg_def sim_answer_def [abs_def])
  moreover have "length (tx_buf sim_host) = tx_size sim_host" "has_rx_buf sim_msg" "2 < msg_rx_len sim_msg"
    "length sim_payload = msg_rx_len sim_msg" "16 \<le> length (rx_buf sim_host)" "msg_rx_len sim_msg + 6 \<le> length (rx_buf sim_host)"
    "msg_rx_len sim_msg = 40" "length (rx_buf sim_host) = 64"
    by (simp_all add: sim_host_def sim_msg_def sim_payload_def)
  ultimately show ?thesis
    using long_read_reassembled [of sim_env sim_header "\<lambda>_. [0xcc, 0xdd]" sim_msg sim_payload fst sim_host "(0, [])"] size read types
    by (simp add: l)
qed

theorem command_layout_witness:
  "command_image sim_lib (max_pkt_size_msg sim_lib 10) = [10, 0, 0x37, 0x80]
    \<and> dsi_cmd_dma_add sim_env (max_pkt_size_msg sim_lib 10) (sim_host\<lparr>cfg_ops := OPS_V2\<rparr>, (0, []))
      = ((sim_host\<lparr>cfg_ops := OPS_V2, tx_buf := [10, 0, 0x37, 0x80] @ replicate 60 0\<rparr>, (0, [])), 4)"
proof -
  have l: "lib sim_env = sim_lib" by (simp add: sim_env_def)
  have im: "command_image sim_lib (max_pkt_size_msg sim_lib 10) = [10, 0, 0x37, 0x80]"
    by (simp add: sim_command_images(1) le16_bytes_def)
  have "packet_well_formed sim_lib (max_pkt_size_msg sim_lib 10)"
    by (simp add: packet_well_formed_def max_pkt_size_msg_def sim_lib_def)
  moreover have "tx_buf_get sim_env (sim_host\<lparr>cfg_ops := OPS_V2\<rparr>) (0, []) = ((0, []), 0)"
    by (simp add: tx_buf_get_def)
  moreover have "tx_size sim_host = 64" "drop (Suc (Suc (Suc (Suc 0)))) (tx_buf sim_host) = replicate 60 0" by (simp_all add: sim_host_def)
  ultimately show ?thesis
    using command_layout [of sim_env "max_pkt_size_msg sim_lib 10" "sim_host\<lparr>cfg_ops := OPS_V2\<rparr>" "(0, [])" "(0, [])"]
    by (simp add: l im Let_def)
qed

section \<open>What a transfer holds\<close>

lemma RuntimePm_no_clock: "RuntimePm \<notin> link_clocks h"
  by (auto simp: link_clocks_def)

lemma prepare_host:
  defines "on \<equiv> \<lambda>h :: msm_dsi_host. power_on h \<and> enabled h"
  shows "\<exists>c. fst (msm_dsi_host_xfer_prepare env msg (h, w)) = h\<lparr>dma_cmd_ctrl_restore := c,
    held := \<lambda>q. held h q + (if \<not> on h \<and> (q = RuntimePm \<or> q \<in> link_clocks h
      \<and> snd (link_clk_enable env (fst (link_clk_set_rate env (hold RuntimePm h, w)))) = 0) then 1 else 0)\<rparr>"
proof (cases "on h")
  case True
  then show ?thesis by (auto simp: msm_dsi_host_xfer_prepare_def Let_def on_def)
next
  case False
  define s where "s = fst (link_clk_set_rate env (hold RuntimePm h, w))"
  have s: "fst s = hold RuntimePm h" using link_clk_set_rate_held [of env "hold RuntimePm h" w] by (simp add: s_def)
  obtain h2 w2 ret where e: "link_clk_enable env (hold RuntimePm h, snd s) = ((h2, w2), ret)" by (metis prod.exhaust)
  have lc: "link_clocks (hold RuntimePm h) = link_clocks h" by (simp add: link_clocks_def hold_def)
  note h2 = link_clk_enable_held [OF e, unfolded lc]
  define c where "c = rd env ''DSI_CTRL'' (if use_lpm msg then w2 else dsi_set_tx_power_mode env False w2)"
  have es: "link_clk_enable env s = ((h2, w2), ret)" using e s by (metis prod.collapse)
  have "fst (msm_dsi_host_xfer_prepare env msg (h, w)) = h2\<lparr>dma_cmd_ctrl_restore := c\<rparr>"
    using False es by (simp add: msm_dsi_host_xfer_prepare_def Let_def on_def s_def [symmetric] c_def)
  moreover have "held h2 = (\<lambda>q. held h q + (if q = RuntimePm \<or> q \<in> link_clocks h \<and> ret = 0 then 1 else 0))"
    using h2 RuntimePm_no_clock [of h] by (auto simp: hold_def fun_eq_iff)
  moreover have "h2 = h\<lparr>held := held h2\<rparr>" using h2 by (simp add: hold_def split: if_splits)
  ultimately have "fst (msm_dsi_host_xfer_prepare env msg (h, w)) = h\<lparr>dma_cmd_ctrl_restore := c,
      held := \<lambda>q. held h q + (if q = RuntimePm \<or> q \<in> link_clocks h \<and> ret = 0 then 1 else 0)\<rparr>" by simp
  then show ?thesis using False es by (simp add: s_def [symmetric] exI [where x = c])
qed

lemma restore_held:
  "held (fst (msm_dsi_host_xfer_restore env msg (h, w))) q
    = held h q - (if \<not> (power_on h \<and> enabled h) \<and> (q = RuntimePm \<or> q \<in> link_clocks h) then 1 else 0)"
proof (cases "power_on h \<and> enabled h")
  case True
  then show ?thesis by (simp add: msm_dsi_host_xfer_restore_def Let_def)
next
  case False
  obtain w1 where "fst (msm_dsi_host_xfer_restore env msg (h, w)) = drop_ref RuntimePm (fst (link_clk_disable env (h, w1)))"
    using False by (simp add: msm_dsi_host_xfer_restore_def Let_def case_prod_unfold)
  then show ?thesis using False RuntimePm_no_clock [of h] by (simp add: link_clk_disable_held drop_ref_def)
qed

text \<open>C28: The exact account of a transfer: between preparation and restoration the host takes a reference to the
  power domain and to every link clock unless video is running at the start, and gives one back unless video is
  running at the end.  So the counts are balanced whenever the state did not change meanwhile and the clocks could
  be enabled; when enabling fails, the clocks are given back all the same, although none was taken.\<close>

theorem transfer_accounting:
  "let (h1, w1) = msm_dsi_host_xfer_prepare env msg (h, w);
      h2 = (buffers t r h1)\<lparr>power_on := p, enabled := e\<rparr>;
      (h3, w3) = msm_dsi_host_xfer_restore env msg (h2, w2);
      got = snd (link_clk_enable env (fst (link_clk_set_rate env (hold RuntimePm h, w)))) = 0 in
    held h3 q = held h q
      + (if \<not> (power_on h \<and> enabled h) \<and> (q = RuntimePm \<or> q \<in> link_clocks h \<and> got) then 1 else 0)
      - (if \<not> (p \<and> e) \<and> (q = RuntimePm \<or> q \<in> link_clocks h) then 1 else 0)"
proof -
  obtain h1 w1 where p1: "msm_dsi_host_xfer_prepare env msg (h, w) = (h1, w1)" by fastforce
  obtain c where h1: "h1 = h\<lparr>dma_cmd_ctrl_restore := c, held := \<lambda>q. held h q + (if \<not> (power_on h \<and> enabled h) \<and> (q = RuntimePm \<or> q \<in> link_clocks h
      \<and> snd (link_clk_enable env (fst (link_clk_set_rate env (hold RuntimePm h, w)))) = 0) then 1 else 0)\<rparr>"
    using prepare_host [of env msg h w] p1 by auto
  define h2 where "h2 = (buffers t r h1)\<lparr>power_on := p, enabled := e\<rparr>"
  have h2: "held h2 = held h1" "power_on h2 = p" "enabled h2 = e" "link_clocks h2 = link_clocks h"
    by (simp_all add: h2_def buffers_def h1 link_clocks_def)
  have "held (fst (msm_dsi_host_xfer_restore env msg (h2, w2))) q
      = held h2 q - (if \<not> (p \<and> e) \<and> (q = RuntimePm \<or> q \<in> link_clocks h) then 1 else 0)"
    using restore_held [of env msg h2 w2 q] h2 by simp
  moreover have "held h1 q = held h q + (if \<not> (power_on h \<and> enabled h) \<and> (q = RuntimePm \<or> q \<in> link_clocks h
      \<and> snd (link_clk_enable env (fst (link_clk_set_rate env (hold RuntimePm h, w)))) = 0) then 1 else 0)"
    by (simp add: h1)
  moreover obtain h3 w3 where r: "msm_dsi_host_xfer_restore env msg (h2, w2) = (h3, w3)" by fastforce
  ultimately show ?thesis
    unfolding Let_def p1 prod.case h2_def [symmetric] r by (simp only: h2(1) fst_conv)
qed

end
