(* ===== verification/Dsi_Power.thy ===== *)
theory Dsi_Power
  imports Dsi_Calc Dsi_Transfer
begin

text \<open>
  The life of the DSI host (\<open>dsi_host.c\<close>): identification of the hardware, device tree and probing, attaching
  a panel, interrupts and their worker, powering and enabling, and the references to regulators, clocks and
  the power domain that all of it takes and gives back.  Locks are held for whole operations, so every
  operation is one step.  A service that is asked for during probing is named by a string (\<open>Acquire\<close>); it
  answers zero, or a negative error.
\<close>

unbundle bit_operations_syntax

section \<open>Identification\<close>

text \<open>Version registers at the old and at the new place; the generation and its minor version, or an error.\<close>

definition dsi_get_version :: "'w dsi_env \<Rightarrow> 'w \<Rightarrow> int + int \<times> int" where
  "dsi_get_version env w =
     (let k = hdr (lib env); ver = rd env ''DSI_VERSION'' w in
      if ver \<noteq> 0 then
        let ver = fget env ''DSI_VERSION_MAJOR'' ver in
        if ver \<le> k ''MSM_DSI_VER_MAJOR_V2'' then Inr (ver, 0) else Inl (- EINVAL)
      else
        let ver = fget env ''DSI_VERSION_MAJOR'' (rd env ''DSI_6G_REG_SHIFT+DSI_VERSION'' w) in
        if ver = k ''MSM_DSI_VER_MAJOR_6G'' then Inr (ver, uint (rd env ''DSI_6G_HW_VERSION'' w)) else Inl (- EINVAL))"

record dsi_cfg =
  dsi_major :: int
  dsi_minor :: int
  dsi_ops :: dsi_ops
  with_byte_intf :: bool
  io_start :: "int list list"

text \<open>The table of configurations is a parameter.  The interface clock and the power domain are held while the
  version is read.\<close>

definition dsi_get_config :: "'w dsi_env \<Rightarrow> (int \<Rightarrow> int \<Rightarrow> dsi_cfg option) \<Rightarrow> msm_dsi_host \<times> 'w \<Rightarrow> (msm_dsi_host \<times> 'w) \<times> dsi_cfg option" where
  "dsi_get_config env cfg_get = (\<lambda>(h, w).
     let (w, ret) = kcall env (Acquire ''iface'') w in
     if ret \<noteq> 0 then ((h, w), None)
     else
       let h = hold RuntimePm h; (w, ret) = kcall env IfaceEnable w in
       if ret \<noteq> 0 then ((drop_ref RuntimePm h, w), None)
       else
         let h = hold IfaceClock h;
             cfg = (case dsi_get_version env w of Inl _ \<Rightarrow> None | Inr (major, minor) \<Rightarrow> cfg_get major minor) in
         ((drop_ref RuntimePm (drop_ref IfaceClock h), w), cfg))"

definition dsi_host_get_id :: "int option \<Rightarrow> dsi_cfg \<Rightarrow> int" where
  "dsi_host_get_id start cfg =
     (case start of None \<Rightarrow> - EINVAL
      | Some a \<Rightarrow>
        (case concat (map (\<lambda>row. filter (\<lambda>j. row ! j = a) [0..<length row]) (io_start cfg)) of
           [] \<Rightarrow> - EINVAL | j # _ \<Rightarrow> int j))"

definition dsi_clk_init_v2 :: "kcall list" where
  "dsi_clk_init_v2 = [Acquire ''src'']"

definition dsi_clk_init_6g_v2 :: "kcall list" where
  "dsi_clk_init_6g_v2 = [Acquire ''byte_intf'']"

definition dsi_clk_init_6g_v2_9 :: "kcall list" where
  "dsi_clk_init_6g_v2_9 = dsi_clk_init_6g_v2
     @ [Acquire ''byte_src'', Acquire ''dsi_pll_byte'', Acquire ''pixel_src'', Acquire ''dsi_pll_pixel'']"

definition dsi_clk_init :: "'w dsi_env \<Rightarrow> dsi_cfg \<Rightarrow> 'w \<Rightarrow> 'w \<times> int" where
  "dsi_clk_init env cfg w =
     calls_until_error env ([Acquire ''bus clocks'', Acquire ''byte'', Acquire ''pixel'', Acquire ''core'']
       @ (case dsi_ops cfg of OPS_V2 \<Rightarrow> dsi_clk_init_v2
          | OPS_6G \<Rightarrow> if with_byte_intf cfg then dsi_clk_init_6g_v2 else []
          | OPS_6G_V2_9 \<Rightarrow> dsi_clk_init_6g_v2_9)) w"

section \<open>Lanes and device tree\<close>

definition supported_data_lane_swaps :: "nat list list" where
  "supported_data_lane_swaps = [[0, 1, 2, 3], [3, 0, 1, 2], [2, 3, 0, 1], [1, 2, 3, 0],
     [0, 3, 2, 1], [1, 0, 3, 2], [2, 1, 0, 3], [3, 2, 1, 0]]"

text \<open>An entry of a row; past its end C reads what follows in memory (\<open>beyond\<close>).\<close>

definition swap_at :: "(nat \<Rightarrow> nat \<Rightarrow> nat) \<Rightarrow> nat \<Rightarrow> nat \<Rightarrow> nat" where
  "swap_at beyond i k = (if k < 4 then supported_data_lane_swaps ! i ! k else beyond i k)"

definition lane_swap :: "(nat \<Rightarrow> nat \<Rightarrow> nat) \<Rightarrow> nat \<Rightarrow> nat list \<Rightarrow> nat option" where
  "lane_swap beyond num_lanes lane_map =
     find (\<lambda>i. \<forall>j<num_lanes. swap_at beyond i (lane_map ! j) = j) [0..<length supported_data_lane_swaps]"

text \<open>The property may be missing; its length may be bad (a negative count); reading its values may fail.\<close>

record endpoint =
  data_lanes :: "(int \<times> (int + nat list)) option"
  te_source :: int
  te_copied :: bool

definition dsi_host_parse_lane_data :: "(nat \<Rightarrow> nat \<Rightarrow> nat) \<Rightarrow> endpoint \<Rightarrow> msm_dsi_host \<Rightarrow> msm_dsi_host \<times> int" where
  "dsi_host_parse_lane_data beyond ep h =
     (case data_lanes ep of
        None \<Rightarrow> (h\<lparr>num_data_lanes := 4\<rparr>, 0)
      | Some (num_lanes, read) \<Rightarrow>
          if num_lanes < 0 then (h, num_lanes)
          else
            let h = h\<lparr>num_data_lanes := num_lanes\<rparr> in
            case read of Inl ret \<Rightarrow> (h, ret)
            | Inr lane_map \<Rightarrow>
                (case lane_swap beyond (nat num_lanes) lane_map of
                   Some i \<Rightarrow> (h\<lparr>dlane_swap := i\<rparr>, 0) | None \<Rightarrow> (h, - EINVAL)))"

text \<open>The device tree node: its endpoint if any, and what looking up the arbiter gives when the node names one.
  The last result tells whether a source of the tearing effect signal has been noted.\<close>

definition dsi_host_parse_dt :: "(nat \<Rightarrow> nat \<Rightarrow> nat) \<Rightarrow> endpoint option \<Rightarrow> int option \<Rightarrow> msm_dsi_host \<Rightarrow> (msm_dsi_host \<times> int) \<times> bool" where
  "dsi_host_parse_dt beyond node sfpb h =
     (case node of None \<Rightarrow> ((h, 0), False)
      | Some ep \<Rightarrow>
        let (h, ret) = dsi_host_parse_lane_data beyond ep h in
        if ret \<noteq> 0 then ((h, - EINVAL), False)
        else if te_source ep \<noteq> 0 \<and> te_source ep \<noteq> - EINVAL then ((h, te_source ep), False)
        else if te_source ep = 0 \<and> \<not> te_copied ep then ((h, - ENOMEM), False)
        else
          (case sfpb of None \<Rightarrow> (h, 0) | Some ret \<Rightarrow> (h\<lparr>has_sfpb := True\<rparr>, ret), te_source ep = 0))"

section \<open>Probing\<close>

record dsi_node =
  node_endpoint :: "endpoint option"
  node_sfpb :: "int option"
  node_ctrl :: "int option"
  node_irq :: int

text \<open>Sequences that a failure ends; every kind of failure is returned as the code it has in C.\<close>

definition msm_dsi_host_init :: "'w dsi_env \<Rightarrow> (int \<Rightarrow> int \<Rightarrow> dsi_cfg option) \<Rightarrow> (nat \<Rightarrow> nat \<Rightarrow> nat) \<Rightarrow> dsi_node \<Rightarrow> msm_dsi_host \<times> 'w
    \<Rightarrow> (msm_dsi_host \<times> 'w) \<times> int" where
  "msm_dsi_host_init env cfg_get beyond node = (\<lambda>(h, w).
     let ((h, ret), te) = dsi_host_parse_dt beyond (node_endpoint node) (node_sfpb node) h in
     if ret \<noteq> 0 then ((h, w), ret)
     else
       let (w, ret) = kcall env (Acquire ''dsi_ctrl'') w in
       if ret \<noteq> 0 then ((h, w), ret)
       else
         let ((h, w), cfg) = dsi_get_config env cfg_get (h\<lparr>ctrl_mapped := True, pm_enabled := True\<rparr>, w) in
         case cfg of None \<Rightarrow> ((h, w), - EINVAL)
         | Some cfg \<Rightarrow>
           let h = h\<lparr>has_cfg := True, cfg_major := dsi_major cfg, cfg_minor := dsi_minor cfg, cfg_ops := dsi_ops cfg,
                 host_id := dsi_host_get_id (node_ctrl node) cfg\<rparr> in
           if host_id h < 0 then ((h, w), host_id h)
           else
             let (w, ret) = kcall env (Acquire ''regulators'') w in
             if ret \<noteq> 0 then ((h, w), ret)
             else
               let (w, ret) = dsi_clk_init env cfg w in
               if ret \<noteq> 0 then ((h, w), ret)
               else
                 let h = h\<lparr>has_byte_intf_clk := (dsi_ops cfg = OPS_6G_V2_9 \<or> dsi_ops cfg = OPS_6G \<and> with_byte_intf cfg), rx_buf := replicate 4096 0\<rparr>;
                     (w, ret) = calls_until_error env [Acquire ''rx_buf'', Acquire ''opp clkname''] w in
                 if ret \<noteq> 0 then ((h, w), ret)
                 else
                   let (w, ret) = kcall env (Acquire ''opp table'') w in
                   if ret \<noteq> 0 \<and> ret \<noteq> - ENODEV then ((h, w), ret)
                   else if node_irq node = 0 then ((h, w), - EINVAL)
                   else
                     let (w, ret) = kcall env (Acquire ''irq'') w in
                     if ret < 0 then ((h, w), ret)
                     else
                       let (w, ret) = kcall env (Acquire ''workqueue'') w in
                       if ret \<noteq> 0 then ((h, w), - ENOMEM) else ((h\<lparr>has_workqueue := True\<rparr>, w), 0))"

definition msm_dsi_host_destroy :: "msm_dsi_host \<Rightarrow> msm_dsi_host" where
  "msm_dsi_host_destroy h = h\<lparr>has_workqueue := False, pm_enabled := False\<rparr>"

text \<open>The generation's buffer: the kernel rounds its size up to whole pages (the size is the call's result), or it
  is exactly as long as asked.\<close>

definition tx_buf_alloc :: "'w dsi_env \<Rightarrow> nat \<Rightarrow> msm_dsi_host \<times> 'w \<Rightarrow> (msm_dsi_host \<times> 'w) \<times> int" where
  "tx_buf_alloc env asked = (\<lambda>(h, w).
     let (w, ret) = kcall env (TxBufAlloc asked) w in
     if ret < 0 then ((h, w), if cfg_ops h = OPS_V2 then - ENOMEM else ret)
     else
       let got = (if cfg_ops h = OPS_V2 then asked else nat ret) in
       ((h\<lparr>tx_size := got, tx_buf := replicate got 0\<rparr>, w), 0))"

definition msm_dsi_host_modeset_init :: "'w dsi_env \<Rightarrow> msm_dsi_host \<times> 'w \<Rightarrow> (msm_dsi_host \<times> 'w) \<times> int" where
  "msm_dsi_host_modeset_init env s = tx_buf_alloc env 4096 s"

text \<open>Nothing is given back before there is a display device.\<close>

definition msm_dsi_tx_buf_free :: "bool \<Rightarrow> msm_dsi_host \<Rightarrow> msm_dsi_host" where
  "msm_dsi_tx_buf_free has_dev h = (if \<not> has_dev then h else h\<lparr>tx_buf := []\<rparr>)"

definition msm_dsi_host_register :: "'w dsi_env \<Rightarrow> msm_dsi_host \<times> 'w \<Rightarrow> (msm_dsi_host \<times> 'w) \<times> int" where
  "msm_dsi_host_register env = (\<lambda>(h, w).
     if \<not> registered h then
       let (w, ret) = kcall env HostRegister w in
       if ret \<noteq> 0 then ((h, w), ret) else ((h\<lparr>registered := True\<rparr>, w), 0)
     else ((h, w), 0))"

definition msm_dsi_host_unregister :: "'w dsi_env \<Rightarrow> msm_dsi_host \<times> 'w \<Rightarrow> msm_dsi_host \<times> 'w" where
  "msm_dsi_host_unregister env = (\<lambda>(h, w).
     if registered h then (h\<lparr>registered := False\<rparr>, fst (kcall env HostUnregister w)) else (h, w))"

section \<open>The panel\<close>

record mipi_dsi_device =
  dev_channel :: int
  dev_lanes :: int
  dev_format :: pixel_format
  dev_flags :: "mode_flag list"
  dev_dsc :: "drm_dsc option"

definition dsi_host_attach :: "'w dsi_env \<Rightarrow> mipi_dsi_device \<Rightarrow> msm_dsi_host \<times> 'w \<Rightarrow> (msm_dsi_host \<times> 'w) \<times> int" where
  "dsi_host_attach env dsi = (\<lambda>(h, w).
     if dev_lanes dsi > u32 (num_data_lanes h) then ((h, w), - EINVAL)
     else
       let h = h\<lparr>host_channel := dev_channel dsi, host_lanes := dev_lanes dsi, host_format := dev_format dsi,
             host_flags := dev_flags dsi, host_dsc := (case dev_dsc dsi of None \<Rightarrow> host_dsc h | Some d \<Rightarrow> Some d)\<rparr>;
           (w, ret) = kcall env DevAttach w in
       ((h, w), ret))"

definition dsi_host_detach :: "'w dsi_env \<Rightarrow> msm_dsi_host \<times> 'w \<Rightarrow> (msm_dsi_host \<times> 'w) \<times> int" where
  "dsi_host_detach env = (\<lambda>(h, w). ((h, fst (kcall env DevDetach w)), 0))"

definition msm_dsi_host_set_phy_mode :: "bool \<Rightarrow> msm_dsi_host \<Rightarrow> msm_dsi_host" where
  "msm_dsi_host_set_phy_mode cphy h = h\<lparr>cphy_mode := cphy\<rparr>"

text \<open>The mode is copied; without memory there is none.\<close>

definition msm_dsi_host_set_display_mode :: "display_mode \<Rightarrow> bool \<Rightarrow> msm_dsi_host \<Rightarrow> msm_dsi_host \<times> int" where
  "msm_dsi_host_set_display_mode m copied h =
     (if copied then (h\<lparr>host_mode := Some m\<rparr>, 0) else (h\<lparr>host_mode := None\<rparr>, - ENOMEM))"

section \<open>Interrupts\<close>

definition DSI_ERR_STATE_ACK :: "32 word" where "DSI_ERR_STATE_ACK = 0x0000"
definition DSI_ERR_STATE_TIMEOUT :: "32 word" where "DSI_ERR_STATE_TIMEOUT = 0x0001"
definition DSI_ERR_STATE_DLN0_PHY :: "32 word" where "DSI_ERR_STATE_DLN0_PHY = 0x0002"
definition DSI_ERR_STATE_FIFO :: "32 word" where "DSI_ERR_STATE_FIFO = 0x0004"
definition DSI_ERR_STATE_MDP_FIFO_UNDERFLOW :: "32 word" where "DSI_ERR_STATE_MDP_FIFO_UNDERFLOW = 0x0008"
definition DSI_ERR_STATE_INTERLEAVE_OP_CONTENTION :: "32 word" where "DSI_ERR_STATE_INTERLEAVE_OP_CONTENTION = 0x0010"
definition DSI_ERR_STATE_PLL_UNLOCKED :: "32 word" where "DSI_ERR_STATE_PLL_UNLOCKED = 0x0020"

definition note_error :: "32 word \<Rightarrow> msm_dsi_host \<Rightarrow> msm_dsi_host" where
  "note_error e h = h\<lparr>err_work_state := err_work_state h OR e\<rparr>"

definition dsi_ack_err_status :: "'w dsi_env \<Rightarrow> msm_dsi_host \<times> 'w \<Rightarrow> msm_dsi_host \<times> 'w" where
  "dsi_ack_err_status env = (\<lambda>(h, w).
     let status = rd env ''DSI_ACK_ERR_STATUS'' w in
     if status \<noteq> 0
     then (note_error DSI_ERR_STATE_ACK h, wr env ''DSI_ACK_ERR_STATUS'' 0 (wr env ''DSI_ACK_ERR_STATUS'' status w))
     else (h, w))"

text \<open>The bit for acknowledgement errors is zero, so nothing is recorded.\<close>

lemma ack_error_unrecorded: "fst (dsi_ack_err_status env (h, w)) = h"
  by (simp add: dsi_ack_err_status_def note_error_def DSI_ERR_STATE_ACK_def Let_def)

definition dsi_timeout_status :: "'w dsi_env \<Rightarrow> msm_dsi_host \<times> 'w \<Rightarrow> msm_dsi_host \<times> 'w" where
  "dsi_timeout_status env = (\<lambda>(h, w).
     let status = rd env ''DSI_TIMEOUT_STATUS'' w in
     if status \<noteq> 0 then (note_error DSI_ERR_STATE_TIMEOUT h, wr env ''DSI_TIMEOUT_STATUS'' status w) else (h, w))"

definition dsi_dln0_phy_err :: "'w dsi_env \<Rightarrow> msm_dsi_host \<times> 'w \<Rightarrow> msm_dsi_host \<times> 'w" where
  "dsi_dln0_phy_err env = (\<lambda>(h, w).
     let status = rd env ''DSI_DLN0_PHY_ERR'' w in
     if status AND (BIT_OF env ''DSI_DLN0_PHY_ERR_DLN0_ERR_ESC'' OR BIT_OF env ''DSI_DLN0_PHY_ERR_DLN0_ERR_SYNC_ESC''
         OR BIT_OF env ''DSI_DLN0_PHY_ERR_DLN0_ERR_CONTROL'' OR BIT_OF env ''DSI_DLN0_PHY_ERR_DLN0_ERR_CONTENTION_LP0''
         OR BIT_OF env ''DSI_DLN0_PHY_ERR_DLN0_ERR_CONTENTION_LP1'') \<noteq> 0
     then (note_error DSI_ERR_STATE_DLN0_PHY h, wr env ''DSI_DLN0_PHY_ERR'' status w)
     else (h, w))"

definition dsi_fifo_status :: "'w dsi_env \<Rightarrow> msm_dsi_host \<times> 'w \<Rightarrow> msm_dsi_host \<times> 'w" where
  "dsi_fifo_status env = (\<lambda>(h, w).
     let status = rd env ''DSI_FIFO_STATUS'' w in
     if status \<noteq> 0 then
       let w = wr env ''DSI_FIFO_STATUS'' status w; h = note_error DSI_ERR_STATE_FIFO h in
       (if status AND BIT_OF env ''DSI_FIFO_STATUS_CMD_MDP_FIFO_UNDERFLOW'' \<noteq> 0
        then note_error DSI_ERR_STATE_MDP_FIFO_UNDERFLOW h else h, w)
     else (h, w))"

definition dsi_status :: "'w dsi_env \<Rightarrow> msm_dsi_host \<times> 'w \<Rightarrow> msm_dsi_host \<times> 'w" where
  "dsi_status env = (\<lambda>(h, w).
     let status = rd env ''DSI_STATUS0'' w in
     if status AND BIT_OF env ''DSI_STATUS0_INTERLEAVE_OP_CONTENTION'' \<noteq> 0
     then (note_error DSI_ERR_STATE_INTERLEAVE_OP_CONTENTION h, wr env ''DSI_STATUS0'' status w) else (h, w))"

definition dsi_clk_status :: "'w dsi_env \<Rightarrow> msm_dsi_host \<times> 'w \<Rightarrow> msm_dsi_host \<times> 'w" where
  "dsi_clk_status env = (\<lambda>(h, w).
     let status = rd env ''DSI_CLK_STATUS'' w in
     if status AND BIT_OF env ''DSI_CLK_STATUS_PLL_UNLOCKED'' \<noteq> 0
     then (note_error DSI_ERR_STATE_PLL_UNLOCKED h, wr env ''DSI_CLK_STATUS'' status w) else (h, w))"

text \<open>The work is queued, which is idempotent while it has not started.\<close>

definition dsi_error :: "'w dsi_env \<Rightarrow> msm_dsi_host \<times> 'w \<Rightarrow> msm_dsi_host \<times> 'w" where
  "dsi_error env = (\<lambda>(h, w).
     let w = dsi_intr_ctrl env (BIT_OF env ''DSI_IRQ_MASK_ERROR'') False w;
         s = dsi_clk_status env (h, w); s = dsi_fifo_status env s; s = dsi_ack_err_status env s;
         s = dsi_timeout_status env s; s = dsi_status env s; (h, w) = dsi_dln0_phy_err env s in
     (h\<lparr>err_work := True\<rparr>, w))"

definition dsi_host_irq :: "'w dsi_env \<Rightarrow> msm_dsi_host \<times> 'w \<Rightarrow> msm_dsi_host \<times> 'w" where
  "dsi_host_irq env = (\<lambda>(h, w).
     if \<not> ctrl_mapped h then (h, w)
     else
       let isr = rd env ''DSI_INTR_CTRL'' w;
           w = wr env ''DSI_INTR_CTRL'' isr w;
           (h, w) = (if isr AND BIT_OF env ''DSI_IRQ_ERROR'' \<noteq> 0 then dsi_error env (h, w) else (h, w));
           w = (if isr AND BIT_OF env ''DSI_IRQ_VIDEO_DONE'' \<noteq> 0 then fst (kcall env CompleteVideo w) else w);
           w = (if isr AND BIT_OF env ''DSI_IRQ_CMD_DMA_DONE'' \<noteq> 0 then fst (kcall env CompleteDma w) else w) in
       (h, w))"

definition dsi_err_worker :: "'w dsi_env \<Rightarrow> msm_dsi_host \<times> 'w \<Rightarrow> msm_dsi_host \<times> 'w" where
  "dsi_err_worker env = (\<lambda>(h, w).
     let status = err_work_state h;
         w = (if status AND DSI_ERR_STATE_MDP_FIFO_UNDERFLOW \<noteq> 0 then dsi_sw_reset env w else w);
         h = h\<lparr>err_work_state := 0, err_work := False\<rparr> in
     (h, dsi_intr_ctrl env (BIT_OF env ''DSI_IRQ_MASK_ERROR'') True w))"

definition msm_dsi_host_enable_irq :: "msm_dsi_host \<Rightarrow> msm_dsi_host" where
  "msm_dsi_host_enable_irq h = h\<lparr>irq_enabled := True\<rparr>"

definition msm_dsi_host_disable_irq :: "msm_dsi_host \<Rightarrow> msm_dsi_host" where
  "msm_dsi_host_disable_irq h = h\<lparr>irq_enabled := False\<rparr>"

section \<open>Power\<close>

definition msm_dsi_runtime_suspend :: "msm_dsi_host \<Rightarrow> msm_dsi_host \<times> int" where
  "msm_dsi_runtime_suspend h = (if \<not> has_cfg h then (h, 0) else (drop_ref BusClocks h, 0))"

definition msm_dsi_runtime_resume :: "'w dsi_env \<Rightarrow> msm_dsi_host \<times> 'w \<Rightarrow> (msm_dsi_host \<times> 'w) \<times> int" where
  "msm_dsi_runtime_resume env = (\<lambda>(h, w).
     if \<not> has_cfg h then ((h, w), 0)
     else let (w, ret) = kcall env BusClocksEnable w in ((if ret = 0 then hold BusClocks h else h, w), ret))"

definition msm_dsi_host_enable :: "'w dsi_env \<Rightarrow> msm_dsi_host \<times> 'w \<Rightarrow> msm_dsi_host \<times> 'w" where
  "msm_dsi_host_enable env = (\<lambda>(h, w).
     (h\<lparr>enabled := True\<rparr>, dsi_op_mode_config env (MODE_VIDEO \<in> set (host_flags h)) True w))"

definition msm_dsi_host_disable :: "'w dsi_env \<Rightarrow> msm_dsi_host \<times> 'w \<Rightarrow> msm_dsi_host \<times> 'w" where
  "msm_dsi_host_disable env = (\<lambda>(h, w).
     (h\<lparr>enabled := False\<rparr>, dsi_sw_reset env (dsi_op_mode_config env (MODE_VIDEO \<in> set (host_flags h)) False w)))"

definition msm_dsi_sfpb_config :: "'w dsi_env \<Rightarrow> bool \<Rightarrow> msm_dsi_host \<Rightarrow> 'w \<Rightarrow> 'w" where
  "msm_dsi_sfpb_config env enable h w = (if \<not> has_sfpb h then w else fst (kcall env (SfpbPort enable) w))"

definition power_clocks :: "'w dsi_env \<Rightarrow> msm_dsi_host \<times> 'w \<Rightarrow> (msm_dsi_host \<times> 'w) \<times> int" where
  "power_clocks env s =
     (let (s, ret) = link_clk_set_rate env s in if ret = 0 then link_clk_enable env s else (s, ret))"

text \<open>(The mode has been set before; without one C would dereference a null pointer.)\<close>

definition msm_dsi_host_power_on :: "'w dsi_env \<Rightarrow> shared_timings \<Rightarrow> bool \<Rightarrow> msm_dsi_host \<times> 'w \<Rightarrow> (msm_dsi_host \<times> 'w) \<times> int" where
  "msm_dsi_host_power_on env pt is_bonded_dsi = (\<lambda>(h, w).
     if power_on h then ((h, w), 0)
     else
       let h = h\<lparr>byte_intf_clk_rate := (if byte_intf_clk_div_2 pt then byte_clk_rate h div 2 else byte_clk_rate h)\<rparr>;
           w = msm_dsi_sfpb_config env True h w;
           (w, ret) = kcall env RegulatorEnable w in
       if ret \<noteq> 0 then ((h, w), ret)
       else
         let ((h, w), ret) = power_clocks env (hold RuntimePm (hold Regulators h), w) in
         if ret \<noteq> 0 then ((drop_ref Regulators h, w), ret)
         else
           let (w, ret) = kcall env PinctrlDefault w in
           if ret \<noteq> 0 then
             let (h, w) = link_clk_disable env (h, w) in
             ((drop_ref Regulators (drop_ref RuntimePm h), w), ret)
           else
             let (h, w) = (case host_mode h of None \<Rightarrow> (h, w) | Some m \<Rightarrow> dsi_timing_setup env m is_bonded_dsi (h, w));
                 w = dsi_sw_reset env w;
                 w = dsi_ctrl_enable env pt h w in
             ((h\<lparr>power_on := True\<rparr>, w), 0))"

definition msm_dsi_host_power_off :: "'w dsi_env \<Rightarrow> msm_dsi_host \<times> 'w \<Rightarrow> msm_dsi_host \<times> 'w" where
  "msm_dsi_host_power_off env = (\<lambda>(h, w).
     if \<not> power_on h then (h, w)
     else
       let w = dsi_ctrl_disable env w;
           w = fst (kcall env PinctrlSleep w);
           (h, w) = link_clk_disable env (h, w);
           h = drop_ref Regulators (drop_ref RuntimePm h);
           w = msm_dsi_sfpb_config env False h w in
       (h\<lparr>power_on := False\<rparr>, w))"

section \<open>Test pattern\<close>

definition msm_dsi_host_video_test_pattern_setup :: "'w dsi_env \<Rightarrow> 'w \<Rightarrow> 'w" where
  "msm_dsi_host_video_test_pattern_setup env w =
     (let k = hdr (lib env); reg = rd env ''DSI_TEST_PATTERN_GEN_CTRL'' w;
          w = wr env ''DSI_TEST_PATTERN_GEN_VIDEO_INIT_VAL'' 0xff w;
          w = wr env ''DSI_TPG_MAIN_CONTROL'' (BIT_OF env ''DSI_TPG_MAIN_CONTROL_CHECKERED_RECTANGLE_PATTERN'') w;
          w = wr env ''DSI_TPG_VIDEO_CONFIG'' (fld env ''DSI_TPG_VIDEO_CONFIG_BPP'' (k ''VIDEO_CONFIG_24BPP'')
            OR BIT_OF env ''DSI_TPG_VIDEO_CONFIG_RGB'') w in
      wr env ''DSI_TEST_PATTERN_GEN_CTRL''
        (reg OR fld env ''DSI_TEST_PATTERN_GEN_CTRL_VIDEO_PATTERN_SEL'' (k ''VID_MDSS_GENERAL_PATTERN'')) w)"

definition msm_dsi_host_cmd_test_pattern_setup :: "'w dsi_env \<Rightarrow> 'w \<Rightarrow> 'w" where
  "msm_dsi_host_cmd_test_pattern_setup env w =
     (let k = hdr (lib env); reg = rd env ''DSI_TEST_PATTERN_GEN_CTRL'' w;
          w = wr env ''DSI_TEST_PATTERN_GEN_CMD_MDP_INIT_VAL0'' 0xff w;
          w = wr env ''DSI_TEST_PATTERN_GEN_CTRL''
            (reg OR fld env ''DSI_TEST_PATTERN_GEN_CTRL_CMD_MDP_STREAM0_PATTERN_SEL'' (k ''CMD_MDP_MDSS_GENERAL_PATTERN'')) w in
      wr env ''DSI_TPG_MAIN_CONTROL2'' (BIT_OF env ''DSI_TPG_MAIN_CONTROL2_CMD_MDP0_CHECKERED_RECTANGLE_PATTERN'') w)"

definition msm_dsi_host_test_pattern_en :: "'w dsi_env \<Rightarrow> msm_dsi_host \<Rightarrow> 'w \<Rightarrow> 'w" where
  "msm_dsi_host_test_pattern_en env h w =
     (let is_video_mode = MODE_VIDEO \<in> set (host_flags h);
          w = (if is_video_mode then msm_dsi_host_video_test_pattern_setup env w else msm_dsi_host_cmd_test_pattern_setup env w);
          reg = rd env ''DSI_TEST_PATTERN_GEN_CTRL'' w;
          w = wr env ''DSI_TEST_PATTERN_GEN_CTRL'' (reg OR BIT_OF env ''DSI_TEST_PATTERN_GEN_CTRL_EN'') w in
      if \<not> is_video_mode
      then wr env ''DSI_TEST_PATTERN_GEN_CMD_STREAM0_TRIGGER'' (BIT_OF env ''DSI_TEST_PATTERN_GEN_CMD_STREAM0_TRIGGER_SW_TRIGGER'') w
      else w)"

section \<open>Lane maps\<close>

text \<open>The rotations and reflections of four lanes, and all maps there are.\<close>

definition rotated_or_mirrored :: "nat list \<Rightarrow> bool" where
  "rotated_or_mirrored m \<longleftrightarrow> m \<in> set (concat (map (\<lambda>k. [map (\<lambda>j. (k + j) mod 4) [0..<4], map (\<lambda>j. (k + 4 - j) mod 4) [0..<4]]) [0..<4]))"

definition inverts :: "nat \<Rightarrow> nat list \<Rightarrow> bool" where
  "inverts i m \<longleftrightarrow> map (\<lambda>k. supported_data_lane_swaps ! i ! k) m = [0..<4]"

definition lane_maps :: "nat \<Rightarrow> nat list list" where
  "lane_maps n = foldr (\<lambda>_ ms. concat (map (\<lambda>x. map (Cons x) ms) [0..<4])) [0..<n] [[]]"

lemma lane_maps_complete: "set m \<subseteq> {0..<4} \<Longrightarrow> m \<in> set (lane_maps (length m))"
proof (induction m)
  case (Cons x m)
  have "lane_maps (Suc n) = concat (map (\<lambda>x. map (Cons x) (lane_maps n)) [0..<4])" for n
  proof -
    have "foldr (\<lambda>_. f) [0..<Suc n] y = f (foldr (\<lambda>_. f) [0..<n] y)" for f :: "'a \<Rightarrow> 'a" and y
      by (induction n arbitrary: y) simp_all
    then show ?thesis by (simp only: lane_maps_def)
  qed
  then show ?case using Cons by auto
qed (simp add: lane_maps_def)

lemma lane_swap_inverts:
  assumes "length m = 4" "set m \<subseteq> {0..<4}"
  shows "lane_swap beyond 4 m = find (\<lambda>i. inverts i m) [0..<8]"
proof -
  have "(\<forall>j<4. swap_at beyond i (m ! j) = j) = inverts i m" for i
  proof -
    have "m ! j < 4" if "j < 4" for j
    proof -
      have "m ! j \<in> set m" using assms(1) that by simp
      then show ?thesis using assms(2) by auto
    qed
    then have "(\<forall>j<4. swap_at beyond i (m ! j) = j) = (\<forall>j<4. supported_data_lane_swaps ! i ! (m ! j) = j)"
      by (auto simp: swap_at_def)
    also have "\<dots> = inverts i m" using assms(1) by (auto simp: inverts_def list_eq_iff_nth_eq)
    finally show ?thesis .
  qed
  moreover have "length supported_data_lane_swaps = 8" by (simp add: supported_data_lane_swaps_def)
  ultimately show ?thesis by (simp only: lane_swap_def)
qed

lemma lane_maps_checked:
  "list_all (\<lambda>m. (find (\<lambda>i. inverts i m) [0..<8] \<noteq> None) = rotated_or_mirrored m) (lane_maps 4)"
  by code_simp

text \<open>C29: A map of four lanes from the device tree is accepted exactly when it is a rotation of the lanes or a
  reflection, and the number then programmed into the controller selects a row that takes every physical lane
  back to its logical one; otherwise probing fails.\<close>

theorem lane_swap_exact:
  assumes "data_lanes ep = Some (4, Inr m)" "length m = 4" "set m \<subseteq> {0..<4}"
  shows "let (h', ret) = dsi_host_parse_lane_data beyond ep h in
    if rotated_or_mirrored m
    then ret = 0 \<and> dlane_swap h' < 8 \<and> map (\<lambda>k. supported_data_lane_swaps ! dlane_swap h' ! k) m = [0..<4]
    else ret = - EINVAL \<and> dlane_swap h' = dlane_swap h"
proof -
  have "m \<in> set (lane_maps 4)" using lane_maps_complete [OF assms(3)] assms(2) by simp
  then have iff: "(find (\<lambda>i. inverts i m) [0..<8] \<noteq> None) = rotated_or_mirrored m"
    using lane_maps_checked by (simp add: list_all_iff)
  show ?thesis
  proof (cases "find (\<lambda>i. inverts i m) [0..<8]")
    case None
    then show ?thesis
      using iff assms lane_swap_inverts [OF assms(2,3), of beyond] by (simp add: dsi_host_parse_lane_data_def Let_def)
  next
    case (Some i)
    then have "i < 8" "inverts i m" by (auto simp: find_Some_iff)
    then show ?thesis
      using iff Some assms(1) lane_swap_inverts [OF assms(2,3), of beyond]
      by (simp add: dsi_host_parse_lane_data_def Let_def inverts_def)
  qed
qed

theorem lane_swap_exact_witness:
  "let ep = \<lparr>data_lanes = Some (4, Inr [1, 2, 3, 0]), te_source = 0, te_copied = True\<rparr>;
       (h', ret) = dsi_host_parse_lane_data (\<lambda>_ _. 0) ep sim_host in
    ret = 0 \<and> map (\<lambda>k. supported_data_lane_swaps ! dlane_swap h' ! k) [1, 2, 3, 0] = [0..<4]"
proof -
  have "rotated_or_mirrored [1, 2, 3, 0]" by code_simp
  then show ?thesis
    using lane_swap_exact [of "\<lparr>data_lanes = Some (4, Inr [1, 2, 3, 0]), te_source = 0, te_copied = True\<rparr>" "[1, 2, 3, 0]"
        "\<lambda>_ _. 0" sim_host]
    by (simp add: Let_def case_prod_unfold)
qed

section \<open>References\<close>

lemma hold_fields [simp]: "held (hold r h) q = held h q + (if q = r then 1 else 0)"
  "power_on (hold r h) = power_on h" "cfg_ops (hold r h) = cfg_ops h" "link_clocks (hold r h) = link_clocks h"
  by (simp_all add: hold_def link_clocks_def)

lemma drop_ref_fields [simp]: "held (drop_ref r h) q = held h q - (if q = r then 1 else 0)"
  "power_on (drop_ref r h) = power_on h" "cfg_ops (drop_ref r h) = cfg_ops h" "link_clocks (drop_ref r h) = link_clocks h"
  by (simp_all add: drop_ref_def link_clocks_def)

lemma link_clocks_only: "q \<in> link_clocks h \<Longrightarrow> q \<noteq> RuntimePm \<and> q \<noteq> Regulators \<and> q \<noteq> IfaceClock \<and> q \<noteq> BusClocks"
  by (auto simp: link_clocks_def)

lemma power_clocks_host:
  assumes "power_clocks env (h, w) = ((h', w'), ret)"
  shows "h' = (if ret = 0 then h\<lparr>held := \<lambda>r. if r \<in> link_clocks h then held h r + 1 else held h r\<rparr> else h)"
proof -
  obtain h1 w1 r1 where r: "link_clk_set_rate env (h, w) = ((h1, w1), r1)" by (metis prod.exhaust)
  have h1: "h1 = h" using link_clk_set_rate_held [of env h w] r by simp
  have pc: "power_clocks env (h, w) = (if r1 = 0 then link_clk_enable env (h, w1) else ((h, w1), r1))"
    using r h1 by (simp add: power_clocks_def)
  show ?thesis
  proof (cases "r1 = 0")
    case True
    then show ?thesis using link_clk_enable_held [of env h w1 h' w' ret] assms pc by simp
  next
    case False
    then show ?thesis using assms pc by simp
  qed
qed

lemma link_clk_disable_fields:
  "held (fst (link_clk_disable env (h, w))) q = held h q - (if q \<in> link_clocks h then 1 else 0)"
  "power_on (fst (link_clk_disable env (h, w))) = power_on h" "link_clocks (fst (link_clk_disable env (h, w))) = link_clocks h"
  "cfg_ops (fst (link_clk_disable env (h, w))) = cfg_ops h"
  by (simp_all add: link_clk_disable_held link_clocks_def)

lemma timing_setup_host: "\<exists>d. fst (dsi_timing_setup env m b (h, w)) = h\<lparr>host_dsc := d\<rparr>"
proof (cases "host_dsc h")
  case None
  then show ?thesis by (intro exI [where x = None]) (simp add: dsi_timing_setup_def Let_def)
next
  case (Some dsc)
  obtain dsc' ok where p: "prepare_dsc (lib env) m dsc = (dsc', ok)" by fastforce
  then show ?thesis using Some by (intro exI [where x = "Some dsc'"]) (simp add: dsi_timing_setup_def Let_def)
qed

lemma timing_setup_fields:
  "held (fst (dsi_timing_setup env m b (h, w))) = held h" "power_on (fst (dsi_timing_setup env m b (h, w))) = power_on h"
  "cfg_ops (fst (dsi_timing_setup env m b (h, w))) = cfg_ops h"
  using timing_setup_host [of env m b h w] by auto

text \<open>The state in which the link clocks are brought up, and whether that fails.\<close>

definition powering :: "'w dsi_env \<Rightarrow> shared_timings \<Rightarrow> msm_dsi_host \<Rightarrow> 'w \<Rightarrow> msm_dsi_host \<times> 'w \<times> int" where
  "powering env pt h w =
     (let h = h\<lparr>byte_intf_clk_rate := (if byte_intf_clk_div_2 pt then byte_clk_rate h div 2 else byte_clk_rate h)\<rparr>;
          (w, ret) = kcall env RegulatorEnable (msm_dsi_sfpb_config env True h w) in (h, w, ret))"

definition clocks_fail :: "'w dsi_env \<Rightarrow> shared_timings \<Rightarrow> msm_dsi_host \<Rightarrow> 'w \<Rightarrow> bool" where
  "clocks_fail env pt h w \<longleftrightarrow>
     (let (h, w, ret) = powering env pt h w in ret = 0 \<and> snd (power_clocks env (hold RuntimePm (hold Regulators h), w)) \<noteq> 0)"

lemma power_on_effect:
  fixes env :: "'w dsi_env" and pt b h w q
  defines "s' \<equiv> msm_dsi_host_power_on env pt b (h, w)"
  shows "(power_on (fst (fst s')) \<longleftrightarrow> power_on h \<or> snd s' = 0)
    \<and> cfg_ops (fst (fst s')) = cfg_ops h
    \<and> held (fst (fst s')) q = held h q
      + (if power_on h then 0
         else if snd s' = 0 then (if q = Regulators \<or> q = RuntimePm \<or> q \<in> link_clocks h then 1 else 0)
         else if clocks_fail env pt h w \<and> q = RuntimePm then 1 else 0)"
proof (cases "power_on h")
  case True
  then show ?thesis by (simp add: msm_dsi_host_power_on_def s'_def)
next
  case False
  define h1 where "h1 = h\<lparr>byte_intf_clk_rate := (if byte_intf_clk_div_2 pt then byte_clk_rate h div 2 else byte_clk_rate h)\<rparr>"
  obtain w1 r1 where p: "kcall env RegulatorEnable (msm_dsi_sfpb_config env True h1 w) = (w1, r1)" by fastforce
  have h1: "held h1 = held h" "power_on h1 = power_on h" "link_clocks h1 = link_clocks h" "cfg_ops h1 = cfg_ops h"
    by (simp_all add: h1_def link_clocks_def)
  define s where "s = (hold RuntimePm (hold Regulators h1), w1)"
  obtain h2 w2 r2 where c: "power_clocks env s = ((h2, w2), r2)" by (metis prod.exhaust)
  note h2 = power_clocks_host [OF c [unfolded s_def]]
  have on: "s' =
      (if r1 \<noteq> 0 then ((h1, w1), r1)
       else if r2 \<noteq> 0 then ((drop_ref Regulators h2, w2), r2)
       else let (w3, r3) = kcall env PinctrlDefault w2 in
         if r3 \<noteq> 0 then let (h4, w4) = link_clk_disable env (h2, w3) in ((drop_ref Regulators (drop_ref RuntimePm h4), w4), r3)
         else let (h4, w4) = (case host_mode h2 of None \<Rightarrow> (h2, w3) | Some m \<Rightarrow> dsi_timing_setup env m b (h2, w3)) in
           ((h4\<lparr>power_on := True\<rparr>, dsi_ctrl_enable env pt h4 (dsi_sw_reset env w4)), 0))"
    unfolding s'_def msm_dsi_host_power_on_def prod.case Let_def h1_def [symmetric] p s_def [symmetric] c if_not_P [OF False] by (rule refl)
  have fail: "clocks_fail env pt h w \<longleftrightarrow> r1 = 0 \<and> r2 \<noteq> 0"
    unfolding clocks_fail_def powering_def Let_def h1_def [symmetric] p prod.case s_def [symmetric] c snd_conv by (rule refl)
  consider "r1 \<noteq> 0" | "r1 = 0" "r2 \<noteq> 0" | "r1 = 0" "r2 = 0" by blast
  then show ?thesis
  proof cases
    case 1
    then show ?thesis using on False fail h1 by simp
  next
    case 2
    then show ?thesis using on False fail h1 h2 by simp
  next
    case 3
    obtain w3 r3 where k: "kcall env PinctrlDefault w2 = (w3, r3)" by fastforce
    show ?thesis
    proof (cases "r3 = 0")
      case True
      then show ?thesis
        using 3 on k False h1 h2 timing_setup_fields [of env _ b h2 w3] link_clocks_only [of q h]
        by (auto simp: case_prod_unfold Let_def split: option.split)
    next
      case r3: False
      then show ?thesis
        using 3 on k False fail h1 h2 link_clk_disable_fields [of env h2 w3] link_clocks_only [of q h]
        by (auto simp: case_prod_unfold Let_def link_clocks_def)
    qed
  qed
qed

text \<open>C27: Powering the host on takes one reference to the regulators, the power domain and every link clock, and it is
  all or nothing, with one exception: when the link clocks cannot be brought up, the power domain stays
  referenced although the operation fails.  Powering on a host that is on does nothing.\<close>

theorem power_on_accounting:
  "let ((h', w'), ret) = msm_dsi_host_power_on env pt b (h, w) in
    (power_on h' \<longleftrightarrow> power_on h \<or> ret = 0)
    \<and> held h' q = held h q
      + (if power_on h then 0
         else if ret = 0 then (if q = Regulators \<or> q = RuntimePm \<or> q \<in> link_clocks h then 1 else 0)
         else if clocks_fail env pt h w \<and> q = RuntimePm then 1 else 0)"
  using power_on_effect [of env pt b h w q] by (simp only: Let_def case_prod_unfold)

text \<open>What the counts depend on.\<close>

definition refs :: "msm_dsi_host \<Rightarrow> (resource \<Rightarrow> int) \<times> bool \<times> bool \<times> dsi_ops" where
  "refs h = (held h, power_on h, enabled h, cfg_ops h)"

lemma refs_add: "refs (fst (fst (dsi_cmd_dma_add env msg s))) = refs (fst s)"
  by (cases s) (simp add: dsi_cmd_dma_add_def refs_def Let_def split: prod.split)

lemma refs_tx: "refs (fst (fst (dsi_cmds2buf_tx env msg s))) = refs (fst s)"
  using refs_add [of env msg s] by (simp add: dsi_cmds2buf_tx_def Let_def case_prod_unfold)

lemma refs_rx: "refs (fst (fst (dsi_cmd_dma_rx env buf n pkt s))) = refs (fst s)"
  by (cases s) (simp add: dsi_cmd_dma_rx_def refs_def Let_def)

lemma refs_pass: "refs (fst (fst (rx_pass env msg pkt n buf s))) = refs (fst s)"
  by (simp add: rx_pass_def Let_def case_prod_unfold refs_tx refs_rx)

lemma refs_loop: "refs (fst (fst (rx_loop env msg sr rlen pkt n d buf s))) = refs (fst s)"
proof (induction env msg sr rlen pkt n d buf s rule: rx_loop.induct)
  case (1 env msg sr rlen pkt n d buf s)
  obtain s' res where p: "rx_pass env msg pkt n buf s = (s', res)" by fastforce
  have s': "refs (fst s') = refs (fst s)" using refs_pass [of env msg pkt n buf s] p by simp
  show ?case
  proof (cases res)
    case (Inr dlen)
    then show ?thesis using 1 p s' by (subst rx_loop.simps) simp
  qed (use p s' in \<open>subst rx_loop.simps, simp\<close>)
qed

lemma refs_cmd: "refs (fst (fst (msm_dsi_host_cmd_tx env msg s))) = refs (fst s)"
  "refs (fst (fst (msm_dsi_host_cmd_rx env msg s))) = refs (fst s)"
proof -
  show "refs (fst (fst (msm_dsi_host_cmd_tx env msg s))) = refs (fst s)" by (simp add: msm_dsi_host_cmd_tx_def refs_tx)
  have "fst (msm_dsi_host_cmd_rx env msg s) = fst (if msg_rx_len msg \<le> 2 then rx_loop env msg True (msg_rx_len msg) (msg_rx_len msg) 4 0 0 s
      else rx_loop env msg False (msg_rx_len msg) (min (msg_rx_len msg) 10) 16 10 0 s)"
    by (simp add: msm_dsi_host_cmd_rx_def Let_def case_prod_unfold split: sum.split)
  then show "refs (fst (fst (msm_dsi_host_cmd_rx env msg s))) = refs (fst s)" by (simp add: refs_loop)
qed

text \<open>A transfer, whatever happens to it, between preparation and restoration.\<close>

definition transferred :: "'w dsi_env \<Rightarrow> mipi_dsi_msg \<Rightarrow> (msm_dsi_host \<times> 'w \<Rightarrow> msm_dsi_host \<times> 'w) \<Rightarrow> msm_dsi_host \<times> 'w \<Rightarrow> msm_dsi_host \<times> 'w" where
  "transferred env msg cmd s = msm_dsi_host_xfer_restore env msg (cmd (msm_dsi_host_xfer_prepare env msg s))"

definition clocks_usable :: "'w dsi_env \<Rightarrow> msm_dsi_host \<Rightarrow> 'w \<Rightarrow> bool" where
  "clocks_usable env h w \<longleftrightarrow> power_on h \<and> enabled h
     \<or> snd (link_clk_enable env (fst (link_clk_set_rate env (hold RuntimePm h, w)))) = 0"

lemma transferred_refs:
  assumes cmd: "\<And>s. refs (fst (cmd s)) = refs (fst s)" and ok: "clocks_usable env h w"
  shows "refs (fst (transferred env msg cmd (h, w))) = refs h"
proof -
  obtain h1 w1 where p: "msm_dsi_host_xfer_prepare env msg (h, w) = (h1, w1)" by fastforce
  obtain h2 w2 where c: "cmd (h1, w1) = (h2, w2)" by fastforce
  obtain k where h1: "h1 = h\<lparr>dma_cmd_ctrl_restore := k, held := \<lambda>q. held h q + (if \<not> (power_on h \<and> enabled h) \<and> (q = RuntimePm \<or> q \<in> link_clocks h
      \<and> snd (link_clk_enable env (fst (link_clk_set_rate env (hold RuntimePm h, w)))) = 0) then 1 else 0)\<rparr>"
    using prepare_host [of env msg h w] p by auto
  have r2: "refs h2 = refs h1" using cmd [of "(h1, w1)"] c by simp
  then have h2: "held h2 = held h1" "power_on h2 = power_on h" "enabled h2 = enabled h" "cfg_ops h2 = cfg_ops h" "link_clocks h2 = link_clocks h"
    by (simp_all add: refs_def h1 link_clocks_def)
  have r: "held (fst (msm_dsi_host_xfer_restore env msg (h2, w2))) = held h"
    using ok h2 by (auto simp: restore_held h1 clocks_usable_def fun_eq_iff)
  have o: "power_on (fst (msm_dsi_host_xfer_restore env msg (h2, w2))) = power_on h2
      \<and> enabled (fst (msm_dsi_host_xfer_restore env msg (h2, w2))) = enabled h2
      \<and> cfg_ops (fst (msm_dsi_host_xfer_restore env msg (h2, w2))) = cfg_ops h2"
    by (simp add: msm_dsi_host_xfer_restore_def Let_def case_prod_unfold drop_ref_def link_clk_disable_held)
  show ?thesis using r o h2 by (simp add: refs_def transferred_def p c)
qed

section \<open>The host as a system\<close>

inductive dsi_step :: "'w dsi_env \<Rightarrow> msm_dsi_host \<times> 'w \<Rightarrow> msm_dsi_host \<times> 'w \<Rightarrow> bool" for env where
  Power_on: "dsi_step env s (fst (msm_dsi_host_power_on env pt b s))"
| Power_off: "dsi_step env s (msm_dsi_host_power_off env s)"
| Enable: "dsi_step env s (msm_dsi_host_enable env s)"
| Disable: "dsi_step env s (msm_dsi_host_disable env s)"
| Send: "clocks_usable env (fst s) (snd s) \<Longrightarrow> dsi_step env s (transferred env msg (\<lambda>s. fst (msm_dsi_host_cmd_tx env msg s)) s)"
| Read: "clocks_usable env (fst s) (snd s) \<Longrightarrow> dsi_step env s (transferred env msg (\<lambda>s. fst (msm_dsi_host_cmd_rx env msg s)) s)"
| Irq: "dsi_step env s (dsi_host_irq env s)"
| Worker: "dsi_step env s (dsi_err_worker env s)"
| Mode: "dsi_step env (h, w) (fst (msm_dsi_host_set_display_mode m copied h), w)"
| Rates: "dsi_step env (h, w) (fst (msm_dsi_host_get_phy_clk_req (lib env) esc h b), w)"
| Attach: "dsi_step env s (fst (dsi_host_attach env dsi s))"
| Detach: "dsi_step env s (fst (dsi_host_detach env s))"
| Register: "dsi_step env s (fst (msm_dsi_host_register env s))"
| Unregister: "dsi_step env s (msm_dsi_host_unregister env s)"
| Modeset: "dsi_step env s (fst (msm_dsi_host_modeset_init env s))"
| Hardware: "dsi_step env (h, w) (h, w')"

text \<open>A host that has been probed, from a structure of zeros.\<close>

inductive dsi_probed :: "'w dsi_env \<Rightarrow> msm_dsi_host \<times> 'w \<Rightarrow> bool" for env where
  "\<not> power_on h \<Longrightarrow> \<not> enabled h \<Longrightarrow> held h = (\<lambda>_. 0) \<Longrightarrow> msm_dsi_host_init env cfg_get beyond node (h, w) = (s, 0) \<Longrightarrow> dsi_probed env s"

inductive_cases dsi_probedE: "dsi_probed env s"

definition refs_balanced :: "msm_dsi_host \<Rightarrow> bool" where
  "refs_balanced h \<longleftrightarrow> held h Regulators = of_bool (power_on h) \<and> of_bool (power_on h) \<le> held h RuntimePm
     \<and> (\<forall>c. held h (Clock c) = of_bool (power_on h \<and> Clock c \<in> link_clocks h))"

lemma refs_balanced_refs: "refs h' = refs h \<Longrightarrow> refs_balanced h' = refs_balanced h"
  by (simp add: refs_def refs_balanced_def link_clocks_def)

lemma balanced_power_on:
  assumes "refs_balanced h"
  shows "refs_balanced (fst (fst (msm_dsi_host_power_on env pt b (h, w))))"
proof -
  define s' where "s' = msm_dsi_host_power_on env pt b (h, w)"
  note e = power_on_effect [of env pt b h w, folded s'_def]
  have o: "power_on (fst (fst s')) \<longleftrightarrow> power_on h \<or> snd s' = 0" "link_clocks (fst (fst s')) = link_clocks h"
    using e by (simp_all add: link_clocks_def)
  have held: "held (fst (fst s')) q = held h q
      + (if power_on h then 0
         else if snd s' = 0 then (if q = Regulators \<or> q = RuntimePm \<or> q \<in> link_clocks h then 1 else 0)
         else if clocks_fail env pt h w \<and> q = RuntimePm then 1 else 0)" for q
    using e [of q] by blast
  have "Regulators \<notin> link_clocks h" using link_clocks_only [of Regulators h] by auto
  then show ?thesis
    using assms unfolding s'_def [symmetric] refs_balanced_def held o by auto
qed

lemma balanced_power_off:
  assumes "refs_balanced h"
  shows "refs_balanced (fst (msm_dsi_host_power_off env (h, w)))"
proof (cases "power_on h")
  case True
  obtain w1 where off: "fst (msm_dsi_host_power_off env (h, w))
      = (drop_ref Regulators (drop_ref RuntimePm (fst (link_clk_disable env (h, w1)))))\<lparr>power_on := False\<rparr>"
    using True by (simp add: msm_dsi_host_power_off_def Let_def case_prod_unfold)
  have "Regulators \<notin> link_clocks h" "RuntimePm \<notin> link_clocks h"
    using link_clocks_only [of Regulators h] link_clocks_only [of RuntimePm h] by auto
  then show ?thesis using assms True unfolding off by (simp add: refs_balanced_def link_clk_disable_fields)
qed (use assms in \<open>simp add: msm_dsi_host_power_off_def\<close>)

lemma refs_irq: "refs (fst (dsi_host_irq env s)) = refs (fst s)"
proof -
  have st: "refs (fst (dsi_clk_status env s)) = refs (fst s)" "refs (fst (dsi_fifo_status env s)) = refs (fst s)"
    "refs (fst (dsi_ack_err_status env s)) = refs (fst s)" "refs (fst (dsi_timeout_status env s)) = refs (fst s)"
    "refs (fst (dsi_status env s)) = refs (fst s)" "refs (fst (dsi_dln0_phy_err env s)) = refs (fst s)" for s :: "msm_dsi_host \<times> 'a"
    by (cases s; simp add: dsi_clk_status_def dsi_fifo_status_def dsi_ack_err_status_def dsi_timeout_status_def
        dsi_status_def dsi_dln0_phy_err_def note_error_def refs_def Let_def)+
  have w: "refs (h\<lparr>err_work := x\<rparr>) = refs h" for h x by (simp add: refs_def)
  have "refs (fst (dsi_error env s)) = refs (fst s)" for s :: "msm_dsi_host \<times> 'a"
    by (simp add: dsi_error_def Let_def case_prod_unfold st w)
  then show ?thesis by (simp add: dsi_host_irq_def Let_def case_prod_unfold)
qed

lemma balanced_transfer:
  assumes "clocks_usable env (fst s) (snd s)" "refs_balanced (fst s)" "\<And>s. refs (fst (cmd s)) = refs (fst s)"
  shows "refs_balanced (fst (transferred env msg cmd s))"
  using transferred_refs [of cmd env "fst s" "snd s" msg] assms refs_balanced_refs [of "fst (transferred env msg cmd s)" "fst s"]
  by simp

lemma refs_attach: "refs (fst (fst (dsi_host_attach env dsi s))) = refs (fst s)"
  by (simp add: dsi_host_attach_def Let_def case_prod_unfold refs_def)

lemma refs_rates: "refs (fst (msm_dsi_host_get_phy_clk_req l esc h b)) = refs h"
  by (simp add: msm_dsi_host_get_phy_clk_req_def dsi_calc_clk_rate_v2_def dsi_calc_clk_rate_6g_def dsi_calc_pclk_def refs_def Let_def
      split: option.split)

lemma refs_registration: "refs (fst (fst (msm_dsi_host_register env s))) = refs (fst s)"
  "refs (fst (msm_dsi_host_unregister env s)) = refs (fst s)" "refs (fst (fst (msm_dsi_host_modeset_init env s))) = refs (fst s)"
  by (simp_all add: msm_dsi_host_register_def msm_dsi_host_unregister_def msm_dsi_host_modeset_init_def tx_buf_alloc_def Let_def case_prod_unfold refs_def)

lemma dsi_step_balanced:
  assumes "dsi_step env s t" "refs_balanced (fst s)"
  shows "refs_balanced (fst t)"
  using assms
proof cases
  case (Power_on pt b)
  then show ?thesis using balanced_power_on [of "fst s" env pt b "snd s"] assms(2) by simp
next
  case Power_off
  then show ?thesis using balanced_power_off [of "fst s" env "snd s"] assms(2) by simp
next
  case (Send msg)
  show ?thesis unfolding Send(1) by (rule balanced_transfer [OF Send(2) assms(2) refs_cmd(1)])
next
  case (Read msg)
  show ?thesis unfolding Read(1) by (rule balanced_transfer [OF Read(2) assms(2) refs_cmd(2)])
next
  case Irq
  then show ?thesis using assms(2) refs_balanced_refs refs_irq by metis
next
  case (Rates esc h b w)
  then show ?thesis using assms(2) refs_balanced_refs refs_rates by (metis fst_conv)
next
  case (Attach dsi)
  then show ?thesis using assms(2) refs_balanced_refs refs_attach by metis
next
  case Register
  then show ?thesis using assms(2) refs_balanced_refs refs_registration(1) by metis
next
  case Unregister
  then show ?thesis using assms(2) refs_balanced_refs refs_registration(2) by metis
next
  case Modeset
  then show ?thesis using assms(2) refs_balanced_refs refs_registration(3) by metis
qed (use assms(2) in \<open>auto simp: msm_dsi_host_enable_def msm_dsi_host_disable_def dsi_err_worker_def
    msm_dsi_host_set_display_mode_def dsi_host_detach_def refs_balanced_def link_clocks_def Let_def case_prod_unfold\<close>)

text \<open>Probing takes no reference that it does not give back.\<close>

definition counts :: "msm_dsi_host \<Rightarrow> (resource \<Rightarrow> int) \<times> bool" where
  "counts h = (held h, power_on h)"

lemma counts_parse_dt: "counts (fst (fst (dsi_host_parse_dt beyond node sfpb h))) = counts h"
proof -
  have "counts (fst (dsi_host_parse_lane_data beyond ep h)) = counts h" for ep
    by (simp add: dsi_host_parse_lane_data_def counts_def Let_def split: option.split sum.split prod.split)
  moreover have "counts (h\<lparr>has_sfpb := x\<rparr>) = counts h" for h x by (simp add: counts_def)
  ultimately show ?thesis
    by (simp add: dsi_host_parse_dt_def Let_def case_prod_unfold split: option.split)
qed

lemma counts_get_config: "counts (fst (fst (dsi_get_config env cfg_get s))) = counts (fst s)"
  by (simp add: dsi_get_config_def Let_def case_prod_unfold counts_def hold_def drop_ref_def)

lemma counts_updates [simp]:
  "counts (h\<lparr>has_cfg := a, cfg_major := b, cfg_minor := c, cfg_ops := d, host_id := e\<rparr>) = counts h"
  "counts (h\<lparr>has_byte_intf_clk := x, rx_buf := y\<rparr>) = counts h" "counts (h\<lparr>has_workqueue := z\<rparr>) = counts h"
  "counts (h\<lparr>ctrl_mapped := u, pm_enabled := v\<rparr>) = counts h"
  by (simp_all add: counts_def)

lemma counts_init: "counts (fst (fst (msm_dsi_host_init env cfg_get beyond node (h, w)))) = counts h"
proof -
  define d where "d = dsi_host_parse_dt beyond (node_endpoint node) (node_sfpb node) h"
  have d: "counts (fst (fst d)) = counts h" using counts_parse_dt by (simp add: d_def)
  show ?thesis
    by (simp add: msm_dsi_host_init_def d_def [symmetric] Let_def case_prod_unfold d counts_get_config del: counts_updates
        split: option.split) (simp add: counts_get_config d)
qed

interpretation dsi_host: invariant_system "dsi_probed env" "dsi_step env" "\<lambda>s. refs_balanced (fst s)" for env
proof unfold_locales
  show "refs_balanced (fst s)" if "dsi_probed env s" for s :: "msm_dsi_host \<times> 'a"
    using that
  proof (rule dsi_probedE)
    fix h w cfg_get beyond node
    assume h: "\<not> power_on h" "held h = (\<lambda>_. 0)" and "msm_dsi_host_init env cfg_get beyond node (h, w) = (s, 0)"
    then have "counts (fst s) = counts h" using counts_init [of env cfg_get beyond node h w] by simp
    then show ?thesis using h by (simp add: counts_def refs_balanced_def)
  qed
qed (rule dsi_step_balanced)

text \<open>C20: From probing on, over all sequences of powering, enabling, transfers, interrupts, mode settings and
  changes of the hardware, including all their failures, the regulators and link clocks are referenced exactly
  once while the host is powered and not at all otherwise, and the power domain is referenced at least while
  the host is powered; provided only that transfers are made while the link clocks can be enabled.\<close>

theorem dsi_references:
  assumes "reachable (dsi_probed env) (dsi_step env) (h, w)"
  shows "held h Regulators = of_bool (power_on h) \<and> of_bool (power_on h) \<le> held h RuntimePm
    \<and> (\<forall>c. held h (Clock c) = of_bool (power_on h \<and> Clock c \<in> link_clocks h))"
  using dsi_host.reachable_inv [OF assms] by (simp add: refs_balanced_def)

text \<open>The simulated hardware with services that succeed; the host is probed with this board's table and powered.\<close>

definition well_env :: "(nat \<times> byte list) dsi_env" where
  "well_env = sim_env\<lparr>kcall := \<lambda>_ w. (w, 0), rd := \<lambda>name _. if name = ''DSI_6G_HW_VERSION'' then 0x20050001 else 0\<rparr>"

definition board_cfg :: "int \<Rightarrow> int \<Rightarrow> dsi_cfg option" where
  "board_cfg major minor = Some \<lparr>dsi_major = major, dsi_minor = minor, dsi_ops = OPS_6G, with_byte_intf = True,
     io_start = [[0xae94000, 0xae96000]]\<rparr>"

definition board_node :: dsi_node where
  "board_node = \<lparr>node_endpoint = Some \<lparr>data_lanes = Some (4, Inr [0, 1, 2, 3]), te_source = - EINVAL, te_copied = True\<rparr>,
     node_sfpb = None, node_ctrl = Some 0xae96000, node_irq = 5\<rparr>"

theorem dsi_references_witness:
  "\<exists>h w. reachable (dsi_probed well_env) (dsi_step well_env) (h, w) \<and> power_on h \<and> held h Regulators = 1 \<and> held h (Clock BYTE_CLK) = 1"
proof -
  define pt :: shared_timings where "pt = \<lparr>clk_post = 0, clk_pre = 0, clk_pre_inc_by_2 = False, byte_intf_clk_div_2 = True\<rparr>"
  define s0 where "s0 = (sim_host\<lparr>power_on := False\<rparr>, (0 :: nat, [] :: byte list))"
  define s1 where "s1 = fst (msm_dsi_host_init well_env board_cfg (\<lambda>_ _. 0) board_node s0)"
  define s2 where "s2 = fst (msm_dsi_host_power_on well_env pt False s1)"
  have "snd (msm_dsi_host_init well_env board_cfg (\<lambda>_ _. 0) board_node s0) = 0" unfolding s0_def by code_simp
  then have "msm_dsi_host_init well_env board_cfg (\<lambda>_ _. 0) board_node s0 = (s1, 0)" by (simp add: s1_def prod_eq_iff)
  then have "dsi_probed well_env s1"
    unfolding s0_def by (intro dsi_probed.intros) (simp_all add: sim_host_def)
  then have "reachable (dsi_probed well_env) (dsi_step well_env) s1" by (rule reachable.init)
  moreover have "dsi_step well_env s1 s2" unfolding s2_def by (rule dsi_step.Power_on)
  ultimately have r: "reachable (dsi_probed well_env) (dsi_step well_env) s2" by (rule reachable.more)
  have "power_on (fst s2) \<and> Clock BYTE_CLK \<in> link_clocks (fst s2)"
    unfolding s2_def s1_def s0_def pt_def by code_simp
  then show ?thesis using dsi_references [of well_env "fst s2" "snd s2"] r by (intro exI [where x = "fst s2"] exI [where x = "snd s2"]) simp
qed

end
