(* ===== verification/Hx_Live.thy ===== *)
theory Hx_Live
  imports Hx_Process Hx_Wake
begin

text \<open>
  The invariant of the algorithm state over the whole life of the device: what the frame function keeps
  (\<open>algo_ok\<close>) together with the stored grids that survive a frame, the last safe baseline, the candidate
  and the release holds.  Resets, screen-on, wake qualification and running frames all keep it, so the
  driver can interleave them in any order.
\<close>

definition q8_grid :: "grid \<Rightarrow> bool" where
  "q8_grid g \<longleftrightarrow> length g = HX_PIXELS \<and> (\<forall>i<HX_PIXELS. 0 \<le> g ! i \<and> g ! i \<le> BASELINE_MAX)"

definition hold_grid :: "grid \<Rightarrow> bool" where
  "hold_grid g \<longleftrightarrow> length g = HX_PIXELS \<and> (\<forall>i<HX_PIXELS. 0 \<le> g ! i \<and> g ! i \<le> U8_MAX)"

definition saved :: "hx_algo \<Rightarrow> grid \<times> grid \<times> grid" where
  "saved a = (safe_baseline_q8 a, wake_candidate_q8 a, baseline_release_hold a)"

definition saved_ok :: "grid \<times> grid \<times> grid \<Rightarrow> bool" where
  "saved_ok s \<longleftrightarrow> q8_grid (fst s) \<and> q8_grid (fst (snd s)) \<and> hold_grid (snd (snd s))"

definition live_ok :: "hx_algo \<Rightarrow> bool" where
  "live_ok a \<longleftrightarrow> algo_ok a \<and> saved_ok (saved a)"

lemma live_okI:
  "algo_ok a \<Longrightarrow> q8_grid (safe_baseline_q8 a) \<Longrightarrow> q8_grid (wake_candidate_q8 a)
    \<Longrightarrow> hold_grid (baseline_release_hold a) \<Longrightarrow> live_ok a"
  by (simp add: live_ok_def saved_ok_def saved_def)

lemma live_okD:
  "live_ok a \<Longrightarrow> algo_ok a" "live_ok a \<Longrightarrow> q8_grid (safe_baseline_q8 a)"
  "live_ok a \<Longrightarrow> q8_grid (wake_candidate_q8 a)" "live_ok a \<Longrightarrow> hold_grid (baseline_release_hold a)"
  by (simp_all add: live_ok_def saved_ok_def saved_def)

lemma baseline_ok_grids: "baseline_ok a \<longleftrightarrow> q8_grid (baseline_q8 a) \<and> hold_grid (baseline_release_hold a)"
  by (auto simp: baseline_ok_def q8_grid_def hold_grid_def)

lemma zero_grids [simp]: "q8_grid zero_grid" "hold_grid zero_grid"
  by (simp_all add: q8_grid_def hold_grid_def BASELINE_MAX_def)

lemma q8_copy_raw:
  assumes "raw_ok raw"
  shows "q8_grid (hx_copy_raw_to_baseline raw)"
proof -
  have "0 \<le> hx_copy_raw_to_baseline raw ! i \<and> hx_copy_raw_to_baseline raw ! i \<le> BASELINE_MAX" if "i < HX_PIXELS" for i
    using nth_copy_raw [OF assms that] raw_okD [OF assms that] by (simp add: BASELINE_MAX_def)
  then show ?thesis by (simp add: q8_grid_def)
qed

lemma q8_nominal: "pre_params_ok p \<Longrightarrow> q8_grid (replicate HX_PIXELS (s32 (baseline_initial p * 2 ^ 8)))"
  by (simp add: pre_params_ok_def q8_grid_def BASELINE_MAX_def s32_id)

section \<open>Resets and screen-on\<close>

lemma live_clear:
  assumes "live_ok a"
  shows "live_ok (hx_algo_clear_transient_state a)"
proof (rule live_okI)
  show "algo_ok (hx_algo_clear_transient_state a)"
    using live_okD(1) [OF assms]
    by (auto simp: algo_ok_def hx_algo_clear_transient_state_def baseline_ok_grids tracks_ok_def ids_in_range_def
        ages_ok_def boxes_ok_def)
  show "q8_grid (safe_baseline_q8 (hx_algo_clear_transient_state a))"
    "q8_grid (wake_candidate_q8 (hx_algo_clear_transient_state a))"
    "hold_grid (baseline_release_hold (hx_algo_clear_transient_state a))"
    using live_okD [OF assms] by (simp_all add: hx_algo_clear_transient_state_def)
qed

lemma live_clear_live: "live_ok a \<Longrightarrow> live_ok (hx_algo_clear_live_state a)"
  by (simp add: hx_algo_clear_live_state_def live_clear)

lemma live_begin_wake:
  assumes "live_ok a"
  shows "live_ok (hx_algo_begin_wake a)"
proof -
  have "algo_ok (hx_algo_begin_wake a) = algo_ok (hx_algo_clear_transient_state a)"
    by (simp add: hx_algo_begin_wake_def algo_ok_def baseline_ok_def tracks_ok_def boxes_ok_def)
  moreover have "saved (hx_algo_begin_wake a) = saved (hx_algo_clear_transient_state a)"
    by (simp add: hx_algo_begin_wake_def saved_def)
  ultimately show ?thesis using live_clear [OF assms] by (simp add: live_ok_def)
qed

lemma live_new: "live_ok new_algo"
  by (rule live_okI [OF new_algo_ok])
    (simp_all add: new_algo_def hx_algo_full_reset_def hx_algo_clear_transient_state_def)

section \<open>Qualification\<close>

lemma wake_fields [simp]:
  "det (fst (hx_algo_qualify_wake_frame a raw fs)) = det a" "trk (fst (hx_algo_qualify_wake_frame a raw fs)) = trk a"
  "tracks (fst (hx_algo_qualify_wake_frame a raw fs)) = tracks a"
  "prev_peaks (fst (hx_algo_qualify_wake_frame a raw fs)) = prev_peaks a"
  "next_peak_id (fst (hx_algo_qualify_wake_frame a raw fs)) = next_peak_id a"
  "palm_boxes (fst (hx_algo_qualify_wake_frame a raw fs)) = palm_boxes a"
  "baseline_release_hold (fst (hx_algo_qualify_wake_frame a raw fs)) = baseline_release_hold a"
  by (simp_all add: hx_algo_qualify_wake_frame_def wake_finger_frame_def wake_stable_frame_def wake_commit_def Let_def)

text \<open>Where the grids of the qualifier come from.\<close>

lemma wake_grids:
  fixes a raw fs
  defines "b \<equiv> fst (hx_algo_qualify_wake_frame a raw fs)"
  shows "safe_baseline_q8 b \<in> {safe_baseline_q8 a, wake_candidate_q8 a}"
    "wake_candidate_q8 b \<in> {wake_candidate_q8 a, hx_copy_raw_to_baseline raw}"
    "baseline_q8 b \<in> {wake_candidate_q8 a, safe_baseline_q8 a,
       replicate HX_PIXELS (s32 (baseline_initial (pre a) * 2 ^ 8))}
     \<or> baseline_q8 b = baseline_q8 a \<and> baseline_initialized b = baseline_initialized a"
  by (auto simp: b_def hx_algo_qualify_wake_frame_def wake_finger_frame_def wake_stable_frame_def wake_commit_def
      Let_def)

lemma live_qualify:
  assumes "live_ok a" "raw_ok raw"
  shows "live_ok (fst (hx_algo_qualify_wake_frame a raw fs))"
proof -
  note a = live_okD [OF assms(1)]
  have "q8_grid (baseline_q8 (fst (hx_algo_qualify_wake_frame a raw fs)))
      \<or> \<not> baseline_initialized (fst (hx_algo_qualify_wake_frame a raw fs))"
    using wake_grids(3) [of a raw fs] a q8_nominal [OF algo_okD(2) [OF a(1)]] algo_okD(1) [OF a(1)]
    by (auto simp: baseline_ok_grids)
  then have "algo_ok (fst (hx_algo_qualify_wake_frame a raw fs))"
    using a(1,4) by (auto simp: algo_ok_def baseline_ok_grids tracks_ok_def boxes_ok_def)
  then show ?thesis
    using wake_grids(1,2) [of a raw fs] a q8_copy_raw [OF assms(2)] by (auto intro!: live_okI)
qed

section \<open>Frames\<close>

lemma saved_stages:
  "saved (hx_detect_macro_zones a) = saved a" "saved (hx_detect_peaks a) = saved a"
  "saved (hx_update_palm_box a z) = saved a" "saved (hx_age_palm_boxes a) = saved a"
  "saved (lift_off a) = saved a" "saved (hx_edge_boost a) = saved a" "saved (hx_apply_cmf a) = saved a"
  "saved (hx_apply_iir a) = saved a"
  by (auto simp: saved_def hx_detect_macro_zones_def hx_detect_peaks_def hx_track_peak_ids_def
      hx_update_palm_box_def hx_age_palm_boxes_def lift_off_def hx_edge_boost_def hx_apply_cmf_def
      hx_apply_iir_def Let_def split: prod.split option.split)

lemma saved_reject_fold:
  "saved (foldl (\<lambda>al z. if P z then hx_update_palm_box al z else al\<lparr>zones := zones al @ [z]\<rparr>) al zs) = saved al"
proof (induction zs arbitrary: al)
  case (Cons z zs)
  have "saved (al\<lparr>zones := zones al @ [z]\<rparr>) = saved al" by (simp add: saved_def)
  then show ?case using Cons by (simp add: saved_stages)
qed simp

lemma saved_reject: "saved (hx_reject_palms a) = saved a"
proof -
  have "saved ((hx_age_palm_boxes a)\<lparr>zones := []\<rparr>) = saved a"
    using saved_stages(4) [of a] by (simp add: saved_def)
  then show ?thesis by (simp add: hx_reject_palms_def Let_def saved_reject_fold saved_stages)
qed

lemma saved_contacts: "frame_contacts a = (b, dets) \<Longrightarrow> saved b = saved a"
  unfolding frame_contacts_def
  by (auto simp: hx_expand_and_resolve_def hx_suppress_rx_ghosts_def Let_def saved_def split: if_splits)
    (use saved_reject saved_stages in \<open>simp_all add: saved_def\<close>)

lemma saved_updates [simp]:
  "saved (a\<lparr>peak_competition := pcs\<rparr>) = saved a" "saved (a\<lparr>tracks := ts\<rparr>) = saved a"
  by (simp_all add: saved_def)

lemma saved_open_slot: "saved (open_slot dets active match prior du jr a j) = saved a"
proof -
  obtain table ts where "open_slot dets active match prior du jr a j = a\<lparr>peak_competition := table, tracks := ts\<rparr>"
    using open_slot_effect [of dets active match prior du jr a j] by blast
  then show ?thesis by simp
qed

lemma saved_open_fold: "saved (foldl (open_slot dets active match prior du jr) a js) = saved a"
  by (induction js arbitrary: a) (simp_all add: saved_open_slot)

lemma saved_track: "hx_track_contacts a dets = Some b \<Longrightarrow> saved b = saved a"
  by (auto simp: hx_track_contacts_def track_with_match_def Let_def saved_open_fold split: prod.split)

lemma saved_finish: "finish_frame a = (b, n) \<Longrightarrow> saved b = saved a"
  by (auto simp: finish_frame_def update_touch_active_def saved_def Let_def)

lemma saved_pass [simp]:
  "safe_baseline_q8 (seed_baseline a raw fs) = safe_baseline_q8 a"
  "wake_candidate_q8 (seed_baseline a raw fs) = wake_candidate_q8 a"
  "safe_baseline_q8 (baseline_pass a raw fs) = safe_baseline_q8 a"
  "wake_candidate_q8 (baseline_pass a raw fs) = wake_candidate_q8 a"
  "safe_baseline_q8 (note_firmware_finger a fs) = safe_baseline_q8 a"
  "wake_candidate_q8 (note_firmware_finger a fs) = wake_candidate_q8 a"
  by (simp_all add: seed_baseline_def baseline_pass_def note_firmware_finger_def Let_def split: hx_finger_state.split)

lemma saved_idle:
  "safe_baseline_q8 (idle_snapshot a raw) \<in> {safe_baseline_q8 a, wake_candidate_q8 a, hx_copy_raw_to_baseline raw}"
  "wake_candidate_q8 (idle_snapshot a raw) \<in> {wake_candidate_q8 a, hx_copy_raw_to_baseline raw}"
  by (auto simp: idle_snapshot_def Let_def)

lemma saved_prepare:
  "safe_baseline_q8 (hx_prepare_frame_baseline a raw fs) \<in> {safe_baseline_q8 a, wake_candidate_q8 a, hx_copy_raw_to_baseline raw}"
  "wake_candidate_q8 (hx_prepare_frame_baseline a raw fs) \<in> {wake_candidate_q8 a, hx_copy_raw_to_baseline raw}"
  using saved_idle [of "baseline_pass (seed_baseline a raw fs) raw fs" raw]
  by (cases "fs = HX_FINGER_ABSENT", auto simp: hx_prepare_frame_baseline_def Let_def)+

lemma saved_front:
  assumes "live_ok a" "raw_ok raw"
  shows "saved_ok (saved (frame_front a raw fs))"
proof -
  let ?p = "\<lambda>f. hx_prepare_frame_baseline (note_firmware_finger a fs\<lparr>fast_edge_start_pending := f\<rparr>) raw fs"
  have front: "\<exists>f. saved (frame_front a raw fs) = saved (?p f)"
    by (auto simp: frame_front_def hx_preprocess_frame_state_def Let_def saved_stages)
  note a = live_okD [OF assms(1)]
  have safe: "safe_baseline_q8 (?p f) \<in> {safe_baseline_q8 a, wake_candidate_q8 a, hx_copy_raw_to_baseline raw}"
    "wake_candidate_q8 (?p f) \<in> {wake_candidate_q8 a, hx_copy_raw_to_baseline raw}" for f
    using saved_prepare [of "note_firmware_finger a fs\<lparr>fast_edge_start_pending := f\<rparr>" raw fs]
    by (simp_all del: insert_iff)
  have "baseline_ok (frame_front a raw fs)"
    unfolding frame_front_def Let_def
    by (rule preprocess_ok [OF assms(2), THEN conjunct1])
      (use algo_okD [OF a(1)] in \<open>auto simp: note_firmware_finger_def baseline_ok_def split: hx_finger_state.split\<close>)
  then have "hold_grid (snd (snd (saved (frame_front a raw fs))))" by (simp add: baseline_ok_grids saved_def)
  moreover have "q8_grid (fst (saved (frame_front a raw fs))) \<and> q8_grid (fst (snd (saved (frame_front a raw fs))))"
  proof -
    obtain f where f: "saved (frame_front a raw fs) = saved (?p f)" using front by blast
    have "q8_grid g" if "g \<in> {safe_baseline_q8 a, wake_candidate_q8 a, hx_copy_raw_to_baseline raw}" for g
      using that a q8_copy_raw [OF assms(2)] by auto
    then show ?thesis using safe [of f] unfolding f by (simp add: saved_def)
  qed
  ultimately show ?thesis by (simp add: saved_ok_def)
qed

lemma live_process:
  assumes "live_ok a" "raw_ok raw"
  shows "\<exists>b n. hx_algo_process_frame_state a raw fs = Some (b, n) \<and> live_ok b
    \<and> n = hx_count_stable_tracks b \<and> 0 \<le> n \<and> n \<le> 10"
proof -
  obtain b n where b: "hx_algo_process_frame_state a raw fs = Some (b, n)" "algo_ok b"
    "n = hx_count_stable_tracks b" "0 \<le> n" "n \<le> 10"
    using process_frame_ok [OF live_okD(1) [OF assms(1)] assms(2)] by blast
  have "saved b = saved (frame_front a raw fs)"
  proof (cases "fs = HX_FINGER_ABSENT")
    case True
    then have "finish_frame (lift_off (frame_front a raw fs)) = (b, n)"
      using b(1) by (simp add: hx_algo_process_frame_state_def Let_def)
    then show ?thesis using saved_finish by (simp add: saved_stages)
  next
    case False
    obtain c dets where c: "frame_contacts (frame_front a raw fs) = (c, dets)" by fastforce
    obtain e d where e: "e = c\<lparr>fast_edge_start_pending := fast_edge_start c
        (fs = HX_FINGER_PRESENT \<and> \<not> firmware_finger_present a \<and> \<not> has_active_track a) dets\<rparr>"
      "hx_track_contacts e dets = Some d" "finish_frame (d\<lparr>fast_edge_start_pending := False\<rparr>) = (b, n)"
      using b(1) False c by (auto simp: hx_algo_process_frame_state_def Let_def)
    have "saved d = saved e"
      by (rule saved_track [OF e(2)])
    then show ?thesis
      using saved_finish [OF e(3)] saved_contacts [OF c] by (simp add: saved_def e(1))
  qed
  then have "live_ok b" using saved_front [OF assms, of fs] b(2) by (simp add: live_ok_def)
  then show ?thesis using b by blast
qed

end
