(* ===== verification/Hx_FrameStatus.thy ===== *)
theory Hx_FrameStatus
  imports Driver_Prelude Hx_State
begin

text \<open>
  The status words of a raw event-stack frame (\<open>hx-frame-status.h\<close>): the sync word, the diagnostic
  word, the firmware's finger coordinates and the retry flag, and the capacitance matrix between them.
\<close>

definition HX_FRAME_HEADER_BYTES :: nat where "HX_FRAME_HEADER_BYTES = 4"
definition HX_FRAME_MATRIX_BYTES :: nat where "HX_FRAME_MATRIX_BYTES = 60 * 40 * 2"
definition HX_FRAME_SUFFIX_BYTES :: nat where "HX_FRAME_SUFFIX_BYTES = 256"
definition HX_FRAME_DIAG_VALID :: int where "HX_FRAME_DIAG_VALID = 0x00bb"

lemmas frame_layout = HX_FRAME_HEADER_BYTES_def HX_FRAME_MATRIX_BYTES_def HX_FRAME_SUFFIX_BYTES_def
  HX_FRAME_DIAG_VALID_def

record hx_frame_status =
  has_finger :: bool
  retry :: bool

definition hx_frame_get_le16 :: "byte list \<Rightarrow> nat \<Rightarrow> int" where
  "hx_frame_get_le16 buf ofs = le16 (drop ofs buf)"

definition hx_parse_master_frame_status :: "byte list \<Rightarrow> hx_frame_status option" where
  "hx_parse_master_frame_status buf =
     (let suffix = HX_FRAME_HEADER_BYTES + HX_FRAME_MATRIX_BYTES in
      if length buf < suffix + HX_FRAME_SUFFIX_BYTES then None
      else if buf ! 0 \<noteq> 0x5a \<or> buf ! 1 \<noteq> 0xa5 then None
      else if hx_frame_get_le16 buf (suffix + 6) \<noteq> HX_FRAME_DIAG_VALID then None
      else
        let x = hx_frame_get_le16 buf (suffix + 108); y = hx_frame_get_le16 buf (suffix + 110) in
        Some \<lparr>has_finger = \<not> (x mod 256 = 0xff \<and> y mod 256 = 0xff),
          retry = hx_frame_get_le16 buf suffix \<noteq> 0\<rparr>)"

text \<open>The matrix as the algorithm reads it, little-endian from byte \<open>4\<close> on.\<close>

definition event_matrix :: "byte list \<Rightarrow> int list" where
  "event_matrix buf = map (\<lambda>i. hx_frame_get_le16 buf (HX_FRAME_HEADER_BYTES + 2 * i)) [0..<HX_PIXELS]"

definition frame_finger :: "hx_frame_status \<Rightarrow> hx_finger_state" where
  "frame_finger st = (if has_finger st then HX_FINGER_PRESENT else HX_FINGER_ABSENT)"

lemma event_matrix_ok: "raw_ok (event_matrix buf)"
  by (simp add: raw_ok_def event_matrix_def hx_frame_get_le16_def)

text \<open>A frame the parser accepts, for examples here and in the driver's theories.\<close>

definition frame_image :: "int list \<Rightarrow> bool \<Rightarrow> int \<Rightarrow> int \<Rightarrow> byte list" where
  "frame_image raw again x y =
     [0x5a, 0xa5, 0, 0] @ concat (map le16_bytes raw)
     @ le16_bytes (if again then 1 else 0) @ replicate 4 0 @ le16_bytes HX_FRAME_DIAG_VALID @ replicate 100 0
     @ le16_bytes x @ le16_bytes y @ replicate 144 0"

lemma length_concat_le16: "length (concat (map le16_bytes raw)) = 2 * length raw"
  by (induction raw) simp_all

lemma drop_concat_le16: "i < length raw \<Longrightarrow>
    drop (2 * i) (concat (map le16_bytes raw) @ rest) = le16_bytes (raw ! i) @ concat (map le16_bytes (drop (Suc i) raw)) @ rest"
proof (induction raw arbitrary: i)
  case (Cons r raw)
  then show ?case by (cases i) simp_all
qed simp

lemma le16_append: "length p = 2 \<Longrightarrow> le16 (p @ q) = le16 p"
  by (simp add: le16_def nth_append)

lemma frame_image_suffix:
  assumes "length raw = HX_PIXELS"
  shows "length (frame_image raw again x y) = HX_FRAME_HEADER_BYTES + HX_FRAME_MATRIX_BYTES + HX_FRAME_SUFFIX_BYTES"
    "drop (4804 + k) (frame_image raw again x y)
     = drop k (le16_bytes (if again then 1 else 0) @ replicate 4 0 @ le16_bytes HX_FRAME_DIAG_VALID @ replicate 100 0
        @ le16_bytes x @ le16_bytes y @ replicate 144 0)"
  using assms by (simp_all add: frame_image_def frame_layout length_concat_le16 drop_Cons')

lemma parse_image:
  assumes "raw_ok raw" "0 \<le> x" "x < 65536" "0 \<le> y" "y < 65536"
  shows "hx_parse_master_frame_status (frame_image raw again x y)
      = Some \<lparr>has_finger = (x mod 256 \<noteq> 0xff \<or> y mod 256 \<noteq> 0xff), retry = again\<rparr>
    \<and> event_matrix (frame_image raw again x y) = raw"
proof (rule conjI)
  have len: "length raw = HX_PIXELS" using assms(1) by (simp add: raw_ok_def)
  note sfx = frame_image_suffix [OF len, where again = again and x = x and y = y]
  have w: "le16 (le16_bytes v @ q) = v" if "0 \<le> v" "v < 65536" for v q
    using that le16_le16_bytes [of v] by (simp add: le16_append)
  have at: "hx_frame_get_le16 (frame_image raw again x y) (4804 + k)
     = le16 (drop k (le16_bytes (if again then 1 else 0) @ replicate 4 0 @ le16_bytes HX_FRAME_DIAG_VALID @ replicate 100 0
        @ le16_bytes x @ le16_bytes y @ replicate 144 0))" for k
    by (simp only: hx_frame_get_le16_def sfx(2))
  have "hx_frame_get_le16 (frame_image raw again x y) 4804 = (if again then 1 else 0)"
    using at [of 0] w by simp
  moreover have "hx_frame_get_le16 (frame_image raw again x y) 4810 = HX_FRAME_DIAG_VALID"
    using at [of 6] w [of HX_FRAME_DIAG_VALID] by (simp add: HX_FRAME_DIAG_VALID_def)
  moreover have "hx_frame_get_le16 (frame_image raw again x y) 4912 = x"
    "hx_frame_get_le16 (frame_image raw again x y) 4914 = y"
    using at [of 108] at [of 110] w [OF assms(2,3)] w [OF assms(4,5)] by simp_all
  moreover have "frame_image raw again x y ! 0 = 0x5a" "frame_image raw again x y ! 1 = 0xa5"
    by (simp_all add: frame_image_def)
  ultimately show "hx_parse_master_frame_status (frame_image raw again x y)
      = Some \<lparr>has_finger = (x mod 256 \<noteq> 0xff \<or> y mod 256 \<noteq> 0xff), retry = again\<rparr>"
    using sfx(1) by (simp add: hx_parse_master_frame_status_def frame_layout)
  show "event_matrix (frame_image raw again x y) = raw"
  proof (rule nth_equalityI)
    show "length (event_matrix (frame_image raw again x y)) = length raw" by (simp add: event_matrix_def len)
    fix i assume "i < length (event_matrix (frame_image raw again x y))"
    then have i: "i < length raw" by (simp add: event_matrix_def len)
    obtain rest where rest: "drop 4 (frame_image raw again x y) = concat (map le16_bytes raw) @ rest"
      by (simp add: frame_image_def)
    have "drop (4 + 2 * i) (frame_image raw again x y) = drop (2 * i) (drop 4 (frame_image raw again x y))"
      by (simp only: drop_drop) (simp only: add.commute)
    then obtain tl where "drop (4 + 2 * i) (frame_image raw again x y) = le16_bytes (raw ! i) @ tl"
      unfolding rest drop_concat_le16 [OF i] by blast
    moreover have "0 \<le> raw ! i" "raw ! i < 65536" using assms(1) i len by (simp_all add: raw_ok_def)
    ultimately show "event_matrix (frame_image raw again x y) ! i = raw ! i"
      using w i by (simp add: event_matrix_def hx_frame_get_le16_def frame_layout len)
  qed
qed

lemma frame_get_le16_bytes:
  assumes "k + 2 \<le> length buf"
  shows "hx_frame_get_le16 buf k = uint (buf ! k) + 256 * uint (buf ! (k + 1))"
  using assms by (simp add: hx_frame_get_le16_def le16_def)

lemma le16_split:
  fixes a b :: byte
  shows "uint a + 256 * uint b = 0 \<longleftrightarrow> a = 0 \<and> b = 0" "uint a + 256 * uint b = 0xbb \<longleftrightarrow> a = 0xbb \<and> b = 0"
    "(uint a + 256 * uint b) mod 256 = 0xff \<longleftrightarrow> a = 0xff"
proof -
  have r: "0 \<le> uint a" "uint a < 256" "0 \<le> uint b" using uint_bounded [of a] by simp_all
  have low: "x + 256 * y = c \<longleftrightarrow> x = c \<and> y = 0" if "0 \<le> x" "x < 256" "0 \<le> y" "0 \<le> c" "c < 256" for x y c :: int
    using that by (cases "y = 0") auto
  show "uint a + 256 * uint b = 0 \<longleftrightarrow> a = 0 \<and> b = 0"
    using low [OF r, of 0] by (simp add: unsigned_eq_0_iff)
  have eq: "uint a = c \<longleftrightarrow> a = word_of_int c" if "0 \<le> c" "c < 256" for c
  proof -
    have "uint (word_of_int c :: byte) = c" using that by (simp add: uint_word_of_int)
    then show ?thesis by (metis word_of_int_uint)
  qed
  show "uint a + 256 * uint b = 0xbb \<longleftrightarrow> a = 0xbb \<and> b = 0"
    using low [OF r, of "0xbb"] eq [of "0xbb"] by (simp add: unsigned_eq_0_iff)
  have "(uint a + 256 * uint b) mod 256 = uint a" using r by simp
  then show "(uint a + 256 * uint b) mod 256 = 0xff \<longleftrightarrow> a = 0xff" using eq [of "0xff"] by simp
qed

lemma parser_exact:
  "hx_parse_master_frame_status buf =
    (if 5060 \<le> length buf \<and> buf ! 0 = 0x5a \<and> buf ! 1 = 0xa5 \<and> buf ! 4810 = 0xbb \<and> buf ! 4811 = 0
     then Some \<lparr>has_finger = (buf ! 4912 \<noteq> 0xff \<or> buf ! 4914 \<noteq> 0xff), retry = (buf ! 4804 \<noteq> 0 \<or> buf ! 4805 \<noteq> 0)\<rparr>
     else None)"
proof (cases "5060 \<le> length buf")
  case True
  have w: "hx_frame_get_le16 buf 4804 = 0 \<longleftrightarrow> buf ! 4804 = 0 \<and> buf ! 4805 = 0"
    "hx_frame_get_le16 buf 4810 = 0xbb \<longleftrightarrow> buf ! 4810 = 0xbb \<and> buf ! 4811 = 0"
    "hx_frame_get_le16 buf 4912 mod 256 = 0xff \<longleftrightarrow> buf ! 4912 = 0xff"
    "hx_frame_get_le16 buf 4914 mod 256 = 0xff \<longleftrightarrow> buf ! 4914 = 0xff"
    using True frame_get_le16_bytes [of 4804 buf] frame_get_le16_bytes [of 4810 buf] frame_get_le16_bytes [of 4912 buf]
      frame_get_le16_bytes [of 4914 buf] le16_split by simp_all
  then show ?thesis using True by (simp add: hx_parse_master_frame_status_def frame_layout Let_def)
qed (simp add: hx_parse_master_frame_status_def frame_layout)

lemma event_matrix_bytes:
  assumes "4804 \<le> length buf" "i < HX_PIXELS"
  shows "event_matrix buf ! i = uint (buf ! (4 + 2 * i)) + 256 * uint (buf ! (5 + 2 * i))"
  using assms frame_get_le16_bytes [of "4 + 2 * i" buf] by (simp add: event_matrix_def frame_layout)

text \<open>C36: Which byte strings are taken for a master frame, and what is read from them, byte by byte.  A buffer is
  accepted exactly when it holds 5060 bytes, starts with the sync word \<open>5a a5\<close> and has the diagnostic word
  \<open>bb 00\<close> at 4810; then the retry flag is set exactly when one of the bytes 4804 and 4805 is not zero, and a
  finger is present exactly when one of the bytes 4912 and 4914 is not \<open>ff\<close>.  The matrix has 2400 values,
  little-endian from byte 4 on.  No byte but these eight has an influence on the status, and none outside
  4 to 4803 on the matrix.\<close>

theorem master_frame_exact:
  "hx_parse_master_frame_status buf =
    (if 5060 \<le> length buf \<and> buf ! 0 = 0x5a \<and> buf ! 1 = 0xa5 \<and> buf ! 4810 = 0xbb \<and> buf ! 4811 = 0
     then Some \<lparr>has_finger = (buf ! 4912 \<noteq> 0xff \<or> buf ! 4914 \<noteq> 0xff), retry = (buf ! 4804 \<noteq> 0 \<or> buf ! 4805 \<noteq> 0)\<rparr>
     else None)
    \<and> (4804 \<le> length buf \<longrightarrow> length (event_matrix buf) = 2400
      \<and> (\<forall>i < 2400. event_matrix buf ! i = uint (buf ! (4 + 2 * i)) + 256 * uint (buf ! (5 + 2 * i)))
      \<and> (\<forall>k v. k < 4 \<or> 4804 \<le> k \<longrightarrow> event_matrix (buf[k := v]) = event_matrix buf))
    \<and> (\<forall>k v. k \<notin> {0, 1, 4804, 4805, 4810, 4811, 4912, 4914} \<longrightarrow>
        hx_parse_master_frame_status (buf[k := v]) = hx_parse_master_frame_status buf)"
proof (intro conjI allI impI)
  show "length (event_matrix buf) = 2400" by (simp add: event_matrix_def)
  show "event_matrix buf ! i = uint (buf ! (4 + 2 * i)) + 256 * uint (buf ! (5 + 2 * i))"
    if "4804 \<le> length buf" "i < 2400" for i
    using that by (intro event_matrix_bytes) simp_all
  show "event_matrix (buf[k := v]) = event_matrix buf" if "4804 \<le> length buf" "k < 4 \<or> 4804 \<le> k" for k v
  proof (rule nth_equalityI)
    show "event_matrix (buf[k := v]) ! i = event_matrix buf ! i" if "i < length (event_matrix (buf[k := v]))" for i
    proof -
      have "i < HX_PIXELS" "4 + 2 * i \<noteq> k" "5 + 2 * i \<noteq> k"
        using that \<open>k < 4 \<or> 4804 \<le> k\<close> by (auto simp: event_matrix_def)
      then show ?thesis using \<open>4804 \<le> length buf\<close> by (simp add: event_matrix_bytes)
    qed
  qed (simp add: event_matrix_def)
qed (auto simp: parser_exact)

text \<open>A quiet frame, the same without its diagnostic word, and with a retry flag in the upper byte only.\<close>

theorem master_frame_exact_witness:
  "let b = frame_image (replicate HX_PIXELS 30000) False 0xffff 0x12ff in
    hx_parse_master_frame_status b = Some \<lparr>has_finger = False, retry = False\<rparr>
    \<and> hx_parse_master_frame_status (b[4811 := 1]) = None
    \<and> hx_parse_master_frame_status (b[4805 := 2]) = Some \<lparr>has_finger = False, retry = True\<rparr>
    \<and> event_matrix (b[4805 := 2]) = replicate HX_PIXELS 30000"
proof -
  define b where "b = frame_image (replicate HX_PIXELS 30000) False 0xffff 0x12ff"
  have img: "hx_parse_master_frame_status b = Some \<lparr>has_finger = False, retry = False\<rparr>" "event_matrix b = replicate HX_PIXELS 30000"
    using parse_image [of "replicate HX_PIXELS 30000" "0xffff" "0x12ff" False] by (simp_all add: b_def raw_ok_def)
  then have bytes: "5060 \<le> length b" "b ! 0 = 0x5a" "b ! 1 = 0xa5" "b ! 4810 = 0xbb" "b ! 4912 = 0xff" "b ! 4914 = 0xff" "b ! 4811 = 0"
    using master_frame_exact [of b] by (auto split: if_splits)
  then show ?thesis
    unfolding Let_def b_def [symmetric]
    using img master_frame_exact [of b] master_frame_exact [of "b[4811 := 1]"] master_frame_exact [of "b[4805 := 2]"] by simp
qed

end
