(* ===== verification/Ts_Hw.thy ===== *)
theory Ts_Hw
  imports Driver_Prelude
begin

text \<open>
  SPI transport, register access and firmware control of the touch controller (\<open>himax-spi-hw.c\<close>).  The
  SPI controller, the reset line and the charger state are parameters, collected in \<open>hx_bus\<close>: a transfer
  gets the buffer and gives the return code and the buffer afterwards (transmit and receive buffer are
  the same memory).  Delays have no counterpart; operations are in the \<open>io\<close> form of the prelude.
\<close>

record 'w hx_bus =
  spi_sync :: "'w \<Rightarrow> byte list \<Rightarrow> 'w \<times> int \<times> byte list"
  reset_pin :: "bool \<Rightarrow> 'w \<Rightarrow> 'w"
  is_system_supplied :: "'w \<Rightarrow> 'w \<times> int"

section \<open>Transfers\<close>

definition HIMAX_BUS_RETRY :: nat where "HIMAX_BUS_RETRY = 3"
definition HIMAX_REG_SZ :: nat where "HIMAX_REG_SZ = 4"

definition HIMAX_AHB_ADDR_BYTE_0 :: byte where "HIMAX_AHB_ADDR_BYTE_0 = 0x00"
definition HIMAX_AHB_ADDR_RDATA_BYTE_0 :: byte where "HIMAX_AHB_ADDR_RDATA_BYTE_0 = 0x08"
definition HIMAX_AHB_ADDR_ACCESS_DIRECTION :: byte where "HIMAX_AHB_ADDR_ACCESS_DIRECTION = 0x0c"
definition HIMAX_AHB_ADDR_INCR4 :: byte where "HIMAX_AHB_ADDR_INCR4 = 0x0d"
definition HIMAX_AHB_ADDR_CONTI :: byte where "HIMAX_AHB_ADDR_CONTI = 0x13"
definition HIMAX_AHB_ADDR_PSW_LB :: byte where "HIMAX_AHB_ADDR_PSW_LB = 0x31"
definition HIMAX_AHB_CMD_CONTI :: byte where "HIMAX_AHB_CMD_CONTI = 0x31"
definition HIMAX_AHB_CMD_INCR4 :: byte where "HIMAX_AHB_CMD_INCR4 = 0x10"

text \<open>A failed attempt is repeated with whatever the transfer left in the shared buffer.\<close>

fun spi_attempts :: "nat \<Rightarrow> 'w hx_bus \<Rightarrow> byte list \<Rightarrow> int \<Rightarrow> ('w, byte list) io" where
  "spi_attempts 0 bus buf ret = io_fail ret"
| "spi_attempts (Suc n) bus buf _ =
     (\<lambda>w. let (w, ret, buf) = spi_sync bus w buf in
       if ret < 0 then spi_attempts n bus buf ret w else (w, Inr buf))"

definition himax_spi_read :: "'w hx_bus \<Rightarrow> byte \<Rightarrow> nat \<Rightarrow> ('w, byte list) io" where
  "himax_spi_read bus cmd len =
     io_bind (spi_attempts HIMAX_BUS_RETRY bus ([0xf3, cmd, 0] @ replicate len 0) 0)
       (\<lambda>buf. io_return (take len (drop 3 buf)))"

definition himax_spi_write :: "'w hx_bus \<Rightarrow> byte list \<Rightarrow> ('w, unit) io" where
  "himax_spi_write bus tx_buf =
     (\<lambda>w. let (w, ret, rx) = spi_sync bus w tx_buf in if ret < 0 then (w, Inl ret) else (w, Inr ()))"

text \<open>Four address bytes or none, then the data; \<open>len\<close> is the number of bytes after the two header bytes.\<close>

definition himax_write :: "'w hx_bus \<Rightarrow> byte \<Rightarrow> byte list \<Rightarrow> byte list \<Rightarrow> nat \<Rightarrow> ('w, unit) io" where
  "himax_write bus cmd addr data len =
     himax_spi_write bus (take (2 + len) ([0xf2, cmd] @ addr @ data @ replicate len 0))"

definition himax_mcu_set_burst_mode :: "'w hx_bus \<Rightarrow> bool \<Rightarrow> ('w, unit) io" where
  "himax_mcu_set_burst_mode bus auto_add_4_byte =
     io_bind (himax_write bus HIMAX_AHB_ADDR_CONTI [] [HIMAX_AHB_CMD_CONTI] 1) (\<lambda>_.
       himax_write bus HIMAX_AHB_ADDR_INCR4 []
         [if auto_add_4_byte then HIMAX_AHB_CMD_INCR4 OR 1 else HIMAX_AHB_CMD_INCR4] 1)"

section \<open>Registers\<close>

definition himax_mcu_register_read :: "'w hx_bus \<Rightarrow> int \<Rightarrow> nat \<Rightarrow> ('w, byte list) io" where
  "himax_mcu_register_read bus addr len =
     io_bind (himax_mcu_set_burst_mode bus (len > HIMAX_REG_SZ)) (\<lambda>_.
     io_bind (himax_write bus HIMAX_AHB_ADDR_BYTE_0 (le32_bytes addr) [] 4) (\<lambda>_.
     io_bind (himax_write bus HIMAX_AHB_ADDR_ACCESS_DIRECTION [] [0x00] 1) (\<lambda>_.
     io_bind (himax_spi_read bus HIMAX_AHB_ADDR_RDATA_BYTE_0 len) (\<lambda>buf.
     io_bind (himax_mcu_set_burst_mode bus (\<not> len > HIMAX_REG_SZ)) (\<lambda>_.
     io_return buf)))))"

text \<open>The outcome of the data transfer is only logged; the result is that of the last mode change.\<close>

definition himax_mcu_register_write :: "'w hx_bus \<Rightarrow> int \<Rightarrow> byte list \<Rightarrow> ('w, unit) io" where
  "himax_mcu_register_write bus addr buf =
     io_bind (himax_mcu_set_burst_mode bus (length buf > HIMAX_REG_SZ)) (\<lambda>_.
     io_try (himax_write bus HIMAX_AHB_ADDR_BYTE_0 (le32_bytes addr) buf (length buf + HIMAX_REG_SZ))
       (\<lambda>e. himax_mcu_set_burst_mode bus (\<not> length buf > HIMAX_REG_SZ))
       (\<lambda>_. himax_mcu_set_burst_mode bus (\<not> length buf > HIMAX_REG_SZ)))"

fun verify_attempts :: "nat \<Rightarrow> 'w hx_bus \<Rightarrow> int \<Rightarrow> byte list \<Rightarrow> int \<Rightarrow> ('w, unit) io" where
  "verify_attempts 0 bus addr expected ret = io_fail ret"
| "verify_attempts (Suc n) bus addr expected _ =
     io_try (himax_mcu_register_write bus addr expected)
       (\<lambda>e. verify_attempts n bus addr expected e)
       (\<lambda>_. io_try (himax_mcu_register_read bus addr 4)
         (\<lambda>e. verify_attempts n bus addr expected e)
         (\<lambda>actual. if actual = expected then io_return () else verify_attempts n bus addr expected (- EIO)))"

definition himax_mcu_write_verify_u32 :: "'w hx_bus \<Rightarrow> int \<Rightarrow> int \<Rightarrow> nat \<Rightarrow> ('w, unit) io" where
  "himax_mcu_write_verify_u32 bus addr value attempts =
     verify_attempts attempts bus addr (le32_bytes value) (- EIO)"

section \<open>The command queue of the analogue front end\<close>

definition AFE_CMD_SLOT_BASE :: int where "AFE_CMD_SLOT_BASE = 0x10007550"
definition AFE_CMD_SLOT_STRIDE :: int where "AFE_CMD_SLOT_STRIDE = 0x10"
definition AFE_CMD_SLOT_COUNT :: nat where "AFE_CMD_SLOT_COUNT = 5"
definition AFE_CMD_PACKET_SIZE :: nat where "AFE_CMD_PACKET_SIZE = 16"

text \<open>The words of a packet, added up.\<close>

definition word_sum :: "byte list \<Rightarrow> int" where
  "word_sum p = sum_list (map (\<lambda>i. le16 (drop (2 * i) p)) [0..<length p div 2])"

definition himax_afe_build_command :: "byte \<Rightarrow> byte \<Rightarrow> byte list" where
  "himax_afe_build_command command value =
     (let packet = (replicate AFE_CMD_PACKET_SIZE 0)[0 := 0xa8, 1 := 0x8a, 2 := command, 4 := value];
          checksum = u16 (0 - u32 (word_sum packet));
          packet = packet[14 := word_of_int (checksum mod 256), 15 := word_of_int (checksum div 256)] in
      packet[0 := 0, 1 := 0])"

definition afe_slot_addr :: "nat \<Rightarrow> int" where
  "afe_slot_addr slot = AFE_CMD_SLOT_BASE + int (slot mod AFE_CMD_SLOT_COUNT) * AFE_CMD_SLOT_STRIDE"

text \<open>The result is the next slot; on failure the slot stays.\<close>

definition himax_afe_send_command :: "'w hx_bus \<Rightarrow> nat \<Rightarrow> byte \<Rightarrow> byte \<Rightarrow> ('w, nat) io" where
  "himax_afe_send_command bus slot command value =
     (let addr = afe_slot_addr slot in
      io_bind (himax_mcu_register_write bus addr (himax_afe_build_command command value)) (\<lambda>_.
      io_bind (himax_mcu_register_write bus addr [0xa8, 0x8a, command, 0x00]) (\<lambda>_.
      io_bind (himax_mcu_register_read bus addr AFE_CMD_PACKET_SIZE) (\<lambda>_.
      io_return ((slot + 1) mod AFE_CMD_SLOT_COUNT)))))"

definition himax_restore_afe_runtime :: "'w hx_bus \<Rightarrow> bool \<Rightarrow> nat \<Rightarrow> ('w, nat) io" where
  "himax_restore_afe_runtime bus enabled slot =
     (if \<not> enabled then io_return slot else himax_afe_send_command bus slot 0x0e 0x00)"

section \<open>Waking the bus, stopping and starting the firmware\<close>

fun burst_attempts :: "nat \<Rightarrow> 'w hx_bus \<Rightarrow> ('w, unit) io" where
  "burst_attempts 0 bus = io_fail (- EIO)"
| "burst_attempts (Suc n) bus =
     io_bind (himax_mcu_set_burst_mode bus False) (\<lambda>_.
     io_bind (himax_spi_read bus HIMAX_AHB_ADDR_CONTI 1) (\<lambda>buf.
     io_bind (himax_spi_read bus HIMAX_AHB_ADDR_INCR4 1) (\<lambda>buf2.
     if buf ! 0 = HIMAX_AHB_CMD_CONTI \<and> buf2 ! 0 = HIMAX_AHB_CMD_INCR4 then io_return ()
     else burst_attempts n bus)))"

text \<open>Every failure is reported as \<open>-EIO\<close>.\<close>

definition himax_mcu_interface_on :: "'w hx_bus \<Rightarrow> ('w, unit) io" where
  "himax_mcu_interface_on bus =
     io_try (io_bind (himax_spi_read bus HIMAX_AHB_ADDR_RDATA_BYTE_0 4) (\<lambda>_. burst_attempts 10 bus))
       (\<lambda>e. io_fail (- EIO)) io_return"

definition himax_pin_reset :: "'w hx_bus \<Rightarrow> ('w, unit) io" where
  "himax_pin_reset bus w = (reset_pin bus False (reset_pin bus True w), Inr ())"

definition REG_CTRL_FW :: int where "REG_CTRL_FW = 0x9000005c"
definition REG_FW_STATUS :: int where "REG_FW_STATUS = 0x900000a8"
definition REG_ICID :: int where "REG_ICID = 0x900000d0"
definition FW_STATE_RUNNING :: byte where "FW_STATE_RUNNING = 0x05"
definition FW_STATE_SAFE_MODE :: byte where "FW_STATE_SAFE_MODE = 0x0c"
definition FW_GO_SAFEMODE :: byte where "FW_GO_SAFEMODE = 0xa5"
definition FW_RE_INIT :: byte where "FW_RE_INIT = 0x00"
definition FW_IN_SAFEMODE :: byte where "FW_IN_SAFEMODE = 0x87"

text \<open>Asking the firmware to stop; \<open>known\<close> is the control byte of the previous round, if there was one.\<close>

fun stop_fw_attempts :: "nat \<Rightarrow> 'w hx_bus \<Rightarrow> byte option \<Rightarrow> ('w, unit) io" where
  "stop_fw_attempts 0 bus known = io_return ()"
| "stop_fw_attempts (Suc n) bus known =
     io_bind (if known \<in> {Some FW_GO_SAFEMODE, Some FW_RE_INIT, Some FW_IN_SAFEMODE} then io_return ()
         else himax_mcu_register_write bus REG_CTRL_FW (le32_bytes 0xa5)) (\<lambda>_.
     io_bind (himax_mcu_register_read bus REG_FW_STATUS 4) (\<lambda>data.
     if data ! 0 \<noteq> FW_STATE_RUNNING then io_return ()
     else io_bind (himax_mcu_register_read bus REG_CTRL_FW 4) (\<lambda>data.
       if data ! 0 = FW_IN_SAFEMODE then io_return () else stop_fw_attempts n bus (Some (data ! 0)))))"

fun safe_mode_attempts :: "nat \<Rightarrow> 'w hx_bus \<Rightarrow> ('w, unit) io" where
  "safe_mode_attempts 0 bus = io_fail (- EIO)"
| "safe_mode_attempts (Suc n) bus =
     io_bind (himax_write bus HIMAX_AHB_ADDR_PSW_LB [] (le16_bytes 0x9527) 2) (\<lambda>_.
     io_bind (himax_mcu_register_read bus REG_FW_STATUS 4) (\<lambda>data.
     if data ! 0 = FW_STATE_SAFE_MODE then io_return ()
     else io_bind (himax_pin_reset bus) (\<lambda>_. safe_mode_attempts n bus)))"

definition himax_sense_off :: "'w hx_bus \<Rightarrow> bool \<Rightarrow> ('w, unit) io" where
  "himax_sense_off bus check_en =
     io_bind (if check_en then stop_fw_attempts 35 bus None else io_return ()) (\<lambda>_. safe_mode_attempts 5 bus)"

definition himax_sense_on :: "'w hx_bus \<Rightarrow> bool \<Rightarrow> ('w, unit) io" where
  "himax_sense_on bus sw_reset =
     io_bind (himax_mcu_interface_on bus) (\<lambda>_.
     io_bind (himax_mcu_register_write bus REG_CTRL_FW (le32_bytes 0)) (\<lambda>_.
     if \<not> sw_reset then himax_pin_reset bus
     else himax_write bus HIMAX_AHB_ADDR_PSW_LB [] (le16_bytes 0) 2))"

fun icid_attempts :: "nat \<Rightarrow> 'w hx_bus \<Rightarrow> ('w, unit) io" where
  "icid_attempts 0 bus = io_fail (- ENODEV)"
| "icid_attempts (Suc n) bus =
     io_bind (himax_mcu_register_read bus REG_ICID 4) (\<lambda>data.
     if shr (le32 data) 8 = 0x83121a then io_return () else icid_attempts n bus)"

definition hx83121a_chip_detect :: "'w hx_bus \<Rightarrow> ('w, unit) io" where
  "hx83121a_chip_detect bus =
     io_bind (himax_pin_reset bus) (\<lambda>_.
     io_bind (himax_mcu_interface_on bus) (\<lambda>_.
     io_bind (himax_sense_off bus False) (\<lambda>_. icid_attempts 5 bus)))"

definition himax_verify_running_ic :: "'w hx_bus \<Rightarrow> ('w, unit) io" where
  "himax_verify_running_ic bus =
     io_bind (himax_mcu_interface_on bus) (\<lambda>_.
     io_bind (himax_mcu_register_read bus REG_ICID 4) (\<lambda>data.
     if shr (le32 data) 8 \<noteq> 0x83121a then io_fail (- ENODEV) else io_return ()))"

section \<open>Runtime state and power-on\<close>

definition DSRAM_2ND_FLASH_RELOAD :: int where "DSRAM_2ND_FLASH_RELOAD = 0x100072c0"
definition DSRAM_FLASH_RELOAD :: int where "DSRAM_FLASH_RELOAD = 0x10007f00"
definition DSRAM_SORTING_MODE_EN :: int where "DSRAM_SORTING_MODE_EN = 0x10007f04"
definition DSRAM_SET_NFRAME :: int where "DSRAM_SET_NFRAME = 0x10007294"
definition DSRAM_RAWDATA_PASSWORD :: int where "DSRAM_RAWDATA_PASSWORD = 0x10000000"
definition DSRAM_AP_NOTIFY_FW_SUSPEND :: int where "DSRAM_AP_NOTIFY_FW_SUSPEND = 0x10007fd0"
definition DSRAM_USB_DETECT :: int where "DSRAM_USB_DETECT = 0x10007f38"
definition DSRAM_RAW_OUT_SEL :: int where "DSRAM_RAW_OUT_SEL = 0x100072ec"
definition USB_CONNECTED :: int where "USB_CONNECTED = 0xa55aa55a"

text \<open>The charger mode is replayed only when the supply state is known, and its failure is ignored.\<close>

definition replay_charger_mode :: "'w hx_bus \<Rightarrow> ('w, unit) io" where
  "replay_charger_mode bus =
     (\<lambda>w. let (w, supplied) = is_system_supplied bus w in
       if supplied \<ge> 0
       then io_try (himax_mcu_write_verify_u32 bus DSRAM_USB_DETECT (if supplied \<noteq> 0 then USB_CONNECTED else 0) 3)
         (\<lambda>e. io_return ()) io_return w
       else (w, Inr ()))"

definition himax_restore_raw_runtime :: "'w hx_bus \<Rightarrow> ('w, unit) io" where
  "himax_restore_raw_runtime bus =
     io_bind (himax_mcu_write_verify_u32 bus DSRAM_AP_NOTIFY_FW_SUSPEND 0 3) (\<lambda>_.
     io_bind (himax_mcu_write_verify_u32 bus DSRAM_SORTING_MODE_EN 0 3) (\<lambda>_.
     io_bind (himax_mcu_write_verify_u32 bus DSRAM_SET_NFRAME 1 3) (\<lambda>_.
     io_bind (himax_mcu_write_verify_u32 bus DSRAM_RAW_OUT_SEL 0xf6 3) (\<lambda>_.
     io_bind (replay_charger_mode bus) (\<lambda>_.
     himax_mcu_register_write bus DSRAM_RAWDATA_PASSWORD (le32_bytes 0x5aa5))))))"

fun sorting_attempts :: "nat \<Rightarrow> 'w hx_bus \<Rightarrow> byte list \<Rightarrow> ('w, unit) io" where
  "sorting_attempts 0 bus data = io_fail (- EINVAL)"
| "sorting_attempts (Suc n) bus data =
     io_bind (himax_mcu_register_write bus DSRAM_SORTING_MODE_EN data) (\<lambda>_.
     io_bind (himax_mcu_register_read bus DSRAM_SORTING_MODE_EN 4) (\<lambda>rdata.
     if data = rdata then io_return () else sorting_attempts n bus data))"

definition himax_mcu_assign_sorting_mode :: "'w hx_bus \<Rightarrow> byte list \<Rightarrow> ('w, unit) io" where
  "himax_mcu_assign_sorting_mode bus data = sorting_attempts 3 bus data"

definition himax_enable_fw_reload :: "'w hx_bus \<Rightarrow> ('w, unit) io" where
  "himax_enable_fw_reload bus = himax_mcu_register_write bus DSRAM_FLASH_RELOAD (le32_bytes 0)"

text \<open>Waiting for a register to satisfy a test, at most \<open>n\<close> reads; \<open>e\<close> is the code when it never does.\<close>

fun poll_register :: "nat \<Rightarrow> 'w hx_bus \<Rightarrow> int \<Rightarrow> (byte list \<Rightarrow> bool) \<Rightarrow> int \<Rightarrow> ('w, unit) io" where
  "poll_register 0 bus addr ready e = io_fail e"
| "poll_register (Suc n) bus addr ready e =
     io_bind (himax_mcu_register_read bus addr 4) (\<lambda>data.
     if ready data then io_return () else poll_register n bus addr ready e)"

definition himax_mcu_power_on_init :: "'w hx_bus \<Rightarrow> ('w, unit) io" where
  "himax_mcu_power_on_init bus =
     io_bind (himax_mcu_assign_sorting_mode bus (le32_bytes 0)) (\<lambda>_.
     io_bind (himax_mcu_register_write bus DSRAM_SET_NFRAME (le32_bytes 1)) (\<lambda>_.
     io_bind (himax_mcu_register_write bus DSRAM_2ND_FLASH_RELOAD (le32_bytes 0)) (\<lambda>_.
     io_bind (himax_sense_on bus False) (\<lambda>_.
     io_bind (poll_register 30 bus REG_FW_STATUS (\<lambda>data. data ! 0 = FW_STATE_RUNNING) (- ETIMEDOUT)) (\<lambda>_.
     io_bind (poll_register 30 bus DSRAM_2ND_FLASH_RELOAD (\<lambda>data. le32 data = 0x72c0) (- EINVAL)) (\<lambda>_.
     io_bind (himax_mcu_register_write bus DSRAM_RAW_OUT_SEL (le32_bytes 0xf6)) (\<lambda>_.
     himax_mcu_register_write bus DSRAM_RAWDATA_PASSWORD (le32_bytes 0x5aa5))))))))"

fun crc_attempts :: "nat \<Rightarrow> 'w hx_bus \<Rightarrow> ('w, int) io" where
  "crc_attempts 0 bus = io_fail (- EINVAL)"
| "crc_attempts (Suc n) bus =
     io_bind (himax_mcu_register_read bus 0x80050000 4) (\<lambda>data.
     if data ! 0 AND 1 \<noteq> 1
     then io_bind (himax_mcu_register_read bus 0x80050018 4) (\<lambda>data. io_return (le32 data))
     else crc_attempts n bus)"

definition himax_mcu_check_crc :: "'w hx_bus \<Rightarrow> int \<Rightarrow> int \<Rightarrow> ('w, int) io" where
  "himax_mcu_check_crc bus start_addr reload_length =
     (let len = reload_length sdiv 4 in
      io_bind (himax_mcu_register_write bus 0x80050020 (le32_bytes start_addr)) (\<lambda>_.
      io_bind (himax_mcu_register_write bus 0x80050028 (le16_bytes len @ le16_bytes 0x99)) (\<lambda>_.
      io_bind (himax_mcu_register_read bus 0x80050028 4) (\<lambda>data.
      if le16 data \<noteq> len then io_fail (- EINVAL) else crc_attempts 100 bus))))"

section \<open>Every operation ends\<close>

text \<open>The bus with a counter of its transfers.\<close>

definition counted :: "'w hx_bus \<Rightarrow> ('w \<times> nat) hx_bus" where
  "counted bus = \<lparr>
     spi_sync = (\<lambda>(w, n) buf. let (w, r) = spi_sync bus w buf in ((w, Suc n), r)),
     reset_pin = (\<lambda>v (w, n). (reset_pin bus v w, n)),
     is_system_supplied = (\<lambda>(w, n). let (w, s) = is_system_supplied bus w in ((w, n), s))\<rparr>"

lemma counted_sync [simp]:
  "spi_sync (counted bus) (w, n) buf = (let (w, r) = spi_sync bus w buf in ((w, Suc n), r))"
  by (simp add: counted_def)

lemma within_spi_attempts [within_intros]: "within n (spi_attempts n (counted bus) buf ret)"
proof (induction n arbitrary: buf ret)
  case (Suc n)
  show ?case
  proof (rule withinI)
    fix w c
    obtain w1 r1 b1 where s: "spi_sync bus w buf = (w1, r1, b1)" by (metis prod.exhaust)
    show "snd (fst (spi_attempts (Suc n) (counted bus) buf ret (w, c))) \<le> c + Suc n"
      using withinD [OF Suc.IH, of b1 r1 "(w1, Suc c)"] s by simp
  qed
qed (simp add: within_fail)

lemma within_write [within_intros]: "within 1 (himax_write (counted bus) cmd addr data len)"
  by (auto simp: within_def himax_write_def himax_spi_write_def Let_def split: prod.splits)

lemma within_pin_reset [within_intros]: "within 0 (himax_pin_reset (counted bus))"
  by (simp add: within_def himax_pin_reset_def counted_def)

lemma within_spi_read [within_intros]: "within 3 (himax_spi_read (counted bus) cmd len)"
  unfolding himax_spi_read_def HIMAX_BUS_RETRY_def
  by (rule within_mono, (rule within_intros)+, simp)

lemma within_burst_mode [within_intros]: "within 2 (himax_mcu_set_burst_mode (counted bus) b)"
  unfolding himax_mcu_set_burst_mode_def by (rule within_mono, (rule within_intros)+, simp)

lemma within_register_read [within_intros]: "within 9 (himax_mcu_register_read (counted bus) addr len)"
  unfolding himax_mcu_register_read_def by (rule within_mono, (rule within_intros)+, simp)

lemma within_register_write [within_intros]: "within 5 (himax_mcu_register_write (counted bus) addr buf)"
  unfolding himax_mcu_register_write_def by (rule within_mono, (rule within_intros)+, simp)

lemma within_verify [within_intros]: "within (n * 14) (verify_attempts n (counted bus) addr v ret)"
proof (induction n arbitrary: ret)
  case (Suc n)
  show ?case by (simp only: verify_attempts.simps) (rule within_mono, (rule within_intros Suc.IH)+, simp)
qed (simp add: within_fail)

lemma within_burst_attempts [within_intros]: "within (n * 8) (burst_attempts n (counted bus))"
proof (induction n)
  case (Suc n)
  show ?case by (simp only: burst_attempts.simps) (rule within_mono, (rule within_intros Suc.IH)+, simp)
qed (simp add: within_fail)

lemma within_safe_mode [within_intros]: "within (n * 10) (safe_mode_attempts n (counted bus))"
proof (induction n)
  case (Suc n)
  show ?case by (simp only: safe_mode_attempts.simps) (rule within_mono, (rule within_intros Suc.IH)+, simp)
qed (simp add: within_fail)

lemma within_stop_fw [within_intros]: "within (n * 23) (stop_fw_attempts n (counted bus) known)"
proof (induction n arbitrary: known)
  case (Suc n)
  show ?case by (simp only: stop_fw_attempts.simps) (rule within_mono, (rule within_intros Suc.IH)+, simp)
qed (simp add: within_return)

lemma within_icid [within_intros]: "within (n * 9) (icid_attempts n (counted bus))"
proof (induction n)
  case (Suc n)
  show ?case by (simp only: icid_attempts.simps) (rule within_mono, (rule within_intros Suc.IH)+, simp)
qed (simp add: within_fail)

lemma within_sorting [within_intros]: "within (n * 14) (sorting_attempts n (counted bus) data)"
proof (induction n)
  case (Suc n)
  show ?case by (simp only: sorting_attempts.simps) (rule within_mono, (rule within_intros Suc.IH)+, simp)
qed (simp add: within_fail)

lemma within_poll [within_intros]: "within (n * 9) (poll_register n (counted bus) addr ready e)"
proof (induction n)
  case (Suc n)
  show ?case by (simp only: poll_register.simps) (rule within_mono, (rule within_intros Suc.IH)+, simp)
qed (simp add: within_fail)

lemma within_crc [within_intros]: "within (n * 9 + 9) (crc_attempts n (counted bus))"
proof (induction n)
  case (Suc n)
  show ?case by (simp only: crc_attempts.simps) (rule within_mono, (rule within_intros Suc.IH)+, simp)
next
  case 0
  show ?case by simp (rule within_mono [OF within_fail], simp)
qed

lemma within_interface_on [within_intros]: "within 83 (himax_mcu_interface_on (counted bus))"
  unfolding himax_mcu_interface_on_def by (rule within_mono, (rule within_intros)+, simp)

lemma within_sense_off [within_intros]: "within 855 (himax_sense_off (counted bus) check)"
  unfolding himax_sense_off_def by (rule within_mono, (rule within_intros)+, simp)

lemma within_sense_off_unchecked: "within 50 (himax_sense_off (counted bus) False)"
  unfolding himax_sense_off_def by (simp, rule within_mono, (rule within_intros)+, simp)

lemma within_sense_on [within_intros]: "within 89 (himax_sense_on (counted bus) sw)"
  unfolding himax_sense_on_def by (rule within_mono, (rule within_intros)+, simp)

lemma within_chip_detect [within_intros]: "within 178 (hx83121a_chip_detect (counted bus))"
  unfolding hx83121a_chip_detect_def
  by (rule within_mono, (rule within_sense_off_unchecked within_intros)+, simp)

lemma within_verify_u32 [within_intros]: "within (k * 14) (himax_mcu_write_verify_u32 (counted bus) addr v k)"
  unfolding himax_mcu_write_verify_u32_def by (rule within_intros)

lemma within_charger [within_intros]: "within 42 (replay_charger_mode (counted bus))"
proof (rule withinI)
  fix w n
  obtain w1 s where s: "is_system_supplied bus w = (w1, s)" by (metis prod.exhaust)
  have "within 42 (io_try (himax_mcu_write_verify_u32 (counted bus) DSRAM_USB_DETECT v 3)
      (\<lambda>e. io_return ()) io_return)" for v
    by (rule within_mono, (rule within_intros)+, simp)
  from withinD [OF this, of "if s \<noteq> 0 then USB_CONNECTED else 0" "(w1, n)"]
  show "snd (fst (replay_charger_mode (counted bus) (w, n))) \<le> n + 42"
    using s by (simp add: replay_charger_mode_def counted_def Let_def)
qed

lemma within_raw_runtime [within_intros]: "within 215 (himax_restore_raw_runtime (counted bus))"
  unfolding himax_restore_raw_runtime_def by (rule within_mono, (rule within_intros)+, simp)

lemma within_afe [within_intros]: "within 19 (himax_restore_afe_runtime (counted bus) enabled slot)"
  unfolding himax_restore_afe_runtime_def himax_afe_send_command_def Let_def
  by (rule within_mono, (rule within_intros)+, simp)

lemma within_verify_ic [within_intros]: "within 92 (himax_verify_running_ic (counted bus))"
  unfolding himax_verify_running_ic_def by (rule within_mono, (rule within_intros)+, simp)

lemma within_fw_reload [within_intros]: "within 5 (himax_enable_fw_reload (counted bus))"
  unfolding himax_enable_fw_reload_def by (rule within_intros)

lemma within_power_on [within_intros]: "within 691 (himax_mcu_power_on_init (counted bus))"
  unfolding himax_mcu_power_on_init_def himax_mcu_assign_sorting_mode_def
  by (rule within_mono, (rule within_intros)+, simp)

lemma within_check_crc [within_intros]: "within 928 (himax_mcu_check_crc (counted bus) addr len)"
  unfolding himax_mcu_check_crc_def Let_def by (rule within_mono, (rule within_intros)+, simp)

text \<open>C34: no operation on the controller waits for ever: whatever the controller answers and whatever the bus
  does, detection, stopping the firmware, power-on, the CRC check and the replay of the runtime state
  end after at most the given number of SPI transfers.\<close>

theorem controller_operations_bounded:
  "within 178 (hx83121a_chip_detect (counted bus)) \<and> within 855 (himax_sense_off (counted bus) check)
   \<and> within 691 (himax_mcu_power_on_init (counted bus)) \<and> within 928 (himax_mcu_check_crc (counted bus) addr len)
   \<and> within 215 (himax_restore_raw_runtime (counted bus)) \<and> within 19 (himax_restore_afe_runtime (counted bus) enabled slot)
   \<and> within 92 (himax_verify_running_ic (counted bus)) \<and> within (k * 14) (himax_mcu_write_verify_u32 (counted bus) a v k)"
  by (intro conjI within_chip_detect within_sense_off within_power_on within_check_crc
      within_raw_runtime within_afe within_verify_ic within_verify_u32)

section \<open>What a successful write means\<close>

lemma io_try_Inr:
  "io_try m h f w = (w', Inr y) \<longleftrightarrow>
    (\<exists>w1 e. m w = (w1, Inl e) \<and> h e w1 = (w', Inr y)) \<or> (\<exists>w1 x. m w = (w1, Inr x) \<and> f x w1 = (w', Inr y))"
  by (auto simp: io_try_def split: prod.splits sum.splits)

lemma verify_attempts_read:
  "verify_attempts n bus addr v ret w = (w', Inr ()) \<Longrightarrow>
    \<exists>w1. himax_mcu_register_read bus addr 4 w1 = (w', Inr v)"
  by (induction n arbitrary: w ret) (auto simp: io_try_Inr split: if_splits)

text \<open>A verified write that succeeds has been read back: its last access to the controller is a read of the
  register that returned exactly the four bytes of the value.\<close>

theorem verified_write_was_read_back:
  assumes "himax_mcu_write_verify_u32 bus addr value attempts w = (w', Inr ())" "0 \<le> value" "value < 2 ^ 32"
  shows "\<exists>w1 data. himax_mcu_register_read bus addr 4 w1 = (w', Inr data) \<and> le32 data = value"
  using verify_attempts_read [OF assms(1) [unfolded himax_mcu_write_verify_u32_def]] assms(2,3)
    le32_le32_bytes by blast

text \<open>A plain register write does not report a failed data transfer: when both mode changes succeed the
  result is success, whether the address and data were transferred or not.\<close>

theorem failed_register_write_hidden:
  assumes "himax_mcu_set_burst_mode bus (length buf > 4) w = (w1, Inr ())"
    "himax_write bus HIMAX_AHB_ADDR_BYTE_0 (le32_bytes addr) buf (length buf + 4) w1 = (w2, r)"
    "himax_mcu_set_burst_mode bus (\<not> length buf > 4) w2 = (w3, Inr ())"
  shows "himax_mcu_register_write bus addr buf w = (w3, Inr ())"
  using assms by (cases r) (auto simp: himax_mcu_register_write_def io_bind_def io_try_def HIMAX_REG_SZ_def)

text \<open>A controller with one register that answers reads of it, and drops writes when told so.\<close>

definition sample_hx :: "(byte list \<times> bool) hx_bus" where
  "sample_hx = \<lparr>
     spi_sync = (\<lambda>(reg, broken) buf.
       if buf ! 0 = 0xf3 then ((reg, broken), 0, [0xf3, 0, 0] @ reg)
       else if buf ! 1 = 0x00 \<and> length buf > 6 then
         (if broken then ((reg, broken), -5, buf) else ((drop 6 buf, broken), 0, buf))
       else ((reg, broken), 0, buf)),
     reset_pin = (\<lambda>_ w. w),
     is_system_supplied = (\<lambda>w. (w, -1))\<rparr>"

lemmas sample_hx_run = himax_mcu_set_burst_mode_def himax_write_def himax_spi_write_def io_bind_def
  HIMAX_AHB_ADDR_CONTI_def HIMAX_AHB_ADDR_INCR4_def HIMAX_AHB_ADDR_BYTE_0_def HIMAX_AHB_CMD_CONTI_def
  HIMAX_AHB_CMD_INCR4_def sample_hx_def le32_bytes_def

theorem failed_register_write_hidden_witness:
  "himax_mcu_register_write sample_hx 16 [1, 2, 3, 4] ([9, 9, 9, 9], True) = (([9, 9, 9, 9], True), Inr ())"
proof (rule failed_register_write_hidden)
  show "himax_write sample_hx HIMAX_AHB_ADDR_BYTE_0 (le32_bytes 16) [1, 2, 3, 4] (length [1, 2, 3, 4 :: byte] + 4)
      ([9, 9, 9, 9], True) = (([9, 9, 9, 9], True), Inl (-5))"
    by (simp add: sample_hx_run)
qed (simp_all add: sample_hx_run)

theorem verified_write_was_read_back_witness:
  "\<exists>w1 data. himax_mcu_register_read sample_hx 16 4 w1 = (([1, 0, 0, 0], False), Inr data) \<and> le32 data = 1"
proof (rule verified_write_was_read_back)
  show "himax_mcu_write_verify_u32 sample_hx 16 1 1 ([9, 9, 9, 9], False) = (([1, 0, 0, 0], False), Inr ())"
    by (simp add: himax_mcu_write_verify_u32_def himax_mcu_register_write_def himax_mcu_register_read_def
        io_try_def sample_hx_run HIMAX_REG_SZ_def HIMAX_AHB_ADDR_ACCESS_DIRECTION_def himax_spi_read_def
        HIMAX_BUS_RETRY_def numeral_3_eq_3 io_return_def HIMAX_AHB_ADDR_RDATA_BYTE_0_def)
qed simp_all

section \<open>Checksums of the command queue\<close>

lemma word_sum_16:
  "word_sum [a, b, c, d, e, f, g, h, i, j, k, l, m, n, x, y]
    = uint a + uint c + uint e + uint g + uint i + uint k + uint m + uint x
      + 256 * (uint b + uint d + uint f + uint h + uint j + uint l + uint n + uint y)"
  by (simp add: word_sum_def le16_def upt_rec)

text \<open>The command packets of the analogue front end are well formed: 16 bytes with command and value in
  place, header bytes left out, and with the header \<open>0xa8 0x8a\<close> put back the eight little-endian words
  add up to 0 modulo 65536.\<close>

theorem afe_packet_checksum:
  "length (himax_afe_build_command command value) = 16
   \<and> take 5 (himax_afe_build_command command value) = [0, 0, command, 0, value]
   \<and> word_sum ((himax_afe_build_command command value)[0 := 0xa8, 1 := 0x8a]) mod 65536 = 0"
proof -
  define s where "s = 0x8aa8 + (uint command + uint value)"
  define c where "c = u16 (0 - u32 s)"
  have c: "0 \<le> c" "c < 65536" using u16_range [of "0 - u32 s"] by (simp_all add: c_def)
  have zeros: "replicate AFE_CMD_PACKET_SIZE 0 = [0, 0, 0, 0, 0, 0, 0, 0, 0, 0, 0, 0, 0, 0, 0, 0 :: byte]"
    by (simp add: AFE_CMD_PACKET_SIZE_def numeral_eq_Suc)
  have p: "himax_afe_build_command command value
      = [0, 0, command, 0, value, 0, 0, 0, 0, 0, 0, 0, 0, 0, word_of_int (c mod 256), word_of_int (c div 256)]"
    by (simp add: himax_afe_build_command_def zeros word_sum_16 Let_def c_def s_def)
  have "u32 s = s" using byte_range(2) [of command] byte_range(2) [of "value"]
    unfolding s_def by (intro u32_id) (simp, linarith)
  then have sum: "(s + c) mod 65536 = 0"
    by (simp add: c_def u16_def take_bit_eq_mod mod_simps)
  have "word_sum ((himax_afe_build_command command value)[0 := 0xa8, 1 := 0x8a]) = s + c"
    using c by (simp add: p word_sum_16 s_def uint_word_of_int)
  then show ?thesis using sum by (simp add: p)
qed

end
