(* ===== verification/Ts_Core.thy ===== *)
theory Ts_Core
  imports Hx_Live Hx_FrameStatus Ts_Hw
begin

text \<open>
  The touchscreen driver around the algorithm (\<open>himax-spi-core.c\<close>, \<open>himax_int_enable\<close> and
  \<open>himax_lock\<close> of \<open>himax-spi-hw.c\<close>): reading the event stack, waking the controller up, reporting
  slots, the panel-follower callbacks, the reinit work, the interrupt thread and removal.  The driver
  state is \<open>himax_ts\<close>; operations run over the pair of it and the state of the bus, in the \<open>io\<close> form
  of the prelude.  Every handler holds \<open>op_lock\<close> from its first access to its last, so a handler is one
  step of the driver.
\<close>

section \<open>State\<close>

text \<open>What the input core holds of one slot.\<close>

record mt_slot =
  slot_on :: bool
  slot_x :: int
  slot_y :: int
  slot_major :: int
  slot_pressure :: int

record himax_ts =
  irq_enabled :: bool
  panel_prepared :: bool
  panel_enabled :: bool
  controller_initialized :: bool
  retained_suspend :: bool
  shutting_down :: bool
  reinit_pending :: bool
  ts_algo :: hx_algo
  event_buf :: "byte list"
  frame_errors :: int
  noise_frames :: int
  afe_command_slot :: nat
  slots :: "mt_slot list"

text \<open>Module parameters, and the library functions the reports go through.\<close>

record hx_config =
  full_resume_on_panel_enable :: bool
  restore_afe_runtime :: bool
  disable_pressure :: bool
  int_sqrt :: "int \<Rightarrow> int"
  touch_pos :: "int \<Rightarrow> int \<Rightarrow> int \<times> int"

type_synonym ('w, 'a) ts_io = "(himax_ts \<times> 'w, 'a) io"

definition on_bus :: "('w, 'a) io \<Rightarrow> ('w, 'a) ts_io" where
  "on_bus m = (\<lambda>(ts, w). let (w, r) = m w in ((ts, w), r))"

definition upd :: "(himax_ts \<Rightarrow> himax_ts) \<Rightarrow> ('w, unit) ts_io" where
  "upd f = (\<lambda>(ts, w). ((f ts, w), Inr ()))"

definition reading :: "(himax_ts \<Rightarrow> ('w, 'a) ts_io) \<Rightarrow> ('w, 'a) ts_io" where
  "reading f = (\<lambda>(ts, w). f ts (ts, w))"

definition himax_int_enable :: "bool \<Rightarrow> himax_ts \<Rightarrow> himax_ts" where
  "himax_int_enable on ts = ts\<lparr>irq_enabled := on\<rparr>"

text \<open>Taking the lock first turns the interrupt off and waits for its thread.\<close>

definition himax_lock :: "himax_ts \<Rightarrow> himax_ts" where
  "himax_lock ts = himax_int_enable False ts"

section \<open>Reports\<close>

definition report_slot :: "hx_config \<Rightarrow> hx_algo \<Rightarrow> bool \<Rightarrow> hx_track \<Rightarrow> mt_slot \<Rightarrow> mt_slot" where
  "report_slot cfg algo report_on t s =
     (if report_on \<and> trk_active t \<and> trk_reported t
      then
        let s = s\<lparr>slot_on := True, slot_x := fst (touch_pos cfg (trk_x t) (trk_y t)),
              slot_y := snd (touch_pos cfg (trk_x t) (trk_y t))\<rparr> in
        if disable_pressure cfg then s
        else if pressure_enabled (det algo) then
          s\<lparr>slot_major := min (s32 (int_sqrt cfg (shr (trk_signal_sum t) 4 mod 2 ^ 64) * 4)) 255,
            slot_pressure := clamp (shr (trk_signal_sum t) 2) 0 4095\<rparr>
        else s\<lparr>slot_major := 1, slot_pressure := 4095\<rparr>
      else s\<lparr>slot_on := False\<rparr>)"

definition himax_report_tracked_state :: "hx_config \<Rightarrow> bool \<Rightarrow> himax_ts \<Rightarrow> himax_ts" where
  "himax_report_tracked_state cfg report_on ts =
     ts\<lparr>slots := map2 (report_slot cfg (ts_algo ts) report_on) (take HIMAX_MAX_TOUCH (tracks (ts_algo ts))) (slots ts)\<rparr>"

definition himax_release_all_touches :: "hx_config \<Rightarrow> himax_ts \<Rightarrow> himax_ts" where
  "himax_release_all_touches cfg ts =
     himax_report_tracked_state cfg False (ts\<lparr>ts_algo := hx_algo_clear_live_state (ts_algo ts)\<rparr>)"

section \<open>The event stack\<close>

definition HIMAX_FULL_EVENT_STACK_SIZE :: nat where
  "HIMAX_FULL_EVENT_STACK_SIZE = 128 + (2 + 60 * 40 + 40 + 60) * 2"
definition HIMAX_BUS_READ_HEADER_SIZE :: nat where "HIMAX_BUS_READ_HEADER_SIZE = 3"
definition HIMAX_EVENT_STACK_ADDRESS :: byte where "HIMAX_EVENT_STACK_ADDRESS = 0x30"
definition max_trunk_sz :: nat where
  "max_trunk_sz = HIMAX_FULL_EVENT_STACK_SIZE - HIMAX_BUS_READ_HEADER_SIZE"

lemmas stack_layout = HIMAX_FULL_EVENT_STACK_SIZE_def HIMAX_BUS_READ_HEADER_SIZE_def max_trunk_sz_def

text \<open>Storing \<open>bs\<close> at offset \<open>i\<close> of a buffer of fixed size.\<close>

definition store_at :: "nat \<Rightarrow> byte list \<Rightarrow> byte list \<Rightarrow> byte list" where
  "store_at i bs buf = take i buf @ take (length buf - i) bs @ drop (i + length bs) buf"

function read_chunks :: "'w hx_bus \<Rightarrow> nat \<Rightarrow> ('w, unit) ts_io" where
  "read_chunks bus i =
     (if i < HIMAX_FULL_EVENT_STACK_SIZE
      then io_bind (on_bus (himax_spi_read bus HIMAX_EVENT_STACK_ADDRESS
               (min (HIMAX_FULL_EVENT_STACK_SIZE - i) max_trunk_sz))) (\<lambda>bs.
             io_bind (upd (\<lambda>ts. ts\<lparr>event_buf := store_at i bs (event_buf ts)\<rparr>)) (\<lambda>_.
             read_chunks bus (i + max_trunk_sz)))
      else io_return ())"
  by pat_completeness auto
termination
  by (relation "measure (\<lambda>(bus, i). HIMAX_FULL_EVENT_STACK_SIZE - i)") (auto simp: stack_layout)

declare read_chunks.simps [simp del]

definition hx83121a_gaokun_read_event_stack :: "'w hx_bus \<Rightarrow> ('w, unit) ts_io" where
  "hx83121a_gaokun_read_event_stack bus = read_chunks bus 0"

section \<open>Waiting for the producer after a wake-up\<close>

definition HIMAX_RESUME_QUALITY_ATTEMPTS :: nat where "HIMAX_RESUME_QUALITY_ATTEMPTS = 30"

definition frame_hash :: "byte list \<Rightarrow> 32 word" where
  "frame_hash buf = foldl (\<lambda>h b. (h XOR ucast b) * 16777619) 2166136261 buf"

text \<open>
  One round after another: a read error, an invalid or retry frame and a rejected frame leave their code
  in \<open>ret\<close>; a repeated image and a pending verdict leave the \<open>0\<close> of the read.  The last code is the
  result when the attempts are used up.
\<close>

fun stable_attempts :: "nat \<Rightarrow> 'w hx_bus \<Rightarrow> 32 word option \<Rightarrow> int \<Rightarrow> ('w, unit) ts_io" where
  "stable_attempts 0 bus previous ret = (if ret = 0 then io_return () else io_fail ret)"
| "stable_attempts (Suc n) bus previous _ =
     io_try (hx83121a_gaokun_read_event_stack bus) (\<lambda>e. stable_attempts n bus previous e) (\<lambda>_.
       reading (\<lambda>ts.
         case hx_parse_master_frame_status (event_buf ts) of
           None \<Rightarrow> stable_attempts n bus previous (- EAGAIN)
         | Some status \<Rightarrow>
             if retry status then stable_attempts n bus previous (- EAGAIN)
             else if previous = Some (frame_hash (event_buf ts)) then stable_attempts n bus previous 0
             else
               let (algo, quality) = hx_algo_qualify_wake_frame (ts_algo ts) (event_matrix (event_buf ts)) (frame_finger status) in
               io_bind (upd (\<lambda>ts. ts\<lparr>ts_algo := algo\<rparr>)) (\<lambda>_.
                 if quality = HX_WAKE_QUALITY_REJECTED
                 then stable_attempts n bus (Some (frame_hash (event_buf ts))) (- EUCLEAN)
                 else if quality = HX_WAKE_QUALITY_PENDING
                 then stable_attempts n bus (Some (frame_hash (event_buf ts))) 0
                 else io_return ())))"

definition himax_wait_for_stable_event_frames :: "'w hx_bus \<Rightarrow> ('w, unit) ts_io" where
  "himax_wait_for_stable_event_frames bus =
     stable_attempts HIMAX_RESUME_QUALITY_ATTEMPTS bus None (- EIO)"

section \<open>Initialisation and resume\<close>

definition restore_afe :: "hx_config \<Rightarrow> 'w hx_bus \<Rightarrow> ('w, unit) ts_io" where
  "restore_afe cfg bus =
     reading (\<lambda>ts. io_try (on_bus (himax_restore_afe_runtime bus (restore_afe_runtime cfg) (afe_command_slot ts)))
       (\<lambda>e. io_return ()) (\<lambda>slot. upd (\<lambda>ts. ts\<lparr>afe_command_slot := slot\<rparr>)))"

definition begin_wake :: "hx_config \<Rightarrow> himax_ts \<Rightarrow> himax_ts" where
  "begin_wake cfg ts =
     (let ts = himax_release_all_touches cfg ts in ts\<lparr>ts_algo := hx_algo_begin_wake (ts_algo ts)\<rparr>)"

definition himax_warm_resume :: "hx_config \<Rightarrow> 'w hx_bus \<Rightarrow> ('w, unit) ts_io" where
  "himax_warm_resume cfg bus =
     io_bind (upd (begin_wake cfg)) (\<lambda>_.
     io_bind (on_bus (himax_verify_running_ic bus)) (\<lambda>_.
     io_bind (on_bus (himax_restore_raw_runtime bus)) (\<lambda>_.
     io_bind (restore_afe cfg bus) (\<lambda>_.
     io_bind (himax_wait_for_stable_event_frames bus) (\<lambda>_.
     upd (\<lambda>ts. himax_int_enable True (ts\<lparr>retained_suspend := False, controller_initialized := True\<rparr>)))))))"

definition HIMAX_HX83121A_FLASH_SIZE :: int where "HIMAX_HX83121A_FLASH_SIZE = 255 * 1024"

definition himax_hw_reinit :: "hx_config \<Rightarrow> 'w hx_bus \<Rightarrow> bool \<Rightarrow> ('w, unit) ts_io" where
  "himax_hw_reinit cfg bus check_crc =
     io_bind (upd (\<lambda>ts. begin_wake cfg (ts\<lparr>controller_initialized := False, retained_suspend := False\<rparr>))) (\<lambda>_.
     io_bind (on_bus (hx83121a_chip_detect bus)) (\<lambda>_.
     io_bind (if check_crc
       then io_bind (on_bus (himax_mcu_check_crc bus 0 HIMAX_HX83121A_FLASH_SIZE)) (\<lambda>crc_hw.
         if crc_hw \<noteq> 0 then io_fail (- EINVAL) else io_return ())
       else io_return ()) (\<lambda>_.
     io_bind (on_bus (himax_enable_fw_reload bus)) (\<lambda>_.
     io_bind (on_bus (himax_mcu_power_on_init bus)) (\<lambda>_.
     io_bind (restore_afe cfg bus) (\<lambda>_.
     io_bind (on_bus (himax_restore_raw_runtime bus)) (\<lambda>_.
     io_bind (himax_wait_for_stable_event_frames bus) (\<lambda>_.
     upd (\<lambda>ts. himax_int_enable True (ts\<lparr>controller_initialized := True\<rparr>))))))))))"

definition HIMAX_PANEL_REINIT_RETRIES :: nat where "HIMAX_PANEL_REINIT_RETRIES = 3"

fun himax_hw_reinit_retry :: "nat \<Rightarrow> hx_config \<Rightarrow> 'w hx_bus \<Rightarrow> bool \<Rightarrow> int \<Rightarrow> ('w, unit) ts_io" where
  "himax_hw_reinit_retry 0 cfg bus check_crc ret = io_fail ret"
| "himax_hw_reinit_retry (Suc n) cfg bus check_crc _ =
     io_try (himax_hw_reinit cfg bus check_crc) (himax_hw_reinit_retry n cfg bus check_crc) io_return"

definition full_reinit :: "hx_config \<Rightarrow> 'w hx_bus \<Rightarrow> ('w, unit) ts_io" where
  "full_reinit cfg bus = himax_hw_reinit_retry HIMAX_PANEL_REINIT_RETRIES cfg bus False 0"

definition himax_manual_reset :: "hx_config \<Rightarrow> 'w hx_bus \<Rightarrow> ('w, unit) ts_io" where
  "himax_manual_reset cfg bus =
     io_bind (upd (\<lambda>ts. himax_lock (ts\<lparr>reinit_pending := False\<rparr>))) (\<lambda>_.
     reading (\<lambda>ts.
       if shutting_down ts then io_fail (- ENODEV)
       else if \<not> panel_prepared ts \<or> \<not> panel_enabled ts then io_fail (- EHOSTDOWN)
       else full_reinit cfg bus))"

section \<open>The panel follower\<close>

definition himax_power_down :: "hx_config \<Rightarrow> 'w hx_bus \<Rightarrow> ('w, unit) ts_io" where
  "himax_power_down cfg bus = (\<lambda>(ts, w).
     (((himax_release_all_touches cfg (himax_int_enable False ts))
        \<lparr>controller_initialized := False, retained_suspend := False\<rparr>,
      reset_pin bus True w), Inr ()))"

definition himax_retain_for_suspend :: "hx_config \<Rightarrow> himax_ts \<Rightarrow> himax_ts" where
  "himax_retain_for_suspend cfg ts =
     (let ts = himax_release_all_touches cfg (himax_int_enable False ts) in
      ts\<lparr>frame_errors := 0, retained_suspend := controller_initialized ts\<rparr>)"

definition himax_panel_prepared :: "himax_ts \<Rightarrow> himax_ts" where
  "himax_panel_prepared ts =
     (let ts = himax_lock ts in if shutting_down ts then ts else ts\<lparr>panel_prepared := True\<rparr>)"

text \<open>The work runs outside every caller; its result is the state it leaves.\<close>

definition himax_panel_reinit_work :: "hx_config \<Rightarrow> 'w hx_bus \<Rightarrow> himax_ts \<times> 'w \<Rightarrow> himax_ts \<times> 'w" where
  "himax_panel_reinit_work cfg bus = (\<lambda>(ts, w).
     let ts = himax_lock (ts\<lparr>reinit_pending := False\<rparr>) in
     if shutting_down ts \<or> \<not> panel_prepared ts \<or> \<not> panel_enabled ts then (ts, w)
     else fst (io_try
       (if \<not> full_resume_on_panel_enable cfg \<and> retained_suspend ts \<and> controller_initialized ts
        then io_try (himax_warm_resume cfg bus) (\<lambda>e. full_reinit cfg bus) io_return
        else full_reinit cfg bus)
       (\<lambda>e. himax_power_down cfg bus) io_return (ts, w)))"

definition himax_panel_enabled :: "himax_ts \<Rightarrow> himax_ts" where
  "himax_panel_enabled ts =
     (let ts = himax_lock ts in
      if shutting_down ts then ts else ts\<lparr>panel_enabled := True, reinit_pending := True\<rparr>)"

definition himax_panel_disabling :: "hx_config \<Rightarrow> himax_ts \<Rightarrow> himax_ts" where
  "himax_panel_disabling cfg ts =
     (let ts = (himax_lock (ts\<lparr>reinit_pending := False\<rparr>))\<lparr>panel_enabled := False\<rparr> in
      if panel_prepared ts then himax_retain_for_suspend cfg ts else ts)"

definition himax_panel_unpreparing :: "hx_config \<Rightarrow> himax_ts \<Rightarrow> himax_ts" where
  "himax_panel_unpreparing cfg ts =
     himax_retain_for_suspend cfg
       ((himax_lock (ts\<lparr>reinit_pending := False\<rparr>))\<lparr>panel_enabled := False, panel_prepared := False\<rparr>)"

section \<open>The interrupt thread\<close>

definition HIMAX_MAX_CONSECUTIVE_FRAME_ERRORS :: int where "HIMAX_MAX_CONSECUTIVE_FRAME_ERRORS = 3"
definition HIMAX_MAX_CONSECUTIVE_NOISE_FRAMES :: int where "HIMAX_MAX_CONSECUTIVE_NOISE_FRAMES = 12"

text \<open>Turning the interrupt off and going through the full initialisation, whose failure is only logged.\<close>

definition recover :: "hx_config \<Rightarrow> 'w hx_bus \<Rightarrow> himax_ts \<times> 'w \<Rightarrow> himax_ts \<times> 'w" where
  "recover cfg bus = (\<lambda>(ts, w). fst (full_reinit cfg bus (himax_int_enable False ts, w)))"

text \<open>The current tracks, unchanged or after a frame.\<close>

definition report_tracks :: "hx_config \<Rightarrow> himax_ts \<Rightarrow> himax_ts" where
  "report_tracks cfg ts = himax_report_tracked_state cfg (hx_count_stable_tracks (ts_algo ts) > 0) ts"

definition frame_read_failed :: "hx_config \<Rightarrow> 'w hx_bus \<Rightarrow> himax_ts \<times> 'w \<Rightarrow> himax_ts \<times> 'w" where
  "frame_read_failed cfg bus = (\<lambda>(ts, w).
     let n = u8 (frame_errors ts + 1) in
     if n \<ge> HIMAX_MAX_CONSECUTIVE_FRAME_ERRORS then recover cfg bus (ts\<lparr>frame_errors := 0\<rparr>, w)
     else (ts\<lparr>frame_errors := n\<rparr>, w))"

definition noise_frame :: "hx_config \<Rightarrow> 'w hx_bus \<Rightarrow> himax_ts \<times> 'w \<Rightarrow> himax_ts \<times> 'w" where
  "noise_frame cfg bus = (\<lambda>(ts, w).
     let n = u8 (noise_frames ts + 1) in
     if n < HIMAX_MAX_CONSECUTIVE_NOISE_FRAMES then (report_tracks cfg (ts\<lparr>noise_frames := n\<rparr>), w)
     else recover cfg bus (ts\<lparr>noise_frames := 0\<rparr>, w))"

text \<open>A good frame; \<open>None\<close> is an algorithm that does not return.\<close>

definition good_frame :: "hx_config \<Rightarrow> hx_frame_status \<Rightarrow> himax_ts \<Rightarrow> himax_ts option" where
  "good_frame cfg status ts =
     map_option (\<lambda>(algo, stable_cnt).
         himax_report_tracked_state cfg (stable_cnt > 0) (ts\<lparr>noise_frames := 0, ts_algo := algo\<rparr>))
       (hx_algo_process_frame_state (ts_algo ts) (event_matrix (event_buf ts)) (frame_finger status))"

definition himax_ts_thread :: "hx_config \<Rightarrow> 'w hx_bus \<Rightarrow> himax_ts \<times> 'w \<Rightarrow> (himax_ts \<times> 'w) option" where
  "himax_ts_thread cfg bus s =
     (case hx83121a_gaokun_read_event_stack bus s of
        (s, Inl e) \<Rightarrow> Some (frame_read_failed cfg bus s)
      | ((ts, w), Inr _) \<Rightarrow>
          let ts = ts\<lparr>frame_errors := 0\<rparr> in
          (case hx_parse_master_frame_status (event_buf ts) of
             None \<Rightarrow> Some (report_tracks cfg ts, w)
           | Some status \<Rightarrow>
               if retry status then Some (report_tracks cfg ts, w)
               else if hx_algo_is_exception_frame (ts_algo ts) (event_matrix (event_buf ts))
               then Some (noise_frame cfg bus (ts, w))
               else map_option (\<lambda>ts. (ts, w)) (good_frame cfg status ts)))"

section \<open>Probe and removal\<close>

definition himax_spi_remove :: "hx_config \<Rightarrow> 'w hx_bus \<Rightarrow> himax_ts \<times> 'w \<Rightarrow> himax_ts \<times> 'w" where
  "himax_spi_remove cfg bus = (\<lambda>(ts, w).
     let ts = (himax_lock (ts\<lparr>reinit_pending := False\<rparr>))
           \<lparr>shutting_down := True, panel_enabled := False, panel_prepared := False\<rparr> in
     fst (himax_power_down cfg bus (ts, w)))"

end
