(* ===== verification/Ts_Sysfs.thy ===== *)
theory Ts_Sysfs
  imports Ts_Core
begin

text \<open>
  The sysfs controls of the touch driver (\<open>himax-spi-sysfs.c\<close> without the diagnostics build): the reset
  file and the group \<open>algo\<close> with one file per tunable.  A control is its name, its integer type with
  the accepted range, and the field it reads and writes.  The kernel's string parsers \<open>kstrtobool\<close>
  and \<open>kstrtos16\<close>, \<open>kstrtou8\<close>, \<open>kstrtou16\<close>, \<open>kstrtos32\<close> are parameters.
\<close>

datatype int_type = S16 | U8 | U16 | S32

datatype hx_attr =
    Attr_bool string "hx_algo \<Rightarrow> bool" "bool \<Rightarrow> hx_algo \<Rightarrow> hx_algo"
  | Attr_int string int_type int int "hx_algo \<Rightarrow> int" "int \<Rightarrow> hx_algo \<Rightarrow> hx_algo"

text \<open>The kernel's parsers: an error code or the number.\<close>

record kstr =
  kstrtobool :: "string \<Rightarrow> int + bool"
  kstrtoint :: "int_type \<Rightarrow> string \<Rightarrow> int + int"

section \<open>Reading and writing a control\<close>

fun digits :: "nat \<Rightarrow> string" where
  "digits n = (if n < 10 then [char_of (48 + n)] else digits (n div 10) @ [char_of (48 + n mod 10)])"

declare digits.simps [simp del]

definition emit_int :: "int \<Rightarrow> string" where
  "emit_int v = (if v < 0 then ''-'' @ digits (nat (- v)) else digits (nat v)) @ [CHR 0x0A]"

fun attr_show :: "hx_attr \<Rightarrow> hx_algo \<Rightarrow> string" where
  "attr_show (Attr_bool n get put) algo = emit_int (if get algo then 1 else 0)"
| "attr_show (Attr_int n ty lo hi get put) algo = emit_int (get algo)"

text \<open>The result of a store is the byte count or a negative code.\<close>

fun attr_store :: "kstr \<Rightarrow> hx_attr \<Rightarrow> string \<Rightarrow> hx_algo \<Rightarrow> hx_algo \<times> int" where
  "attr_store ks (Attr_bool n get put) buf algo =
     (case kstrtobool ks buf of Inl e \<Rightarrow> (algo, e) | Inr v \<Rightarrow> (put v algo, int (length buf)))"
| "attr_store ks (Attr_int n ty lo hi get put) buf algo =
     (case kstrtoint ks ty buf of Inl e \<Rightarrow> (algo, e)
      | Inr v \<Rightarrow> if v < lo \<or> v > hi then (algo, - ERANGE) else (put v algo, int (length buf)))"

definition attr_name :: "hx_attr \<Rightarrow> string" where
  "attr_name a = (case a of Attr_bool n get put \<Rightarrow> n | Attr_int n ty lo hi get put \<Rightarrow> n)"

definition inplace_reset_store :: "kstr \<Rightarrow> hx_config \<Rightarrow> 'w hx_bus \<Rightarrow> string \<Rightarrow> ('w, int) ts_io" where
  "inplace_reset_store ks cfg bus buf =
     (case kstrtobool ks buf of
        Inl e \<Rightarrow> io_fail e
      | Inr do_reset \<Rightarrow>
          if \<not> do_reset then io_return (int (length buf))
          else io_bind (himax_manual_reset cfg bus) (\<lambda>_. io_return (int (length buf))))"

section \<open>The controls\<close>

text \<open>Preprocessing.\<close>

definition preprocessing_attrs :: "hx_attr list" where
  "preprocessing_attrs =
    [Attr_bool ''baseline_enabled''
     (\<lambda>a. baseline_enabled (pre a)) (\<lambda>v a. a\<lparr>pre := (pre a)\<lparr>baseline_enabled := v\<rparr>\<rparr>),
     Attr_int ''baseline_noise_deadband'' S16 0 200
     (\<lambda>a. baseline_noise_deadband (pre a)) (\<lambda>v a. a\<lparr>pre := (pre a)\<lparr>baseline_noise_deadband := v\<rparr>\<rparr>),
     Attr_int ''baseline_peak_threshold'' S16 1 2000
     (\<lambda>a. baseline_peak_threshold (pre a)) (\<lambda>v a. a\<lparr>pre := (pre a)\<lparr>baseline_peak_threshold := v\<rparr>\<rparr>),
     Attr_int ''baseline_release_hold_frames'' U8 0 255
     (\<lambda>a. baseline_release_hold_frames (pre a)) (\<lambda>v a. a\<lparr>pre := (pre a)\<lparr>baseline_release_hold_frames := v\<rparr>\<rparr>),
     Attr_int ''baseline_background_alpha_shift'' U8 0 15
     (\<lambda>a. baseline_background_alpha_shift (pre a)) (\<lambda>v a. a\<lparr>pre := (pre a)\<lparr>baseline_background_alpha_shift := v\<rparr>\<rparr>),
     Attr_int ''baseline_no_finger_alpha_shift'' U8 0 15
     (\<lambda>a. baseline_no_finger_alpha_shift (pre a)) (\<lambda>v a. a\<lparr>pre := (pre a)\<lparr>baseline_no_finger_alpha_shift := v\<rparr>\<rparr>),
     Attr_int ''baseline_recovery_alpha_shift'' U8 0 15
     (\<lambda>a. baseline_recovery_alpha_shift (pre a)) (\<lambda>v a. a\<lparr>pre := (pre a)\<lparr>baseline_recovery_alpha_shift := v\<rparr>\<rparr>),
     Attr_int ''baseline_background_max_step'' S16 1 2048
     (\<lambda>a. baseline_background_max_step (pre a)) (\<lambda>v a. a\<lparr>pre := (pre a)\<lparr>baseline_background_max_step := v\<rparr>\<rparr>),
     Attr_int ''baseline_no_finger_max_step'' S16 1 2048
     (\<lambda>a. baseline_no_finger_max_step (pre a)) (\<lambda>v a. a\<lparr>pre := (pre a)\<lparr>baseline_no_finger_max_step := v\<rparr>\<rparr>),
     Attr_int ''baseline_recovery_max_step'' S16 1 2048
     (\<lambda>a. baseline_recovery_max_step (pre a)) (\<lambda>v a. a\<lparr>pre := (pre a)\<lparr>baseline_recovery_max_step := v\<rparr>\<rparr>),
     Attr_int ''baseline_recovery_max_frames'' U8 1 120
     (\<lambda>a. baseline_recovery_max_frames (pre a)) (\<lambda>v a. a\<lparr>pre := (pre a)\<lparr>baseline_recovery_max_frames := v\<rparr>\<rparr>),
     Attr_bool ''baseline_noise_tracking''
     (\<lambda>a. baseline_noise_tracking (pre a)) (\<lambda>v a. a\<lparr>pre := (pre a)\<lparr>baseline_noise_tracking := v\<rparr>\<rparr>),
     Attr_int ''wake_stable_frames'' U8 2 30
     (\<lambda>a. wake_stable_frames (pre a)) (\<lambda>v a. a\<lparr>pre := (pre a)\<lparr>wake_stable_frames := v\<rparr>\<rparr>),
     Attr_int ''wake_finger_safe_frames'' U8 1 15
     (\<lambda>a. wake_finger_safe_frames (pre a)) (\<lambda>v a. a\<lparr>pre := (pre a)\<lparr>wake_finger_safe_frames := v\<rparr>\<rparr>),
     Attr_int ''wake_raw_jump_threshold'' S16 1 4095
     (\<lambda>a. wake_raw_jump_threshold (pre a)) (\<lambda>v a. a\<lparr>pre := (pre a)\<lparr>wake_raw_jump_threshold := v\<rparr>\<rparr>),
     Attr_int ''wake_max_unstable_nodes'' U16 0 2400
     (\<lambda>a. wake_max_unstable_nodes (pre a)) (\<lambda>v a. a\<lparr>pre := (pre a)\<lparr>wake_max_unstable_nodes := v\<rparr>\<rparr>),
     Attr_int ''wake_max_unstable_line_nodes'' U8 1 40
     (\<lambda>a. wake_max_unstable_line_nodes (pre a)) (\<lambda>v a. a\<lparr>pre := (pre a)\<lparr>wake_max_unstable_line_nodes := v\<rparr>\<rparr>),
     Attr_int ''safe_commit_no_finger_frames'' U8 1 240
     (\<lambda>a. safe_commit_no_finger_frames (pre a)) (\<lambda>v a. a\<lparr>pre := (pre a)\<lparr>safe_commit_no_finger_frames := v\<rparr>\<rparr>),
     Attr_int ''runtime_noise_threshold'' S16 1 8192
     (\<lambda>a. runtime_noise_threshold (pre a)) (\<lambda>v a. a\<lparr>pre := (pre a)\<lparr>runtime_noise_threshold := v\<rparr>\<rparr>),
     Attr_int ''runtime_noise_line_nodes'' U8 1 60
     (\<lambda>a. runtime_noise_line_nodes (pre a)) (\<lambda>v a. a\<lparr>pre := (pre a)\<lparr>runtime_noise_line_nodes := v\<rparr>\<rparr>),
     Attr_int ''runtime_noise_total_nodes'' U16 1 2400
     (\<lambda>a. runtime_noise_total_nodes (pre a)) (\<lambda>v a. a\<lparr>pre := (pre a)\<lparr>runtime_noise_total_nodes := v\<rparr>\<rparr>),
     Attr_bool ''cmf_enabled''
     (\<lambda>a. cmf_enabled (pre a)) (\<lambda>v a. a\<lparr>pre := (pre a)\<lparr>cmf_enabled := v\<rparr>\<rparr>),
     Attr_int ''cmf_exclusion'' S16 0 32767
     (\<lambda>a. cmf_exclusion (pre a)) (\<lambda>v a. a\<lparr>pre := (pre a)\<lparr>cmf_exclusion := v\<rparr>\<rparr>),
     Attr_int ''cmf_max_correction'' S16 0 32767
     (\<lambda>a. cmf_max_correction (pre a)) (\<lambda>v a. a\<lparr>pre := (pre a)\<lparr>cmf_max_correction := v\<rparr>\<rparr>),
     Attr_bool ''iir_enabled''
     (\<lambda>a. iir_enabled (pre a)) (\<lambda>v a. a\<lparr>pre := (pre a)\<lparr>iir_enabled := v\<rparr>\<rparr>),
     Attr_int ''iir_decay_weight'' U16 0 256
     (\<lambda>a. iir_decay_weight (pre a)) (\<lambda>v a. a\<lparr>pre := (pre a)\<lparr>iir_decay_weight := v\<rparr>\<rparr>),
     Attr_int ''iir_decay_step'' U16 0 4095
     (\<lambda>a. iir_decay_step (pre a)) (\<lambda>v a. a\<lparr>pre := (pre a)\<lparr>iir_decay_step := v\<rparr>\<rparr>),
     Attr_int ''iir_noise_floor'' S16 0 4095
     (\<lambda>a. iir_noise_floor (pre a)) (\<lambda>v a. a\<lparr>pre := (pre a)\<lparr>iir_noise_floor := v\<rparr>\<rparr>),
     Attr_int ''iir_gate_floor'' S16 0 4095
     (\<lambda>a. iir_gate_floor (pre a)) (\<lambda>v a. a\<lparr>pre := (pre a)\<lparr>iir_gate_floor := v\<rparr>\<rparr>),
     Attr_int ''iir_gate_ratio_q8'' U8 0 255
     (\<lambda>a. iir_gate_ratio_q8 (pre a)) (\<lambda>v a. a\<lparr>pre := (pre a)\<lparr>iir_gate_ratio_q8 := v\<rparr>\<rparr>)]"

text \<open>Detection, pressure, edge compensation.\<close>

definition detection_attrs :: "hx_attr list" where
  "detection_attrs =
    [Attr_int ''macro_threshold'' S16 1 4095
     (\<lambda>a. macro_threshold (det a)) (\<lambda>v a. a\<lparr>det := (det a)\<lparr>macro_threshold := v\<rparr>\<rparr>),
     Attr_int ''peak_threshold'' S16 1 4095
     (\<lambda>a. peak_threshold (det a)) (\<lambda>v a. a\<lparr>det := (det a)\<lparr>peak_threshold := v\<rparr>\<rparr>),
     Attr_int ''peak_local_radius'' U8 1 5
     (\<lambda>a. peak_local_radius (det a)) (\<lambda>v a. a\<lparr>det := (det a)\<lparr>peak_local_radius := v\<rparr>\<rparr>),
     Attr_bool ''peak_z8_enabled''
     (\<lambda>a. peak_z8_enabled (det a)) (\<lambda>v a. a\<lparr>det := (det a)\<lparr>peak_z8_enabled := v\<rparr>\<rparr>),
     Attr_bool ''peak_saddle_enabled''
     (\<lambda>a. peak_saddle_enabled (det a)) (\<lambda>v a. a\<lparr>det := (det a)\<lparr>peak_saddle_enabled := v\<rparr>\<rparr>),
     Attr_int ''peak_saddle_radius'' U8 1 8
     (\<lambda>a. peak_saddle_radius (det a)) (\<lambda>v a. a\<lparr>det := (det a)\<lparr>peak_saddle_radius := v\<rparr>\<rparr>),
     Attr_int ''peak_saddle_drop'' S16 0 4095
     (\<lambda>a. peak_saddle_drop (det a)) (\<lambda>v a. a\<lparr>det := (det a)\<lparr>peak_saddle_drop := v\<rparr>\<rparr>),
     Attr_int ''peak_signal_threshold_limit'' S16 1 4095
     (\<lambda>a. peak_signal_threshold_limit (det a)) (\<lambda>v a. a\<lparr>det := (det a)\<lparr>peak_signal_threshold_limit := v\<rparr>\<rparr>),
     Attr_int ''peak_edge_threshold'' S16 0 4095
     (\<lambda>a. peak_edge_threshold (det a)) (\<lambda>v a. a\<lparr>det := (det a)\<lparr>peak_edge_threshold := v\<rparr>\<rparr>),
     Attr_int ''peak_macro_min_area'' U8 1 64
     (\<lambda>a. peak_macro_min_area (det a)) (\<lambda>v a. a\<lparr>det := (det a)\<lparr>peak_macro_min_area := v\<rparr>\<rparr>),
     Attr_int ''peak_continue_min_area'' U8 1 2
     (\<lambda>a. peak_continue_min_area (det a)) (\<lambda>v a. a\<lparr>det := (det a)\<lparr>peak_continue_min_area := v\<rparr>\<rparr>),
     Attr_int ''peak_continue_min_signal'' S16 1 4095
     (\<lambda>a. peak_continue_min_signal (det a)) (\<lambda>v a. a\<lparr>det := (det a)\<lparr>peak_continue_min_signal := v\<rparr>\<rparr>),
     Attr_int ''peak_single_track_continue_min_signal'' S16 1 4095
     (\<lambda>a. peak_single_track_continue_min_signal (det a)) (\<lambda>v a. a\<lparr>det := (det a)\<lparr>peak_single_track_continue_min_signal := v\<rparr>\<rparr>),
     Attr_int ''peak_continue_dist2'' S32 1 1000000
     (\<lambda>a. peak_continue_dist2 (det a)) (\<lambda>v a. a\<lparr>det := (det a)\<lparr>peak_continue_dist2 := v\<rparr>\<rparr>),
     Attr_int ''peak_fast_start_min_signal'' S16 1 4095
     (\<lambda>a. peak_fast_start_min_signal (det a)) (\<lambda>v a. a\<lparr>det := (det a)\<lparr>peak_fast_start_min_signal := v\<rparr>\<rparr>),
     Attr_int ''peak_fast_start_edge_cells'' U8 1 16
     (\<lambda>a. peak_fast_start_edge_cells (det a)) (\<lambda>v a. a\<lparr>det := (det a)\<lparr>peak_fast_start_edge_cells := v\<rparr>\<rparr>),
     Attr_bool ''palm_enabled''
     (\<lambda>a. palm_enabled (det a)) (\<lambda>v a. a\<lparr>det := (det a)\<lparr>palm_enabled := v\<rparr>\<rparr>),
     Attr_int ''palm_area_threshold'' U8 0 250
     (\<lambda>a. palm_area_threshold (det a)) (\<lambda>v a. a\<lparr>det := (det a)\<lparr>palm_area_threshold := v\<rparr>\<rparr>),
     Attr_int ''palm_signal_threshold'' S32 0 1000000
     (\<lambda>a. palm_signal_threshold (det a)) (\<lambda>v a. a\<lparr>det := (det a)\<lparr>palm_signal_threshold := v\<rparr>\<rparr>),
     Attr_int ''palm_density_low'' S16 0 4095
     (\<lambda>a. palm_density_low (det a)) (\<lambda>v a. a\<lparr>det := (det a)\<lparr>palm_density_low := v\<rparr>\<rparr>),
     Attr_bool ''palm_box_enabled''
     (\<lambda>a. palm_box_enabled (det a)) (\<lambda>v a. a\<lparr>det := (det a)\<lparr>palm_box_enabled := v\<rparr>\<rparr>),
     Attr_int ''palm_box_expand_rows'' U8 0 10
     (\<lambda>a. palm_box_expand_rows (det a)) (\<lambda>v a. a\<lparr>det := (det a)\<lparr>palm_box_expand_rows := v\<rparr>\<rparr>),
     Attr_int ''palm_box_expand_cols'' U8 0 10
     (\<lambda>a. palm_box_expand_cols (det a)) (\<lambda>v a. a\<lparr>det := (det a)\<lparr>palm_box_expand_cols := v\<rparr>\<rparr>),
     Attr_int ''palm_box_match_distance'' U8 0 30
     (\<lambda>a. palm_box_match_distance (det a)) (\<lambda>v a. a\<lparr>det := (det a)\<lparr>palm_box_match_distance := v\<rparr>\<rparr>),
     Attr_int ''palm_box_max_hold'' U16 0 300
     (\<lambda>a. palm_box_max_hold (det a)) (\<lambda>v a. a\<lparr>det := (det a)\<lparr>palm_box_max_hold := v\<rparr>\<rparr>),
     Attr_bool ''zone_cleanup_enabled''
     (\<lambda>a. zone_cleanup_enabled (det a)) (\<lambda>v a. a\<lparr>det := (det a)\<lparr>zone_cleanup_enabled := v\<rparr>\<rparr>),
     Attr_int ''zone_max_radius'' U8 0 16
     (\<lambda>a. zone_max_radius (det a)) (\<lambda>v a. a\<lparr>det := (det a)\<lparr>zone_max_radius := v\<rparr>\<rparr>),
     Attr_int ''zone_threshold_numer'' U8 0 255
     (\<lambda>a. zone_threshold_numer (det a)) (\<lambda>v a. a\<lparr>det := (det a)\<lparr>zone_threshold_numer := v\<rparr>\<rparr>),
     Attr_int ''zone_threshold_shift'' U8 0 15
     (\<lambda>a. zone_threshold_shift (det a)) (\<lambda>v a. a\<lparr>det := (det a)\<lparr>zone_threshold_shift := v\<rparr>\<rparr>),
     Attr_bool ''pressure_enabled''
     (\<lambda>a. pressure_enabled (det a)) (\<lambda>v a. a\<lparr>det := (det a)\<lparr>pressure_enabled := v\<rparr>\<rparr>),
     Attr_bool ''edge_comp_enabled''
     (\<lambda>a. edge_comp_enabled (det a)) (\<lambda>v a. a\<lparr>det := (det a)\<lparr>edge_comp_enabled := v\<rparr>\<rparr>),
     Attr_int ''edge_boost_pct'' S16 0 200
     (\<lambda>a. edge_boost_pct (det a)) (\<lambda>v a. a\<lparr>det := (det a)\<lparr>edge_boost_pct := v\<rparr>\<rparr>),
     Attr_int ''edge_push_q8'' S16 0 1280
     (\<lambda>a. edge_push_q8 (det a)) (\<lambda>v a. a\<lparr>det := (det a)\<lparr>edge_push_q8 := v\<rparr>\<rparr>),
     Attr_int ''edge_blend_q8'' S16 1 1280
     (\<lambda>a. edge_blend_q8 (det a)) (\<lambda>v a. a\<lparr>det := (det a)\<lparr>edge_blend_q8 := v\<rparr>\<rparr>),
     Attr_bool ''edge_reject_enabled''
     (\<lambda>a. edge_reject_enabled (det a)) (\<lambda>v a. a\<lparr>det := (det a)\<lparr>edge_reject_enabled := v\<rparr>\<rparr>),
     Attr_int ''edge_reject_margin'' U16 0 256
     (\<lambda>a. edge_reject_margin (det a)) (\<lambda>v a. a\<lparr>det := (det a)\<lparr>edge_reject_margin := v\<rparr>\<rparr>),
     Attr_int ''edge_reject_min_signal'' S32 0 1000000
     (\<lambda>a. edge_reject_min_signal (det a)) (\<lambda>v a. a\<lparr>det := (det a)\<lparr>edge_reject_min_signal := v\<rparr>\<rparr>)]"

text \<open>Tracking.\<close>

definition tracking_attrs :: "hx_attr list" where
  "tracking_attrs =
    [Attr_int ''track_dist2_max'' S32 1 16777216
     (\<lambda>a. track_dist2_max (trk a)) (\<lambda>v a. a\<lparr>trk := (trk a)\<lparr>track_dist2_max := v\<rparr>\<rparr>),
     Attr_int ''track_lost_frames'' U8 1 16
     (\<lambda>a. track_lost_frames (trk a)) (\<lambda>v a. a\<lparr>trk := (trk a)\<lparr>track_lost_frames := v\<rparr>\<rparr>),
     Attr_int ''debounce_base'' U8 0 16
     (\<lambda>a. debounce_base (trk a)) (\<lambda>v a. a\<lparr>trk := (trk a)\<lparr>debounce_base := v\<rparr>\<rparr>),
     Attr_bool ''track_smoothing''
     (\<lambda>a. track_smoothing (trk a)) (\<lambda>v a. a\<lparr>trk := (trk a)\<lparr>track_smoothing := v\<rparr>\<rparr>),
     Attr_bool ''track_active_guard''
     (\<lambda>a. track_active_guard (trk a)) (\<lambda>v a. a\<lparr>trk := (trk a)\<lparr>track_active_guard := v\<rparr>\<rparr>),
     Attr_int ''track_start_debounce'' U8 0 16
     (\<lambda>a. track_start_debounce (trk a)) (\<lambda>v a. a\<lparr>trk := (trk a)\<lparr>track_start_debounce := v\<rparr>\<rparr>),
     Attr_int ''track_jump_dist2'' S32 0 16777216
     (\<lambda>a. track_jump_dist2 (trk a)) (\<lambda>v a. a\<lparr>trk := (trk a)\<lparr>track_jump_dist2 := v\<rparr>\<rparr>),
     Attr_bool ''hungarian_enabled''
     (\<lambda>a. hungarian_enabled (trk a)) (\<lambda>v a. a\<lparr>trk := (trk a)\<lparr>hungarian_enabled := v\<rparr>\<rparr>),
     Attr_int ''debounce_weak_extra'' U8 0 16
     (\<lambda>a. debounce_weak_extra (trk a)) (\<lambda>v a. a\<lparr>trk := (trk a)\<lparr>debounce_weak_extra := v\<rparr>\<rparr>),
     Attr_int ''debounce_edge_extra'' U8 0 16
     (\<lambda>a. debounce_edge_extra (trk a)) (\<lambda>v a. a\<lparr>trk := (trk a)\<lparr>debounce_edge_extra := v\<rparr>\<rparr>),
     Attr_int ''debounce_strong_signal'' S32 0 1000000
     (\<lambda>a. debounce_strong_signal (trk a)) (\<lambda>v a. a\<lparr>trk := (trk a)\<lparr>debounce_strong_signal := v\<rparr>\<rparr>),
     Attr_bool ''firmware_edge_fast_start''
     (\<lambda>a. firmware_edge_fast_start (trk a)) (\<lambda>v a. a\<lparr>trk := (trk a)\<lparr>firmware_edge_fast_start := v\<rparr>\<rparr>),
     Attr_int ''split_peak_confirm_frames'' U8 1 16
     (\<lambda>a. split_peak_confirm_frames (trk a)) (\<lambda>v a. a\<lparr>trk := (trk a)\<lparr>split_peak_confirm_frames := v\<rparr>\<rparr>),
     Attr_int ''split_peak_dist2'' S32 1 1000000
     (\<lambda>a. split_peak_dist2 (trk a)) (\<lambda>v a. a\<lparr>trk := (trk a)\<lparr>split_peak_dist2 := v\<rparr>\<rparr>),
     Attr_int ''split_cross_zone_confirm_frames'' U8 1 16
     (\<lambda>a. split_cross_zone_confirm_frames (trk a)) (\<lambda>v a. a\<lparr>trk := (trk a)\<lparr>split_cross_zone_confirm_frames := v\<rparr>\<rparr>),
     Attr_int ''split_cross_zone_dist2'' S32 1 1000000
     (\<lambda>a. split_cross_zone_dist2 (trk a)) (\<lambda>v a. a\<lparr>trk := (trk a)\<lparr>split_cross_zone_dist2 := v\<rparr>\<rparr>),
     Attr_int ''track_peak_id_penalty'' S32 0 16777216
     (\<lambda>a. track_peak_id_penalty (trk a)) (\<lambda>v a. a\<lparr>trk := (trk a)\<lparr>track_peak_id_penalty := v\<rparr>\<rparr>),
     Attr_bool ''ghost_enabled''
     (\<lambda>a. ghost_enabled (trk a)) (\<lambda>v a. a\<lparr>trk := (trk a)\<lparr>ghost_enabled := v\<rparr>\<rparr>),
     Attr_int ''ghost_row_distance'' U16 0 512
     (\<lambda>a. ghost_row_distance (trk a)) (\<lambda>v a. a\<lparr>trk := (trk a)\<lparr>ghost_row_distance := v\<rparr>\<rparr>),
     Attr_int ''ghost_weak_ratio_q8'' U8 0 255
     (\<lambda>a. ghost_weak_ratio_q8 (trk a)) (\<lambda>v a. a\<lparr>trk := (trk a)\<lparr>ghost_weak_ratio_q8 := v\<rparr>\<rparr>),
     Attr_int ''ghost_min_col_distance'' U16 0 4096
     (\<lambda>a. ghost_min_col_distance (trk a)) (\<lambda>v a. a\<lparr>trk := (trk a)\<lparr>ghost_min_col_distance := v\<rparr>\<rparr>),
     Attr_bool ''euro_enabled''
     (\<lambda>a. euro_enabled (trk a)) (\<lambda>v a. a\<lparr>trk := (trk a)\<lparr>euro_enabled := v\<rparr>\<rparr>),
     Attr_int ''euro_alpha_min_q8'' U8 1 255
     (\<lambda>a. euro_alpha_min_q8 (trk a)) (\<lambda>v a. a\<lparr>trk := (trk a)\<lparr>euro_alpha_min_q8 := v\<rparr>\<rparr>),
     Attr_int ''euro_alpha_max_q8'' U8 1 255
     (\<lambda>a. euro_alpha_max_q8 (trk a)) (\<lambda>v a. a\<lparr>trk := (trk a)\<lparr>euro_alpha_max_q8 := v\<rparr>\<rparr>),
     Attr_int ''euro_speed_threshold'' U16 1 4096
     (\<lambda>a. euro_speed_threshold (trk a)) (\<lambda>v a. a\<lparr>trk := (trk a)\<lparr>euro_speed_threshold := v\<rparr>\<rparr>)]"

definition hx_algo_attrs :: "hx_attr list" where
  "hx_algo_attrs = preprocessing_attrs @ detection_attrs @ tracking_attrs"

text \<open>The names the driver registers as the group \<open>algo\<close>.\<close>

definition hx_algo_attr_group :: "string list" where
  "hx_algo_attr_group =
    [''baseline_enabled'', ''baseline_noise_deadband'', ''baseline_peak_threshold'',
     ''baseline_release_hold_frames'', ''baseline_background_alpha_shift'',
     ''baseline_no_finger_alpha_shift'', ''baseline_recovery_alpha_shift'',
     ''baseline_background_max_step'', ''baseline_no_finger_max_step'', ''baseline_recovery_max_step'',
     ''baseline_recovery_max_frames'', ''baseline_noise_tracking'', ''wake_stable_frames'',
     ''wake_finger_safe_frames'', ''wake_raw_jump_threshold'', ''wake_max_unstable_nodes'',
     ''wake_max_unstable_line_nodes'', ''safe_commit_no_finger_frames'', ''runtime_noise_threshold'',
     ''runtime_noise_line_nodes'', ''runtime_noise_total_nodes'', ''cmf_enabled'', ''cmf_exclusion'',
     ''cmf_max_correction'', ''iir_enabled'', ''iir_decay_weight'', ''iir_decay_step'', ''iir_noise_floor'',
     ''iir_gate_floor'', ''iir_gate_ratio_q8'', ''macro_threshold'', ''peak_threshold'',
     ''peak_local_radius'', ''peak_z8_enabled'', ''peak_saddle_enabled'', ''peak_saddle_radius'',
     ''peak_saddle_drop'', ''peak_signal_threshold_limit'', ''peak_edge_threshold'',
     ''peak_macro_min_area'', ''peak_continue_min_area'', ''peak_continue_min_signal'',
     ''peak_single_track_continue_min_signal'', ''peak_continue_dist2'', ''peak_fast_start_min_signal'',
     ''peak_fast_start_edge_cells'', ''palm_enabled'', ''palm_area_threshold'', ''palm_signal_threshold'',
     ''palm_density_low'', ''palm_box_enabled'', ''palm_box_expand_rows'', ''palm_box_expand_cols'',
     ''palm_box_match_distance'', ''palm_box_max_hold'', ''zone_cleanup_enabled'', ''zone_max_radius'',
     ''zone_threshold_numer'', ''zone_threshold_shift'', ''pressure_enabled'', ''edge_comp_enabled'',
     ''edge_boost_pct'', ''edge_push_q8'', ''edge_blend_q8'', ''edge_reject_enabled'',
     ''edge_reject_margin'', ''edge_reject_min_signal'', ''track_dist2_max'', ''track_lost_frames'',
     ''debounce_base'', ''track_smoothing'', ''track_active_guard'', ''track_start_debounce'',
     ''track_jump_dist2'', ''hungarian_enabled'', ''debounce_weak_extra'', ''debounce_edge_extra'',
     ''debounce_strong_signal'', ''firmware_edge_fast_start'', ''split_peak_confirm_frames'',
     ''split_peak_dist2'', ''split_cross_zone_confirm_frames'', ''split_cross_zone_dist2'',
     ''track_peak_id_penalty'', ''ghost_enabled'', ''ghost_row_distance'', ''ghost_weak_ratio_q8'',
     ''ghost_min_col_distance'', ''euro_enabled'', ''euro_alpha_min_q8'', ''euro_alpha_max_q8'',
     ''euro_speed_threshold'']"

text \<open>
  The files of the driver: whether the reset file exists and whether the group does.  The two kernel
  calls give their return codes.
\<close>

record sysfs_files =
  reset_file :: bool
  algo_group :: bool

definition himax_sysfs_init :: "int \<Rightarrow> int \<Rightarrow> sysfs_files \<Rightarrow> sysfs_files \<times> int" where
  "himax_sysfs_init create_ret group_ret fs =
     (if create_ret \<noteq> 0 then (fs, create_ret)
      else if group_ret = 0 then (fs\<lparr>reset_file := True, algo_group := True\<rparr>, 0)
      else (fs\<lparr>reset_file := False\<rparr>, group_ret))"

definition himax_sysfs_remove :: "sysfs_files \<Rightarrow> sysfs_files" where
  "himax_sysfs_remove fs = fs\<lparr>reset_file := False\<rparr>"

section \<open>What the controls promise\<close>

lemmas attr_tables = hx_algo_attrs_def preprocessing_attrs_def detection_attrs_def tracking_attrs_def

text \<open>Every tunable that has a control is registered with the group, in the order of declaration and
  exactly once.\<close>

theorem controls_registered:
  "map attr_name hx_algo_attrs = hx_algo_attr_group \<and> distinct hx_algo_attr_group"
  by (simp add: attr_tables attr_name_def hx_algo_attr_group_def)

text \<open>What a control changes: nothing but the tunables, and these stay in the ranges the algorithm needs.\<close>

definition params_ok :: "hx_algo \<Rightarrow> bool" where
  "params_ok a \<longleftrightarrow> pre_params_ok (pre a) \<and> det_params_ok (det a) \<and> trk_params_ok (trk a)"

definition same_frame_state :: "hx_algo \<Rightarrow> hx_algo \<Rightarrow> bool" where
  "same_frame_state a b \<longleftrightarrow> b = a\<lparr>pre := pre b, det := det b, trk := trk b\<rparr>"

fun attr_sound :: "hx_attr \<Rightarrow> bool" where
  "attr_sound (Attr_bool n get put) \<longleftrightarrow>
     (\<forall>a v. same_frame_state a (put v a) \<and> (params_ok a \<longrightarrow> params_ok (put v a)) \<and> get (put v a) = v
       \<and> put (get a) a = a)"
| "attr_sound (Attr_int n ty lo hi get put) \<longleftrightarrow>
     (\<forall>a v. lo \<le> v \<and> v \<le> hi \<longrightarrow> same_frame_state a (put v a) \<and> (params_ok a \<longrightarrow> params_ok (put v a))
       \<and> get (put v a) = v) \<and> (\<forall>a. put (get a) a = a)"

lemmas param_defs = params_ok_def pre_params_ok_def det_params_ok_def edge_params_ok_def trk_params_ok_def

lemma sound_preprocessing: "list_all attr_sound preprocessing_attrs"
  by (simp add: preprocessing_attrs_def same_frame_state_def param_defs)

lemma sound_detection: "list_all attr_sound detection_attrs"
  by (simp add: detection_attrs_def same_frame_state_def param_defs)

lemma sound_tracking: "list_all attr_sound tracking_attrs"
  by (simp add: tracking_attrs_def same_frame_state_def param_defs)

lemma controls_sound: "a \<in> set hx_algo_attrs \<Longrightarrow> attr_sound a"
  using sound_preprocessing sound_detection sound_tracking by (auto simp: hx_algo_attrs_def list_all_iff)

lemma live_params:
  assumes "live_ok a" "same_frame_state a b" "params_ok b"
  shows "live_ok b"
proof -
  have b: "b = a\<lparr>pre := pre b, det := det b, trk := trk b\<rparr>" using assms(2) by (simp add: same_frame_state_def)
  have "algo_ok b"
    using live_okD(1) [OF assms(1)] assms(3)
    by (subst b, subst (asm) b)
      (simp add: algo_ok_def params_ok_def baseline_ok_def tracks_ok_def boxes_ok_def slot_ok_def)
  moreover have "saved b = saved a" by (subst b) (simp add: saved_def)
  ultimately show ?thesis using assms(1) by (simp add: live_ok_def)
qed

lemma store_live:
  assumes "a \<in> set hx_algo_attrs" "live_ok algo"
  shows "live_ok (fst (attr_store ks a buf algo))"
proof (cases a)
  case (Attr_bool n get put)
  then have "same_frame_state algo (put v algo) \<and> params_ok (put v algo)" for v
    using controls_sound [OF assms(1)] algo_okD(2-4) [OF live_okD(1) [OF assms(2)]] by (simp add: params_ok_def)
  then show ?thesis using assms(2) live_params [OF assms(2)] by (auto simp: Attr_bool split: sum.split)
next
  case (Attr_int n ty lo hi get put)
  then have "same_frame_state algo (put v algo) \<and> params_ok (put v algo)" if "lo \<le> v" "v \<le> hi" for v
    using controls_sound [OF assms(1)] algo_okD(2-4) [OF live_okD(1) [OF assms(2)]] that by (simp add: params_ok_def)
  then show ?thesis using assms(2) live_params [OF assms(2)] by (auto simp: Attr_int split: sum.split)
qed

text \<open>Whatever is written to a control, the algorithm state keeps its invariant; a write that is refused
  leaves the state as it is.\<close>

theorem controls_keep_invariant:
  assumes "a \<in> set hx_algo_attrs" "live_ok algo"
  shows "live_ok (fst (attr_store ks a buf algo))
    \<and> (snd (attr_store ks a buf algo) < 0 \<longrightarrow> fst (attr_store ks a buf algo) = algo)"
  using store_live [OF assms] by (cases a) (auto split: sum.split)

section \<open>Text\<close>

fun int_range :: "int_type \<Rightarrow> int \<times> int" where
  "int_range S16 = (- 32768, 32767)"
| "int_range U8 = (0, 255)"
| "int_range U16 = (0, 65535)"
| "int_range S32 = (- 2147483648, 2147483647)"

text \<open>The documented behaviour of the parsers: a decimal number of the type, with a newline, is read back.\<close>

definition kstr_reads :: "kstr \<Rightarrow> bool" where
  "kstr_reads ks \<longleftrightarrow> kstrtobool ks (emit_int 0) = Inr False \<and> kstrtobool ks (emit_int 1) = Inr True
     \<and> (\<forall>ty v. fst (int_range ty) \<le> v \<and> v \<le> snd (int_range ty) \<longrightarrow> kstrtoint ks ty (emit_int v) = Inr v)"

fun attr_accepts :: "hx_attr \<Rightarrow> int \<Rightarrow> bool" where
  "attr_accepts (Attr_bool n get put) v \<longleftrightarrow> v = 0 \<or> v = 1"
| "attr_accepts (Attr_int n ty lo hi get put) v \<longleftrightarrow> lo \<le> v \<and> v \<le> hi"

fun attr_typed :: "hx_attr \<Rightarrow> int \<Rightarrow> bool" where
  "attr_typed (Attr_bool n get put) v \<longleftrightarrow> v = 0 \<or> v = 1"
| "attr_typed (Attr_int n ty lo hi get put) v \<longleftrightarrow> fst (int_range ty) \<le> v \<and> v \<le> snd (int_range ty)"

text \<open>A number of the control's type is stored exactly when it lies in the control's range, reading the
  control then prints it, and any other number of the type gives \<open>-ERANGE\<close> without a change.\<close>

theorem control_round_trip:
  assumes "kstr_reads ks" "a \<in> set hx_algo_attrs" "attr_typed a v"
  shows "if attr_accepts a v
     then attr_show a (fst (attr_store ks a (emit_int v) algo)) = emit_int v
       \<and> snd (attr_store ks a (emit_int v) algo) = int (length (emit_int v))
     else attr_store ks a (emit_int v) algo = (algo, - ERANGE)"
  using controls_sound [OF assms(2)] assms(1,3)
  by (cases a) (auto simp: kstr_reads_def)

fun undigits :: "int \<Rightarrow> string \<Rightarrow> int" where
  "undigits n [] = n"
| "undigits n (c # cs) = (if c = CHR 0x0A then n else undigits (10 * n + int (of_char c) - 48) cs)"

text \<open>A parser of that kind.\<close>

definition sample_kstr :: kstr where
  "sample_kstr = \<lparr>kstrtobool = (\<lambda>s. if s = emit_int 0 then Inr False else if s = emit_int 1 then Inr True else Inl (- EINVAL)),
     kstrtoint = (\<lambda>ty s. case s of CHR ''-'' # cs \<Rightarrow> Inr (- undigits 0 cs) | _ \<Rightarrow> Inr (undigits 0 s))\<rparr>"

lemma char_of_digits:
  "\<forall>n\<in>set [0..<10]. int (of_char (char_of (48 + n))) = 48 + int n \<and> char_of (48 + n) \<noteq> CHR 0x0A
    \<and> char_of (48 + n) \<noteq> CHR ''-''"
  by code_simp

lemma char_of_digit: "n < 10 \<Longrightarrow> int (of_char (char_of (48 + n))) = 48 + int n \<and> char_of (48 + n) \<noteq> CHR 0x0A
    \<and> char_of (48 + n) \<noteq> CHR ''-''"
  using char_of_digits by simp

lemma undigits_digits: "undigits m (digits n @ cs) = undigits (m * 10 ^ length (digits n) + int n) cs"
proof (induction n arbitrary: m cs rule: digits.induct)
  case (1 n)
  show ?case
  proof (cases "n < 10")
    case True
    then show ?thesis using char_of_digit [of n] by (subst (1 2) digits.simps) (simp add: algebra_simps)
  next
    case False
    have "int n = 10 * int (n div 10) + int (n mod 10)" by presburger
    then show ?thesis
      using "1.IH" [OF False] char_of_digit [of "n mod 10"] False
      by (subst (1 2) digits.simps) (simp add: algebra_simps)
  qed
qed

lemma digits_first: "\<exists>c cs. digits n = c # cs \<and> c \<noteq> CHR ''-''"
proof (induction n rule: digits.induct)
  case (1 n)
  show ?case
  proof (cases "n < 10")
    case True
    then show ?thesis using char_of_digit [of n] by (subst digits.simps) simp
  next
    case False
    then show ?thesis using "1.IH" by (subst digits.simps) auto
  qed
qed

lemma sample_reads_int: "kstrtoint sample_kstr ty (emit_int v) = Inr v"
proof (cases "v < 0")
  case True
  then show ?thesis
    using undigits_digits [of 0 "nat (- v)" "[CHR 0x0A]"] by (simp add: sample_kstr_def emit_int_def)
next
  case False
  obtain c cs where c: "digits (nat v) = c # cs" "c \<noteq> CHR ''-''" using digits_first by blast
  have "kstrtoint sample_kstr ty (c # s) = Inr (undigits 0 (c # s))" for s
    using c(2) by (auto simp: sample_kstr_def split: char.split list.split bool.split)
  then show ?thesis
    using False c(1) undigits_digits [of 0 "nat v" "[CHR 0x0A]"] by (simp add: emit_int_def)
qed

lemma sample_kstr_reads: "kstr_reads sample_kstr"
proof -
  have "emit_int 0 \<noteq> emit_int 1"
    using sample_reads_int [of S16 0] sample_reads_int [of S16 1] by auto
  then show ?thesis unfolding kstr_reads_def
    using sample_reads_int by (simp add: sample_kstr_def)
qed

lemma edge_push_control:
  "Attr_int ''edge_push_q8'' S16 0 1280 (\<lambda>a. edge_push_q8 (det a)) (\<lambda>v a. a\<lparr>det := (det a)\<lparr>edge_push_q8 := v\<rparr>\<rparr>)
     \<in> set hx_algo_attrs"
  by (simp add: attr_tables)

theorem controls_keep_invariant_witness:
  "live_ok (fst (attr_store sample_kstr
       (Attr_int ''edge_push_q8'' S16 0 1280 (\<lambda>a. edge_push_q8 (det a)) (\<lambda>v a. a\<lparr>det := (det a)\<lparr>edge_push_q8 := v\<rparr>\<rparr>))
       (emit_int 640) new_algo))"
  using controls_keep_invariant [OF edge_push_control live_new] by blast

theorem control_round_trip_witness:
  "attr_store sample_kstr
     (Attr_int ''edge_push_q8'' S16 0 1280 (\<lambda>a. edge_push_q8 (det a)) (\<lambda>v a. a\<lparr>det := (det a)\<lparr>edge_push_q8 := v\<rparr>\<rparr>))
     (emit_int 1281) new_algo = (new_algo, - ERANGE)"
  using control_round_trip [OF sample_kstr_reads edge_push_control, of 1281 new_algo] by simp

text \<open>The values the driver starts with are values its own controls accept.\<close>

theorem defaults_accepted:
  "list_all (\<lambda>a. case a of Attr_bool n get put \<Rightarrow> True
     | Attr_int n ty lo hi get put \<Rightarrow> attr_accepts a (get (hx_algo_init_defaults a0)) \<and> attr_typed a (get (hx_algo_init_defaults a0))) hx_algo_attrs"
  by (simp add: attr_tables hx_algo_init_defaults_def default_pre_def default_det_def default_trk_def)

end
