(* ===== verification/Ts_Driver.thy ===== *)
theory Ts_Driver
  imports Ts_Sysfs
begin

text \<open>
  The life of the touch driver: its handlers as the steps of a transition system, in any order and with
  an arbitrary bus, and the invariant of the reachable states.  Proofs go through partial-correctness
  triples with a postcondition for each outcome; the rules are collected in \<open>hoare_intros\<close>.
\<close>

section \<open>Triples\<close>

named_theorems hoare_intros \<open>rules for the operations of the driver\<close>

definition outcome :: "('a \<Rightarrow> himax_ts \<Rightarrow> bool) \<Rightarrow> (himax_ts \<Rightarrow> bool) \<Rightarrow> (himax_ts \<times> 'w) \<times> (int + 'a) \<Rightarrow> bool" where
  "outcome Q E r \<longleftrightarrow> (case snd r of Inl e \<Rightarrow> E (fst (fst r)) | Inr x \<Rightarrow> Q x (fst (fst r)))"

definition hoare :: "(himax_ts \<Rightarrow> bool) \<Rightarrow> ('w, 'a) ts_io \<Rightarrow> ('a \<Rightarrow> himax_ts \<Rightarrow> bool) \<Rightarrow> (himax_ts \<Rightarrow> bool) \<Rightarrow> bool" where
  "hoare P m Q E \<longleftrightarrow> (\<forall>s. P (fst s) \<longrightarrow> outcome Q E (m s))"

lemma outcome_simps [simp]:
  "outcome Q E (s, Inl e) = E (fst s)" "outcome Q E (s, Inr x) = Q x (fst s)"
  by (simp_all add: outcome_def)

lemma hoareI: "(\<And>s. P (fst s) \<Longrightarrow> outcome Q E (m s)) \<Longrightarrow> hoare P m Q E"
  by (simp add: hoare_def)

lemma hoareD: "hoare P m Q E \<Longrightarrow> P (fst s) \<Longrightarrow> outcome Q E (m s)"
  unfolding hoare_def by blast

lemma outcome_post: "outcome Q E r \<Longrightarrow> (\<And>x ts. Q x ts \<Longrightarrow> Q' x ts) \<Longrightarrow> (\<And>ts. E ts \<Longrightarrow> E' ts) \<Longrightarrow> outcome Q' E' r"
  by (cases r; cases "snd r") (auto simp: outcome_def)

lemma hoare_post: "hoare P m Q E \<Longrightarrow> (\<And>x ts. Q x ts \<Longrightarrow> Q' x ts) \<Longrightarrow> (\<And>ts. E ts \<Longrightarrow> E' ts) \<Longrightarrow> hoare P m Q' E'"
  unfolding hoare_def using outcome_post by blast

lemma hoare_pre: "hoare P m Q E \<Longrightarrow> (\<And>ts. P' ts \<Longrightarrow> P ts) \<Longrightarrow> hoare P' m Q E"
  unfolding hoare_def by blast

lemma hoare_fst:
  assumes "hoare P m (\<lambda>_. Q) Q" "P (fst s)"
  shows "Q (fst (fst (m s)))"
  using hoareD [OF assms] by (cases "snd (m s)") (simp_all add: outcome_def)

lemma hoare_return [hoare_intros]: "hoare (P x) (io_return x) P E"
  by (simp add: hoare_def io_return_def)

lemma hoare_fail [hoare_intros]: "hoare E (io_fail e) Q E"
  by (simp add: hoare_def io_fail_def)

lemma hoare_try [hoare_intros]:
  assumes "hoare P m R F" "\<And>e. hoare F (h e) Q E" "\<And>x. hoare (R x) (f x) Q E"
  shows "hoare P (io_try m h f) Q E"
proof (rule hoareI)
  fix s :: "himax_ts \<times> 'a" assume "P (fst s)"
  from hoareD [OF assms(1) this] show "outcome Q E (io_try m h f s)"
    using hoareD [OF assms(2)] hoareD [OF assms(3)]
    by (cases "m s"; cases "snd (m s)") (simp_all add: io_try_def)
qed

lemma hoare_bind [hoare_intros]:
  assumes "hoare P m R E" "\<And>x. hoare (R x) (f x) Q E"
  shows "hoare P (io_bind m f) Q E"
  using hoare_try [OF assms(1) hoare_fail assms(2)] by (simp add: io_bind_try)

lemma hoare_on_bus [hoare_intros]: "hoare P (on_bus m) (\<lambda>_. P) P"
proof (rule hoareI)
  fix s :: "himax_ts \<times> 'a" assume "P (fst s)"
  then show "outcome (\<lambda>_. P) P (on_bus m s)"
    by (cases s; cases "m (snd s)"; cases "snd (m (snd s))") (simp_all add: on_bus_def)
qed

lemma hoare_upd: "(\<And>ts. P ts \<Longrightarrow> Q (f ts)) \<Longrightarrow> hoare P (upd f) (\<lambda>_. Q) E"
  by (simp add: hoare_def upd_def)

lemma hoare_reading:
  "(\<And>ts. P ts \<Longrightarrow> hoare (\<lambda>t. P t \<and> t = ts) (f ts) Q E) \<Longrightarrow> hoare P (reading f) Q E"
  unfolding hoare_def reading_def by simp

lemma hoare_if: "(c \<Longrightarrow> hoare P m Q E) \<Longrightarrow> (\<not> c \<Longrightarrow> hoare P m' Q E) \<Longrightarrow> hoare P (if c then m else m') Q E"
  by simp

section \<open>The states between the handlers\<close>

text \<open>What every operation keeps: a sound algorithm, complete buffers, and counters below their limits.\<close>

definition ts_base :: "himax_ts \<Rightarrow> bool" where
  "ts_base ts \<longleftrightarrow> live_ok (ts_algo ts) \<and> length (slots ts) = HIMAX_MAX_TOUCH
     \<and> length (event_buf ts) = HIMAX_FULL_EVENT_STACK_SIZE
     \<and> 0 \<le> frame_errors ts \<and> frame_errors ts < HIMAX_MAX_CONSECUTIVE_FRAME_ERRORS
     \<and> 0 \<le> noise_frames ts \<and> noise_frames ts < HIMAX_MAX_CONSECUTIVE_NOISE_FRAMES"

definition quiet :: "himax_ts \<Rightarrow> bool" where
  "quiet ts \<longleftrightarrow> (\<forall>s\<in>set (slots ts). \<not> slot_on s)"

definition panel_flags :: "himax_ts \<Rightarrow> bool \<times> bool \<times> bool \<times> bool" where
  "panel_flags ts = (panel_prepared ts, panel_enabled ts, shutting_down ts, reinit_pending ts)"

text \<open>The interrupt off and nothing touched, or running after an initialisation.\<close>

definition dormant :: "bool \<times> bool \<times> bool \<times> bool \<Rightarrow> bool \<Rightarrow> bool \<Rightarrow> himax_ts \<Rightarrow> bool" where
  "dormant fl ready kept ts \<longleftrightarrow> ts_base ts \<and> quiet ts \<and> \<not> irq_enabled ts \<and> panel_flags ts = fl
     \<and> controller_initialized ts = ready \<and> retained_suspend ts = kept"

definition running :: "bool \<times> bool \<times> bool \<times> bool \<Rightarrow> himax_ts \<Rightarrow> bool" where
  "running fl ts \<longleftrightarrow> ts_base ts \<and> quiet ts \<and> irq_enabled ts \<and> panel_flags ts = fl
     \<and> controller_initialized ts \<and> \<not> retained_suspend ts"

text \<open>
  A full initialisation releases all slots first, so it can start from any state with the interrupt off.
\<close>

definition stopped :: "bool \<times> bool \<times> bool \<times> bool \<Rightarrow> himax_ts \<Rightarrow> bool" where
  "stopped fl ts \<longleftrightarrow> ts_base ts \<and> \<not> irq_enabled ts \<and> panel_flags ts = fl"

text \<open>The invariant of the driver.\<close>

definition ts_inv :: "himax_ts \<Rightarrow> bool" where
  "ts_inv ts \<longleftrightarrow> ts_base ts
     \<and> (irq_enabled ts \<or> \<not> quiet ts \<longrightarrow> controller_initialized ts \<and> panel_prepared ts \<and> panel_enabled ts
         \<and> \<not> shutting_down ts \<and> \<not> retained_suspend ts)
     \<and> (retained_suspend ts \<longrightarrow> controller_initialized ts)
     \<and> (shutting_down ts \<longrightarrow> \<not> panel_prepared ts \<and> \<not> panel_enabled ts \<and> \<not> controller_initialized ts)
     \<and> (reinit_pending ts \<longrightarrow> panel_enabled ts)"

lemmas mode_defs = dormant_def running_def panel_flags_def

section \<open>Reports\<close>

lemma report_keeps [simp]:
  "irq_enabled (himax_report_tracked_state cfg b ts) = irq_enabled ts"
  "panel_prepared (himax_report_tracked_state cfg b ts) = panel_prepared ts"
  "panel_enabled (himax_report_tracked_state cfg b ts) = panel_enabled ts"
  "controller_initialized (himax_report_tracked_state cfg b ts) = controller_initialized ts"
  "retained_suspend (himax_report_tracked_state cfg b ts) = retained_suspend ts"
  "shutting_down (himax_report_tracked_state cfg b ts) = shutting_down ts"
  "reinit_pending (himax_report_tracked_state cfg b ts) = reinit_pending ts"
  "ts_algo (himax_report_tracked_state cfg b ts) = ts_algo ts"
  "event_buf (himax_report_tracked_state cfg b ts) = event_buf ts"
  "frame_errors (himax_report_tracked_state cfg b ts) = frame_errors ts"
  "noise_frames (himax_report_tracked_state cfg b ts) = noise_frames ts"
  by (simp_all add: himax_report_tracked_state_def)

lemma live_tracks: "live_ok a \<Longrightarrow> length (tracks a) = HIMAX_MAX_TOUCH"
  using algo_okD(5) [OF live_okD(1)] by (simp add: tracks_ok_def)

lemma slot_on_report [simp]: "slot_on (report_slot cfg a b t s) \<longleftrightarrow> b \<and> trk_active t \<and> trk_reported t"
  by (simp add: report_slot_def Let_def)

lemma base_report: "ts_base ts \<Longrightarrow> ts_base (himax_report_tracked_state cfg b ts)"
  using live_tracks [of "ts_algo ts"] by (simp add: ts_base_def) (simp add: himax_report_tracked_state_def)

text \<open>The slots show the stable tracks, each in its own slot.\<close>

lemma slots_report:
  assumes "ts_base ts"
  shows "map slot_on (slots (himax_report_tracked_state cfg b ts))
    = map (\<lambda>t. b \<and> trk_active t \<and> trk_reported t) (tracks (ts_algo ts))"
  using assms live_tracks [of "ts_algo ts"]
  by (intro nth_equalityI) (simp_all add: ts_base_def himax_report_tracked_state_def)

lemma quiet_map: "quiet ts \<longleftrightarrow> (\<forall>x\<in>set (map slot_on (slots ts)). \<not> x)"
  by (simp add: quiet_def)

lemma release_quiet: "ts_base ts \<Longrightarrow> quiet (himax_release_all_touches cfg ts)"
  unfolding quiet_map himax_release_all_touches_def
  by (subst slots_report) (auto simp: ts_base_def live_clear_live)

lemma base_release: "ts_base ts \<Longrightarrow> ts_base (himax_release_all_touches cfg ts)"
  unfolding himax_release_all_touches_def
  by (rule base_report) (simp add: ts_base_def live_clear_live)

lemma release_keeps [simp]:
  "irq_enabled (himax_release_all_touches cfg ts) = irq_enabled ts"
  "panel_prepared (himax_release_all_touches cfg ts) = panel_prepared ts"
  "panel_enabled (himax_release_all_touches cfg ts) = panel_enabled ts"
  "controller_initialized (himax_release_all_touches cfg ts) = controller_initialized ts"
  "retained_suspend (himax_release_all_touches cfg ts) = retained_suspend ts"
  "shutting_down (himax_release_all_touches cfg ts) = shutting_down ts"
  "reinit_pending (himax_release_all_touches cfg ts) = reinit_pending ts"
  by (simp_all add: himax_release_all_touches_def)

lemma int_enable_keeps [simp]:
  "irq_enabled (himax_int_enable b ts) = b"
  "panel_prepared (himax_int_enable b ts) = panel_prepared ts"
  "panel_enabled (himax_int_enable b ts) = panel_enabled ts"
  "controller_initialized (himax_int_enable b ts) = controller_initialized ts"
  "retained_suspend (himax_int_enable b ts) = retained_suspend ts"
  "shutting_down (himax_int_enable b ts) = shutting_down ts"
  "reinit_pending (himax_int_enable b ts) = reinit_pending ts"
  "ts_algo (himax_int_enable b ts) = ts_algo ts" "slots (himax_int_enable b ts) = slots ts"
  "ts_base (himax_int_enable b ts) = ts_base ts" "quiet (himax_int_enable b ts) = quiet ts"
  by (simp_all add: himax_int_enable_def ts_base_def quiet_def)

lemma base_upd [simp]:
  "ts_base (ts\<lparr>controller_initialized := b\<rparr>) = ts_base ts" "ts_base (ts\<lparr>retained_suspend := b\<rparr>) = ts_base ts"
  "ts_base (ts\<lparr>panel_prepared := b\<rparr>) = ts_base ts" "ts_base (ts\<lparr>panel_enabled := b\<rparr>) = ts_base ts"
  "ts_base (ts\<lparr>shutting_down := b\<rparr>) = ts_base ts" "ts_base (ts\<lparr>reinit_pending := b\<rparr>) = ts_base ts"
  "ts_base (ts\<lparr>afe_command_slot := k\<rparr>) = ts_base ts"
  "quiet (ts\<lparr>controller_initialized := b\<rparr>) = quiet ts" "quiet (ts\<lparr>retained_suspend := b\<rparr>) = quiet ts"
  "quiet (ts\<lparr>panel_prepared := b\<rparr>) = quiet ts" "quiet (ts\<lparr>panel_enabled := b\<rparr>) = quiet ts"
  "quiet (ts\<lparr>shutting_down := b\<rparr>) = quiet ts" "quiet (ts\<lparr>reinit_pending := b\<rparr>) = quiet ts"
  "quiet (ts\<lparr>afe_command_slot := k\<rparr>) = quiet ts" "quiet (ts\<lparr>ts_algo := a\<rparr>) = quiet ts"
  "quiet (ts\<lparr>event_buf := buf\<rparr>) = quiet ts" "quiet (ts\<lparr>frame_errors := n\<rparr>) = quiet ts"
  "quiet (ts\<lparr>noise_frames := n\<rparr>) = quiet ts"
  by (simp_all add: ts_base_def quiet_def)

section \<open>Initialisation\<close>

lemma store_length [simp]: "i \<le> length buf \<Longrightarrow> length (store_at i bs buf) = length buf"
  by (simp add: store_at_def)

lemma hoare_chunks:
  assumes "\<And>ts bs i. P ts \<Longrightarrow> i < HIMAX_FULL_EVENT_STACK_SIZE \<Longrightarrow> P (ts\<lparr>event_buf := store_at i bs (event_buf ts)\<rparr>)"
  shows "hoare P (read_chunks bus i) (\<lambda>_. P) P"
proof (induction bus i rule: read_chunks.induct)
  case (1 bus i)
  show ?case
  proof (cases "i < HIMAX_FULL_EVENT_STACK_SIZE")
    case True
    have st: "P (ts\<lparr>event_buf := store_at i bs (event_buf ts)\<rparr>)" if "P ts" for ts bs
      by (rule assms [OF that True])
    show ?thesis
      unfolding read_chunks.simps [of bus i] if_P [OF True]
      by (rule hoare_bind [OF hoare_on_bus hoare_bind [OF hoare_upd "1.IH" [OF True]]]) (rule st)
  next
    case False
    show ?thesis unfolding read_chunks.simps [of bus i] if_not_P [OF False] by (rule hoare_return)
  qed
qed

lemma base_store: "ts_base ts \<Longrightarrow> i < HIMAX_FULL_EVENT_STACK_SIZE
    \<Longrightarrow> ts_base (ts\<lparr>event_buf := store_at i bs (event_buf ts)\<rparr>)"
  by (simp add: ts_base_def)

lemma dormant_store: "dormant fl r k ts \<Longrightarrow> i < HIMAX_FULL_EVENT_STACK_SIZE
    \<Longrightarrow> dormant fl r k (ts\<lparr>event_buf := store_at i bs (event_buf ts)\<rparr>)"
  by (simp add: mode_defs base_store)

lemma hoare_read_stack: "hoare (dormant fl r k) (hx83121a_gaokun_read_event_stack bus) (\<lambda>_. dormant fl r k) (dormant fl r k)"
  unfolding hx83121a_gaokun_read_event_stack_def by (rule hoare_chunks) (rule dormant_store)

lemma dormant_algo: "dormant fl r k ts \<Longrightarrow> live_ok a \<Longrightarrow> dormant fl r k (ts\<lparr>ts_algo := a\<rparr>)"
  by (simp add: mode_defs ts_base_def)

lemma dormant_live: "dormant fl r k ts \<Longrightarrow> live_ok (ts_algo ts)"
  by (simp add: mode_defs ts_base_def)

lemma hoare_stable: "hoare (dormant fl r k) (stable_attempts n bus prev ret) (\<lambda>_. dormant fl r k) (dormant fl r k)"
proof (induction n arbitrary: prev ret)
  case 0
  then show ?case by (simp add: hoare_return [of "\<lambda>_. dormant fl r k"] hoare_fail)
next
  case (Suc n)
  have step: "hoare (\<lambda>t. dormant fl r k t \<and> t = ts) (stable_attempts n bus p e) (\<lambda>_. dormant fl r k) (dormant fl r k)"
    for ts p e by (rule hoare_pre [OF Suc.IH]) simp
  have new: "hoare (\<lambda>t. dormant fl r k t \<and> t = ts) (io_bind (upd (\<lambda>ts. ts\<lparr>ts_algo := a\<rparr>)) g) (\<lambda>_. dormant fl r k) (dormant fl r k)"
    if "hx_algo_qualify_wake_frame (ts_algo ts) (event_matrix (event_buf ts)) fs = (a, q)" "dormant fl r k ts"
      "\<And>x. hoare (dormant fl r k) (g x) (\<lambda>_. dormant fl r k) (dormant fl r k)" for ts a q g fs
  proof (rule hoare_bind [OF hoare_upd that(3)])
    have "live_ok a" using live_qualify [OF dormant_live [OF that(2)] event_matrix_ok, of "event_buf ts" fs] that(1) by simp
    then show "dormant fl r k (t\<lparr>ts_algo := a\<rparr>)" if "dormant fl r k t \<and> t = ts" for t
      using that by (blast intro: dormant_algo)
  qed
  show ?case
    unfolding stable_attempts.simps
    by (rule hoare_intros hoare_read_stack Suc.IH hoare_reading)+
      (auto simp: Let_def split: option.split prod.split intro!: step new Suc.IH
        hoare_return [of "\<lambda>_. dormant fl r k"])
qed

lemma hoare_afe: "hoare (dormant fl r k) (restore_afe cfg bus) (\<lambda>_. dormant fl r k) (dormant fl r k)"
proof -
  have u: "hoare (dormant fl r k) (upd (\<lambda>ts. ts\<lparr>afe_command_slot := n\<rparr>)) (\<lambda>_. dormant fl r k) (dormant fl r k)" for n
    by (rule hoare_upd) (simp add: mode_defs)
  show ?thesis unfolding restore_afe_def
    by (rule hoare_reading, rule hoare_pre [OF hoare_try [OF hoare_on_bus _ u]])
      (simp_all add: hoare_return [of "\<lambda>_. dormant fl r k"])
qed

lemma base_begin: "ts_base ts \<Longrightarrow> ts_base (begin_wake cfg ts) \<and> quiet (begin_wake cfg ts)"
  using base_release [of ts cfg] release_quiet [of ts cfg]
  by (simp add: begin_wake_def Let_def) (simp add: ts_base_def live_begin_wake)

lemma dormant_begin: "dormant fl r k ts \<Longrightarrow> dormant fl r k (begin_wake cfg ts)"
  using base_begin [of ts cfg] by (simp add: mode_defs begin_wake_def Let_def)

lemma stopped_begin:
  "stopped fl ts \<Longrightarrow> dormant fl r k (begin_wake cfg (ts\<lparr>controller_initialized := r, retained_suspend := k\<rparr>))"
  using base_begin [of "ts\<lparr>controller_initialized := r, retained_suspend := k\<rparr>" cfg]
  by (simp add: stopped_def mode_defs begin_wake_def Let_def)

lemma dormant_stopped: "dormant fl r k ts \<Longrightarrow> stopped fl ts"
  by (simp add: stopped_def mode_defs)

lemma dormant_running:
  "dormant fl r k ts \<Longrightarrow> running fl (himax_int_enable True (ts\<lparr>retained_suspend := False, controller_initialized := True\<rparr>))"
  by (simp add: mode_defs)

lemma hoare_warm: "hoare (dormant fl r k) (himax_warm_resume cfg bus) (\<lambda>_. running fl) (dormant fl r k)"
  unfolding himax_warm_resume_def himax_wait_for_stable_event_frames_def
  by (rule hoare_bind hoare_on_bus hoare_afe hoare_stable
      hoare_upd [of "dormant fl r k" "dormant fl r k"] dormant_begin
      hoare_upd [of "dormant fl r k" "running fl"] dormant_running | assumption)+

lemma hoare_crc:
  "hoare (dormant fl r k) (if c then io_bind (on_bus m) (\<lambda>x. if x \<noteq> 0 then io_fail e else io_return ()) else io_return ())
     (\<lambda>_. dormant fl r k) (dormant fl r k)"
  by (rule hoare_if, rule hoare_bind [OF hoare_on_bus], rule hoare_if,
      simp_all add: hoare_fail hoare_return [of "\<lambda>_. dormant fl r k"])

lemma hoare_hw_reinit:
  "hoare (stopped fl) (himax_hw_reinit cfg bus crc) (\<lambda>_. running fl) (dormant fl False False)"
proof -
  have first: "hoare (stopped fl)
      (upd (\<lambda>ts. begin_wake cfg (ts\<lparr>controller_initialized := False, retained_suspend := False\<rparr>)))
      (\<lambda>_. dormant fl False False) (dormant fl False False)"
    by (rule hoare_upd) (rule stopped_begin)
  have last: "hoare (dormant fl False False) (upd (\<lambda>ts. himax_int_enable True (ts\<lparr>controller_initialized := True\<rparr>)))
      (\<lambda>_. running fl) (dormant fl False False)"
    by (rule hoare_upd) (simp add: mode_defs)
  show ?thesis
    unfolding himax_hw_reinit_def himax_wait_for_stable_event_frames_def
    by (rule hoare_bind first last hoare_on_bus hoare_crc hoare_afe hoare_stable)+
qed

lemma hoare_retry:
  "hoare (stopped fl) (himax_hw_reinit_retry (Suc n) cfg bus crc ret) (\<lambda>_. running fl) (dormant fl False False)"
proof (induction n arbitrary: ret)
  case 0
  show ?case unfolding himax_hw_reinit_retry.simps
    by (rule hoare_try [OF hoare_hw_reinit hoare_fail hoare_return])
next
  case (Suc n)
  show ?case by (subst himax_hw_reinit_retry.simps) (rule hoare_try [OF hoare_hw_reinit hoare_pre [OF Suc.IH dormant_stopped] hoare_return])
qed

lemma hoare_full: "hoare (stopped fl) (full_reinit cfg bus) (\<lambda>_. running fl) (dormant fl False False)"
  using hoare_retry [of fl 2] by (simp add: full_reinit_def HIMAX_PANEL_REINIT_RETRIES_def numeral_3_eq_3 numeral_2_eq_2)

section \<open>The handlers keep the invariant\<close>

lemma inv_dormant: "dormant (pp, pe, False, pd) r k ts \<Longrightarrow> (k \<longrightarrow> r) \<Longrightarrow> (pd \<longrightarrow> pe) \<Longrightarrow> ts_inv ts"
  by (auto simp: ts_inv_def mode_defs)

lemma inv_running: "running (True, True, False, pd) ts \<Longrightarrow> ts_inv ts"
  by (auto simp: ts_inv_def mode_defs)

lemma release_dormant:
  "ts_base ts \<Longrightarrow> dormant (panel_flags ts) (controller_initialized ts) (retained_suspend ts)
     (himax_release_all_touches cfg (himax_int_enable False ts))"
  using base_release [of "himax_int_enable False ts" cfg] release_quiet [of "himax_int_enable False ts" cfg]
  by (simp add: mode_defs)

lemma lock_inv: "ts_inv ts \<Longrightarrow> ts_inv (himax_lock ts)"
  by (auto simp: ts_inv_def himax_lock_def)

lemma lock_keeps [simp]:
  "irq_enabled (himax_lock ts) = False" "ts_base (himax_lock ts) = ts_base ts"
  "panel_prepared (himax_lock ts) = panel_prepared ts" "panel_enabled (himax_lock ts) = panel_enabled ts"
  "controller_initialized (himax_lock ts) = controller_initialized ts"
  "retained_suspend (himax_lock ts) = retained_suspend ts" "shutting_down (himax_lock ts) = shutting_down ts"
  "reinit_pending (himax_lock ts) = reinit_pending ts" "quiet (himax_lock ts) = quiet ts"
  by (simp_all add: himax_lock_def)

lemma prepared_inv: "ts_inv ts \<Longrightarrow> ts_inv (himax_panel_prepared ts)"
  by (auto simp: ts_inv_def himax_panel_prepared_def Let_def)

lemma enabled_inv: "ts_inv ts \<Longrightarrow> ts_inv (himax_panel_enabled ts)"
  by (auto simp: ts_inv_def himax_panel_enabled_def Let_def)

lemma retain_dormant:
  assumes "ts_base ts"
  shows "dormant (panel_flags ts) (controller_initialized ts) (controller_initialized ts) (himax_retain_for_suspend cfg ts)"
proof -
  have "ts_base (t\<lparr>frame_errors := 0, retained_suspend := b\<rparr>) \<longleftrightarrow> ts_base (t\<lparr>frame_errors := 0\<rparr>)"
    "ts_base t \<Longrightarrow> ts_base (t\<lparr>frame_errors := 0\<rparr>)" for t b
    by (simp_all add: ts_base_def HIMAX_MAX_CONSECUTIVE_FRAME_ERRORS_def)
  then show ?thesis
    using release_dormant [OF assms, of cfg]
    by (simp add: himax_retain_for_suspend_def Let_def mode_defs)
qed

lemma unpreparing_inv: "ts_inv ts \<Longrightarrow> ts_inv (himax_panel_unpreparing cfg ts)"
  using retain_dormant [of "(himax_lock (ts\<lparr>reinit_pending := False\<rparr>))\<lparr>panel_enabled := False, panel_prepared := False\<rparr>" cfg]
  by (auto simp: himax_panel_unpreparing_def ts_inv_def mode_defs)

lemma disabling_inv: "ts_inv ts \<Longrightarrow> ts_inv (himax_panel_disabling cfg ts)"
  using retain_dormant [of "(himax_lock (ts\<lparr>reinit_pending := False\<rparr>))\<lparr>panel_enabled := False\<rparr>" cfg]
  by (auto simp: himax_panel_disabling_def Let_def ts_inv_def mode_defs)

lemma power_down_dormant:
  "ts_base ts \<Longrightarrow> dormant (panel_flags ts) False False (fst (fst (himax_power_down cfg bus (ts, w))))"
  using release_dormant [of ts cfg] by (simp add: himax_power_down_def mode_defs)

lemma hoare_power_down: "hoare (\<lambda>ts. ts_base ts \<and> panel_flags ts = fl) (himax_power_down cfg bus) (\<lambda>_. dormant fl False False) E"
proof (rule hoareI)
  fix s :: "himax_ts \<times> 'a" assume a: "ts_base (fst s) \<and> panel_flags (fst s) = fl"
  obtain ts w where s: "s = (ts, w)" by (cases s)
  have "snd (himax_power_down cfg bus s) = Inr ()" by (simp add: s himax_power_down_def)
  then show "outcome (\<lambda>_. dormant fl False False) E (himax_power_down cfg bus s)"
    using power_down_dormant [of ts cfg bus w] a by (simp add: outcome_def s)
qed

lemma remove_inv: "ts_inv (fst s) \<Longrightarrow> ts_inv (fst (himax_spi_remove cfg bus s))"
  using power_down_dormant [of "(himax_lock ((fst s)\<lparr>reinit_pending := False\<rparr>))
      \<lparr>shutting_down := True, panel_enabled := False, panel_prepared := False\<rparr>" cfg bus "snd s"]
  by (cases s) (auto simp: himax_spi_remove_def Let_def ts_inv_def mode_defs)

text \<open>After the full initialisation, whether it succeeds or not.\<close>

lemma full_inv:
  assumes "stopped (True, True, False, pd) (fst s)"
  shows "ts_inv (fst (fst (full_reinit cfg bus s)))"
proof -
  have "hoare (stopped (True, True, False, pd)) (full_reinit cfg bus) (\<lambda>_. ts_inv) ts_inv"
    by (rule hoare_post [OF hoare_full]) (auto dest: inv_running inv_dormant)
  from hoare_fst [OF this assms] show ?thesis .
qed

lemma manual_inv:
  assumes "ts_inv (fst s)"
  shows "ts_inv (fst (fst (himax_manual_reset cfg bus s)))"
proof -
  obtain ts w where s: "s = (ts, w)" by (cases s)
  define u where "u = himax_lock (ts\<lparr>reinit_pending := False\<rparr>)"
  have u: "ts_inv u" using assms by (auto simp: s u_def ts_inv_def)
  have "stopped (True, True, False, False) u" if "panel_prepared u" "panel_enabled u" "\<not> shutting_down u"
    using u that by (simp add: stopped_def ts_inv_def panel_flags_def) (simp add: u_def)
  then show ?thesis
    using u full_inv [of False "(u, w)"]
    by (auto simp: himax_manual_reset_def s io_bind_def upd_def reading_def u_def [symmetric] io_fail_def)
qed

lemma work_inv:
  assumes "ts_inv (fst s)"
  shows "ts_inv (fst (himax_panel_reinit_work cfg bus s))"
proof -
  obtain ts w where s: "s = (ts, w)" by (cases s)
  define u where "u = himax_lock (ts\<lparr>reinit_pending := False\<rparr>)"
  have u: "ts_inv u" "\<not> irq_enabled u" "\<not> reinit_pending u" using assms by (auto simp: s u_def ts_inv_def)
  let ?fl = "(True, True, False, False)"
  let ?E = "\<lambda>ts. ts_base ts \<and> panel_flags ts = ?fl"
  let ?m = "if \<not> full_resume_on_panel_enable cfg \<and> retained_suspend u \<and> controller_initialized u
      then io_try (himax_warm_resume cfg bus) (\<lambda>e. full_reinit cfg bus) io_return else full_reinit cfg bus"
  have run: "himax_panel_reinit_work cfg bus s =
      (if shutting_down u \<or> \<not> panel_prepared u \<or> \<not> panel_enabled u then (u, w)
       else fst (io_try ?m (\<lambda>e. himax_power_down cfg bus) io_return (u, w)))"
    by (simp only: himax_panel_reinit_work_def s Let_def prod.case u_def)
  show ?thesis
  proof (cases "shutting_down u \<or> \<not> panel_prepared u \<or> \<not> panel_enabled u")
    case True
    then show ?thesis using u(1) by (simp add: run)
  next
    case False
    then have st: "stopped ?fl u" using u by (simp add: stopped_def ts_inv_def panel_flags_def)
    have cold: "hoare (stopped ?fl) (full_reinit cfg bus) (\<lambda>_. ts_inv) ?E"
      by (rule hoare_post [OF hoare_full], erule inv_running, simp add: mode_defs)
    have warm: "hoare (dormant ?fl True True) (io_try (himax_warm_resume cfg bus) (\<lambda>e. full_reinit cfg bus) io_return)
        (\<lambda>_. ts_inv) ?E"
      by (rule hoare_try [OF hoare_warm hoare_pre [OF cold dormant_stopped]])
        (auto intro: hoare_pre [OF hoare_return [of "\<lambda>_. ts_inv"]] dest: inv_running)
    have down: "hoare ?E (himax_power_down cfg bus) (\<lambda>_. ts_inv) ts_inv"
      by (rule hoare_post [OF hoare_power_down [where E = ts_inv]]) (auto dest: inv_dormant)
    have ret: "hoare ts_inv (io_return x) (\<lambda>_. ts_inv) ts_inv" for x by (rule hoare_return)
    have d: "dormant ?fl True True u" if "retained_suspend u" "controller_initialized u"
      using that False u by (auto simp: mode_defs ts_inv_def)
    have "hoare (\<lambda>t. t = u) ?m (\<lambda>_. ts_inv) ?E"
      by (rule hoare_if; (rule hoare_pre [OF warm] hoare_pre [OF cold]); use d st in blast)
    from hoare_fst [OF hoare_try [OF this down ret], of "(u, w)"]
    show ?thesis unfolding run if_not_P [OF False] by (simp only: fst_conv)
  qed
qed

section \<open>The interrupt thread\<close>

definition active :: "bool \<Rightarrow> himax_ts \<Rightarrow> bool" where
  "active pd ts \<longleftrightarrow> ts_base ts \<and> irq_enabled ts \<and> controller_initialized ts \<and> \<not> retained_suspend ts
     \<and> panel_flags ts = (True, True, False, pd)"

lemma active_inv: "active pd ts \<Longrightarrow> ts_inv ts"
  by (auto simp: active_def ts_inv_def panel_flags_def)

lemma inv_active: "ts_inv ts \<Longrightarrow> irq_enabled ts \<Longrightarrow> active (reinit_pending ts) ts"
  by (auto simp: active_def ts_inv_def panel_flags_def)

lemma active_upd:
  "active pd ts \<Longrightarrow> i < HIMAX_FULL_EVENT_STACK_SIZE \<Longrightarrow> active pd (ts\<lparr>event_buf := store_at i bs (event_buf ts)\<rparr>)"
  "active pd ts \<Longrightarrow> 0 \<le> n \<Longrightarrow> n < HIMAX_MAX_CONSECUTIVE_FRAME_ERRORS \<Longrightarrow> active pd (ts\<lparr>frame_errors := n\<rparr>)"
  "active pd ts \<Longrightarrow> 0 \<le> n \<Longrightarrow> n < HIMAX_MAX_CONSECUTIVE_NOISE_FRAMES \<Longrightarrow> active pd (ts\<lparr>noise_frames := n\<rparr>)"
  "active pd ts \<Longrightarrow> live_ok a \<Longrightarrow> active pd (ts\<lparr>ts_algo := a\<rparr>)"
  by (simp_all add: active_def ts_base_def panel_flags_def)

lemma active_report: "active pd ts \<Longrightarrow> active pd (himax_report_tracked_state cfg b ts)"
  using base_report [of ts cfg b] by (simp add: active_def panel_flags_def)

lemma recover_inv: "active pd ts \<Longrightarrow> ts_inv (fst (recover cfg bus (ts, w)))"
  unfolding recover_def by simp (rule full_inv [where pd = pd], simp add: active_def stopped_def panel_flags_def)

lemma hoare_read_active: "hoare (active pd) (hx83121a_gaokun_read_event_stack bus) (\<lambda>_. active pd) (active pd)"
  unfolding hx83121a_gaokun_read_event_stack_def by (rule hoare_chunks) (rule active_upd)

lemma count_up: "0 \<le> n \<Longrightarrow> n < 255 \<Longrightarrow> u8 (n + 1) = n + 1"
  by (simp add: u8_id)

lemma failed_inv:
  assumes "active pd ts"
  shows "ts_inv (fst (frame_read_failed cfg bus (ts, w)))"
proof -
  have n: "0 \<le> frame_errors ts" "frame_errors ts < 3"
    using assms by (simp_all add: active_def ts_base_def HIMAX_MAX_CONSECUTIVE_FRAME_ERRORS_def)
  have "active pd (ts\<lparr>frame_errors := 0\<rparr>)"
    by (rule active_upd(2) [OF assms]) (simp_all add: HIMAX_MAX_CONSECUTIVE_FRAME_ERRORS_def)
  then have "ts_inv (fst (recover cfg bus (ts\<lparr>frame_errors := 0\<rparr>, w)))" by (rule recover_inv)
  moreover have "ts_inv (ts\<lparr>frame_errors := frame_errors ts + 1\<rparr>)" if "frame_errors ts < 2"
    by (rule active_inv, rule active_upd(2) [OF assms]) (use n that in \<open>simp_all add: HIMAX_MAX_CONSECUTIVE_FRAME_ERRORS_def\<close>)
  ultimately show ?thesis
    using n by (simp add: frame_read_failed_def Let_def count_up HIMAX_MAX_CONSECUTIVE_FRAME_ERRORS_def)
qed

lemma noise_inv:
  assumes "active pd ts"
  shows "ts_inv (fst (noise_frame cfg bus (ts, w)))"
proof -
  have n: "0 \<le> noise_frames ts" "noise_frames ts < 12"
    using assms by (simp_all add: active_def ts_base_def HIMAX_MAX_CONSECUTIVE_NOISE_FRAMES_def)
  have "active pd (ts\<lparr>noise_frames := 0\<rparr>)"
    by (rule active_upd(3) [OF assms]) (simp_all add: HIMAX_MAX_CONSECUTIVE_NOISE_FRAMES_def)
  then have "ts_inv (fst (recover cfg bus (ts\<lparr>noise_frames := 0\<rparr>, w)))" by (rule recover_inv)
  moreover have "ts_inv (report_tracks cfg (ts\<lparr>noise_frames := noise_frames ts + 1\<rparr>))" if "noise_frames ts < 11"
    unfolding report_tracks_def
    by (rule active_inv, rule active_report, rule active_upd(3) [OF assms])
      (use n that in \<open>simp_all add: HIMAX_MAX_CONSECUTIVE_NOISE_FRAMES_def\<close>)
  ultimately show ?thesis
    using n by (simp add: noise_frame_def Let_def count_up HIMAX_MAX_CONSECUTIVE_NOISE_FRAMES_def)
qed

text \<open>
  A frame in the interrupt thread always gets an answer: in a state the invariant admits the algorithm
  returns, whatever the bytes on the bus are.
\<close>

lemma good_frame_active:
  assumes "active pd ts"
  shows "\<exists>ts'. good_frame cfg status ts = Some ts' \<and> active pd ts'"
proof -
  have "live_ok (ts_algo ts)" using assms by (simp add: active_def ts_base_def)
  from live_process [OF this event_matrix_ok, of "event_buf ts" "frame_finger status"]
  obtain b n where b: "hx_algo_process_frame_state (ts_algo ts) (event_matrix (event_buf ts)) (frame_finger status) = Some (b, n)"
    "live_ok b" by blast
  have "active pd (ts\<lparr>noise_frames := 0, ts_algo := b\<rparr>)"
    using active_upd(4) [OF active_upd(3) [OF assms, of 0] b(2)] by (simp add: HIMAX_MAX_CONSECUTIVE_NOISE_FRAMES_def)
  then show ?thesis using b(1) by (simp add: good_frame_def active_report)
qed

lemma thread_inv:
  assumes "ts_inv (fst s)" "irq_enabled (fst s)"
  shows "\<exists>s'. himax_ts_thread cfg bus s = Some s' \<and> ts_inv (fst s')"
proof -
  define pd where "pd = reinit_pending (fst s)"
  have a: "active pd (fst s)" using inv_active [OF assms] by (simp add: pd_def)
  obtain ts w r where r: "hx83121a_gaokun_read_event_stack bus s = ((ts, w), r)" by (metis prod.exhaust)
  show ?thesis
  proof (cases r)
    case (Inl e)
    have "active pd ts" using hoareD [OF hoare_read_active a, of bus] r Inl by simp
    then show ?thesis using failed_inv r Inl by (simp add: himax_ts_thread_def)
  next
    case (Inr x)
    have "active pd ts" using hoareD [OF hoare_read_active a, of bus] r Inr by simp
    then have a0: "active pd (ts\<lparr>frame_errors := 0\<rparr>)"
      by (rule active_upd(2)) (simp_all add: HIMAX_MAX_CONSECUTIVE_FRAME_ERRORS_def)
    have held: "ts_inv (report_tracks cfg (ts\<lparr>frame_errors := 0\<rparr>))"
      unfolding report_tracks_def by (rule active_inv [OF active_report [OF a0]])
    show ?thesis
    proof (cases "hx_parse_master_frame_status (event_buf ts)")
      case None
      then show ?thesis using held r Inr by (simp add: himax_ts_thread_def)
    next
      case (Some status)
      obtain ts' where "good_frame cfg status (ts\<lparr>frame_errors := 0\<rparr>) = Some ts'" "active pd ts'"
        using good_frame_active [OF a0] by blast
      then show ?thesis
        using held noise_inv [OF a0, of cfg bus w] r Inr Some active_inv
        by (cases "noise_frame cfg bus (ts\<lparr>frame_errors := 0\<rparr>, w)") (simp add: himax_ts_thread_def Let_def)
    qed
  qed
qed

section \<open>The transition system\<close>

text \<open>
  The handlers in any order: the panel-follower callbacks, the pending work, the interrupt while it is
  enabled, a reset or a control written through sysfs, removal, and the bus moving on by itself.
\<close>

inductive ts_step :: "kstr \<Rightarrow> hx_config \<Rightarrow> 'w hx_bus \<Rightarrow> himax_ts \<times> 'w \<Rightarrow> himax_ts \<times> 'w \<Rightarrow> bool" for ks cfg bus where
  prepared: "ts_step ks cfg bus (ts, w) (himax_panel_prepared ts, w)"
| enabled: "ts_step ks cfg bus (ts, w) (himax_panel_enabled ts, w)"
| disabling: "ts_step ks cfg bus (ts, w) (himax_panel_disabling cfg ts, w)"
| unpreparing: "ts_step ks cfg bus (ts, w) (himax_panel_unpreparing cfg ts, w)"
| work: "reinit_pending (fst s) \<Longrightarrow> ts_step ks cfg bus s (himax_panel_reinit_work cfg bus s)"
| irq: "irq_enabled (fst s) \<Longrightarrow> himax_ts_thread cfg bus s = Some s' \<Longrightarrow> ts_step ks cfg bus s s'"
| reset: "ts_step ks cfg bus s (fst (inplace_reset_store ks cfg bus buf s))"
| control: "a \<in> set hx_algo_attrs \<Longrightarrow>
    ts_step ks cfg bus (ts, w) (ts\<lparr>ts_algo := fst (attr_store ks a buf (ts_algo ts))\<rparr>, w)"
| remove: "ts_step ks cfg bus s (himax_spi_remove cfg bus s)"
| world: "ts_step ks cfg bus (ts, w) (ts, w')"

inductive_cases ts_step_cases: "ts_step ks cfg bus s s'"

text \<open>The state after a successful probe: everything off, the algorithm with its defaults, no slot in use.\<close>

definition probed :: himax_ts where
  "probed = \<lparr>irq_enabled = False, panel_prepared = False, panel_enabled = False, controller_initialized = False,
     retained_suspend = False, shutting_down = False, reinit_pending = False, ts_algo = new_algo,
     event_buf = replicate HIMAX_FULL_EVENT_STACK_SIZE 0, frame_errors = 0, noise_frames = 0,
     afe_command_slot = 0, slots = replicate HIMAX_MAX_TOUCH \<lparr>slot_on = False, slot_x = 0, slot_y = 0,
       slot_major = 0, slot_pressure = 0\<rparr>\<rparr>"

definition ts_start :: "himax_ts \<times> 'w \<Rightarrow> bool" where
  "ts_start s \<longleftrightarrow> fst s = probed"

lemma start_inv: "ts_start s \<Longrightarrow> ts_inv (fst s)"
  by (simp add: ts_start_def probed_def ts_inv_def ts_base_def quiet_def live_new
      HIMAX_MAX_CONSECUTIVE_FRAME_ERRORS_def HIMAX_MAX_CONSECUTIVE_NOISE_FRAMES_def)

lemma control_inv:
  assumes "ts_inv ts" "live_ok a"
  shows "ts_inv (ts\<lparr>ts_algo := a\<rparr>)"
  using assms by (simp add: ts_inv_def) (simp add: ts_base_def)

lemma reset_inv:
  assumes "ts_inv (fst s)"
  shows "ts_inv (fst (fst (inplace_reset_store ks cfg bus buf s)))"
proof -
  have "hoare ts_inv (himax_manual_reset cfg bus) (\<lambda>_. ts_inv) ts_inv"
    using manual_inv [of _ cfg bus] by (intro hoareI) (auto simp: outcome_def split: sum.split)
  then have "hoare ts_inv (inplace_reset_store ks cfg bus buf) (\<lambda>_. ts_inv) ts_inv"
    unfolding inplace_reset_store_def
    by (auto split: sum.split intro!: hoare_fail hoare_return [of "\<lambda>_. ts_inv"] hoare_bind)
  from hoare_fst [OF this assms] show ?thesis .
qed

lemma step_inv: "ts_step ks cfg bus s s' \<Longrightarrow> ts_inv (fst s) \<Longrightarrow> ts_inv (fst s')"
proof (induction rule: ts_step.induct)
  case (irq s s')
  then show ?case using thread_inv [of s cfg bus] by auto
next
  case (control a ts w buf)
  then show ?case using control_inv [of ts] store_live [of a "ts_algo ts"] by (simp add: ts_inv_def ts_base_def)
qed (simp_all add: prepared_inv enabled_inv disabling_inv unpreparing_inv work_inv reset_inv remove_inv)

interpretation touch: invariant_system ts_start "ts_step ks cfg bus" "\<lambda>s. ts_inv (fst s)"
  for ks and cfg and bus :: "'w hx_bus"
  by unfold_locales (auto intro: start_inv step_inv)

end
