(* ===== verification/Ts_Wake.thy ===== *)
theory Ts_Wake
  imports Ts_Driver
begin

text \<open>
  The wait for the raw producer after a screen-on, and a simulated controller with which the whole
  initialisation succeeds.
\<close>

lemma read_keeps_algo:
  assumes "hx83121a_gaokun_read_event_stack bus s = (s', r)"
  shows "ts_algo (fst s') = ts_algo (fst s) \<and> slots (fst s') = slots (fst s)
    \<and> frame_errors (fst s') = frame_errors (fst s) \<and> noise_frames (fst s') = noise_frames (fst s)"
proof -
  let ?P = "\<lambda>ts. ts_algo ts = ts_algo (fst s) \<and> slots ts = slots (fst s)
    \<and> frame_errors ts = frame_errors (fst s) \<and> noise_frames ts = noise_frames (fst s)"
  have "hoare ?P (hx83121a_gaokun_read_event_stack bus) (\<lambda>_. ?P) ?P"
    unfolding hx83121a_gaokun_read_event_stack_def by (rule hoare_chunks) simp
  from hoare_fst [OF this, of s] show ?thesis using assms by simp
qed

section \<open>What the wait feeds to the qualifier\<close>

text \<open>A frame the wait may use: a valid master frame without the retry flag.\<close>

definition master_frame :: "int list \<times> hx_finger_state \<Rightarrow> bool" where
  "master_frame f \<longleftrightarrow> (\<exists>buf status. hx_parse_master_frame_status buf = Some status \<and> \<not> retry status
     \<and> f = (event_matrix buf, frame_finger status))"

lemma wake_run_append: "wake_run a (xs @ [(raw, fs)]) = wake_run (fst (hx_algo_qualify_wake_frame a raw fs)) xs"
  by (simp add: wake_run_def)

definition qualified_by :: "hx_algo \<Rightarrow> nat \<Rightarrow> hx_algo \<Rightarrow> bool" where
  "qualified_by a n b \<longleftrightarrow> (\<exists>frames. b = wake_run a frames \<and> length frames \<le> n \<and> list_all master_frame frames)"

lemma qualified_0: "qualified_by a n a"
  unfolding qualified_by_def by (rule exI [of _ "[]"]) simp

lemma qualified_Suc:
  assumes "qualified_by (fst (hx_algo_qualify_wake_frame a raw fs)) n b" "master_frame (raw, fs)"
  shows "qualified_by a (Suc n) b"
proof -
  obtain frames where "b = wake_run (fst (hx_algo_qualify_wake_frame a raw fs)) frames" "length frames \<le> n"
    "list_all master_frame frames" using assms(1) by (auto simp: qualified_by_def)
  then show ?thesis
    unfolding qualified_by_def using assms(2) by (intro exI [of _ "frames @ [(raw, fs)]"]) (simp add: wake_run_append)
qed

lemma qualified_mono: "qualified_by a n b \<Longrightarrow> qualified_by a (Suc n) b"
  unfolding qualified_by_def using le_SucI by blast

lemma stable_qualified:
  "stable_attempts n bus prev ret s = (s', r) \<Longrightarrow> qualified_by (ts_algo (fst s)) n (ts_algo (fst s'))"
proof (induction n arbitrary: prev ret s)
  case 0
  then show ?case by (auto simp: qualified_0 split: if_splits)
next
  case (Suc n)
  obtain ts w q where read: "hx83121a_gaokun_read_event_stack bus s = ((ts, w), q)" by (metis prod.exhaust)
  have keep: "ts_algo ts = ts_algo (fst s)" using read_keeps_algo [OF read] by simp
  show ?case
  proof (cases q)
    case (Inl e)
    then show ?thesis using Suc.prems Suc.IH read keep qualified_mono by (fastforce simp: io_try_def)
  next
    case (Inr x)
    show ?thesis
    proof (cases "hx_parse_master_frame_status (event_buf ts)")
      case None
      then show ?thesis using Suc.prems Suc.IH read keep qualified_mono Inr by (fastforce simp: io_try_def reading_def)
    next
      case (Some status)
      obtain a quality where aq: "hx_algo_qualify_wake_frame (ts_algo ts) (event_matrix (event_buf ts)) (frame_finger status)
          = (a, quality)" by fastforce
      show ?thesis
      proof (cases "retry status \<or> prev = Some (frame_hash (event_buf ts))")
        case True
        then obtain p e where "stable_attempts n bus p e (ts, w) = (s', r)"
          using Suc.prems read Inr Some by (auto simp: io_try_def reading_def split: if_splits)
        from Suc.IH [OF this] show ?thesis using keep qualified_mono by simp
      next
        case False
        then have "qualified_by a n (ts_algo (fst s'))"
          using Suc.prems Suc.IH [of _ _ "(ts\<lparr>ts_algo := a\<rparr>, w)"] read Inr Some aq qualified_0
          by (auto simp: io_try_def reading_def io_bind_def upd_def Let_def io_return_def split: if_splits)
        moreover have "master_frame (event_matrix (event_buf ts), frame_finger status)"
          using Some False by (auto simp: master_frame_def)
        ultimately show ?thesis using qualified_Suc aq keep by (metis fst_conv)
      qed
    qed
  qed
qed

text \<open>During the wait for the producer the algorithm sees nothing but frames: what it leaves of the
  algorithm state is the qualifier's own run over at most 30 frames, each a valid master frame that is
  not to be retried; read errors, shifted, retried and repeated frames leave no trace.\<close>

theorem wake_wait_is_a_qualifier_run:
  assumes "himax_wait_for_stable_event_frames bus s = (s', r)"
  shows "\<exists>frames. ts_algo (fst s') = wake_run (ts_algo (fst s)) frames \<and> length frames \<le> 30
    \<and> list_all master_frame frames"
  using stable_qualified [OF assms [unfolded himax_wait_for_stable_event_frames_def]]
  by (simp add: qualified_by_def HIMAX_RESUME_QUALITY_ATTEMPTS_def)

section \<open>A producer that is stuck\<close>

text \<open>The same image in every read.\<close>

definition stuck_producer :: "'w hx_bus \<Rightarrow> byte list \<Rightarrow> 'w \<Rightarrow> bool" where
  "stuck_producer bus buf w \<longleftrightarrow>
     length buf = HIMAX_FULL_EVENT_STACK_SIZE \<and> (\<forall>ts. length (event_buf ts) = HIMAX_FULL_EVENT_STACK_SIZE \<longrightarrow>
       hx83121a_gaokun_read_event_stack bus (ts, w) = ((ts\<lparr>event_buf := buf\<rparr>, w), Inr ()))"

lemma stale_loop:
  assumes "stuck_producer bus buf w" "hx_parse_master_frame_status buf = Some status" "\<not> retry status"
    "length (event_buf ts) = HIMAX_FULL_EVENT_STACK_SIZE"
  shows "stable_attempts (Suc n) bus (Some (frame_hash buf)) ret (ts, w) = ((ts\<lparr>event_buf := buf\<rparr>, w), Inr ())"
  using assms(4)
proof (induction n arbitrary: ret ts)
  case 0
  then show ?case using assms(1-3) by (simp add: stuck_producer_def io_try_def reading_def io_return_def)
next
  case (Suc n)
  show ?case
    by (subst stable_attempts.simps) (use assms(1-3) Suc.IH Suc.prems in \<open>simp add: stuck_producer_def io_try_def reading_def\<close>)
qed

lemma stale_wait:
  assumes "stuck_producer bus buf w" "hx_parse_master_frame_status buf = Some status" "\<not> retry status"
    "hx_algo_qualify_wake_frame (ts_algo ts) (event_matrix buf) (frame_finger status) = (a, HX_WAKE_QUALITY_PENDING)"
    "length (event_buf ts) = HIMAX_FULL_EVENT_STACK_SIZE"
  shows "himax_wait_for_stable_event_frames bus (ts, w) = ((ts\<lparr>event_buf := buf, ts_algo := a\<rparr>, w), Inr ())"
proof -
  have n: "HIMAX_RESUME_QUALITY_ATTEMPTS = Suc (Suc 28)" by (simp add: HIMAX_RESUME_QUALITY_ATTEMPTS_def)
  show ?thesis
    unfolding himax_wait_for_stable_event_frames_def n
    by (subst stable_attempts.simps)
      (use assms stale_loop [OF assms(1-3), of "ts\<lparr>event_buf := buf, ts_algo := a\<rparr>" 28 0] in \<open>simp add: stuck_producer_def io_try_def reading_def io_bind_def upd_def\<close>)
qed

text \<open>C33: The wait can succeed without a qualified frame: when the producer is stuck, every read giving the
  same valid image, and the qualifier finds the first one pending, the wait ends with success after its
  last attempt although the algorithm is still qualifying.\<close>

theorem stuck_producer_passes_wait:
  assumes "stuck_producer bus buf w" "hx_parse_master_frame_status buf = Some status" "\<not> retry status"
    "hx_algo_qualify_wake_frame (ts_algo ts) (event_matrix buf) (frame_finger status) = (a, HX_WAKE_QUALITY_PENDING)"
    "length (event_buf ts) = HIMAX_FULL_EVENT_STACK_SIZE" "wake_qualifying (ts_algo ts)"
  shows "\<exists>ts'. himax_wait_for_stable_event_frames bus (ts, w) = ((ts', w), Inr ()) \<and> wake_qualifying (ts_algo ts')"
proof -
  have "wake_qualifying a" using qualify_pending [OF assms(4,6)] by blast
  then show ?thesis using stale_wait [OF assms(1-5)] by simp
qed

section \<open>A simulated controller\<close>

text \<open>
  Its state: the register the next data read refers to, and whether the firmware is in safe mode (a
  password write enters it, a reset leaves it).  All registers hold what a freshly started controller
  holds, and the event stack always delivers the image of a quiet panel.
\<close>

definition ic_image :: "byte list" where
  "ic_image = frame_image quiet_raw False 0xffff 0xffff @ replicate 72 0"

definition ic_register :: "int \<Rightarrow> bool \<Rightarrow> int" where
  "ic_register reg safe =
     (if reg = 0x900000a8 then (if safe then 0x0c else 0x05) else if reg = 0x900000d0 then 0x83121a00
      else if reg = 0x100072c0 then 0x72c0 else if reg = 0x10007294 then 1 else if reg = 0x100072ec then 0xf6 else 0)"

definition ic_answer :: "int \<times> bool \<Rightarrow> byte \<Rightarrow> nat \<Rightarrow> byte list" where
  "ic_answer w cmd len =
     (if cmd = 0x13 then [0x31] else if cmd = 0x0d then [0x10]
      else if cmd = 0x08 then le32_bytes (ic_register (fst w) (snd w))
      else if len = 5129 then take 5129 ic_image else drop 5129 ic_image)"

definition ic_bus :: "(int \<times> bool) hx_bus" where
  "ic_bus = \<lparr>
     spi_sync = (\<lambda>w buf.
       if buf ! 0 = 0xf3 then (w, 0, [0xf3, buf ! 1, 0] @ ic_answer w (buf ! 1) (length buf - 3))
       else if buf ! 1 = 0x00 then ((le32 (take 4 (drop 2 buf)), snd w), 0, buf)
       else if buf ! 1 = 0x31 then ((fst w, True), 0, buf) else (w, 0, buf)),
     reset_pin = (\<lambda>_ w. (fst w, False)),
     is_system_supplied = (\<lambda>w. (w, -1))\<rparr>"

lemma ic_read: "himax_spi_read ic_bus cmd len w = (w, Inr (take len (ic_answer w cmd len)))"
  by (simp add: himax_spi_read_def HIMAX_BUS_RETRY_def numeral_3_eq_3 io_bind_def ic_bus_def io_return_def)

lemma ic_burst: "himax_mcu_set_burst_mode ic_bus b w = (w, Inr ())"
  by (simp add: himax_mcu_set_burst_mode_def himax_write_def himax_spi_write_def io_bind_def ic_bus_def
      HIMAX_AHB_ADDR_CONTI_def HIMAX_AHB_ADDR_INCR4_def)

lemma ic_addr: "0 \<le> addr \<Longrightarrow> addr < 2 ^ 32 \<Longrightarrow>
    himax_write ic_bus HIMAX_AHB_ADDR_BYTE_0 (le32_bytes addr) data (4 + length data) w = ((addr, snd w), Inr ())"
proof -
  assume "0 \<le> addr" "addr < 2 ^ 32"
  moreover have "take 4 (drop 2 (take (Suc (Suc (4 + length data))) (a # b # le32_bytes addr @ c))) = le32_bytes addr" for a b c
    by (simp only: take_Suc_Cons numeral_2_eq_2 drop_Suc_Cons drop_0) simp
  ultimately show ?thesis
    by (simp add: himax_write_def himax_spi_write_def ic_bus_def HIMAX_AHB_ADDR_BYTE_0_def le32_le32_bytes)
qed

lemma ic_register_read: "0 \<le> addr \<Longrightarrow> addr < 2 ^ 32 \<Longrightarrow>
    himax_mcu_register_read ic_bus addr len w = ((addr, snd w), Inr (take len (le32_bytes (ic_register addr (snd w)))))"
  using ic_addr [of addr "[]" w]
  by (simp add: himax_mcu_register_read_def io_bind_def ic_burst ic_read ic_answer_def HIMAX_AHB_ADDR_RDATA_BYTE_0_def)
    (simp add: himax_write_def himax_spi_write_def ic_bus_def HIMAX_AHB_ADDR_ACCESS_DIRECTION_def io_return_def)

lemma ic_register_write: "0 \<le> addr \<Longrightarrow> addr < 2 ^ 32 \<Longrightarrow>
    himax_mcu_register_write ic_bus addr buf w = ((addr, snd w), Inr ())"
  using ic_addr [of addr buf w]
  by (simp add: himax_mcu_register_write_def io_bind_def io_try_def ic_burst HIMAX_REG_SZ_def add.commute)

lemma ic_interface: "himax_mcu_interface_on ic_bus w = (w, Inr ())"
proof -
  have "burst_attempts n ic_bus w = (w, Inr ())" if "n = Suc 9" for n
    unfolding that burst_attempts.simps by (simp add: io_bind_def ic_burst ic_read ic_answer_def HIMAX_AHB_ADDR_CONTI_def HIMAX_AHB_ADDR_INCR4_def
        HIMAX_AHB_CMD_CONTI_def HIMAX_AHB_CMD_INCR4_def io_return_def)
  from this [of 10] show ?thesis by (simp add: himax_mcu_interface_on_def io_bind_def io_try_def ic_read io_return_def)
qed

lemma ic_byte0: "le32_bytes v ! 0 = word_of_int v" "take 4 (le32_bytes v) = le32_bytes v"
  by (simp_all add: le32_bytes_def)

lemma ic_detect: "hx83121a_chip_detect ic_bus w = ((0x900000d0, True), Inr ())"
proof -
  have psw: "himax_write ic_bus HIMAX_AHB_ADDR_PSW_LB [] d 2 v = ((fst v, True), Inr ())" for d v
    by (simp add: himax_write_def himax_spi_write_def HIMAX_AHB_ADDR_PSW_LB_def) (simp add: ic_bus_def)
  have "safe_mode_attempts n ic_bus v = ((0x900000a8, True), Inr ())" if "n = Suc 4" for n v
    unfolding that safe_mode_attempts.simps
    by (simp add: io_bind_def psw REG_FW_STATUS_def ic_register_read ic_byte0 FW_STATE_SAFE_MODE_def ic_register_def io_return_def)
  from this [of 5] have off: "himax_sense_off ic_bus False v = ((0x900000a8, True), Inr ())" for v
    by (simp add: himax_sense_off_def)
  have "icid_attempts n ic_bus v = ((0x900000d0, snd v), Inr ())" if "n = Suc 4" for n v
    unfolding that icid_attempts.simps by (simp add: io_bind_def ic_register_read REG_ICID_def ic_byte0 le32_le32_bytes ic_register_def shr_def io_return_def)
  from this [of 5] show ?thesis
    by (simp add: hx83121a_chip_detect_def io_bind_def himax_pin_reset_def ic_interface off)
qed

lemma ic_verify: "0 \<le> addr \<Longrightarrow> addr < 2 ^ 32 \<Longrightarrow> ic_register addr (snd w) = v \<Longrightarrow>
    himax_mcu_write_verify_u32 ic_bus addr v 3 w = ((addr, snd w), Inr ())"
  by (simp add: himax_mcu_write_verify_u32_def numeral_3_eq_3 io_try_def ic_register_write ic_register_read ic_byte0
      io_return_def)

lemma ic_raw_runtime: "himax_restore_raw_runtime ic_bus w = ((0x10000000, snd w), Inr ())"
  by (simp add: himax_restore_raw_runtime_def io_bind_def ic_verify ic_register_def ic_register_write replay_charger_mode_def
      DSRAM_AP_NOTIFY_FW_SUSPEND_def DSRAM_SORTING_MODE_EN_def DSRAM_SET_NFRAME_def DSRAM_RAW_OUT_SEL_def
      DSRAM_RAWDATA_PASSWORD_def) (simp add: ic_bus_def)

lemma ic_poll:
  assumes "0 \<le> addr" "addr < 2 ^ 32" "ready (le32_bytes (ic_register addr (snd w)))"
  shows "poll_register (Suc n) ic_bus addr ready e w = ((addr, snd w), Inr ())"
  using assms by (simp add: io_bind_def ic_register_read ic_byte0 io_return_def)

lemma ic_power_on: "himax_mcu_power_on_init ic_bus w = ((0x10000000, False), Inr ())"
proof -
  have sort: "himax_mcu_assign_sorting_mode ic_bus (le32_bytes 0) v = ((DSRAM_SORTING_MODE_EN, snd v), Inr ())" for v
    by (simp add: himax_mcu_assign_sorting_mode_def numeral_3_eq_3 io_bind_def ic_register_write ic_register_read ic_byte0
        DSRAM_SORTING_MODE_EN_def ic_register_def io_return_def)
  have on: "himax_sense_on ic_bus False v = ((REG_CTRL_FW, False), Inr ())" for v
    by (simp add: himax_sense_on_def io_bind_def ic_interface ic_register_write REG_CTRL_FW_def himax_pin_reset_def)
      (simp add: ic_bus_def)
  have p: "poll_register 30 ic_bus REG_FW_STATUS (\<lambda>data. data ! 0 = FW_STATE_RUNNING) e (a, False) = ((REG_FW_STATUS, False), Inr ())" for a e
    using ic_poll [of REG_FW_STATUS "\<lambda>data. data ! 0 = FW_STATE_RUNNING" "(a, False)" 29 e]
    by (simp add: REG_FW_STATUS_def ic_byte0 ic_register_def FW_STATE_RUNNING_def)
  have q: "poll_register 30 ic_bus DSRAM_2ND_FLASH_RELOAD (\<lambda>data. le32 data = 0x72c0) e (a, False)
      = ((DSRAM_2ND_FLASH_RELOAD, False), Inr ())" for a e
    using ic_poll [of DSRAM_2ND_FLASH_RELOAD "\<lambda>data. le32 data = 0x72c0" "(a, False)" 29 e]
    by (simp add: DSRAM_2ND_FLASH_RELOAD_def ic_register_def le32_le32_bytes)
  show ?thesis
    unfolding himax_mcu_power_on_init_def
    by (simp add: io_bind_def sort on p q ic_register_write DSRAM_SET_NFRAME_def DSRAM_RAW_OUT_SEL_def DSRAM_RAWDATA_PASSWORD_def
        ic_register_write [of DSRAM_2ND_FLASH_RELOAD, unfolded DSRAM_2ND_FLASH_RELOAD_def]
        DSRAM_2ND_FLASH_RELOAD_def [symmetric])
      (simp add: ic_register_write DSRAM_2ND_FLASH_RELOAD_def)
qed

text \<open>The image is a quiet master frame of the full size.\<close>

lemma le16_drop_append: "ofs + 2 \<le> length b \<Longrightarrow> hx_frame_get_le16 (b @ p) ofs = hx_frame_get_le16 b ofs"
proof -
  assume a: "ofs + 2 \<le> length b"
  then have "0 < length b - ofs" "1 < length b - ofs" by arith+
  then show ?thesis using a by (simp add: hx_frame_get_le16_def le16_def nth_append)
qed

lemma quiet_frame_ok: "raw_ok quiet_raw"
  by (simp add: raw_ok_def quiet_raw_def)

lemma ic_image_frame:
  "length ic_image = HIMAX_FULL_EVENT_STACK_SIZE" "event_matrix ic_image = quiet_raw"
  "hx_parse_master_frame_status ic_image = Some \<lparr>has_finger = False, retry = False\<rparr>"
proof -
  define b where "b = frame_image quiet_raw False 0xffff 0xffff"
  have len: "length b = 5060"
    using frame_image_suffix(1) [of quiet_raw False "0xffff" "0xffff"] quiet_frame_ok
    by (simp add: b_def raw_ok_def frame_layout)
  note rt = parse_image [OF quiet_frame_ok, of "0xffff" "0xffff" False, folded b_def]
  show "length ic_image = HIMAX_FULL_EVENT_STACK_SIZE"
    using len by (simp add: ic_image_def b_def [symmetric] stack_layout)
  have "event_matrix (b @ p) = event_matrix b" for p
    using len by (auto simp: event_matrix_def frame_layout intro!: le16_drop_append)
  then show "event_matrix ic_image = quiet_raw" using rt by (simp add: ic_image_def b_def [symmetric])
  have "hx_parse_master_frame_status (b @ p) = hx_parse_master_frame_status b" for p
    using len by (simp add: hx_parse_master_frame_status_def frame_layout le16_drop_append nth_append)
  then show "hx_parse_master_frame_status ic_image = Some \<lparr>has_finger = False, retry = False\<rparr>"
    using rt by (simp add: ic_image_def b_def [symmetric])
qed

lemma ic_stuck: "stuck_producer ic_bus ic_image w"
  unfolding stuck_producer_def
proof (intro conjI allI impI)
  show "length ic_image = HIMAX_FULL_EVENT_STACK_SIZE" by (rule ic_image_frame)
  fix ts :: himax_ts assume ts: "length (event_buf ts) = HIMAX_FULL_EVENT_STACK_SIZE"
  have a: "ic_answer v 0x30 5129 = take 5129 ic_image" "ic_answer v 0x30 3 = drop 5129 ic_image" for v
    by (simp_all add: ic_answer_def)
  have l: "length ic_image = 5132" "length (event_buf ts) = 5132" using ic_image_frame(1) ts by (simp_all add: stack_layout)
  have first: "read_chunks ic_bus 0 (ts, w) = read_chunks ic_bus 5129 (ts\<lparr>event_buf := store_at 0 (take 5129 ic_image) (event_buf ts)\<rparr>, w)"
    by (subst read_chunks.simps)
      (simp add: stack_layout io_bind_def on_bus_def ic_read HIMAX_EVENT_STACK_ADDRESS_def a upd_def l)
  have second: "read_chunks ic_bus 5129 (t, w) = ((t\<lparr>event_buf := store_at 5129 (drop 5129 ic_image) (event_buf t)\<rparr>, w), Inr ())" for t
    unfolding read_chunks.simps [of ic_bus 5129] read_chunks.simps [of ic_bus "5129 + max_trunk_sz"]
    by (simp add: stack_layout io_bind_def on_bus_def ic_read HIMAX_EVENT_STACK_ADDRESS_def a upd_def l io_return_def)
  have "store_at 5129 (drop 5129 ic_image) (store_at 0 (take 5129 ic_image) (event_buf ts)) = ic_image"
    using l by (simp add: store_at_def)
  then show "hx83121a_gaokun_read_event_stack ic_bus (ts, w) = ((ts\<lparr>event_buf := ic_image\<rparr>, w), Inr ())"
    by (simp add: hx83121a_gaokun_read_event_stack_def first second)
qed

lemma ic_first_frame:
  assumes "wake_qualifying a" "\<not> wake_candidate_valid a" "pre a = default_pre"
  shows "\<exists>b. hx_algo_qualify_wake_frame a (event_matrix ic_image) HX_FINGER_ABSENT = (b, HX_WAKE_QUALITY_PENDING)"
proof -
  have "wake_out_of_range quiet_raw = 0"
    by (auto simp: wake_out_of_range_def quiet_raw_def filter_empty_conv)
  then show ?thesis
    using assms by (simp add: hx_algo_qualify_wake_frame_def ic_image_frame default_pre_def)
qed

lemma ic_wait:
  assumes "wake_qualifying (ts_algo ts)" "\<not> wake_candidate_valid (ts_algo ts)" "pre (ts_algo ts) = default_pre"
    "length (event_buf ts) = HIMAX_FULL_EVENT_STACK_SIZE"
  shows "\<exists>s. himax_wait_for_stable_event_frames ic_bus (ts, w) = (s, Inr ()) \<and> wake_qualifying (ts_algo (fst s))"
proof -
  obtain b where "hx_algo_qualify_wake_frame (ts_algo ts) (event_matrix ic_image) (frame_finger \<lparr>has_finger = False, retry = False\<rparr>)
      = (b, HX_WAKE_QUALITY_PENDING)"
    using ic_first_frame [OF assms(1-3)] by (auto simp: frame_finger_def)
  from stale_wait [OF ic_stuck ic_image_frame(3) _ this assms(4)] qualify_pending [OF this assms(1)]
  show ?thesis by simp
qed

lemma begin_wake_state:
  "wake_qualifying (ts_algo (begin_wake cfg ts))" "\<not> wake_candidate_valid (ts_algo (begin_wake cfg ts))"
  "pre (ts_algo (begin_wake cfg ts)) = pre (ts_algo ts)" "event_buf (begin_wake cfg ts) = event_buf ts"
  by (simp_all add: begin_wake_def Let_def hx_algo_begin_wake_def himax_release_all_touches_def
      hx_algo_clear_live_state_def hx_algo_clear_transient_state_def)

lemma io_bind_ok: "m s = (s1, Inr x) \<Longrightarrow> io_bind m f s = f x s1"
  by (simp add: io_bind_def)

lemma ic_afe: "\<exists>n v. restore_afe cfg ic_bus (ts, w) = ((ts\<lparr>afe_command_slot := n\<rparr>, v), Inr ())"
proof -
  have addr: "0 \<le> afe_slot_addr k" "afe_slot_addr k < 2 ^ 32" for k
  proof -
    have "k mod 5 < 5" by simp
    then have "int (k mod 5) * 16 \<le> 64" by linarith
    then show "0 \<le> afe_slot_addr k" "afe_slot_addr k < 2 ^ 32"
      by (simp_all add: afe_slot_addr_def AFE_CMD_SLOT_BASE_def AFE_CMD_SLOT_STRIDE_def AFE_CMD_SLOT_COUNT_def)
  qed
  have "ts = ts\<lparr>afe_command_slot := afe_command_slot ts\<rparr>" by simp
  then have "\<exists>n. ts = ts\<lparr>afe_command_slot := n\<rparr>" by (rule exI)
  then show ?thesis
    using addr [of "afe_command_slot ts"]
    by (auto simp: restore_afe_def reading_def io_try_def on_bus_def himax_restore_afe_runtime_def io_return_def upd_def
        himax_afe_send_command_def Let_def io_bind_def ic_register_write ic_register_read)
qed

lemma ic_reinit:
  assumes "pre (ts_algo ts) = default_pre" "length (event_buf ts) = HIMAX_FULL_EVENT_STACK_SIZE"
  shows "\<exists>s. himax_hw_reinit cfg ic_bus False (ts, w) = (s, Inr ()) \<and> wake_qualifying (ts_algo (fst s))"
proof -
  define u where "u = begin_wake cfg (ts\<lparr>controller_initialized := False, retained_suspend := False\<rparr>)"
  have u: "wake_qualifying (ts_algo u)" "\<not> wake_candidate_valid (ts_algo u)" "pre (ts_algo u) = default_pre"
    "length (event_buf u) = HIMAX_FULL_EVENT_STACK_SIZE"
    using assms by (simp_all add: u_def begin_wake_state)
  have reload: "on_bus (himax_enable_fw_reload ic_bus) (t, v) = ((t, (0x10007f00, snd v)), Inr ())" for t v
    by (simp add: on_bus_def himax_enable_fw_reload_def DSRAM_FLASH_RELOAD_def ic_register_write)
  obtain n v where afe: "restore_afe cfg ic_bus (u, (0x10000000, False)) = ((u\<lparr>afe_command_slot := n\<rparr>, v), Inr ())"
    using ic_afe by blast
  obtain t w1 where wait: "himax_wait_for_stable_event_frames ic_bus (u\<lparr>afe_command_slot := n\<rparr>, (0x10000000, snd v)) = ((t, w1), Inr ())"
    "wake_qualifying (ts_algo t)"
    using ic_wait [of "u\<lparr>afe_command_slot := n\<rparr>" "(0x10000000, snd v)"] u by auto
  have "himax_hw_reinit cfg ic_bus False (ts, w) = ((himax_int_enable True (t\<lparr>controller_initialized := True\<rparr>), w1), Inr ())"
    unfolding himax_hw_reinit_def
    by (simp add: io_bind_ok [of "upd f" "(x, y)" "(f x, y)" "()" for f x y] upd_def u_def [symmetric] io_bind_def
        on_bus_def ic_detect ic_power_on ic_raw_runtime afe wait(1) reload [unfolded on_bus_def, simplified] io_return_def)
  then show ?thesis using wait(2) by simp
qed

section \<open>A run with the simulated controller\<close>

definition sample_cfg :: hx_config where
  "sample_cfg = \<lparr>full_resume_on_panel_enable = True, restore_afe_runtime = True, disable_pressure = True,
     int_sqrt = (\<lambda>n. 0), touch_pos = (\<lambda>x y. (x, y))\<rparr>"

definition panel_on :: himax_ts where
  "panel_on = himax_panel_enabled (himax_panel_prepared probed)"

definition sample_run :: "himax_ts \<times> int \<times> bool" where
  "sample_run = himax_panel_reinit_work sample_cfg ic_bus (panel_on, (0, False))"

lemma panel_on_state:
  "panel_on = probed\<lparr>panel_prepared := True, panel_enabled := True, reinit_pending := True\<rparr>"
  by (simp add: panel_on_def himax_panel_enabled_def himax_panel_prepared_def himax_lock_def himax_int_enable_def
      Let_def probed_def)

lemma panel_on_reachable: "reachable ts_start (ts_step sample_kstr sample_cfg ic_bus) (panel_on, (0, False))"
proof -
  let ?R = "reachable ts_start (ts_step sample_kstr sample_cfg ic_bus)"
  have "?R (probed, (0, False))" by (rule reachable.init) (simp add: ts_start_def)
  then have "?R (himax_panel_prepared probed, (0, False))" by (rule reachable.more) (rule ts_step.prepared)
  then show ?thesis unfolding panel_on_def by (rule reachable.more) (rule ts_step.enabled)
qed

lemma sample_run_reachable: "reachable ts_start (ts_step sample_kstr sample_cfg ic_bus) sample_run"
  unfolding sample_run_def
  by (rule reachable.more [OF panel_on_reachable]) (rule ts_step.work, simp add: panel_on_state)

lemma sample_run_state: "irq_enabled (fst sample_run) \<and> wake_qualifying (ts_algo (fst sample_run))"
proof -
  define u where "u = himax_lock (panel_on\<lparr>reinit_pending := False\<rparr>)"
  have pre: "pre (ts_algo u) = default_pre" "length (event_buf u) = HIMAX_FULL_EVENT_STACK_SIZE"
    by (simp_all add: u_def himax_lock_def himax_int_enable_def panel_on_state probed_def new_algo_def
        hx_algo_full_reset_def hx_algo_init_defaults_def)
  obtain s where s: "himax_hw_reinit sample_cfg ic_bus False (u, (0, False)) = (s, Inr ())" "wake_qualifying (ts_algo (fst s))"
    using ic_reinit [OF pre] by blast
  have full: "full_reinit sample_cfg ic_bus (u, (0, False)) = (s, Inr ())"
    by (simp add: full_reinit_def HIMAX_PANEL_REINIT_RETRIES_def numeral_3_eq_3 io_try_def s(1) io_return_def)
  have "ts_inv panel_on" using touch.reachable_inv [OF panel_on_reachable] by simp
  then have "stopped (panel_flags u) u"
    by (simp add: ts_inv_def stopped_def u_def)
  from hoareD [OF hoare_full, of "panel_flags u" "(u, (0, False))" sample_cfg ic_bus] this
  have "irq_enabled (fst s)" by (simp add: full running_def)
  moreover have "sample_run = s"
    using full
    by (simp add: sample_run_def himax_panel_reinit_work_def u_def [symmetric] Let_def io_try_def io_return_def sample_cfg_def)
      (simp add: u_def himax_lock_def himax_int_enable_def panel_on_state probed_def)
  ultimately show ?thesis using s(2) by simp
qed

lemma sample_read: "hx83121a_gaokun_read_event_stack ic_bus sample_run = (((fst sample_run)\<lparr>event_buf := ic_image\<rparr>, snd sample_run), Inr ())"
proof -
  have "length (event_buf (fst sample_run)) = HIMAX_FULL_EVENT_STACK_SIZE"
    using touch.reachable_inv [OF sample_run_reachable] by (simp add: ts_inv_def ts_base_def)
  then have "hx83121a_gaokun_read_event_stack ic_bus (fst sample_run, snd sample_run)
      = (((fst sample_run)\<lparr>event_buf := ic_image\<rparr>, snd sample_run), Inr ())"
    using ic_stuck [of "snd sample_run"] unfolding stuck_producer_def by blast
  then show ?thesis unfolding prod.collapse .
qed

theorem wake_wait_is_a_qualifier_run_witness:
  "\<exists>frames. ts_algo (fst (fst (himax_wait_for_stable_event_frames ic_bus (begin_wake sample_cfg probed, (0, False)))))
     = wake_run (ts_algo (begin_wake sample_cfg probed)) frames \<and> length frames \<le> 30 \<and> list_all master_frame frames"
  using wake_wait_is_a_qualifier_run [of ic_bus "(begin_wake sample_cfg probed, (0, False))", OF prod.collapse [symmetric]]
  by simp

theorem stuck_producer_passes_wait_witness:
  "\<exists>ts'. himax_wait_for_stable_event_frames ic_bus (begin_wake sample_cfg probed, (0, False)) = ((ts', (0, False)), Inr ())
     \<and> wake_qualifying (ts_algo ts')"
proof -
  have p: "pre (ts_algo probed) = default_pre" "length (event_buf probed) = HIMAX_FULL_EVENT_STACK_SIZE"
    by (simp_all add: probed_def new_algo_def hx_algo_full_reset_def hx_algo_init_defaults_def)
  obtain b where b: "hx_algo_qualify_wake_frame (ts_algo (begin_wake sample_cfg probed)) (event_matrix ic_image) HX_FINGER_ABSENT
      = (b, HX_WAKE_QUALITY_PENDING)"
    using ic_first_frame [of "ts_algo (begin_wake sample_cfg probed)"] p by (auto simp: begin_wake_state)
  show ?thesis
    by (rule stuck_producer_passes_wait [OF ic_stuck ic_image_frame(3)])
      (use b p in \<open>auto simp: frame_finger_def begin_wake_state\<close>)
qed

end
