(* ===== verification/Ts_Life.thy ===== *)
theory Ts_Life
  imports Ts_Wake
begin

text \<open>
  What holds in every run of the touch driver, from the invariant of \<open>Ts_Driver\<close>; the witnesses are
  runs of the driver with the simulated controller of \<open>Ts_Wake\<close>.
\<close>

section \<open>Properties of every run\<close>

text \<open>C3: In every reachable state the interrupt is enabled only while the panel is prepared and enabled, the
  controller is initialised and the driver is not shutting down; a retained state is that of an
  initialised controller; the work is pending only for an enabled panel; and the error and noise
  counters are below the limits at which the thread recovers.\<close>

theorem touch_driver_invariant:
  assumes "reachable ts_start (ts_step ks cfg bus) s"
  shows "(irq_enabled (fst s) \<longrightarrow> controller_initialized (fst s) \<and> panel_prepared (fst s) \<and> panel_enabled (fst s)
      \<and> \<not> shutting_down (fst s) \<and> \<not> retained_suspend (fst s))
    \<and> (retained_suspend (fst s) \<longrightarrow> controller_initialized (fst s))
    \<and> (reinit_pending (fst s) \<longrightarrow> panel_enabled (fst s))
    \<and> frame_errors (fst s) < HIMAX_MAX_CONSECUTIVE_FRAME_ERRORS
    \<and> noise_frames (fst s) < HIMAX_MAX_CONSECUTIVE_NOISE_FRAMES
    \<and> live_ok (ts_algo (fst s))"
  using touch.reachable_inv [OF assms] by (auto simp: ts_inv_def ts_base_def)

text \<open>C4: No finger is left down: in every reachable state either no slot is reported as touched, or the panel
  is prepared and enabled, the controller is initialised and the driver is not shutting down.\<close>

theorem no_touch_without_panel:
  assumes "reachable ts_start (ts_step ks cfg bus) s"
  shows "list_all (\<lambda>sl. \<not> slot_on sl) (slots (fst s))
    \<or> panel_prepared (fst s) \<and> panel_enabled (fst s) \<and> controller_initialized (fst s) \<and> \<not> shutting_down (fst s)"
  using touch.reachable_inv [OF assms] by (auto simp: ts_inv_def quiet_def list_all_iff)

text \<open>C6: Every interrupt is answered: in every reachable state with the interrupt enabled the thread comes to
  an end, whatever the bus delivers, and the state it leaves is again one of the invariant.\<close>

theorem interrupt_always_answered:
  assumes "reachable ts_start (ts_step ks cfg bus) s" "irq_enabled (fst s)"
  shows "\<exists>s'. himax_ts_thread cfg bus s = Some s' \<and> ts_inv (fst s')"
  by (rule thread_inv [OF touch.reachable_inv [OF assms(1)] assms(2)])

text \<open>What a frame the algorithm gets to see is: read completely, a valid master frame, not to be retried,
  and no electrical noise.\<close>

definition accepted_frame :: "hx_algo \<Rightarrow> byte list \<Rightarrow> hx_frame_status \<Rightarrow> bool" where
  "accepted_frame algo buf status \<longleftrightarrow> hx_parse_master_frame_status buf = Some status \<and> \<not> retry status
     \<and> \<not> hx_algo_is_exception_frame algo (event_matrix buf)"


text \<open>C7: The slots are the tracks: after an accepted frame the slots in use are exactly the active and
  reported tracks of the new algorithm state, each in the slot of its index.\<close>

theorem slots_show_tracks:
  assumes "reachable ts_start (ts_step ks cfg bus) s" "irq_enabled (fst s)"
    "hx83121a_gaokun_read_event_stack bus s = (s1, Inr ())"
    "accepted_frame (ts_algo (fst s)) (event_buf (fst s1)) status"
    "himax_ts_thread cfg bus s = Some s'"
  shows "map slot_on (slots (fst s')) = map (\<lambda>t. trk_active t \<and> trk_reported t) (tracks (ts_algo (fst s')))"
proof -
  obtain ts w where s1: "s1 = (ts, w)" by (cases s1)
  define t where "t = ts\<lparr>frame_errors := 0\<rparr>"
  have a: "active (reinit_pending (fst s)) (fst s)" using inv_active touch.reachable_inv [OF assms(1)] assms(2) by blast
  have "active (reinit_pending (fst s)) ts" using hoareD [OF hoare_read_active a, of bus] assms(3) s1 by simp
  then have at: "active (reinit_pending (fst s)) t"
    unfolding t_def by (rule active_upd(2)) (simp_all add: HIMAX_MAX_CONSECUTIVE_FRAME_ERRORS_def)
  have alg: "ts_algo ts = ts_algo (fst s)" using read_keeps_algo [OF assms(3)] s1 by simp
  then obtain u where u: "good_frame cfg status t = Some u" "s' = (u, w)"
    using assms(3,4,5) s1 by (auto simp: himax_ts_thread_def accepted_frame_def Let_def t_def)
  obtain b n where b: "hx_algo_process_frame_state (ts_algo t) (event_matrix (event_buf t)) (frame_finger status) = Some (b, n)"
    "live_ok b" "n = hx_count_stable_tracks b"
    using live_process [OF _ event_matrix_ok, of "ts_algo t" "event_buf t" "frame_finger status"] at
    by (auto simp: active_def ts_base_def)
  let ?v = "t\<lparr>noise_frames := 0, ts_algo := b\<rparr>"
  have uv: "u = himax_report_tracked_state cfg (n > 0) ?v" using u(1) b(1) by (simp add: good_frame_def)
  have "ts_base ?v"
    using active_upd(4) [OF active_upd(3) [OF at, of 0] b(2)]
    by (simp add: active_def HIMAX_MAX_CONSECUTIVE_NOISE_FRAMES_def)
  from slots_report [OF this, of cfg "n > 0"]
  have "map slot_on (slots u) = map (\<lambda>t. n > 0 \<and> trk_active t \<and> trk_reported t) (tracks b)"
    by (simp add: uv)
  moreover have "n > 0 \<longleftrightarrow> (\<exists>t\<in>set (tracks b). trk_active t \<and> trk_reported t)"
    by (auto simp: b(3) hx_count_stable_tracks_def filter_empty_conv)
  ultimately show ?thesis by (auto simp: u(2) uv)
qed

section \<open>Failed and successful initialisation, removal\<close>

text \<open>C31: The full initialisation, from any sound state with the interrupt off: when it gives an error the
  interrupt is still off, the controller counts as not initialised and no slot is touched; when it
  succeeds the interrupt is on, the controller is initialised and no slot is touched.  The panel's
  flags do not change.\<close>

theorem full_reinit_outcome:
  assumes "ts_base ts" "\<not> irq_enabled ts"
  shows "case full_reinit cfg bus (ts, w) of
      ((ts', w'), Inl e) \<Rightarrow> \<not> irq_enabled ts' \<and> \<not> controller_initialized ts' \<and> quiet ts' \<and> panel_flags ts' = panel_flags ts
    | ((ts', w'), Inr _) \<Rightarrow> irq_enabled ts' \<and> controller_initialized ts' \<and> quiet ts' \<and> panel_flags ts' = panel_flags ts"
proof -
  have "stopped (panel_flags ts) ts" using assms by (simp add: stopped_def)
  from hoareD [OF hoare_full, of "panel_flags ts" "(ts, w)" cfg bus] this
  show ?thesis by (auto simp: outcome_def dormant_def running_def split: prod.splits sum.splits)
qed

lemma gone_step:
  assumes "ts_step ks cfg bus s s'" "ts_inv (fst s) \<and> shutting_down (fst s)"
  shows "ts_inv (fst s') \<and> shutting_down (fst s')"
proof -
  have "shutting_down (fst s')"
    using assms
  proof (induction rule: ts_step.induct)
    case (work s)
    then show ?case by (cases s) (simp add: himax_panel_reinit_work_def Let_def)
  next
    case (irq s s')
    then show ?case by (auto simp: ts_inv_def)
  next
    case (reset s buf)
    then show ?case
      by (cases s) (auto simp: inplace_reset_store_def himax_manual_reset_def io_bind_def upd_def reading_def io_fail_def
          io_return_def split: sum.split)
  next
    case (remove s)
    then show ?case by (cases s) (simp add: himax_spi_remove_def himax_power_down_def Let_def)
  qed (simp_all add: himax_panel_prepared_def himax_panel_enabled_def himax_panel_disabling_def
      himax_panel_unpreparing_def himax_retain_for_suspend_def Let_def)
  then show ?thesis using assms step_inv by blast
qed

text \<open>C32: Removal is final: whatever comes after it, callbacks of the panel, writes to sysfs, a work or an
  interrupt, the interrupt stays off, the controller is not initialised and no slot is touched.\<close>

theorem removal_is_final:
  assumes "reachable ts_start (ts_step ks cfg bus) s" "(ts_step ks cfg bus)\<^sup>*\<^sup>* (himax_spi_remove cfg bus s) s'"
  shows "shutting_down (fst s') \<and> \<not> irq_enabled (fst s') \<and> \<not> controller_initialized (fst s') \<and> quiet (fst s')"
proof -
  have "ts_inv (fst (himax_spi_remove cfg bus s))" using remove_inv touch.reachable_inv [OF assms(1)] by blast
  moreover have "shutting_down (fst (himax_spi_remove cfg bus s))"
    by (cases s) (simp add: himax_spi_remove_def himax_power_down_def Let_def)
  ultimately have "ts_inv (fst (himax_spi_remove cfg bus s)) \<and> shutting_down (fst (himax_spi_remove cfg bus s))" ..
  with assms(2) have "ts_inv (fst s') \<and> shutting_down (fst s')"
    by (induction rule: rtranclp_induct) (auto dest: gone_step)
  then show ?thesis by (auto simp: ts_inv_def)
qed

section \<open>Runs with the simulated controller\<close>

theorem touch_driver_invariant_witness:
  "controller_initialized (fst sample_run) \<and> panel_enabled (fst sample_run) \<and> live_ok (ts_algo (fst sample_run))"
  using touch_driver_invariant [OF sample_run_reachable] sample_run_state by blast

theorem no_touch_without_panel_witness:
  "list_all (\<lambda>sl. \<not> slot_on sl) (slots panel_on) \<or> controller_initialized panel_on"
  using no_touch_without_panel [OF panel_on_reachable] by auto

theorem interrupt_always_answered_witness:
  "\<exists>s'. himax_ts_thread sample_cfg ic_bus sample_run = Some s' \<and> ts_inv (fst s')"
  using interrupt_always_answered [OF sample_run_reachable] sample_run_state by blast

lemma sample_accepted: "accepted_frame (ts_algo (fst sample_run)) ic_image \<lparr>has_finger = False, retry = False\<rparr>"
  using sample_run_state by (simp add: accepted_frame_def ic_image_frame hx_algo_is_exception_frame_def)

definition sample_next :: "himax_ts \<times> int \<times> bool" where
  "sample_next = the (himax_ts_thread sample_cfg ic_bus sample_run)"

lemma sample_next: "himax_ts_thread sample_cfg ic_bus sample_run = Some sample_next"
  using thread_inv [OF touch.reachable_inv [OF sample_run_reachable], of sample_cfg ic_bus] sample_run_state
  by (auto simp: sample_next_def)

theorem slots_show_tracks_witness:
  "map slot_on (slots (fst sample_next)) = map (\<lambda>t. trk_active t \<and> trk_reported t) (tracks (ts_algo (fst sample_next)))"
  by (rule slots_show_tracks [OF sample_run_reachable _ sample_read _ sample_next])
    (use sample_run_state sample_accepted in simp_all)


text \<open>A bus on which every transfer fails.\<close>

definition sample_dead :: "unit hx_bus" where
  "sample_dead = \<lparr>spi_sync = (\<lambda>w buf. (w, - EIO, buf)), reset_pin = (\<lambda>_ w. w), is_system_supplied = (\<lambda>w. (w, 0))\<rparr>"

theorem full_reinit_outcome_witness:
  "case full_reinit sample_cfg sample_dead (probed, ()) of
      ((ts', w'), Inl e) \<Rightarrow> \<not> irq_enabled ts' \<and> \<not> controller_initialized ts' \<and> quiet ts' \<and> panel_flags ts' = panel_flags probed
    | ((ts', w'), Inr _) \<Rightarrow> irq_enabled ts' \<and> controller_initialized ts' \<and> quiet ts' \<and> panel_flags ts' = panel_flags probed"
  by (rule full_reinit_outcome) (use start_inv [of "(probed, ())"] in \<open>simp_all add: ts_start_def ts_inv_def probed_def\<close>)

theorem removal_is_final_witness:
  "shutting_down (fst (himax_spi_remove sample_cfg ic_bus sample_run)) \<and> \<not> irq_enabled (fst (himax_spi_remove sample_cfg ic_bus sample_run))"
  using removal_is_final [OF sample_run_reachable rtranclp.rtrancl_refl] by blast

end
