(* ===== verification/Ts_Probe.thy ===== *)
theory Ts_Probe
  imports Ts_Driver
begin

text \<open>
  Probing the touch driver (\<open>himax_spi_probe\<close> and \<open>himax_input_dev_config\<close> of \<open>himax-spi-core.c\<close>): the
  kernel calls in their order, each with a return code or a null pointer as its outcome, and the sysfs
  files left behind on every way out.
\<close>

record probe_calls =
  ts_alloc :: bool
  reset_gpio_err :: bool
  xfer_alloc :: bool
  event_alloc :: bool
  algo_alloc :: bool
  input_alloc :: bool
  mt_slots_ret :: int
  input_register_ret :: int
  irq_ret :: int
  create_file_ret :: int
  add_group_ret :: int
  follower_ret :: int

definition himax_input_dev_config :: "probe_calls \<Rightarrow> int" where
  "himax_input_dev_config k =
     (if \<not> input_alloc k then - ENOMEM else if mt_slots_ret k \<noteq> 0 then mt_slots_ret k else input_register_ret k)"

definition himax_spi_probe :: "probe_calls \<Rightarrow> sysfs_files \<Rightarrow> sysfs_files \<times> (int + himax_ts)" where
  "himax_spi_probe k fs =
     (if \<not> ts_alloc k then (fs, Inl (- ENOMEM))
      else if reset_gpio_err k then (fs, Inl (- EIO))
      else if \<not> xfer_alloc k \<or> \<not> event_alloc k \<or> \<not> algo_alloc k then (fs, Inl (- ENOMEM))
      else if himax_input_dev_config k \<noteq> 0 then (fs, Inl (himax_input_dev_config k))
      else if irq_ret k \<noteq> 0 then (fs, Inl (irq_ret k))
      else
        let (fs, ret) = himax_sysfs_init (create_file_ret k) (add_group_ret k) fs in
        if ret \<noteq> 0 then (fs, Inl ret)
        else if follower_ret k \<noteq> 0 then (himax_sysfs_remove fs, Inl (follower_ret k))
        else (fs, Inr probed))"

text \<open>Probing leaves nothing behind when it fails: it fails exactly when one of its calls fails, with a
  code that is not zero, and then the reset file is not there; when it succeeds both controls are there
  and the driver starts in the initial state of the transition system, with the interrupt off.\<close>

theorem probe_leaves_no_file:
  "case himax_spi_probe k \<lparr>reset_file = False, algo_group = False\<rparr> of
     (fs, Inl e) \<Rightarrow> e \<noteq> 0 \<and> \<not> reset_file fs
   | (fs, Inr ts) \<Rightarrow> reset_file fs \<and> algo_group fs \<and> ts_start (ts, w) \<and> ts_inv ts \<and> \<not> irq_enabled ts
       \<and> himax_input_dev_config k = 0 \<and> follower_ret k = 0"
  using start_inv [of "(probed, w)"]
  by (simp add: himax_spi_probe_def himax_sysfs_init_def himax_sysfs_remove_def Let_def errno_defs ts_start_def)
    (simp add: probed_def)

end
