(* ===== verification/Ts_Trace.thy ===== *)
theory Ts_Trace
  imports Ts_Core Ts_Sysfs
begin

text \<open>
  The diagnostics of the touch driver (\<open>himax-spi-sysfs.c\<close>, \<open>himax-spi.h\<close> under the diagnostics option): the
  counters as text, the last event stack in hexadecimal and raw, and the trace of interrupts, a ring of
  512 records of which a reader gets a snapshot.  The counters are not part of the driver's state in the
  other theories; here they are a record of their own.  Integers of the packed structs are little-endian,
  and a number is cut to the width of its field.
\<close>

section \<open>Counters\<close>

record hx_diag =
  diag_frame_seq :: int
  diag_common_diff :: int
  diag_frame_max :: int
  diag_has_signal :: int
  diag_zones :: int
  diag_peaks :: int
  diag_contacts_pre_filter :: int
  diag_contacts_post_filter :: int
  diag_active_tracks :: int
  diag_reported_tracks :: int
  diag_small_peak_continued :: int
  diag_weak_peak_continued :: int
  diag_small_peak_rejected :: int
  diag_split_peak_deferred :: int
  diag_cross_zone_split_deferred :: int
  diag_peak_id_handoffs :: int
  diag_handoff_residual_deferred :: int
  diag_fast_edge_starts :: int
  baseline_generation :: int
  full_reset_count :: int
  live_clear_count :: int
  wake_qualification_count :: int
  wake_candidate_reject_count :: int
  wake_safe_fallback_count :: int
  wake_baseline_commit_count :: int
  wake_safe_divergence_count :: int
  baseline_safe_commit_count :: int
  noise_frame_hold_count :: int

record ts_diag =
  reset_generation :: int
  cold_init_count :: int
  warm_resume_count :: int
  warm_resume_fallback_count :: int
  resume_stability_failures :: int
  afe_calibration_count :: int
  afe_calibration_failures :: int

definition decimal :: "int \<Rightarrow> string" where
  "decimal v = (if v < 0 then ''-'' @ digits (nat (- v)) else digits (nat v))"

definition diagnostics_fields :: "hx_config \<Rightarrow> hx_diag \<Rightarrow> ts_diag \<Rightarrow> (string \<times> int) list" where
  "diagnostics_fields cfg a t =
     [(''frame'', diag_frame_seq a), (''common'', diag_common_diff a), (''max'', diag_frame_max a), (''signal'', diag_has_signal a),
      (''zones'', diag_zones a), (''peaks'', diag_peaks a), (''contacts_pre'', diag_contacts_pre_filter a),
      (''contacts_post'', diag_contacts_post_filter a), (''active'', diag_active_tracks a), (''reported'', diag_reported_tracks a),
      (''baseline_generation'', baseline_generation a), (''full_resets'', full_reset_count a), (''live_clears'', live_clear_count a),
      (''cold_inits'', cold_init_count t), (''warm_resumes'', warm_resume_count t), (''warm_fallbacks'', warm_resume_fallback_count t),
      (''resume_stability_failures'', resume_stability_failures t), (''afe_calibrations'', afe_calibration_count t),
      (''afe_calibration_failures'', afe_calibration_failures t),
      (''full_resume'', if full_resume_on_panel_enable cfg then 1 else 0),
      (''wake_qualifications'', wake_qualification_count a), (''wake_candidate_rejects'', wake_candidate_reject_count a),
      (''wake_safe_fallbacks'', wake_safe_fallback_count a), (''wake_baseline_commits'', wake_baseline_commit_count a),
      (''wake_safe_divergences'', wake_safe_divergence_count a), (''safe_baseline_commits'', baseline_safe_commit_count a),
      (''noise_frame_holds'', noise_frame_hold_count a), (''small_peak_continued'', diag_small_peak_continued a),
      (''weak_peak_continued'', diag_weak_peak_continued a), (''small_peak_rejected'', diag_small_peak_rejected a),
      (''split_peak_deferred'', diag_split_peak_deferred a), (''cross_zone_split_deferred'', diag_cross_zone_split_deferred a),
      (''peak_id_handoffs'', diag_peak_id_handoffs a), (''handoff_residual_deferred'', diag_handoff_residual_deferred a),
      (''fast_edge_starts'', diag_fast_edge_starts a)]"

text \<open>The fields, separated by blanks and ended by a newline.\<close>

fun fields_text :: "(string \<times> int) list \<Rightarrow> string" where
  "fields_text [] = []"
| "fields_text [(n, v)] = n @ ''='' @ decimal v @ [CHR 0x0A]"
| "fields_text ((n, v) # fs) = n @ ''='' @ decimal v @ '' '' @ fields_text fs"

definition diagnostics_show :: "hx_config \<Rightarrow> hx_diag \<Rightarrow> ts_diag \<Rightarrow> string" where
  "diagnostics_show cfg a t = fields_text (diagnostics_fields cfg a t)"

section \<open>The last event stack\<close>

definition hex_digit :: "nat \<Rightarrow> char" where
  "hex_digit d = char_of (if d < 10 then 48 + d else 87 + d)"

definition hex_byte :: "byte \<Rightarrow> string" where
  "hex_byte b = [hex_digit (unat b div 16), hex_digit (unat b mod 16)]"

definition PAGE_SIZE :: nat where "PAGE_SIZE = 4096"

text \<open>The bytes from index \<open>i\<close> on, behind what has been written.\<close>

fun hex_loop :: "nat \<Rightarrow> byte list \<Rightarrow> string \<Rightarrow> string" where
  "hex_loop i [] out = out"
| "hex_loop i (b # bs) out =
     (if length out < PAGE_SIZE - 3
      then hex_loop (i + 1) bs (out @ hex_byte b @ (if (i + 1) mod 32 \<noteq> 0 then [] else [CHR 0x0A])) else out)"

definition event_stack_hex_show :: "himax_ts \<Rightarrow> string" where
  "event_stack_hex_show ts =
     (let out = hex_loop 0 (event_buf ts) [] in
      if out \<noteq> [] \<and> last out \<noteq> CHR 0x0A \<and> length out < PAGE_SIZE - 1 then out @ [CHR 0x0A] else out)"

definition event_stack_read :: "himax_ts \<Rightarrow> int \<Rightarrow> nat \<Rightarrow> byte list" where
  "event_stack_read ts offset cnt =
     (if offset < 0 \<or> offset \<ge> int (length (event_buf ts)) then []
      else take (min cnt (length (event_buf ts) - nat offset)) (drop (nat offset) (event_buf ts)))"

section \<open>Trace records\<close>

abbreviation HIMAX_TRACE_CAPACITY :: nat where "HIMAX_TRACE_CAPACITY \<equiv> 512"

definition le_bytes :: "nat \<Rightarrow> int \<Rightarrow> byte list" where
  "le_bytes n v = map (\<lambda>i. word_of_int (v div 256 ^ i)) [0..<n]"

record himax_trace_peak =
  tp_row :: int
  tp_col :: int
  tp_signal :: int
  tp_zone_area :: int
  tp_zone_index :: int
  tp_flags :: int
  tp_id :: int
  tp_age :: int

record himax_trace_track =
  tt_flags :: int
  tt_age :: int
  tt_missed :: int
  tt_debounce :: int
  tt_source_peak_id :: int
  tt_source_peak_age :: int
  tt_words :: "int list"

record himax_trace_record =
  boottime_ns :: int
  rec_irq_sequence :: int
  rec_reset_generation :: int
  rec_flags :: int
  read_error :: int
  algo_frame_sequence :: int
  rec_common_diff :: int
  rec_frame_max :: int
  rec_counts :: "int list"
  rec_peak :: "himax_trace_peak list"
  rec_track :: "himax_trace_track list"
  processed_frame :: "int list"
  rec_event_stack :: "byte list"

definition peak_bytes :: "himax_trace_peak \<Rightarrow> byte list" where
  "peak_bytes p = le_bytes 1 (tp_row p) @ le_bytes 1 (tp_col p) @ le_bytes 2 (tp_signal p) @ le_bytes 2 (tp_zone_area p)
     @ le_bytes 1 (tp_zone_index p) @ le_bytes 1 (tp_flags p) @ le_bytes 1 (tp_id p) @ le_bytes 1 (tp_age p)"

definition track_bytes :: "himax_trace_track \<Rightarrow> byte list" where
  "track_bytes t = concat (map (le_bytes 1) [tt_flags t, tt_age t, tt_missed t, tt_debounce t, tt_source_peak_id t, tt_source_peak_age t])
     @ concat (map (le_bytes 4) (tt_words t))"

text \<open>The packed record.\<close>

definition record_bytes :: "himax_trace_record \<Rightarrow> byte list" where
  "record_bytes r = le_bytes 8 (boottime_ns r) @ le_bytes 4 (rec_irq_sequence r) @ le_bytes 4 (rec_reset_generation r)
     @ le_bytes 4 (rec_flags r) @ le_bytes 4 (read_error r) @ le_bytes 4 (algo_frame_sequence r) @ le_bytes 4 (rec_common_diff r)
     @ le_bytes 2 (rec_frame_max r) @ concat (map (le_bytes 1) (rec_counts r))
     @ concat (map peak_bytes (rec_peak r)) @ concat (map track_bytes (rec_track r))
     @ concat (map (le_bytes 2) (processed_frame r)) @ rec_event_stack r"

definition TRACE_RECORD_SIZE :: nat where
  "TRACE_RECORD_SIZE = 8 + 6 * 4 + 2 + 8 + HX_MAX_PEAKS * 10 + 10 * (6 + 9 * 4) + HX_PIXELS * 2 + HIMAX_FULL_EVENT_STACK_SIZE"

definition trace_flags :: "int \<Rightarrow> bool \<Rightarrow> hx_frame_status \<Rightarrow> bool \<Rightarrow> int" where
  "trace_flags err master_valid status noise_hold =
     (if err = 0 then 1 else 0) + (if master_valid then 2 else 0) + (if master_valid \<and> retry status then 4 else 0)
     + (if master_valid \<and> has_finger status then 8 else 0) + (if noise_hold then 16 else 0)"

definition trace_peak :: "hx_peak list \<Rightarrow> nat \<Rightarrow> himax_trace_peak" where
  "trace_peak pks i =
     (if i < length pks then
        let p = pks ! i in
        \<lparr>tp_row = pk_r p, tp_col = pk_c p, tp_signal = pk_z p, tp_zone_area = pk_zone_area p, tp_zone_index = int (pk_zone_index p),
         tp_flags = (if pk_on_edge p then 1 else 0), tp_id = pk_id p, tp_age = pk_age p\<rparr>
      else \<lparr>tp_row = 0, tp_col = 0, tp_signal = 0, tp_zone_area = 0, tp_zone_index = 0, tp_flags = 0, tp_id = 0, tp_age = 0\<rparr>)"

definition trace_track :: "hx_track \<Rightarrow> himax_trace_track" where
  "trace_track t = \<lparr>tt_flags = (if trk_active t then 1 else 0) + (if trk_reported t then 2 else 0), tt_age = trk_age t,
     tt_missed = trk_missed t, tt_debounce = trk_debounce t, tt_source_peak_id = trk_source_peak_id t,
     tt_source_peak_age = trk_source_peak_age t,
     tt_words = [trk_x t, trk_y t, trk_vx t, trk_vy t, trk_signal_sum t, trk_filtered_x_q8 t, trk_filtered_y_q8 t,
       trk_deriv_x_q8 t, trk_deriv_y_q8 t]\<rparr>"

text \<open>What an interrupt hands to the trace.\<close>

record trace_event =
  ev_time :: int
  ev_ts :: himax_ts
  ev_diag :: hx_diag
  ev_generation :: int
  ev_error :: int
  ev_master_valid :: bool
  ev_status :: hx_frame_status
  ev_noise_hold :: bool

text \<open>The record that is written, given its sequence number; the arrays have their full length.\<close>

definition trace_record :: "int \<Rightarrow> trace_event \<Rightarrow> himax_trace_record" where
  "trace_record sequence e =
     (let algo = ts_algo (ev_ts e); d = ev_diag e in
      \<lparr>boottime_ns = ev_time e, rec_irq_sequence = sequence, rec_reset_generation = ev_generation e,
       rec_flags = trace_flags (ev_error e) (ev_master_valid e) (ev_status e) (ev_noise_hold e), read_error = ev_error e,
       algo_frame_sequence = diag_frame_seq d, rec_common_diff = diag_common_diff d, rec_frame_max = diag_frame_max d,
       rec_counts = [diag_has_signal d, diag_zones d, diag_peaks d, diag_contacts_pre_filter d, diag_contacts_post_filter d,
         diag_active_tracks d, diag_reported_tracks d, 0],
       rec_peak = map (trace_peak (peaks algo)) [0..<HX_MAX_PEAKS],
       rec_track = map (\<lambda>i. trace_track (tracks algo ! i)) [0..<10],
       processed_frame = (if ev_master_valid e \<and> \<not> retry (ev_status e) then map (\<lambda>i. frame algo ! i) [0..<HX_PIXELS]
         else replicate HX_PIXELS 0),
       rec_event_stack = (if ev_error e = 0 then map (\<lambda>i. event_buf (ev_ts e) ! i) [0..<HIMAX_FULL_EVENT_STACK_SIZE]
         else replicate HIMAX_FULL_EVENT_STACK_SIZE 0)\<rparr>)"

section \<open>The ring and its snapshots\<close>

record himax_trace =
  trace_ring :: "himax_trace_record list"
  trace_snapshot :: "byte list"
  trace_snapshot_len :: nat
  trace_write_index :: nat
  trace_count :: nat
  trace_irq_sequence :: int

definition himax_trace_record_irq :: "trace_event \<Rightarrow> himax_trace \<Rightarrow> himax_trace" where
  "himax_trace_record_irq e t =
     (let sequence = u32 (trace_irq_sequence t + 1) in
      t\<lparr>trace_irq_sequence := sequence, trace_ring := (trace_ring t)[trace_write_index t := trace_record sequence e],
        trace_write_index := (trace_write_index t + 1) mod HIMAX_TRACE_CAPACITY,
        trace_count := (if trace_count t < HIMAX_TRACE_CAPACITY then trace_count t + 1 else trace_count t)\<rparr>)"

definition trace_header :: "int \<Rightarrow> int \<Rightarrow> nat \<Rightarrow> byte list" where
  "trace_header now generation cnt = le_bytes 4 0x52545848 @ le_bytes 2 3 @ le_bytes 2 40 @ le_bytes 4 (int TRACE_RECORD_SIZE)
     @ le_bytes 4 (int HIMAX_TRACE_CAPACITY) @ le_bytes 4 (int cnt) @ le_bytes 4 0 @ le_bytes 8 now @ le_bytes 8 generation"

text \<open>The snapshot overwrites the beginning of its buffer.\<close>

definition himax_trace_build_snapshot :: "int \<Rightarrow> int \<Rightarrow> himax_trace \<Rightarrow> himax_trace" where
  "himax_trace_build_snapshot now generation t =
     (let cnt = trace_count t;
          start = (trace_write_index t + HIMAX_TRACE_CAPACITY - cnt) mod HIMAX_TRACE_CAPACITY;
          bytes = trace_header now generation cnt
            @ concat (map (\<lambda>i. record_bytes (trace_ring t ! ((start + i) mod HIMAX_TRACE_CAPACITY))) [0..<cnt]) in
      t\<lparr>trace_snapshot := bytes @ drop (length bytes) (trace_snapshot t),
        trace_snapshot_len := 40 + cnt * TRACE_RECORD_SIZE\<rparr>)"

definition event_trace_read :: "int \<Rightarrow> int \<Rightarrow> int \<Rightarrow> nat \<Rightarrow> himax_trace \<Rightarrow> himax_trace \<times> byte list" where
  "event_trace_read now generation offset cnt t =
     (let t = (if offset = 0 then himax_trace_build_snapshot now generation t else t) in
      if offset < 0 \<or> offset \<ge> int (trace_snapshot_len t) then (t, [])
      else (t, take (min cnt (trace_snapshot_len t - nat offset)) (drop (nat offset) (trace_snapshot t))))"

text \<open>The ring and the buffer as they are allocated, zeroed.\<close>

definition zero_record :: himax_trace_record where
  "zero_record = \<lparr>boottime_ns = 0, rec_irq_sequence = 0, rec_reset_generation = 0, rec_flags = 0, read_error = 0,
     algo_frame_sequence = 0, rec_common_diff = 0, rec_frame_max = 0, rec_counts = replicate 8 0,
     rec_peak = replicate HX_MAX_PEAKS (trace_peak [] 0), rec_track = replicate 10 (trace_track zero_track),
     processed_frame = replicate HX_PIXELS 0, rec_event_stack = replicate HIMAX_FULL_EVENT_STACK_SIZE 0\<rparr>"

definition fresh_trace :: himax_trace where
  "fresh_trace = \<lparr>trace_ring = replicate HIMAX_TRACE_CAPACITY zero_record, trace_snapshot = replicate (40 + HIMAX_TRACE_CAPACITY * TRACE_RECORD_SIZE) 0, trace_snapshot_len = 0,
     trace_write_index = 0, trace_count = 0, trace_irq_sequence = 0\<rparr>"

section \<open>The ring holds the latest records\<close>

text \<open>The abstract trace is the list of all records so far.\<close>

definition trace_history :: "trace_event list \<Rightarrow> himax_trace_record list" where
  "trace_history evs = map (\<lambda>i. trace_record (u32 (int (i + 1))) (evs ! i)) [0..<length evs]"

definition implements :: "himax_trace \<Rightarrow> himax_trace_record list \<Rightarrow> bool" where
  "implements t hist \<longleftrightarrow> length (trace_ring t) = HIMAX_TRACE_CAPACITY \<and> trace_count t = min HIMAX_TRACE_CAPACITY (length hist)
     \<and> trace_write_index t = length hist mod HIMAX_TRACE_CAPACITY
     \<and> (\<forall>i<length hist. length hist \<le> i + HIMAX_TRACE_CAPACITY \<longrightarrow> trace_ring t ! (i mod HIMAX_TRACE_CAPACITY) = hist ! i)"

lemma mod_neighbours:
  assumes "i < n" "n < i + (m :: nat)"
  shows "i mod m \<noteq> n mod m"
proof
  assume "i mod m = n mod m"
  then have "m dvd n - i" using assms(1) by (metis less_imp_le_nat mod_eq_dvd_iff_nat)
  then show False using assms by (auto dest!: dvd_imp_le)
qed

text \<open>One step of the ring is one step of the list.\<close>

lemma implements_record:
  assumes "implements t hist" "r = trace_record (u32 (trace_irq_sequence t + 1)) e"
  shows "implements (himax_trace_record_irq e t) (hist @ [r])"
proof -
  define n where "n = length hist"
  have i: "length (trace_ring t) = 512" "trace_count t = min 512 n" "trace_write_index t = n mod 512"
    "\<And>i. i < n \<Longrightarrow> n \<le> i + 512 \<Longrightarrow> trace_ring t ! (i mod 512) = hist ! i"
    using assms(1) by (simp_all add: implements_def n_def)
  have "(trace_ring t)[n mod 512 := r] ! (i mod 512) = (hist @ [r]) ! i" if "i < Suc n" "Suc n \<le> i + 512" for i
  proof (cases "i = n")
    case True
    then show ?thesis using i(1) by (simp add: n_def)
  next
    case False
    then have "i < n" "n < i + 512" using that by simp_all
    then show ?thesis using i(4) [of i] mod_neighbours [of i n 512] by (simp add: n_def nth_append)
  qed
  then show ?thesis
    using i(1-3) assms(2) by (simp add: implements_def himax_trace_record_irq_def Let_def mod_Suc_eq n_def)
qed

lemma trace_history_snoc: "trace_history (evs @ [e]) = trace_history evs @ [trace_record (u32 (int (length evs + 1))) e]"
  by (simp add: trace_history_def nth_append)

lemma trace_run:
  "implements (fold himax_trace_record_irq evs fresh_trace) (trace_history evs)
    \<and> trace_irq_sequence (fold himax_trace_record_irq evs fresh_trace) = u32 (int (length evs))"
proof (induction evs rule: rev_induct)
  case Nil
  then show ?case by (simp add: implements_def fresh_trace_def trace_history_def u32_def)
next
  case (snoc e evs)
  define t where "t = fold himax_trace_record_irq evs fresh_trace"
  have s: "u32 (trace_irq_sequence t + 1) = u32 (int (length evs + 1))"
    using snoc by (simp add: t_def [symmetric] u32_def take_bit_eq_mod mod_simps add.commute)
  have "implements (himax_trace_record_irq e t) (trace_history evs @ [trace_record (u32 (trace_irq_sequence t + 1)) e])"
    using implements_record [OF _ refl, of t "trace_history evs" e] snoc by (simp only: t_def)
  moreover have "trace_irq_sequence (himax_trace_record_irq e t) = u32 (trace_irq_sequence t + 1)"
    by (simp add: himax_trace_record_irq_def Let_def)
  moreover have "fold himax_trace_record_irq (evs @ [e]) fresh_trace = himax_trace_record_irq e t" by (simp add: t_def)
  ultimately show ?case using s by (simp add: trace_history_snoc)
qed

text \<open>What a snapshot takes out of the ring.\<close>

lemma snapshot_records:
  assumes "implements t hist"
  shows "map (\<lambda>i. trace_ring t ! (((trace_write_index t + 512 - trace_count t) mod 512 + i) mod 512)) [0..<trace_count t]
    = drop (length hist - 512) hist"
proof (rule nth_equalityI)
  define n k where "n = length hist" and "k = trace_count t"
  have i: "k = min 512 n" "trace_write_index t = n mod 512"
    "\<And>i. i < n \<Longrightarrow> n \<le> i + 512 \<Longrightarrow> trace_ring t ! (i mod 512) = hist ! i"
    using assms by (simp_all add: implements_def n_def k_def)
  show "length (map (\<lambda>i. trace_ring t ! (((trace_write_index t + 512 - trace_count t) mod 512 + i) mod 512)) [0..<trace_count t])
      = length (drop (length hist - 512) hist)" using i(1) by (simp add: n_def k_def)
  fix j assume "j < length (map (\<lambda>i. trace_ring t ! (((trace_write_index t + 512 - trace_count t) mod 512 + i) mod 512)) [0..<trace_count t])"
  then have j: "j < k" by (simp add: k_def)
  have kn: "k \<le> n" "k \<le> 512" "n - k = n - 512" using i(1) by simp_all
  have "(n mod 512 + 512 - k) mod 512 = (n mod 512 + (512 - k)) mod 512" using kn(2) by simp
  also have "\<dots> = (n + (512 - k)) mod 512" by (simp add: mod_simps)
  also have "\<dots> = (n - k + 512) mod 512" using kn(1,2) by simp
  finally have "((trace_write_index t + 512 - k) mod 512 + j) mod 512 = (n - k + j) mod 512"
    by (simp add: i(2) mod_simps)
  then show "map (\<lambda>i. trace_ring t ! (((trace_write_index t + 512 - trace_count t) mod 512 + i) mod 512)) [0..<trace_count t] ! j
      = drop (length hist - 512) hist ! j"
    using i(3) [of "n - k + j"] j kn by (simp add: k_def [symmetric] n_def [symmetric])
qed

section \<open>Reading the trace\<close>

lemma length_le_bytes_n [simp]: "length (le_bytes n v) = n"
  by (simp add: le_bytes_def)

lemma length_concat_map: "(\<And>x. x \<in> set xs \<Longrightarrow> length (f x) = k) \<Longrightarrow> length (concat (map f xs)) = length xs * k"
  by (induction xs) simp_all

lemma length_trace_record [simp]: "length (record_bytes (trace_record s e)) = TRACE_RECORD_SIZE"
proof -
  have p: "length (concat (map peak_bytes ps)) = length ps * 10" for ps
    by (rule length_concat_map) (simp add: peak_bytes_def)
  have one: "length (track_bytes (trace_track x)) = 42" for x by (simp add: track_bytes_def trace_track_def)
  have t: "length (concat (map track_bytes (map (\<lambda>i. trace_track (f i)) js))) = length js * 42" for f js
  proof -
    have "length (track_bytes y) = 42" if "y \<in> set (map (\<lambda>i. trace_track (f i)) js)" for y using that one by auto
    then show ?thesis using length_concat_map [of "map (\<lambda>i. trace_track (f i)) js" track_bytes 42] by (simp only: length_map)
  qed
  have w: "length (concat (map (le_bytes n) xs)) = length xs * n" for n xs by (rule length_concat_map) simp
  show ?thesis by (simp add: record_bytes_def trace_record_def Let_def p t w TRACE_RECORD_SIZE_def del: map_map)
qed

text \<open>What a reader is to see of a history.\<close>

definition trace_image :: "int \<Rightarrow> int \<Rightarrow> himax_trace_record list \<Rightarrow> byte list" where
  "trace_image now generation hist =
     trace_header now generation (min HIMAX_TRACE_CAPACITY (length hist))
       @ concat (map record_bytes (drop (length hist - HIMAX_TRACE_CAPACITY) hist))"

definition shows_image :: "himax_trace \<Rightarrow> byte list \<Rightarrow> bool" where
  "shows_image t img \<longleftrightarrow> trace_snapshot_len t = length img \<and> take (length img) (trace_snapshot t) = img"

lemma build_snapshot_shows:
  assumes "implements t (trace_history evs)"
  shows "shows_image (himax_trace_build_snapshot now generation t) (trace_image now generation (trace_history evs))"
proof -
  define hist where "hist = trace_history evs"
  define img where "img = trace_image now generation hist"
  have n: "trace_count t = min 512 (length hist)" using assms by (simp add: implements_def hist_def)
  have rec: "length (concat (map record_bytes (drop k hist))) = (length hist - k) * TRACE_RECORD_SIZE" for k
  proof -
    have "length (record_bytes x) = TRACE_RECORD_SIZE" if "x \<in> set (drop k hist)" for x
      using in_set_dropD [OF that] by (auto simp: hist_def trace_history_def)
    then show ?thesis using length_concat_map [of "drop k hist" record_bytes TRACE_RECORD_SIZE] by simp
  qed
  have "length img = 40 + trace_count t * TRACE_RECORD_SIZE"
    using rec [of "length hist - 512"] n by (simp add: img_def trace_image_def trace_header_def min_def)
  moreover have "map (\<lambda>i. record_bytes (trace_ring t ! (((trace_write_index t + 512 - trace_count t) mod 512 + i) mod 512))) [0..<trace_count t]
      = map record_bytes (drop (length hist - 512) hist)"
    using arg_cong [where f = "map record_bytes", OF snapshot_records [OF assms]] by (simp add: hist_def comp_def)
  ultimately show ?thesis
    using n by (simp add: shows_image_def himax_trace_build_snapshot_def Let_def img_def [symmetric] hist_def [symmetric])
      (simp add: img_def trace_image_def)
qed

lemma shows_image_record: "shows_image t img \<Longrightarrow> shows_image (fold himax_trace_record_irq evs t) img"
  by (induction evs arbitrary: t) (simp_all add: shows_image_def himax_trace_record_irq_def Let_def)

text \<open>A reader asks for one piece after the other, interrupts being recorded in between.\<close>

fun read_chunks :: "int \<Rightarrow> int \<Rightarrow> nat \<Rightarrow> (nat \<times> trace_event list) list \<Rightarrow> himax_trace \<Rightarrow> byte list" where
  "read_chunks now generation off [] t = []"
| "read_chunks now generation off ((c, evs) # rest) t =
     (let (t, bs) = event_trace_read now generation (int off) c t in
      bs @ read_chunks now generation (off + length bs) rest (fold himax_trace_record_irq evs t))"

lemma read_shown:
  assumes "shows_image t img" "off < length img"
  shows "take (min c (trace_snapshot_len t - off)) (drop off (trace_snapshot t)) = take c (drop off img)"
proof -
  define n where "n = length img"
  have t: "trace_snapshot_len t = n" "take n (trace_snapshot t) = img" using assms(1) by (simp_all add: shows_image_def n_def)
  have "take c (drop off img) = take c (take (n - off) (drop off (trace_snapshot t)))"
    unfolding t(2) [symmetric] by (simp only: drop_take)
  then show ?thesis by (simp add: t(1))
qed

lemma read_chunks_later:
  "shows_image t img \<Longrightarrow> 0 < off \<Longrightarrow> read_chunks now generation off chunks t = take (sum_list (map fst chunks)) (drop off img)"
proof (induction chunks arbitrary: off t)
  case (Cons ch chunks)
  obtain c evs where ch: "ch = (c, evs)" by fastforce
  define bs where "bs = take c (drop off img)"
  have read: "event_trace_read now generation (int off) c t = (t, bs)"
  proof (cases "off < length img")
    case True
    then show ?thesis using read_shown [OF Cons.prems(1) True] Cons.prems
      by (simp add: event_trace_read_def bs_def shows_image_def)
  next
    case False
    then show ?thesis using Cons.prems by (simp add: event_trace_read_def bs_def shows_image_def)
  qed
  have "read_chunks now generation (off + length bs) chunks (fold himax_trace_record_irq evs t)
      = take (sum_list (map fst chunks)) (drop (off + length bs) img)"
    using Cons.IH [OF shows_image_record [OF Cons.prems(1)]] Cons.prems(2) by simp
  moreover have "bs @ take s (drop (off + length bs) img) = take (c + s) (drop off img)" for s
    by (cases "c \<le> length (drop off img)") (simp_all add: bs_def take_add add.commute)
  ultimately show ?case using read by (simp add: ch)
qed simp

text \<open>C35: The trace that a reader gets is exactly the header followed by the latest records, at most 512, oldest
  first, as they were when the reading began, whatever the sizes of the pieces it is read in and however
  many interrupts are recorded and old records overwritten between them.\<close>

theorem trace_read_exact:
  assumes "0 < c"
  shows "read_chunks now generation 0 ((c, evs') # chunks) (fold himax_trace_record_irq evs fresh_trace)
    = take (c + sum_list (map fst chunks)) (trace_image now generation (trace_history evs))"
proof -
  define t where "t = himax_trace_build_snapshot now generation (fold himax_trace_record_irq evs fresh_trace)"
  define img where "img = trace_image now generation (trace_history evs)"
  have s: "shows_image t img" using build_snapshot_shows trace_run by (simp add: t_def img_def)
  have pos: "0 < length img" by (simp add: img_def trace_image_def trace_header_def)
  have "event_trace_read now generation 0 c (fold himax_trace_record_irq evs fresh_trace) = (t, take c img)"
    using read_shown [OF s pos, of c] s pos by (simp add: event_trace_read_def t_def [symmetric] shows_image_def)
  moreover have "0 < length (take c img)" using assms pos by simp
  moreover have "take c img @ take k (drop (length (take c img)) img) = take (c + k) img" for k
    by (cases "c \<le> length img") (simp_all add: take_add)
  ultimately show ?thesis
    using read_chunks_later [OF shows_image_record [OF s], of "length (take c img)" now generation chunks evs']
    by (simp add: img_def [symmetric])
qed

theorem trace_read_exact_witness:
  "read_chunks 7 1 0 [(6, []), (2, [])] (fold himax_trace_record_irq [] fresh_trace) = [0x48, 0x58, 0x54, 0x52, 3, 0, 40, 0]"
proof -
  have "take 8 (trace_image 7 1 (trace_history [])) = [0x48, 0x58, 0x54, 0x52, 3, 0, 40, 0]"
    by (simp add: trace_image_def trace_history_def trace_header_def le_bytes_def upt_rec)
  then show ?thesis using trace_read_exact [of 6 7 1 "[]" "[(2, [])]" "[]"] by simp
qed

text \<open>The hexadecimal text fits into a page, and a text cut short still ends with a newline.\<close>

lemma hex_loop_bounded: "length out \<le> PAGE_SIZE - 1 \<Longrightarrow> length (hex_loop i bs out) \<le> PAGE_SIZE - 1"
proof (induction i bs out rule: hex_loop.induct)
  case (2 i b bs out)
  show ?case
  proof (cases "length out < PAGE_SIZE - 3")
    case True
    define out' where "out' = out @ hex_byte b @ (if (i + 1) mod 32 \<noteq> 0 then [] else [CHR 0x0A])"
    have "length out' \<le> PAGE_SIZE - 1" using True by (simp add: out'_def hex_byte_def PAGE_SIZE_def)
    then show ?thesis using 2 True by (simp add: out'_def)
  qed (use 2 in simp)
qed simp

lemma event_stack_hex_bounded: "length (event_stack_hex_show ts) < PAGE_SIZE"
  using hex_loop_bounded [of "[]" 0 "event_buf ts"] by (auto simp: event_stack_hex_show_def Let_def PAGE_SIZE_def)

end
