(* ===== verification/Spec2Isabelle.thy ===== *)
theory Spec2Isabelle
  imports Hx_Slots Hx_Process Ec_Battery Ec_Ucsi Panel_Himax Dsi_Power Ts_Life Ts_Probe Ts_Trace
begin

text \<open>
  Verification of the C drivers of the Huawei MateBook E Go image (\<open>src/drivers/\<close>): the touch algorithm
  and the touchscreen driver around it, the embedded controller with its battery and UCSI drivers, the
  panel driver and the DSI host it is connected to.

  \<^bold>\<open>The program and its parts.\<close>  The Himax HX83121A drives the panel and senses touch.  The touchscreen
  driver reads a raw matrix of 40 by 60 cells over SPI on every interrupt, checks the frame and hands it to
  the algorithm, which keeps a baseline, detects peaks, turns them into positions and follows them in ten
  slots; the slots are reported to the input core.  The panel follower callbacks switch the driver with
  the screen; after a screen-on the controller is initialised by a work item and the algorithm first
  qualifies the producer of the frames.  The embedded controller (EC) is a second device, behind I2C: its core
  frames the requests, handles the lid and passes all other events to the battery and the UCSI driver,
  which use its accessors.  The panel is driven over DSI: the host controller driver sends the panel driver's
  commands and makes the video timing from the mode that the panel driver offers.

  \<^bold>\<open>Conventions.\<close>  C integers are HOL integers in the range of their type; a store that can wrap goes
  through the conversions \<open>u8\<close>, \<open>u16\<close>, \<open>s32\<close>, and so on of \<open>Gaokun_Prelude\<close>.  Bytes on a bus are \<open>8 word\<close>.  Structs
  are records, enumerations are datatypes where the code keeps to the enumerators and numbers where it
  stores raw bits.  Operations have the name of their C function.  A device is a function on a state \<open>'w\<close> of
  the world, given as a parameter; so are kernel services and the constants of kernel headers (the records
  \<open>hx_bus\<close>, \<open>psy_env\<close>, \<open>ucsi_env\<close>, \<open>typec_hdr\<close>, \<open>panel_env\<close>, \<open>dsi_env\<close>, \<open>dsi_lib\<close> and the \<open>_calls\<close> records).  What a theorem relies on in a
  device is a named predicate (\<open>keeps_settings\<close>, \<open>reads_registers\<close>, \<open>backlight_works\<close>, \<open>lid_interrupt\<close>,
  \<open>reading_device\<close>), and its
  witness runs a simulated device.

  \<^bold>\<open>Theories.\<close>
  \<^item> \<open>Gaokun_Prelude\<close>, \<open>Driver_Prelude\<close>, \<open>Step_Systems\<close>: integer conversions, list and sorting lemmas, the locale
    of strict weak orders; fallible device operations and error codes; transition systems with an
    invariant (\<open>invariant_system\<close>), interpreted for every driver.
  \<^item> Touch algorithm (\<open>hx-algo*.c\<close>, \<open>hx-algo*.h\<close>): \<open>Hx_Types\<close> and \<open>Hx_State\<close> (records, tunables, defaults, resets);
    \<open>Hx_Wake\<close> (qualification after a screen-on); \<open>Hx_Preprocess\<close> (baseline, common mode, filters); \<open>Hx_Flood\<close>
    (the two flood fills as one locale), \<open>Hx_Zones\<close>, \<open>Hx_Palm\<close>, \<open>Hx_Peaks\<close> (detection); \<open>Hx_Resolve\<close>
    (positions); \<open>Hx_Motion\<close>, \<open>Hx_Assign\<close>, \<open>Hx_Track\<close>, \<open>Hx_Slots\<close> (tracking); \<open>Hx_Process\<close> (a frame through all of
    it); \<open>Hx_Live\<close> (the invariant over the life of the device).
  \<^item> Touchscreen driver: \<open>Hx_FrameStatus\<close> (\<open>hx-frame-status.h\<close>), \<open>Ts_Hw\<close> (\<open>himax-spi-hw.c\<close>), \<open>Ts_Core\<close> and \<open>Ts_Probe\<close>
    (\<open>himax-spi-core.c\<close>, \<open>himax-spi.h\<close>), \<open>Ts_Sysfs\<close> (\<open>himax-spi-sysfs.c\<close>), \<open>Ts_Trace\<close> (its diagnostics: counters, hex dump,
    trace ring); \<open>Ts_Driver\<close>, \<open>Ts_Wake\<close> and \<open>Ts_Life\<close> hold
    the steps, the invariant and what follows from it.
  \<^item> Embedded controller: \<open>Ec_Core\<close> (\<open>huawei-gaokun-ec.c\<close>, \<open>huawei-gaokun-ec.h\<close>), \<open>Ec_Battery\<close>
    (\<open>huawei-gaokun-battery.c\<close>), \<open>Ec_Ucsi\<close> (\<open>ucsi_huawei_gaokun.c\<close>).
  \<^item> Panel: \<open>Panel_Himax\<close> (\<open>panel-himax-hx83121a.c\<close>).
  \<^item> DSI host (\<open>dsi_host.c\<close>): \<open>Dsi_State\<close> (state, registers, link clocks), \<open>Dsi_Calc\<close> (rates, timing, compression,
    enabling), \<open>Dsi_Transfer\<close> (commands and answers), \<open>Dsi_Power\<close> (probing, interrupts, power, references).

  \<^bold>\<open>What is shown.\<close>
  \<^item> Algorithm: the Hungarian search terminates and is optimal; the flood fills compute exactly the connected
    components (the twenty strongest are reported) and reachable pixels; every frame keeps the invariant of the whole state and reports at
    most ten touches on the panel; separated fingers keep their slots unless they
    jump, lost fingers are released in bounded time, exactly the ghosts are suppressed, palms and edges are
    treated as promised; a baseline is committed after a
    screen-on only from a stable window.
  \<^item> Touchscreen driver: over all handlers, callbacks and sysfs writes, in any order and with an arbitrary
    bus, interrupts are enabled only for a live panel and an initialised controller, nothing is touched
    on a dark panel, short glitches do not disturb the tracks, every interrupt ends, removal is final.
    All controller operations end within a given number of transfers.  What is read from a
    raw frame is stated byte by byte; tunables round-trip.  A trace read in pieces is exactly the latest records.
  \<^item> EC: register runs, settings and thresholds round-trip on a controller that keeps its settings,
    and invalid thresholds never reach the bus; the lid
    switch refines the lid; strings stay within their buffers whatever the controller sends.
  \<^item> UCSI: a pending follow-up always has its timer armed; a port update is handled with the reported
    values before it is acknowledged, each reported port once; registration ends after at most four attempts; removal leaves nothing to run.
  \<^item> Panel: a preparation that succeeds has sent a whole well-formed sequence; the supplies are balanced.
  \<^item> DSI host: the timing programmed for a compressed mode is the one its pixel clock was computed from for 8 bits
    per component, and longer than that for deeper ones; commands
    are laid out as the hardware wants them and long answers are put together exactly; lane maps are
    inverted; regulators and clocks are referenced exactly while the host is powered.
  \<^item> Some theorems state what the code does where it seems not to be meant: the first closing of the lid
    goes unreported, a dead bus yields stale battery values, a stuck producer passes the wake-up wait,
    removal keeps references to muxes, a failed backlight leaves the panel powered, pin assignment B is
    taken for C, a failed power-on of the DSI host keeps the power domain, a transfer gives clocks back
    that could not be enabled, the pixel clock is too slow for 10 and 12 bits per component.

  \<^bold>\<open>Bounds and fuel.\<close>  Flood fills, the search and retries are structural or well-founded recursions.  Only the
  Hungarian search counts rounds: one more than there are columns, shown to be enough because every
  round that goes on uses a new column.  Retry limits are those of the code: 30 frames of waiting, four
  registrations, the attempts of the register polls.

  \<^bold>\<open>Assumptions of the step systems.\<close>  A handler, work item or callback is one step.  For the touch driver this
  is the effect of \<open>op_lock\<close>, except that a recovery in the interrupt thread that finishes between the
  quiescing of the interrupt and the taking of the lock is not interleaved.  For the UCSI driver the
  sections between taking and releasing the lock of the core are not interleaved with each other; whether
  the lock is free is a parameter.  Delays have no counterpart, except in the sequences of the panel.

  \<^bold>\<open>Not modelled.\<close>  Where the diagnostics build of the touch driver counts (its counters are given to \<open>Ts_Trace\<close>);
  the debug dump and the plain accessors of the DSI host, whose register layout (headers that are not in the
  repository) is a parameter; module and device tables, logging; shell and Python scripts, patches, device trees, firmware.
\<close>

end
